(* ===== verification/Prelude.thy ===== *)
theory Prelude
  imports "HOL-Library.Word" "HOL-Library.Sublist"
begin

text \<open>
  What the components share: the machine integer types of the Rust sources,
  the little-endian byte codec that \<^verbatim>\<open>bytemuck::bytes_of\<close> and
  \<^verbatim>\<open>pod_read_unaligned\<close> compute for \<^verbatim>\<open>repr(C)\<close> structures of integers, positioned
  reads and writes on a file (\<^verbatim>\<open>std::os::unix::fs::FileExt\<close>) with the failures
  the operating system may report, arithmetic on 64-bit words without
  overflow, and the interface of an invariant of a transition system.
\<close>

type_synonym byte = "8 word"
type_synonym u16 = "16 word"
type_synonym u32 = "32 word"
type_synonym u64 = "64 word"
type_synonym u128 = "128 word"
type_synonym file_data = "byte list"

named_theorems codec_simps \<open>lengths and inverses of the byte codecs\<close>
named_theorems file_simps \<open>positioned reads after positioned writes\<close>

section \<open>Little-endian codec\<close>

primrec le_enc :: "nat \<Rightarrow> nat \<Rightarrow> byte list" where
  "le_enc 0 x = []"
| "le_enc (Suc n) x = word_of_nat (x mod 256) # le_enc n (x div 256)"

primrec le_dec :: "byte list \<Rightarrow> nat" where
  "le_dec [] = 0"
| "le_dec (b # bs) = unat b + 256 * le_dec bs"

definition word_bytes :: "nat \<Rightarrow> 'a::len word \<Rightarrow> byte list" where
  "word_bytes n w = le_enc n (unat w)"

definition bytes_word :: "byte list \<Rightarrow> 'a::len word" where
  "bytes_word bs = word_of_nat (le_dec bs)"

lemma length_le_enc [simp, codec_simps]: "length (le_enc n x) = n"
  by (induction n arbitrary: x) auto

lemma unat_byte_of_nat [simp]: "unat (word_of_nat (x mod 256) :: byte) = x mod 256"
  by (simp add: unat_of_nat)

lemma le_dec_le_enc: "le_dec (le_enc n x) = x mod 256 ^ n"
proof (induction n arbitrary: x)
  case (Suc n)
  have "le_dec (le_enc (Suc n) x) = x mod 256 + 256 * (x div 256 mod 256 ^ n)"
    by (simp add: Suc)
  also have "\<dots> = x mod (256 * 256 ^ n)"
    by (simp add: mod_mult2_eq)
  finally show ?case by simp
qed simp

lemma length_word_bytes [simp, codec_simps]: "length (word_bytes n w) = n"
  by (simp add: word_bytes_def)

lemma bytes_word_word_bytes:
  assumes "LENGTH('a::len) \<le> 8 * n"
  shows "bytes_word (word_bytes n (w :: 'a word)) = w"
proof -
  have "unat w < 2 ^ LENGTH('a)" by simp
  also have "(2::nat) ^ LENGTH('a) \<le> 2 ^ (8 * n)"
    using assms by (simp add: power_increasing)
  also have "(2::nat) ^ (8 * n) = 256 ^ n" by (simp add: power_mult)
  finally have "unat w mod 256 ^ n = unat w" by simp
  then show ?thesis by (simp add: bytes_word_def word_bytes_def le_dec_le_enc)
qed

lemma unat_byte_less: "unat (b :: byte) < 256"
  using unsigned_less [of b] by simp

lemma le_dec_less: "le_dec bs < 256 ^ length bs"
proof (induction bs)
  case (Cons b bs)
  then show ?case using unat_byte_less [of b] by simp
qed simp

lemma le_enc_le_dec: "le_enc (length bs) (le_dec bs) = bs"
proof (induction bs)
  case (Cons b bs)
  then show ?case using unat_byte_less [of b] by simp
qed simp

lemma word_bytes_bytes_word:
  assumes "length bs = n" "LENGTH('a::len) = 8 * n"
  shows "word_bytes n (bytes_word bs :: 'a word) = bs"
proof -
  have "le_dec bs < 2 ^ LENGTH('a)"
    using le_dec_less [of bs] assms by (simp add: power_mult)
  then have "unat (bytes_word bs :: 'a word) = le_dec bs"
    by (simp add: bytes_word_def unat_of_nat)
  then show ?thesis using le_enc_le_dec [of bs] assms by (simp add: word_bytes_def)
qed

lemma bytes_word_u16 [codec_simps]: "bytes_word (word_bytes 2 w) = (w :: u16)"
  by (rule bytes_word_word_bytes) simp

lemma bytes_word_u32 [codec_simps]: "bytes_word (word_bytes 4 w) = (w :: u32)"
  by (rule bytes_word_word_bytes) simp

lemma bytes_word_u64 [codec_simps]: "bytes_word (word_bytes 8 w) = (w :: u64)"
  by (rule bytes_word_word_bytes) simp

lemma bytes_word_u128 [codec_simps]: "bytes_word (word_bytes 16 w) = (w :: u128)"
  by (rule bytes_word_word_bytes) simp

text \<open>The slice of \<^term>\<open>n\<close> bytes at offset \<^term>\<open>off\<close>.\<close>

definition byte_slice :: "nat \<Rightarrow> nat \<Rightarrow> 'a list \<Rightarrow> 'a list" where
  "byte_slice off n xs = take n (drop off xs)"

lemma byte_slice_append_right [codec_simps]:
  "length xs \<le> off \<Longrightarrow> byte_slice off n (xs @ ys) = byte_slice (off - length xs) n ys"
  by (simp add: byte_slice_def)

lemma byte_slice_append_left [codec_simps]:
  "off + n \<le> length xs \<Longrightarrow> byte_slice off n (xs @ ys) = byte_slice off n xs"
  by (simp add: byte_slice_def)

lemma byte_slice_all [codec_simps]: "n = length xs \<Longrightarrow> byte_slice 0 n xs = xs"
  by (simp add: byte_slice_def)

lemma length_byte_slice: "off + n \<le> length xs \<Longrightarrow> length (byte_slice off n xs) = n"
  by (simp add: byte_slice_def)

lemma byte_slice_take: "off + n \<le> m \<Longrightarrow> byte_slice off n (take m xs) = byte_slice off n xs"
  by (simp add: byte_slice_def drop_take min_def)

section \<open>Positioned file access\<close>

text \<open>
  \<^verbatim>\<open>write_all_at\<close> extends the file with zeros when the offset is past its end.
  The outcome of a write is an argument: \<^term>\<open>IoErr k\<close> is a write that failed
  after \<^term>\<open>k\<close> bytes had reached the file.
\<close>

datatype io = IoOk | IoErr nat

definition put_at :: "nat \<Rightarrow> byte list \<Rightarrow> file_data \<Rightarrow> file_data" where
  "put_at off bs f =
     take off (f @ replicate (off - length f) 0) @ bs @ drop (off + length bs) f"

definition write_all_at :: "io \<Rightarrow> nat \<Rightarrow> byte list \<Rightarrow> file_data \<Rightarrow> bool \<times> file_data" where
  "write_all_at io off bs f =
     (case io of
        IoOk \<Rightarrow> (True, put_at off bs f)
      | IoErr k \<Rightarrow> (False, if min k (length bs) = 0 then f else put_at off (take k bs) f))"

definition read_exact_at :: "nat \<Rightarrow> nat \<Rightarrow> file_data \<Rightarrow> byte list option" where
  "read_exact_at off n f = (if off + n \<le> length f then Some (byte_slice off n f) else None)"

lemma length_put_at [simp]: "length (put_at off bs f) = max (length f) (off + length bs)"
  by (auto simp: put_at_def)

lemma byte_slice_put_at_same [file_simps]:
  "byte_slice off (length bs) (put_at off bs f) = bs"
  by (simp add: byte_slice_def put_at_def)

lemma byte_slice_put_at_before:
  assumes "off' + n \<le> off" "off' + n \<le> length f"
  shows "byte_slice off' n (put_at off bs f) = byte_slice off' n f"
proof -
  have "byte_slice off' n (put_at off bs f)
      = byte_slice off' n (take off (f @ replicate (off - length f) 0))"
    unfolding put_at_def by (rule byte_slice_append_left) (use assms in simp)
  also have "\<dots> = byte_slice off' n (f @ replicate (off - length f) 0)"
    by (rule byte_slice_take) (use assms in simp)
  also have "\<dots> = byte_slice off' n f"
    by (rule byte_slice_append_left) (use assms in simp)
  finally show ?thesis .
qed

lemma byte_slice_put_at_after:
  assumes "off + length bs \<le> off'" "off \<le> length f"
  shows "byte_slice off' n (put_at off bs f) = byte_slice off' n f"
  using assms by (simp add: byte_slice_def put_at_def)

lemma read_put_at_same [file_simps]:
  "n = length bs \<Longrightarrow> read_exact_at off n (put_at off bs f) = Some bs"
  by (simp add: read_exact_at_def byte_slice_put_at_same)

lemma read_put_at_before:
  "off' + n \<le> off \<Longrightarrow> off' + n \<le> length f \<Longrightarrow>
   read_exact_at off' n (put_at off bs f) = read_exact_at off' n f"
  by (simp add: read_exact_at_def byte_slice_put_at_before)

lemma read_put_at_after:
  "off + length bs \<le> off' \<Longrightarrow> off \<le> length f \<Longrightarrow> off' + n \<le> length f \<Longrightarrow>
   read_exact_at off' n (put_at off bs f) = read_exact_at off' n f"
  by (simp add: read_exact_at_def byte_slice_put_at_after)

text \<open>A write, whatever its outcome, changes nothing below its offset.\<close>

lemma read_write_before:
  assumes "off' + n \<le> off" "off' + n \<le> length f"
  shows "read_exact_at off' n (snd (write_all_at io off bs f)) = read_exact_at off' n f"
  using assms by (auto simp: write_all_at_def read_put_at_before split: io.splits)

lemma length_write_all_at:
  "length f \<le> length (snd (write_all_at io off bs f))"
  by (auto simp: write_all_at_def split: io.splits)

lemma fst_write_all_at [simp]: "fst (write_all_at io off bs f) = (io = IoOk)"
  by (auto simp: write_all_at_def split: io.splits)

section \<open>Words without overflow\<close>

lemma unat_u64_less: "unat (w :: u64) < 18446744073709551616"
proof -
  have "unat w < 2 ^ LENGTH(64)" by (rule unsigned_less)
  then show ?thesis by simp
qed

lemma unat_u64_max: "unat (- 1 :: u64) = 2 ^ 64 - 1"
  by (simp add: unsigned_minus_1_eq_mask mask_eq_exp_minus_1)

lemma u64_less_max: "(0 :: u64) < - 1" "(1 :: u64) < - 1"
  by (simp_all add: word_less_nat_alt unat_u64_max)

lemma unat_add_less:
  "unat a + unat b < 2 ^ LENGTH('a) \<Longrightarrow> unat (a + b :: 'a::len word) = unat a + unat b"
  by (simp add: unat_word_ariths)

lemma unat_add_one:
  "unat (a :: u64) < 2 ^ 64 - 1 \<Longrightarrow> unat (a + 1) = Suc (unat a)"
  by (subst unat_add_less) auto

lemma unat_sub_ge: "b \<le> a \<Longrightarrow> unat (a - b :: 'a::len word) = unat a - unat b"
  by (simp add: unat_sub)

lemma not_isl_unit: "\<not> isl (r :: 'e + unit) \<longleftrightarrow> r = Inr ()"
  by (cases r) auto

section \<open>Transition systems\<close>

inductive reach :: "('s \<Rightarrow> bool) \<Rightarrow> ('s \<Rightarrow> 'e \<Rightarrow> 's \<Rightarrow> bool) \<Rightarrow> 's \<Rightarrow> bool"
  for init :: "'s \<Rightarrow> bool" and step :: "'s \<Rightarrow> 'e \<Rightarrow> 's \<Rightarrow> bool" where
  reach_init: "init s \<Longrightarrow> reach init step s"
| reach_step: "reach init step s \<Longrightarrow> step s e s' \<Longrightarrow> reach init step s'"

text \<open>An inductive invariant of a transition system holds in every reachable state.\<close>

locale inductive_invariant =
  fixes init :: "'s \<Rightarrow> bool"
    and step :: "'s \<Rightarrow> 'e \<Rightarrow> 's \<Rightarrow> bool"
    and inv :: "'s \<Rightarrow> bool"
  assumes inv_init: "init s \<Longrightarrow> inv s"
    and inv_step: "inv s \<Longrightarrow> step s e s' \<Longrightarrow> inv s'"
begin

lemma reach_inv: "reach init step s \<Longrightarrow> inv s"
  by (induction rule: reach.induct) (blast intro: inv_init inv_step)+

end

end
