(* ===== verification/Frame.thy ===== *)
theory Frame
  imports Prelude
begin

text \<open>
  \<^verbatim>\<open>sqld/src/replication/frame.rs\<close> and \<^verbatim>\<open>sqld/src/replication/mod.rs\<close>: the frame of the
  replication log. A \<^verbatim>\<open>Frame\<close> is a buffer of bytes: the \<^verbatim>\<open>repr(C)\<close> image of a
  \<^verbatim>\<open>FrameHeader\<close> followed by a page of 4096 bytes. An assertion that fails in the
  source is the result \<^term>\<open>None\<close> here.
\<close>

type_synonym FrameNo = u64
type_synonym Frame = "byte list"

record FrameHeader =
  fh_frame_no :: FrameNo
  fh_checksum :: u64
  fh_page_no :: u32
  fh_size_after :: u32

definition WAL_PAGE_SIZE :: nat where
  "WAL_PAGE_SIZE = 4096"

definition WAL_MAGIC :: u64 where
  "WAL_MAGIC = bytes_word (map word_of_nat [83, 81, 76, 68, 87, 65, 76, 0])"

text \<open>\<^verbatim>\<open>size_of::<FrameHeader>()\<close>: two 8-byte and two 4-byte fields, no padding.\<close>

definition FRAME_HEADER_SIZE :: nat where
  "FRAME_HEADER_SIZE = 24"

definition FRAME_SIZE :: nat where
  "FRAME_SIZE = FRAME_HEADER_SIZE + WAL_PAGE_SIZE"

definition header_bytes :: "FrameHeader \<Rightarrow> byte list" where
  "header_bytes h = word_bytes 8 (fh_frame_no h) @ word_bytes 8 (fh_checksum h)
     @ word_bytes 4 (fh_page_no h) @ word_bytes 4 (fh_size_after h)"

definition header_of_bytes :: "byte list \<Rightarrow> FrameHeader" where
  "header_of_bytes bs =
     \<lparr> fh_frame_no = bytes_word (byte_slice 0 8 bs),
       fh_checksum = bytes_word (byte_slice 8 8 bs),
       fh_page_no = bytes_word (byte_slice 16 4 bs),
       fh_size_after = bytes_word (byte_slice 20 4 bs) \<rparr>"

definition from_parts :: "FrameHeader \<Rightarrow> byte list \<Rightarrow> Frame option" where
  "from_parts h data =
     (if length data = WAL_PAGE_SIZE then Some (header_bytes h @ data) else None)"

definition try_from_bytes :: "byte list \<Rightarrow> Frame option" where
  "try_from_bytes data = (if length data = FRAME_SIZE then Some data else None)"

definition frame_header :: "Frame \<Rightarrow> FrameHeader" where
  "frame_header f = header_of_bytes (byte_slice 0 FRAME_HEADER_SIZE f)"

definition frame_page :: "Frame \<Rightarrow> byte list" where
  "frame_page f = drop FRAME_HEADER_SIZE f"

abbreviation frame_no :: "Frame \<Rightarrow> FrameNo" where
  "frame_no f \<equiv> fh_frame_no (frame_header f)"

abbreviation frame_checksum :: "Frame \<Rightarrow> u64" where
  "frame_checksum f \<equiv> fh_checksum (frame_header f)"

abbreviation frame_page_no :: "Frame \<Rightarrow> u32" where
  "frame_page_no f \<equiv> fh_page_no (frame_header f)"

abbreviation frame_size_after :: "Frame \<Rightarrow> u32" where
  "frame_size_after f \<equiv> fh_size_after (frame_header f)"

lemmas frame_sizes = WAL_PAGE_SIZE_def FRAME_HEADER_SIZE_def FRAME_SIZE_def

lemma length_header_bytes [simp, codec_simps]: "length (header_bytes h) = FRAME_HEADER_SIZE"
  by (simp add: header_bytes_def frame_sizes)

lemma header_of_bytes_header_bytes [simp, codec_simps]:
  "header_of_bytes (header_bytes h) = h"
  by (simp add: header_of_bytes_def header_bytes_def codec_simps)

lemma header_bytes_header_of_frame:
  "from_parts h data = Some f \<Longrightarrow> frame_header f = h"
  by (auto simp: from_parts_def frame_header_def codec_simps split: if_splits)

lemma frame_page_from_parts: "from_parts h data = Some f \<Longrightarrow> frame_page f = data"
  by (auto simp: from_parts_def frame_page_def split: if_splits)

lemma length_from_parts: "from_parts h data = Some f \<Longrightarrow> length f = FRAME_SIZE"
  by (auto simp: from_parts_def FRAME_SIZE_def split: if_splits)

lemma from_parts_Some:
  "length data = WAL_PAGE_SIZE \<Longrightarrow> from_parts h data = Some (header_bytes h @ data)"
  by (simp add: from_parts_def)

text \<open>A frame is determined by its header and its page.\<close>

lemma header_bytes_header_of_bytes:
  assumes "length bs = FRAME_HEADER_SIZE"
  shows "header_bytes (header_of_bytes bs) = bs"
proof -
  have l: "length bs = 24" using assms by (simp add: frame_sizes)
  have parts: "byte_slice 0 8 bs @ byte_slice 8 8 bs @ byte_slice 16 4 bs @ byte_slice 20 4 bs = bs"
  proof -
    have "byte_slice 16 4 bs @ byte_slice 20 4 bs = drop 16 bs"
      using l take_add [of 4 4 "drop 16 bs"] by (simp add: byte_slice_def)
    moreover have "byte_slice 8 8 bs @ drop 16 bs = drop 8 bs"
      using append_take_drop_id [of 8 "drop 8 bs"] by (simp add: byte_slice_def)
    ultimately show ?thesis by (simp add: byte_slice_def)
  qed
  have u64: "word_bytes 8 (bytes_word (byte_slice k 8 bs) :: u64) = byte_slice k 8 bs"
    if "k + 8 \<le> 24" for k
    by (rule word_bytes_bytes_word) (use l that in \<open>simp_all add: length_byte_slice\<close>)
  have u32: "word_bytes 4 (bytes_word (byte_slice k 4 bs) :: u32) = byte_slice k 4 bs"
    if "k + 4 \<le> 24" for k
    by (rule word_bytes_bytes_word) (use l that in \<open>simp_all add: length_byte_slice\<close>)
  show ?thesis
    using parts by (simp add: header_bytes_def header_of_bytes_def u64 u32)
qed

lemma from_parts_header_page:
  assumes "length f = FRAME_SIZE"
  shows "from_parts (frame_header f) (frame_page f) = Some f"
proof -
  have "length (byte_slice 0 FRAME_HEADER_SIZE f) = FRAME_HEADER_SIZE"
    by (rule length_byte_slice) (use assms in \<open>simp add: frame_sizes\<close>)
  then have "header_bytes (frame_header f) = take FRAME_HEADER_SIZE f"
    by (simp add: frame_header_def header_bytes_header_of_bytes byte_slice_def)
  then show ?thesis
    using assms by (simp add: from_parts_def frame_page_def frame_sizes)
qed

end
