(* ===== verification/Bottomless.thy ===== *)
theory Bottomless
  imports Prelude
begin

text \<open>
  The frame accounting of the backup replicator
  (\<^verbatim>\<open>bottomless/src/replicator.rs\<close>): which WAL frames are known, which have been
  handed to the uploader, and how a rollback, a new generation or a flush
  moves these marks. The S3 client, the copier that moves frames out of the WAL
  and the clock are outside: the result of a copier flush is an argument.
\<close>

type_synonym Uuid = u128

definition UNSET_PAGE_SIZE :: nat where
  "UNSET_PAGE_SIZE = 2 ^ 64 - 1"

record Replicator =
  rp_next_frame_no :: u32
  rp_last_sent_frame_no :: u32
  rp_last_committed_frame_no :: "unit + u32"
  rp_flush_trigger :: bool
  rp_snapshot_waiter :: "unit + Uuid option"
  rp_page_size :: nat
  rp_generation :: "Uuid option"
  rp_max_frames_per_batch :: u32

definition replicator_init :: "u32 \<Rightarrow> Replicator" where
  "replicator_init max_frames =
     \<lparr> rp_next_frame_no = 1, rp_last_sent_frame_no = 0,
       rp_last_committed_frame_no = Inr 0, rp_flush_trigger = False,
       rp_snapshot_waiter = Inr None, rp_page_size = UNSET_PAGE_SIZE,
       rp_generation = None, rp_max_frames_per_batch = max_frames \<rparr>"

definition last_known_frame :: "Replicator \<Rightarrow> u32" where
  "last_known_frame r = rp_next_frame_no r - 1"

definition pending_frames :: "Replicator \<Rightarrow> u32" where
  "pending_frames r = rp_next_frame_no r - rp_last_sent_frame_no r - 1"

definition peek_last_valid_frame :: "Replicator \<Rightarrow> u32" where
  "peek_last_valid_frame r = (if rp_next_frame_no r = 0 then 0 else rp_next_frame_no r - 1)"

definition set_page_size :: "nat \<Rightarrow> Replicator \<Rightarrow> unit + Replicator" where
  "set_page_size ps r =
     (if rp_page_size r \<noteq> UNSET_PAGE_SIZE \<and> rp_page_size r \<noteq> ps then Inl ()
      else Inr (r\<lparr>rp_page_size := ps\<rparr>))"

definition reset_frames :: "u32 \<Rightarrow> Replicator \<Rightarrow> Replicator" where
  "reset_frames n r =
     (let last_sent = rp_last_sent_frame_no r
      in r\<lparr>rp_next_frame_no := n + 1, rp_last_sent_frame_no := min last_sent n\<rparr>)"

definition set_generation :: "Uuid \<Rightarrow> Replicator \<Rightarrow> Uuid option \<times> Replicator" where
  "set_generation g r = (rp_generation r, reset_frames 0 (r\<lparr>rp_generation := Some g\<rparr>))"

definition register_last_valid_frame :: "u32 \<Rightarrow> Replicator \<Rightarrow> Replicator" where
  "register_last_valid_frame n r =
     (if n \<noteq> peek_last_valid_frame r then reset_frames n r else r)"

definition request_flush :: "Replicator \<Rightarrow> Replicator" where
  "request_flush r = r\<lparr>rp_flush_trigger := True\<rparr>"

definition submit_frames :: "u32 \<Rightarrow> Replicator \<Rightarrow> Replicator" where
  "submit_frames count r =
     (let prev = rp_next_frame_no r;
          r = r\<lparr>rp_next_frame_no := prev + count\<rparr>;
          most_recent = prev + count - 1
      in if rp_max_frames_per_batch r \<le> most_recent - rp_last_sent_frame_no r
         then request_flush r else r)"

definition rollback_to_frame :: "u32 \<Rightarrow> Replicator \<Rightarrow> Replicator" where
  "rollback_to_frame n r = reset_frames n r"

definition skip_snapshot_for_current_generation :: "Replicator \<Rightarrow> Replicator" where
  "skip_snapshot_for_current_generation r = r\<lparr>rp_snapshot_waiter := Inr (rp_generation r)\<rparr>"

text \<open>
  One round of the background task: it wakes up on the trigger or on the batch
  timeout, marks every known frame as sent and passes the frames that were not
  sent before to the copier, whose result becomes the committed mark. The
  result is the range of frames the copier was given, if any.
\<close>

definition flush_round :: "unit + u32 \<Rightarrow> Replicator \<Rightarrow> (u32 \<times> u32) option \<times> Replicator" where
  "flush_round copied r =
     (let next_frame = rp_next_frame_no r;
          last_sent_frame = rp_last_sent_frame_no r;
          r = r\<lparr>rp_last_sent_frame_no := next_frame - 1, rp_flush_trigger := False\<rparr>
      in if last_sent_frame + 1 < next_frame
         then (Some (last_sent_frame + 1, next_frame),
               r\<lparr>rp_last_committed_frame_no := copied\<rparr>)
         else (None, r))"

definition wait_until_committed :: "u32 \<Rightarrow> Replicator \<Rightarrow> (unit + u32) option" where
  "wait_until_committed n r =
     (case rp_last_committed_frame_no r of
        Inr last_committed \<Rightarrow> if n \<le> last_committed then Some (Inr last_committed) else None
      | Inl e \<Rightarrow> Some (Inl e))"

lemmas replicator_defs =
  last_known_frame_def pending_frames_def peek_last_valid_frame_def set_page_size_def
  reset_frames_def set_generation_def register_last_valid_frame_def request_flush_def
  submit_frames_def rollback_to_frame_def skip_snapshot_for_current_generation_def
  flush_round_def

section \<open>The accounting invariant\<close>

text \<open>
  The documented relation between the marks: the last frame sent is below the
  next frame number, so the pending count never wraps.
\<close>

definition marks_ok :: "Replicator \<Rightarrow> bool" where
  "marks_ok r \<longleftrightarrow> rp_last_sent_frame_no r < rp_next_frame_no r"

lemma word_less_Suc:
  "unat (n :: u32) < 2 ^ 32 - 1 \<Longrightarrow> min m n < n + 1"
proof -
  assume "unat n < 2 ^ 32 - 1"
  then have "unat (n + 1) = Suc (unat n)"
    by (subst unat_add_less) auto
  then have "n < n + 1" by (simp add: word_less_nat_alt)
  then show ?thesis by (auto simp: min_def)
qed

lemma marks_ok_init: "marks_ok (replicator_init n)"
  by (simp add: marks_ok_def replicator_init_def)

lemma marks_ok_reset:
  "unat n < 2 ^ 32 - 1 \<Longrightarrow> marks_ok (reset_frames n r)"
  using word_less_Suc [of n "rp_last_sent_frame_no r"]
  by (simp add: marks_ok_def reset_frames_def)

lemma marks_ok_register:
  "marks_ok r \<Longrightarrow> unat n < 2 ^ 32 - 1 \<Longrightarrow> marks_ok (register_last_valid_frame n r)"
  by (simp add: register_last_valid_frame_def marks_ok_reset)

lemma marks_ok_submit:
  assumes "marks_ok r" "unat (rp_next_frame_no r) + unat count < 2 ^ 32"
  shows "marks_ok (submit_frames count r)"
proof -
  have "unat (rp_next_frame_no r + count) = unat (rp_next_frame_no r) + unat count"
    using assms(2) by (simp add: unat_add_less)
  then show ?thesis
    using assms(1)
    by (auto simp: marks_ok_def submit_frames_def request_flush_def Let_def word_less_nat_alt)
qed

lemma marks_ok_flush: "marks_ok r \<Longrightarrow> marks_ok (snd (flush_round c r))"
proof -
  assume "marks_ok r"
  then have "0 < unat (rp_next_frame_no r)"
    by (simp add: marks_ok_def word_less_nat_alt)
  then have "rp_next_frame_no r - 1 < rp_next_frame_no r"
    by (simp add: word_less_nat_alt unat_sub_ge word_le_nat_alt)
  then show ?thesis by (simp add: marks_ok_def flush_round_def Let_def)
qed

section \<open>Failed flushes\<close>

text \<open>
  The mark of the frames that were sent moves before the copier runs. When the copier
  fails, the frames it was given are not passed to it again: the next round has nothing to send.
\<close>

lemma failed_flush_not_retried:
  assumes "flush_round (Inl e) r = (Some frames, r')"
  shows "fst (flush_round copied r') = None"
  using assms by (auto simp: flush_round_def Let_def split: if_splits)

end
