(* ===== verification/ReplicationLog.thy ===== *)
theory ReplicationLog
  imports Frame Bottomless
begin

text \<open>
  \<^verbatim>\<open>sqld/src/replication/primary/logger.rs\<close>: the shadow WAL of the primary. The
  file is a list of bytes: a header of 64 bytes and then one slot of
  \<^const>\<open>FRAME_SIZE\<close> bytes per frame. Pages are pushed after the committed frames,
  a commit moves the frame count of the header, a rollback forgets the pushed
  pages. The CRC of the \<^verbatim>\<open>crc\<close> crate, the outcomes of writes, the clock and fresh
  UUIDs are arguments.
\<close>

type_synonym crc64 = "u64 \<Rightarrow> byte list \<Rightarrow> u64"

datatype log_error =
    SnapshotRequired
  | Ahead
  | IoError
  | InvalidHeader
  | InvalidFrameSize
  | InvalidChecksum
  | CompactorExited
  | LoggerClosed
  | Panicked

record LogFileHeader =
  lh_magic :: u64
  lh_start_checksum :: u64
  lh_db_id :: u128
  lh_start_frame_no :: FrameNo
  lh_frame_count :: u64
  lh_version :: u32
  lh_page_size :: u32
  lh_sqld_version :: "u16 \<times> u16 \<times> u16 \<times> u16"

record WalPage =
  wp_page_no :: u32
  wp_size_after :: u32
  wp_data :: "byte list"

record LogFile =
  lf_file :: file_data
  lf_header :: LogFileHeader
  lf_max_log_frame_count :: u64
  lf_max_log_duration :: "nat option"
  lf_last_compact_instant :: nat
  lf_uncommitted_frame_count :: u64
  lf_uncommitted_checksum :: u64
  lf_commited_checksum :: u64

text \<open>\<^verbatim>\<open>size_of::<LogFileHeader>()\<close>\<close>

definition LOG_HEADER_SIZE :: nat where
  "LOG_HEADER_SIZE = 64"

definition log_header_bytes :: "LogFileHeader \<Rightarrow> byte list" where
  "log_header_bytes h =
     word_bytes 8 (lh_magic h) @ word_bytes 8 (lh_start_checksum h) @
     word_bytes 16 (lh_db_id h) @ word_bytes 8 (lh_start_frame_no h) @
     word_bytes 8 (lh_frame_count h) @ word_bytes 4 (lh_version h) @
     word_bytes 4 (lh_page_size h) @
     (case lh_sqld_version h of (a, b, c, d) \<Rightarrow>
        word_bytes 2 a @ word_bytes 2 b @ word_bytes 2 c @ word_bytes 2 d)"

definition log_header_of_bytes :: "byte list \<Rightarrow> LogFileHeader" where
  "log_header_of_bytes bs =
     \<lparr> lh_magic = bytes_word (byte_slice 0 8 bs),
       lh_start_checksum = bytes_word (byte_slice 8 8 bs),
       lh_db_id = bytes_word (byte_slice 16 16 bs),
       lh_start_frame_no = bytes_word (byte_slice 32 8 bs),
       lh_frame_count = bytes_word (byte_slice 40 8 bs),
       lh_version = bytes_word (byte_slice 48 4 bs),
       lh_page_size = bytes_word (byte_slice 52 4 bs),
       lh_sqld_version =
         (bytes_word (byte_slice 56 2 bs), bytes_word (byte_slice 58 2 bs),
          bytes_word (byte_slice 60 2 bs), bytes_word (byte_slice 62 2 bs)) \<rparr>"

definition last_frame_no :: "LogFileHeader \<Rightarrow> FrameNo" where
  "last_frame_no h = lh_start_frame_no h + lh_frame_count h"

section \<open>Operations of LogFile\<close>

definition read_header :: "file_data \<Rightarrow> log_error + LogFileHeader" where
  "read_header f =
     (case read_exact_at 0 LOG_HEADER_SIZE f of
        None \<Rightarrow> Inl IoError
      | Some buf \<Rightarrow>
          (let h = log_header_of_bytes buf
           in if lh_magic h \<noteq> WAL_MAGIC then Inl InvalidHeader else Inr h))"

definition write_header :: "io \<Rightarrow> LogFile \<Rightarrow> (log_error + unit) \<times> LogFile" where
  "write_header io lf =
     (case write_all_at io 0 (log_header_bytes (lf_header lf)) (lf_file lf) of
        (ok, f) \<Rightarrow> (if ok then Inr () else Inl IoError, lf\<lparr>lf_file := f\<rparr>))"

definition absolute_byte_offset :: "u64 \<Rightarrow> u64" where
  "absolute_byte_offset n =
     word_of_nat LOG_HEADER_SIZE + n * word_of_nat FRAME_SIZE"

definition next_byte_offset :: "LogFile \<Rightarrow> u64" where
  "next_byte_offset lf =
     absolute_byte_offset (lh_frame_count (lf_header lf) + lf_uncommitted_frame_count lf)"

definition next_frame_no :: "LogFile \<Rightarrow> FrameNo" where
  "next_frame_no lf =
     lh_start_frame_no (lf_header lf) + lh_frame_count (lf_header lf)
       + lf_uncommitted_frame_count lf"

definition byte_offset :: "FrameNo \<Rightarrow> LogFile \<Rightarrow> u64 option" where
  "byte_offset n lf =
     (let h = lf_header lf
      in if n < lh_start_frame_no h \<or> lh_start_frame_no h + lh_frame_count h < n then None
         else Some (absolute_byte_offset (n - lh_start_frame_no h)))"

definition read_frame_byte_offset :: "u64 \<Rightarrow> LogFile \<Rightarrow> log_error + Frame" where
  "read_frame_byte_offset off lf =
     (case read_exact_at (unat off) FRAME_SIZE (lf_file lf) of
        None \<Rightarrow> Inl IoError
      | Some buf \<Rightarrow>
          (case try_from_bytes buf of None \<Rightarrow> Inl InvalidFrameSize | Some fr \<Rightarrow> Inr fr))"

definition log_frame :: "FrameNo \<Rightarrow> LogFile \<Rightarrow> log_error + Frame" where
  "log_frame n lf =
     (let h = lf_header lf
      in if n < lh_start_frame_no h then Inl SnapshotRequired
         else if lh_start_frame_no h + lh_frame_count h \<le> n then Inl Ahead
         else (case byte_offset n lf of
                 None \<Rightarrow> Inl Panicked
               | Some off \<Rightarrow> read_frame_byte_offset off lf))"

definition last_commited_frame_no :: "LogFile \<Rightarrow> FrameNo option" where
  "last_commited_frame_no lf =
     (let h = lf_header lf
      in if lh_frame_count h = 0 then None
         else Some (lh_start_frame_no h + lh_frame_count h - 1))"

definition log_new ::
  "nat \<Rightarrow> u128 \<Rightarrow> u16 \<times> u16 \<times> u16 \<times> u16 \<Rightarrow> io \<Rightarrow> file_data \<Rightarrow> u64 \<Rightarrow> nat option
     \<Rightarrow> log_error + LogFile" where
  "log_new now uuid current io f max_count max_duration =
     (case (if length f = 0
            then Inr \<lparr> lh_magic = WAL_MAGIC, lh_start_checksum = 0, lh_db_id = uuid,
                       lh_start_frame_no = 0, lh_frame_count = 0, lh_version = 2,
                       lh_page_size = word_of_nat WAL_PAGE_SIZE, lh_sqld_version = current \<rparr>
            else read_header f) of
        Inl e \<Rightarrow> Inl e
      | Inr h \<Rightarrow>
          (let this = \<lparr> lf_file = f, lf_header = h, lf_max_log_frame_count = max_count,
                        lf_max_log_duration = max_duration, lf_last_compact_instant = now,
                        lf_uncommitted_frame_count = 0, lf_uncommitted_checksum = 0,
                        lf_commited_checksum = 0 \<rparr>
           in if length f = 0
              then (case write_header io this of
                      (Inl e, _) \<Rightarrow> Inl e
                    | (Inr _, this) \<Rightarrow> Inr this)
              else (case last_commited_frame_no this of
                      Some n \<Rightarrow>
                        (case log_frame n this of
                           Inl e \<Rightarrow> Inl e
                         | Inr fr \<Rightarrow>
                             Inr (this\<lparr>lf_commited_checksum := frame_checksum fr,
                                       lf_uncommitted_checksum := frame_checksum fr\<rparr>))
                    | None \<Rightarrow>
                        Inr (this\<lparr>lf_commited_checksum := lh_start_checksum h,
                                  lf_uncommitted_checksum := lh_start_checksum h\<rparr>))))"

definition log_commit :: "io \<Rightarrow> LogFile \<Rightarrow> (log_error + unit) \<times> LogFile" where
  "log_commit io lf =
     write_header io
       (lf\<lparr>lf_header := (lf_header lf)
               \<lparr>lh_frame_count := lh_frame_count (lf_header lf) + lf_uncommitted_frame_count lf\<rparr>,
           lf_uncommitted_frame_count := 0,
           lf_commited_checksum := lf_uncommitted_checksum lf\<rparr>)"

definition log_rollback :: "LogFile \<Rightarrow> LogFile" where
  "log_rollback lf =
     lf\<lparr>lf_uncommitted_frame_count := 0,
        lf_uncommitted_checksum := lf_commited_checksum lf\<rparr>"

definition frames_iter :: "LogFile \<Rightarrow> (log_error + Frame) list" where
  "frames_iter lf =
     map (\<lambda>i. read_frame_byte_offset (absolute_byte_offset (word_of_nat i)) lf)
       [0..<unat (lh_frame_count (lf_header lf))]"

definition rev_frames_iter :: "LogFile \<Rightarrow> (log_error + Frame) list" where
  "rev_frames_iter lf =
     map (\<lambda>i. read_frame_byte_offset (absolute_byte_offset (word_of_nat i)) lf)
       (rev [0..<unat (lh_frame_count (lf_header lf))])"

definition page_checksum :: "crc64 \<Rightarrow> WalPage \<Rightarrow> LogFile \<Rightarrow> u64" where
  "page_checksum crc page lf = crc (lf_uncommitted_checksum lf) (wp_data page)"

definition push_page :: "crc64 \<Rightarrow> io \<Rightarrow> WalPage \<Rightarrow> LogFile \<Rightarrow> (log_error + unit) \<times> LogFile" where
  "push_page crc io page lf =
     (let checksum = page_checksum crc page lf
      in case from_parts
                \<lparr> fh_frame_no = next_frame_no lf, fh_checksum = checksum,
                  fh_page_no = wp_page_no page, fh_size_after = wp_size_after page \<rparr>
                (wp_data page) of
           None \<Rightarrow> (Inl Panicked, lf)
         | Some frame \<Rightarrow>
             (case write_all_at io (unat (next_byte_offset lf)) frame (lf_file lf) of
                (False, f) \<Rightarrow> (Inl IoError, lf\<lparr>lf_file := f\<rparr>)
              | (True, f) \<Rightarrow>
                  (Inr (), lf\<lparr>lf_file := f,
                              lf_uncommitted_frame_count := lf_uncommitted_frame_count lf + 1,
                              lf_uncommitted_checksum := checksum\<rparr>)))"

definition should_compact :: "nat \<Rightarrow> LogFile \<Rightarrow> bool" where
  "should_compact now lf \<longleftrightarrow>
     (lf_max_log_frame_count lf < lh_frame_count (lf_header lf) \<or>
      (case lf_max_log_duration lf of
         None \<Rightarrow> False
       | Some d \<Rightarrow> d < now - lf_last_compact_instant lf)) \<and>
     lf_uncommitted_frame_count lf = 0"

text \<open>
  A compaction swaps the log with a fresh one and sends the old one to the
  compaction thread. Its environment: the clock, a fresh UUID, the version of
  the binary, the content of the temporary log when it could be opened, the
  outcomes of the two header writes and of the rename, and whether the
  compaction thread is alive. The third component of the result is the job
  the thread receives.
\<close>

record compact_env =
  ce_now :: nat
  ce_uuid :: u128
  ce_version :: "u16 \<times> u16 \<times> u16 \<times> u16"
  ce_temp_log :: "file_data option"
  ce_io_new :: io
  ce_io_header :: io
  ce_rename_ok :: bool
  ce_compactor_alive :: bool

definition do_compaction ::
  "compact_env \<Rightarrow> u32 \<Rightarrow> LogFile \<Rightarrow> (log_error + unit) \<times> LogFile \<times> (LogFile \<times> u32) list" where
  "do_compaction env size_after lf =
     (if lf_uncommitted_frame_count lf \<noteq> 0 then (Inl Panicked, lf, [])
      else (case ce_temp_log env of
              None \<Rightarrow> (Inl IoError, lf, [])
            | Some temp \<Rightarrow>
                (case log_new (ce_now env) (ce_uuid env) (ce_version env) (ce_io_new env) temp
                        (lf_max_log_frame_count lf) (lf_max_log_duration lf) of
                   Inl e \<Rightarrow> (Inl e, lf, [])
                 | Inr new_log \<Rightarrow>
                     (let h = lf_header lf;
                          new_header = h\<lparr>lh_start_frame_no := lh_start_frame_no h + lh_frame_count h,
                                         lh_frame_count := 0,
                                         lh_start_checksum := lf_commited_checksum lf\<rparr>
                      in case write_header (ce_io_header env) (new_log\<lparr>lf_header := new_header\<rparr>) of
                           (Inl _, _) \<Rightarrow> (Inl Panicked, lf, [])
                         | (Inr _, new_log) \<Rightarrow>
                             if \<not> ce_rename_ok env then (Inl Panicked, lf, [])
                             else if ce_compactor_alive env
                             then (Inr (), new_log, [(lf, size_after)])
                             else (Inl CompactorExited, new_log, [])))))"

definition log_maybe_compact ::
  "compact_env \<Rightarrow> u32 \<Rightarrow> LogFile \<Rightarrow> (log_error + unit) \<times> LogFile \<times> (LogFile \<times> u32) list" where
  "log_maybe_compact env size_after lf =
     (if should_compact (ce_now env) lf then do_compaction env size_after lf
      else (Inr (), lf, []))"

definition log_reset ::
  "nat \<Rightarrow> u128 \<Rightarrow> u16 \<times> u16 \<times> u16 \<times> u16 \<Rightarrow> io \<Rightarrow> LogFile \<Rightarrow> log_error + LogFile" where
  "log_reset now uuid current io lf =
     log_new now uuid current io [] (lf_max_log_frame_count lf) (lf_max_log_duration lf)"

text \<open>\<^verbatim>\<open>ReplicationLogger::compute_checksum\<close>: the fold that verifies a log.\<close>

fun verify_frames :: "crc64 \<Rightarrow> u64 \<Rightarrow> (log_error + Frame) list \<Rightarrow> log_error + u64" where
  "verify_frames crc acc [] = Inr acc"
| "verify_frames crc acc (Inl e # frs) = Inl e"
| "verify_frames crc acc (Inr fr # frs) =
     (let cs = crc acc (frame_page fr)
      in if cs = frame_checksum fr then verify_frames crc cs frs else Inl InvalidChecksum)"

definition compute_checksum :: "crc64 \<Rightarrow> LogFileHeader \<Rightarrow> LogFile \<Rightarrow> log_error + u64" where
  "compute_checksum crc wal_header lf =
     verify_frames crc (lh_start_checksum wal_header) (frames_iter lf)"

section \<open>What a log holds\<close>

text \<open>
  The frame in slot \<^term>\<open>i\<close> of the file, the committed frames, and the pushed
  frames that are not committed yet.
\<close>

definition slot :: "file_data \<Rightarrow> nat \<Rightarrow> Frame" where
  "slot f i = byte_slice (LOG_HEADER_SIZE + i * FRAME_SIZE) FRAME_SIZE f"

definition log_total :: "LogFile \<Rightarrow> nat" where
  "log_total lf = unat (lh_frame_count (lf_header lf)) + unat (lf_uncommitted_frame_count lf)"

definition log_committed :: "LogFile \<Rightarrow> Frame list" where
  "log_committed lf = map (slot (lf_file lf)) [0..<unat (lh_frame_count (lf_header lf))]"

definition log_pending :: "LogFile \<Rightarrow> Frame list" where
  "log_pending lf =
     map (slot (lf_file lf)) [unat (lh_frame_count (lf_header lf))..<log_total lf]"

text \<open>Room for \<^term>\<open>n\<close> more frames: neither frame numbers nor file offsets wrap.\<close>

definition log_room :: "nat \<Rightarrow> LogFile \<Rightarrow> bool" where
  "log_room n lf \<longleftrightarrow>
     unat (lh_start_frame_no (lf_header lf)) + log_total lf + n < 2 ^ 64 \<and>
     LOG_HEADER_SIZE + (log_total lf + n) * FRAME_SIZE < 2 ^ 64"

definition log_inv :: "LogFile \<Rightarrow> bool" where
  "log_inv lf \<longleftrightarrow>
     log_room 0 lf \<and>
     LOG_HEADER_SIZE + log_total lf * FRAME_SIZE \<le> length (lf_file lf) \<and>
     read_header (lf_file lf) = Inr (lf_header lf) \<and>
     (\<forall>i<log_total lf.
        frame_no (slot (lf_file lf) i) = lh_start_frame_no (lf_header lf) + word_of_nat i)"

lemmas log_sizes = LOG_HEADER_SIZE_def frame_sizes

lemma length_log_header_bytes [simp, codec_simps]:
  "length (log_header_bytes h) = LOG_HEADER_SIZE"
  by (simp add: log_header_bytes_def LOG_HEADER_SIZE_def split: prod.splits)

lemma log_header_roundtrip [simp, codec_simps]:
  "log_header_of_bytes (log_header_bytes h) = h"
proof -
  obtain a b c d where v: "lh_sqld_version h = (a, b, c, d)" by (metis prod_cases4)
  show ?thesis
    by (simp add: log_header_of_bytes_def log_header_bytes_def v codec_simps)
qed

lemma unat_absolute_byte_offset:
  assumes "LOG_HEADER_SIZE + unat n * FRAME_SIZE < 2 ^ 64"
  shows "unat (absolute_byte_offset n) = LOG_HEADER_SIZE + unat n * FRAME_SIZE"
proof -
  have "unat n * 4120 < 2 ^ 64"
    using assms by (simp add: log_sizes)
  then have m: "unat (n * 4120) = unat n * 4120"
    by (simp add: unat_word_ariths)
  then show ?thesis
    using assms by (simp add: absolute_byte_offset_def log_sizes unat_word_ariths)
qed

lemma slot_put_at_later:
  assumes "LOG_HEADER_SIZE + Suc i * FRAME_SIZE \<le> off"
    and "LOG_HEADER_SIZE + Suc i * FRAME_SIZE \<le> length f"
  shows "slot (put_at off bs f) i = slot f i"
  unfolding slot_def by (rule byte_slice_put_at_before) (use assms in simp_all)

lemma slot_put_header:
  assumes "LOG_HEADER_SIZE \<le> length f" "length bs = LOG_HEADER_SIZE"
  shows "slot (put_at 0 bs f) i = slot f i"
  unfolding slot_def by (rule byte_slice_put_at_after) (use assms in simp_all)

lemma slot_write_later:
  assumes "i < n" "LOG_HEADER_SIZE + n * FRAME_SIZE \<le> off"
    and "LOG_HEADER_SIZE + n * FRAME_SIZE \<le> length f"
  shows "slot (snd (write_all_at io off bs f)) i = slot f i"
proof -
  have "Suc i * FRAME_SIZE \<le> n * FRAME_SIZE"
    using assms(1) by (intro mult_le_mono1) simp
  then show ?thesis
    using assms by (auto simp: write_all_at_def slot_put_at_later split: io.splits)
qed

lemma read_header_write_later:
  assumes "LOG_HEADER_SIZE \<le> off" "LOG_HEADER_SIZE \<le> length f"
  shows "read_header (snd (write_all_at io off bs f)) = read_header f"
  using assms by (simp add: read_header_def read_write_before)

lemma read_header_put:
  "lh_magic h = WAL_MAGIC \<Longrightarrow> read_header (put_at 0 (log_header_bytes h) f) = Inr h"
  by (simp add: read_header_def file_simps)

lemma read_header_magic: "read_header f = Inr h \<Longrightarrow> lh_magic h = WAL_MAGIC"
  by (auto simp: read_header_def Let_def split: option.splits if_splits)

lemma read_header_length: "read_header f = Inr h \<Longrightarrow> LOG_HEADER_SIZE \<le> length f"
  by (auto simp: read_header_def read_exact_at_def split: option.splits if_splits)

lemma log_room_mono: "log_room n lf \<Longrightarrow> m \<le> n \<Longrightarrow> log_room m lf"
proof -
  assume r: "log_room n lf" and "m \<le> n"
  then have "(log_total lf + m) * FRAME_SIZE \<le> (log_total lf + n) * FRAME_SIZE"
    by (intro mult_le_mono1) simp
  with r \<open>m \<le> n\<close> show ?thesis unfolding log_room_def by linarith
qed

lemma unat_count_add:
  assumes "log_room 0 lf"
  shows "unat (lh_frame_count (lf_header lf) + lf_uncommitted_frame_count lf) = log_total lf"
  using assms by (simp add: log_room_def log_total_def unat_add_less)

lemma unat_next_byte_offset:
  assumes "log_room 0 lf"
  shows "unat (next_byte_offset lf) = LOG_HEADER_SIZE + log_total lf * FRAME_SIZE"
  using assms unat_absolute_byte_offset unat_count_add [OF assms]
  by (simp add: next_byte_offset_def log_room_def)

lemma next_frame_no_total:
  "next_frame_no lf = lh_start_frame_no (lf_header lf) + word_of_nat (log_total lf)"
  by (simp add: next_frame_no_def log_total_def add.assoc)


definition pushed_frame :: "crc64 \<Rightarrow> WalPage \<Rightarrow> LogFile \<Rightarrow> Frame" where
  "pushed_frame crc page lf =
     header_bytes \<lparr> fh_frame_no = next_frame_no lf,
                    fh_checksum = crc (lf_uncommitted_checksum lf) (wp_data page),
                    fh_page_no = wp_page_no page, fh_size_after = wp_size_after page \<rparr>
       @ wp_data page"

lemma frame_header_append [simp]: "frame_header (header_bytes h @ d) = h"
  by (simp add: frame_header_def codec_simps)

lemma frame_page_append [simp]: "frame_page (header_bytes h @ d) = d"
  by (simp add: frame_page_def)

lemma pushed_frame_simps [simp]:
  "frame_no (pushed_frame crc page lf) = next_frame_no lf"
  "frame_checksum (pushed_frame crc page lf) = crc (lf_uncommitted_checksum lf) (wp_data page)"
  "frame_page_no (pushed_frame crc page lf) = wp_page_no page"
  "frame_size_after (pushed_frame crc page lf) = wp_size_after page"
  "frame_page (pushed_frame crc page lf) = wp_data page"
  by (simp_all add: pushed_frame_def)

lemma length_pushed_frame:
  "length (wp_data page) = WAL_PAGE_SIZE \<Longrightarrow> length (pushed_frame crc page lf) = FRAME_SIZE"
  by (simp add: pushed_frame_def FRAME_SIZE_def)

text \<open>\<^const>\<open>push_page\<close> by the length of the page and the outcome of the write.\<close>

lemma push_page_eq:
  "push_page crc io page lf =
     (if length (wp_data page) \<noteq> WAL_PAGE_SIZE then (Inl Panicked, lf)
      else let f = snd (write_all_at io (unat (next_byte_offset lf)) (pushed_frame crc page lf)
                         (lf_file lf))
           in if io = IoOk
              then (Inr (), lf\<lparr>lf_file := f,
                              lf_uncommitted_frame_count := lf_uncommitted_frame_count lf + 1,
                              lf_uncommitted_checksum :=
                                crc (lf_uncommitted_checksum lf) (wp_data page)\<rparr>)
              else (Inl IoError, lf\<lparr>lf_file := f\<rparr>))"
  by (auto simp: push_page_def from_parts_def pushed_frame_def page_checksum_def Let_def
      write_all_at_def split: io.splits)

lemma push_page_IoOk:
  assumes "push_page crc io page lf = (Inr u, lf')"
  shows "io = IoOk" "length (wp_data page) = WAL_PAGE_SIZE"
    "lf' = lf\<lparr>lf_file := put_at (unat (next_byte_offset lf)) (pushed_frame crc page lf) (lf_file lf),
             lf_uncommitted_frame_count := lf_uncommitted_frame_count lf + 1,
             lf_uncommitted_checksum := crc (lf_uncommitted_checksum lf) (wp_data page)\<rparr>"
  using assms by (auto simp: push_page_eq Let_def write_all_at_def split: if_splits)

lemma push_page_Inl:
  assumes "push_page crc io page lf = (Inl e, lf')"
  obtains io' bs where
    "lf' = lf\<lparr>lf_file := snd (write_all_at io' (unat (next_byte_offset lf)) bs (lf_file lf))\<rparr>"
  using assms that [of "IoErr 0"]
  by (auto simp: push_page_eq Let_def write_all_at_def split: if_splits)

lemma log_committed_cong:
  assumes "lf_header lf' = lf_header lf"
    and "\<And>i. i < unat (lh_frame_count (lf_header lf)) \<Longrightarrow> slot (lf_file lf') i = slot (lf_file lf) i"
  shows "log_committed lf' = log_committed lf"
  using assms by (simp add: log_committed_def)

lemma log_total_Suc:
  assumes "log_room 1 lf" "lf_header lf' = lf_header lf"
    "lf_uncommitted_frame_count lf' = lf_uncommitted_frame_count lf + 1"
  shows "log_total lf' = Suc (log_total lf)"
proof -
  have "unat (lf_uncommitted_frame_count lf) < 2 ^ 64 - 1"
    using assms(1) by (simp add: log_room_def log_total_def)
  then show ?thesis
    using assms(2,3) by (simp add: log_total_def unat_add_one)
qed

lemma log_inv_offset:
  "log_inv lf \<Longrightarrow> unat (next_byte_offset lf) = LOG_HEADER_SIZE + log_total lf * FRAME_SIZE"
  by (simp add: log_inv_def unat_next_byte_offset)

text \<open>Writing at or after the next free slot keeps everything the log holds.\<close>

lemma log_write_later:
  assumes inv: "log_inv lf"
    and lf': "lf' = lf\<lparr>lf_file := snd (write_all_at io (unat (next_byte_offset lf)) bs (lf_file lf))\<rparr>"
  shows "log_inv lf'" "log_committed lf' = log_committed lf" "log_pending lf' = log_pending lf"
proof -
  have off: "unat (next_byte_offset lf) = LOG_HEADER_SIZE + log_total lf * FRAME_SIZE"
    using inv by (rule log_inv_offset)
  have len: "LOG_HEADER_SIZE + log_total lf * FRAME_SIZE \<le> length (lf_file lf)"
    using inv by (simp add: log_inv_def)
  have slots: "slot (lf_file lf') i = slot (lf_file lf) i" if "i < log_total lf" for i
    using that off len by (simp add: lf' slot_write_later)
  have tot: "log_total lf' = log_total lf" by (simp add: log_total_def lf')
  have hdr: "read_header (lf_file lf') = read_header (lf_file lf)"
    using off len by (simp add: lf' read_header_write_later)
  have "length (lf_file lf) \<le> length (lf_file lf')"
    by (simp add: lf' length_write_all_at)
  then show "log_inv lf'"
    using inv slots hdr tot by (auto simp: log_inv_def log_room_def lf')
  show "log_committed lf' = log_committed lf"
    using slots by (simp add: log_committed_def lf' log_total_def)
  show "log_pending lf' = log_pending lf"
    using slots tot by (simp add: log_pending_def lf')
qed

lemma push_page_error:
  assumes "log_inv lf" "push_page crc io page lf = (Inl e, lf')"
  shows "log_inv lf'" "log_committed lf' = log_committed lf" "log_pending lf' = log_pending lf"
    "lf_header lf' = lf_header lf" "log_total lf' = log_total lf"
    "lf_commited_checksum lf' = lf_commited_checksum lf"
    "lf_uncommitted_checksum lf' = lf_uncommitted_checksum lf"
proof -
  obtain io' bs where lf':
    "lf' = lf\<lparr>lf_file := snd (write_all_at io' (unat (next_byte_offset lf)) bs (lf_file lf))\<rparr>"
    using assms(2) by (rule push_page_Inl)
  show "log_inv lf'" "log_committed lf' = log_committed lf" "log_pending lf' = log_pending lf"
    by (rule log_write_later [OF assms(1) lf'])+
  show "lf_header lf' = lf_header lf" "log_total lf' = log_total lf"
    "lf_commited_checksum lf' = lf_commited_checksum lf"
    "lf_uncommitted_checksum lf' = lf_uncommitted_checksum lf"
    by (simp_all add: lf' log_total_def)
qed

lemma push_page_ok:
  assumes inv: "log_inv lf" and room: "log_room 1 lf"
    and push: "push_page crc io page lf = (Inr u, lf')"
  shows "log_inv lf'" "log_committed lf' = log_committed lf"
    "log_pending lf' = log_pending lf @ [pushed_frame crc page lf]"
    "lf_header lf' = lf_header lf" "log_total lf' = Suc (log_total lf)"
    "lf_commited_checksum lf' = lf_commited_checksum lf"
    "lf_uncommitted_checksum lf' = crc (lf_uncommitted_checksum lf) (wp_data page)"
proof -
  note lf' = push_page_IoOk(3) [OF push]
  have data: "length (wp_data page) = WAL_PAGE_SIZE" by (rule push_page_IoOk(2) [OF push])
  have off: "unat (next_byte_offset lf) = LOG_HEADER_SIZE + log_total lf * FRAME_SIZE"
    using inv by (rule log_inv_offset)
  define mid where
    "mid = lf\<lparr>lf_file := snd (write_all_at IoOk (unat (next_byte_offset lf))
                               (pushed_frame crc page lf) (lf_file lf))\<rparr>"
  have same: "lf_file mid = lf_file lf'" by (simp add: mid_def lf' write_all_at_def)
  have mid: "log_inv mid" "log_committed mid = log_committed lf" "log_pending mid = log_pending lf"
    by (rule log_write_later [OF inv mid_def])+
  have tot_mid: "log_total mid = log_total lf" and hdr_mid: "lf_header mid = lf_header lf"
    by (simp_all add: mid_def log_total_def)
  show hdr: "lf_header lf' = lf_header lf" by (simp add: lf')
  show tot: "log_total lf' = Suc (log_total lf)"
    by (rule log_total_Suc [OF room hdr]) (simp add: lf')
  have new: "slot (lf_file lf') (log_total lf) = pushed_frame crc page lf"
    using off length_pushed_frame [OF data, of crc lf]
      byte_slice_put_at_same [of "LOG_HEADER_SIZE + log_total lf * FRAME_SIZE" "pushed_frame crc page lf"]
    by (simp add: lf' slot_def)
  have len: "LOG_HEADER_SIZE + Suc (log_total lf) * FRAME_SIZE \<le> length (lf_file lf')"
    using off by (simp add: lf' length_pushed_frame [OF data])
  have room': "log_room 0 lf'"
    using room tot by (simp add: log_room_def hdr)
  have "\<forall>i<Suc (log_total lf).
          frame_no (slot (lf_file lf') i) = lh_start_frame_no (lf_header lf) + word_of_nat i"
    using mid(1) new by (auto simp: log_inv_def less_Suc_eq tot_mid hdr_mid same next_frame_no_total)
  then show "log_inv lf'"
    using mid(1) len room' by (simp add: log_inv_def tot hdr hdr_mid same)
  show "log_committed lf' = log_committed lf"
    using mid(2) by (simp add: log_committed_def same hdr hdr_mid)
  show "log_pending lf' = log_pending lf @ [pushed_frame crc page lf]"
    using mid(3) new
    by (simp add: log_pending_def same hdr hdr_mid tot tot_mid) (simp add: log_total_def)
  show "lf_commited_checksum lf' = lf_commited_checksum lf"
    "lf_uncommitted_checksum lf' = crc (lf_uncommitted_checksum lf) (wp_data page)"
    by (simp_all add: lf')
qed

lemma log_rollback_facts:
  assumes "log_inv lf"
  shows "log_inv (log_rollback lf)" "log_committed (log_rollback lf) = log_committed lf"
    "log_pending (log_rollback lf) = []"
proof -
  have tot: "log_total (log_rollback lf) \<le> log_total lf"
    by (simp add: log_total_def log_rollback_def)
  have eq: "lf_file (log_rollback lf) = lf_file lf" "lf_header (log_rollback lf) = lf_header lf"
    by (simp_all add: log_rollback_def)
  show "log_inv (log_rollback lf)"
    using assms tot unfolding log_inv_def log_room_def eq log_sizes by auto
  show "log_committed (log_rollback lf) = log_committed lf" "log_pending (log_rollback lf) = []"
    by (simp_all add: log_committed_def log_pending_def log_rollback_def log_total_def)
qed

lemma log_commit_IoOk:
  assumes inv: "log_inv lf" and c: "log_commit io lf = (Inr u, lf')"
  shows "log_inv lf'" "log_committed lf' = log_committed lf @ log_pending lf"
    "log_pending lf' = []" "log_total lf' = log_total lf"
    "lh_start_frame_no (lf_header lf') = lh_start_frame_no (lf_header lf)"
    "lh_start_checksum (lf_header lf') = lh_start_checksum (lf_header lf)"
    "lf_commited_checksum lf' = lf_uncommitted_checksum lf"
    "lf_uncommitted_checksum lf' = lf_uncommitted_checksum lf"
proof -
  define h where "h = (lf_header lf)\<lparr>lh_frame_count :=
      lh_frame_count (lf_header lf) + lf_uncommitted_frame_count lf\<rparr>"
  have lf': "lf' = lf\<lparr>lf_file := put_at 0 (log_header_bytes h) (lf_file lf), lf_header := h,
                      lf_uncommitted_frame_count := 0,
                      lf_commited_checksum := lf_uncommitted_checksum lf\<rparr>"
    using c by (auto simp: log_commit_def write_header_def h_def write_all_at_def
        split: io.splits prod.splits if_splits)
  have cnt: "unat (lh_frame_count h) = log_total lf"
    using inv by (simp add: h_def log_inv_def unat_count_add)
  show tot: "log_total lf' = log_total lf" using cnt by (simp add: lf' log_total_def)
  have long: "LOG_HEADER_SIZE \<le> length (lf_file lf)" using inv by (simp add: log_inv_def)
  have slots: "slot (lf_file lf') i = slot (lf_file lf) i" for i
    using long by (simp add: lf' slot_put_header)
  have "lh_magic h = WAL_MAGIC"
    using inv read_header_magic by (auto simp: log_inv_def h_def)
  then have hdr: "read_header (lf_file lf') = Inr h" by (simp add: lf' read_header_put)
  have start: "lh_start_frame_no h = lh_start_frame_no (lf_header lf)" by (simp add: h_def)
  have "lf_header lf' = h" by (simp add: lf')
  moreover have "length (lf_file lf) \<le> length (lf_file lf')" by (simp add: lf')
  ultimately show "log_inv lf'"
    using inv slots hdr start by (auto simp: log_inv_def log_room_def tot)
  show "lh_start_frame_no (lf_header lf') = lh_start_frame_no (lf_header lf)"
    "lh_start_checksum (lf_header lf') = lh_start_checksum (lf_header lf)"
    "lf_commited_checksum lf' = lf_uncommitted_checksum lf"
    "lf_uncommitted_checksum lf' = lf_uncommitted_checksum lf"
    by (simp_all add: lf' h_def)
  have "[0..<log_total lf] =
        [0..<unat (lh_frame_count (lf_header lf))] @ [unat (lh_frame_count (lf_header lf))..<log_total lf]"
    using upt_add_eq_append [of 0 "unat (lh_frame_count (lf_header lf))"]
    by (simp add: log_total_def)
  then show "log_committed lf' = log_committed lf @ log_pending lf"
    using slots cnt by (simp add: log_committed_def log_pending_def lf')
  show "log_pending lf' = []" using cnt by (simp add: log_pending_def lf' log_total_def)
qed


section \<open>Reading frames back\<close>

lemma length_log_committed [simp]:
  "length (log_committed lf) = unat (lh_frame_count (lf_header lf))"
  by (simp add: log_committed_def)

lemma read_slot:
  assumes "log_inv lf" "i < unat (lh_frame_count (lf_header lf))"
  shows "read_frame_byte_offset (absolute_byte_offset (word_of_nat i)) lf = Inr (log_committed lf ! i)"
proof -
  have le: "Suc i \<le> log_total lf" using assms(2) by (simp add: log_total_def)
  then have le': "LOG_HEADER_SIZE + Suc i * FRAME_SIZE \<le> LOG_HEADER_SIZE + log_total lf * FRAME_SIZE"
    by (intro add_le_mono mult_le_mono1) simp_all
  have room: "LOG_HEADER_SIZE + log_total lf * FRAME_SIZE < 2 ^ 64"
    "LOG_HEADER_SIZE + log_total lf * FRAME_SIZE \<le> length (lf_file lf)"
    using assms(1) by (simp_all add: log_inv_def log_room_def)
  have i: "unat (word_of_nat i :: u64) = i"
    using assms(2) unat_u64_less [of "lh_frame_count (lf_header lf)"]
    by (simp add: unat_of_nat)
  have off: "unat (absolute_byte_offset (word_of_nat i)) = LOG_HEADER_SIZE + i * FRAME_SIZE"
    using le' room(1) by (subst unat_absolute_byte_offset) (simp_all add: i)
  have fits: "LOG_HEADER_SIZE + i * FRAME_SIZE + FRAME_SIZE \<le> length (lf_file lf)"
    using le' room(2) by simp
  then have "read_exact_at (LOG_HEADER_SIZE + i * FRAME_SIZE) FRAME_SIZE (lf_file lf)
             = Some (slot (lf_file lf) i)"
    by (simp add: read_exact_at_def slot_def)
  moreover have "length (slot (lf_file lf) i) = FRAME_SIZE"
    unfolding slot_def by (rule length_byte_slice) (rule fits)
  ultimately show ?thesis
    using assms(2) by (simp add: read_frame_byte_offset_def off try_from_bytes_def log_committed_def)
qed

lemma frames_iter_committed:
  "log_inv lf \<Longrightarrow> frames_iter lf = map Inr (log_committed lf)"
  by (rule nth_equalityI) (simp_all add: frames_iter_def read_slot)

lemma rev_frames_iter_rev: "rev_frames_iter lf = rev (frames_iter lf)"
  by (simp add: rev_frames_iter_def frames_iter_def rev_map)

lemma rev_frames_iter_committed:
  "log_inv lf \<Longrightarrow> rev_frames_iter lf = map Inr (rev (log_committed lf))"
  by (simp add: rev_frames_iter_rev frames_iter_committed rev_map)

lemma unat_start_count:
  assumes "log_inv lf"
  shows "unat (lh_start_frame_no (lf_header lf) + lh_frame_count (lf_header lf))
           = unat (lh_start_frame_no (lf_header lf)) + unat (lh_frame_count (lf_header lf))"
  using assms by (intro unat_add_less) (simp add: log_inv_def log_room_def log_total_def)

lemma log_frame_lookup:
  assumes inv: "log_inv lf"
  shows "log_frame n lf =
    (if n < lh_start_frame_no (lf_header lf) then Inl SnapshotRequired
     else if unat (lh_start_frame_no (lf_header lf)) + length (log_committed lf) \<le> unat n
     then Inl Ahead
     else Inr (log_committed lf ! (unat n - unat (lh_start_frame_no (lf_header lf)))))"
proof -
  define s c where "s = lh_start_frame_no (lf_header lf)" and "c = lh_frame_count (lf_header lf)"
  have sc: "unat (s + c) = unat s + unat c"
    unfolding s_def c_def by (rule unat_start_count [OF inv])
  have ahead: "s + c \<le> n \<longleftrightarrow> unat s + unat c \<le> unat n"
    by (simp add: word_le_nat_alt sc)
  { assume ge: "\<not> n < s" and lt: "\<not> s + c \<le> n"
    then have le: "s \<le> n" by simp
    have u: "unat (n - s) = unat n - unat s" using le by (rule unat_sub_ge)
    have i: "unat n - unat s < unat c"
      using le lt sc by (simp add: word_le_nat_alt)
    have w: "n - s = word_of_nat (unat n - unat s)"
      by (simp flip: u)
    have "byte_offset n lf = Some (absolute_byte_offset (n - s))"
      using ge lt by (auto simp: byte_offset_def Let_def s_def c_def)
    moreover have "read_frame_byte_offset (absolute_byte_offset (n - s)) lf
                   = Inr (log_committed lf ! (unat n - unat s))"
      unfolding w by (rule read_slot [OF inv]) (use i in \<open>simp add: c_def\<close>)
    ultimately have "log_frame n lf = Inr (log_committed lf ! (unat n - unat s))"
      using ge lt by (simp add: log_frame_def Let_def s_def c_def) }
  then show ?thesis
    using ahead by (auto simp: log_frame_def Let_def s_def [symmetric] c_def [symmetric])
qed

lemma committed_frame_no:
  assumes "log_inv lf" "i < length (log_committed lf)"
  shows "frame_no (log_committed lf ! i) = lh_start_frame_no (lf_header lf) + word_of_nat i"
  using assms by (simp add: log_inv_def log_committed_def log_total_def)

section \<open>The checksum chain\<close>

text \<open>
  Each frame carries the CRC of its page continued from the checksum of the
  frame before it; the first one continues from a base.
\<close>

fun chain :: "crc64 \<Rightarrow> u64 \<Rightarrow> Frame list \<Rightarrow> bool" where
  "chain crc s [] \<longleftrightarrow> True"
| "chain crc s (f # fs) \<longleftrightarrow>
     frame_checksum f = crc s (frame_page f) \<and> chain crc (frame_checksum f) fs"

definition last_sum :: "u64 \<Rightarrow> Frame list \<Rightarrow> u64" where
  "last_sum s fs = (if fs = [] then s else frame_checksum (last fs))"

definition log_chain :: "crc64 \<Rightarrow> u64 \<Rightarrow> LogFile \<Rightarrow> bool" where
  "log_chain crc base lf \<longleftrightarrow>
     chain crc base (log_committed lf @ log_pending lf) \<and>
     lf_commited_checksum lf = last_sum base (log_committed lf) \<and>
     lf_uncommitted_checksum lf = last_sum base (log_committed lf @ log_pending lf)"

lemma last_sum_Cons [simp]: "last_sum s (f # fs) = last_sum (frame_checksum f) fs"
  by (simp add: last_sum_def)

lemma last_sum_Nil [simp]: "last_sum s [] = s"
  by (simp add: last_sum_def)

lemma last_sum_append [simp]: "last_sum s (fs @ gs) = last_sum (last_sum s fs) gs"
  by (induction fs arbitrary: s) simp_all

lemma chain_append [simp]:
  "chain crc s (fs @ gs) \<longleftrightarrow> chain crc s fs \<and> chain crc (last_sum s fs) gs"
  by (induction fs arbitrary: s) auto

lemma verify_frames_chain:
  "verify_frames crc s (map Inr fs) =
     (if chain crc s fs then Inr (last_sum s fs) else Inl InvalidChecksum)"
  by (induction fs arbitrary: s) (auto simp: Let_def)

lemma compute_checksum_chain:
  "log_inv lf \<Longrightarrow>
   compute_checksum crc h lf =
     (if chain crc (lh_start_checksum h) (log_committed lf)
      then Inr (last_sum (lh_start_checksum h) (log_committed lf)) else Inl InvalidChecksum)"
  by (simp add: compute_checksum_def frames_iter_committed verify_frames_chain)

lemma log_chain_push:
  assumes "log_inv lf" "log_room 1 lf" "log_chain crc base lf"
    "push_page crc io page lf = (Inr u, lf')"
  shows "log_chain crc base lf'"
  using assms(3) push_page_ok [OF assms(1,2,4)] by (simp add: log_chain_def)

lemma log_chain_error:
  assumes "log_inv lf" "log_chain crc base lf" "push_page crc io page lf = (Inl e, lf')"
  shows "log_chain crc base lf'"
  using assms(2) push_page_error [OF assms(1,3)] by (simp add: log_chain_def)

lemma log_chain_commit:
  assumes "log_inv lf" "log_chain crc base lf" "log_commit io lf = (Inr u, lf')"
  shows "log_chain crc base lf'"
  using assms(2) log_commit_IoOk [OF assms(1,3)] by (simp add: log_chain_def)

lemma log_chain_rollback:
  assumes "log_inv lf" "log_chain crc base lf"
  shows "log_chain crc base (log_rollback lf)"
  using assms(2) log_rollback_facts [OF assms(1)]
  by (simp add: log_chain_def) (simp add: log_rollback_def)


section \<open>The interface of a transactional log\<close>

text \<open>
  What the WAL hook relies on: pushing never touches what is committed and
  appends at most one pending entry, committing appends exactly the pending
  entries, rolling back forgets them.
\<close>

fun push_all :: "('io \<Rightarrow> 'p \<Rightarrow> 'l \<Rightarrow> ('e + unit) \<times> 'l) \<Rightarrow> (nat \<Rightarrow> 'io) \<Rightarrow> 'p list \<Rightarrow> 'l
    \<Rightarrow> ('e + unit) \<times> 'l" where
  "push_all push ios [] l = (Inr (), l)"
| "push_all push ios (p # ps) l =
     (case push (ios 0) p l of
        (Inl e, l) \<Rightarrow> (Inl e, l)
      | (Inr _, l) \<Rightarrow> push_all push (\<lambda>n. ios (Suc n)) ps l)"

locale txn_log =
  fixes inv :: "'l \<Rightarrow> bool"
    and room :: "nat \<Rightarrow> 'l \<Rightarrow> bool"
    and committed :: "'l \<Rightarrow> 'f list"
    and pending :: "'l \<Rightarrow> 'f list"
    and entry_of :: "'f \<Rightarrow> 'p \<Rightarrow> bool"
    and push :: "'io \<Rightarrow> 'p \<Rightarrow> 'l \<Rightarrow> ('e + unit) \<times> 'l"
    and commit :: "'io \<Rightarrow> 'l \<Rightarrow> ('e + unit) \<times> 'l"
    and rollback :: "'l \<Rightarrow> 'l"
  assumes push_fails:
      "inv l \<Longrightarrow> push io p l = (Inl e, l') \<Longrightarrow>
       inv l' \<and> committed l' = committed l \<and> pending l' = pending l"
    and push_works:
      "inv l \<Longrightarrow> room (Suc n) l \<Longrightarrow> push io p l = (Inr (), l') \<Longrightarrow>
       inv l' \<and> room n l' \<and> committed l' = committed l \<and>
       (\<exists>f. entry_of f p \<and> pending l' = pending l @ [f])"
    and commit_works:
      "inv l \<Longrightarrow> commit io l = (Inr (), l') \<Longrightarrow>
       inv l' \<and> committed l' = committed l @ pending l \<and> pending l' = []"
    and rollback_works:
      "inv l \<Longrightarrow>
       inv (rollback l) \<and> committed (rollback l) = committed l \<and> pending (rollback l) = []"
begin

lemma push_all_keeps:
  "inv l \<Longrightarrow> room (length ps) l \<Longrightarrow> push_all push ios ps l = (r, l') \<Longrightarrow>
   inv l' \<and> committed l' = committed l \<and>
   (\<exists>fs. pending l' = pending l @ fs \<and> (r = Inr () \<longrightarrow> list_all2 entry_of fs ps))"
proof (induction ps arbitrary: l ios)
  case (Cons p ps)
  show ?case
  proof (cases "push (ios 0) p l")
    case (Pair r1 l1)
    show ?thesis
    proof (cases r1)
      case (Inl e)
      then show ?thesis
        using Cons.prems push_fails Pair by fastforce
    next
      case (Inr u)
      have l1: "inv l1" "room (length ps) l1" "committed l1 = committed l"
        and "\<exists>f. entry_of f p \<and> pending l1 = pending l @ [f]"
        using push_works [of l "length ps"] Cons.prems Pair Inr by auto
      then obtain f where f: "entry_of f p" "pending l1 = pending l @ [f]" by blast
      have "push_all push (\<lambda>n. ios (Suc n)) ps l1 = (r, l')"
        using Cons.prems(3) Pair Inr by simp
      from Cons.IH [OF l1(1,2) this] obtain fs where
        "inv l'" "committed l' = committed l1" "pending l' = pending l1 @ fs"
        "r = Inr () \<longrightarrow> list_all2 entry_of fs ps" by blast
      then show ?thesis
        using f l1(3) by (intro conjI exI [of _ "f # fs"]) simp_all
    qed
  qed
qed auto

text \<open>Pushing, whether it succeeds or fails half way, and then rolling back is a no-op.\<close>

lemma rollback_push_all:
  assumes "inv l" "room (length ps) l" "push_all push ios ps l = (r, l')"
  shows "inv (rollback l') \<and> committed (rollback l') = committed l \<and> pending (rollback l') = []"
  using push_all_keeps [OF assms] rollback_works by metis

lemma commit_push_all:
  assumes "inv l" "room (length ps) l" "pending l = []"
    and "push_all push ios ps l = (Inr (), l1)" "commit io l1 = (Inr (), l')"
  shows "\<exists>fs. committed l' = committed l @ fs \<and> list_all2 entry_of fs ps"
    and "inv l'" and "pending l' = []"
  using push_all_keeps [OF assms(1,2,4)] commit_works [OF _ assms(5)] assms(3) by auto

end

definition frame_of_page :: "Frame \<Rightarrow> WalPage \<Rightarrow> bool" where
  "frame_of_page f p \<longleftrightarrow>
     frame_page_no f = wp_page_no p \<and> frame_size_after f = wp_size_after p \<and>
     frame_page f = wp_data p"

lemma log_room_step:
  assumes "log_room (Suc n) lf" "log_total lf' = Suc (log_total lf)" "lf_header lf' = lf_header lf"
  shows "log_room n lf'"
  using assms by (simp add: log_room_def)

interpretation shadow_wal: txn_log log_inv log_room log_committed log_pending frame_of_page
  "push_page crc" log_commit log_rollback for crc
proof (unfold_locales, goal_cases)
  case (1 l io p e l')
  then show ?case by (simp add: push_page_error)
next
  case (2 l n io p l')
  have "log_room 1 l" using 2(2) by (rule log_room_mono) simp
  note ok = push_page_ok [OF 2(1) this 2(3)]
  show ?case
    using ok log_room_step [OF 2(2) ok(5,4)]
    by (auto simp: frame_of_page_def intro: exI [of _ "pushed_frame crc p l"])
next
  case (3 l io l')
  then show ?case by (simp add: log_commit_IoOk)
next
  case (4 l)
  then show ?case by (simp add: log_rollback_facts)
qed

section \<open>Opening, reopening and compacting a log\<close>

lemma log_new_fresh:
  assumes "log_new now uuid v io [] mc md = Inr lf"
  shows "log_inv lf" "log_committed lf = []" "log_pending lf = []" "log_chain crc 0 lf"
    "lh_start_frame_no (lf_header lf) = 0" "lh_start_checksum (lf_header lf) = 0"
proof -
  define h where "h = \<lparr> lh_magic = WAL_MAGIC, lh_start_checksum = 0, lh_db_id = uuid,
       lh_start_frame_no = 0, lh_frame_count = 0, lh_version = 2,
       lh_page_size = word_of_nat WAL_PAGE_SIZE, lh_sqld_version = v \<rparr>"
  have lf: "lf = \<lparr> lf_file = put_at 0 (log_header_bytes h) [], lf_header = h,
       lf_max_log_frame_count = mc, lf_max_log_duration = md, lf_last_compact_instant = now,
       lf_uncommitted_frame_count = 0, lf_uncommitted_checksum = 0, lf_commited_checksum = 0 \<rparr>"
    using assms
    by (auto simp: log_new_def write_header_def write_all_at_def h_def Let_def
        split: io.splits if_splits)
  have tot: "log_total lf = 0" by (simp add: lf log_total_def h_def)
  have "read_header (lf_file lf) = Inr h"
    by (simp add: lf read_header_put) (simp add: h_def read_header_put)
  then show "log_inv lf"
    using tot by (simp add: log_inv_def log_room_def) (simp add: lf h_def log_sizes)
  show c: "log_committed lf = []" "log_pending lf = []"
    by (simp_all add: log_committed_def log_pending_def tot) (simp_all add: lf h_def)
  show "log_chain crc 0 lf" by (simp add: log_chain_def c) (simp add: lf)
  show "lh_start_frame_no (lf_header lf) = 0" "lh_start_checksum (lf_header lf) = 0"
    by (simp_all add: lf h_def)
qed

text \<open>
  Opening the file a well-formed log has left behind gives exactly its committed
  frames: what was pushed and not committed is gone.
\<close>

lemma log_new_reopen:
  assumes inv: "log_inv lf" and ch: "log_chain crc (lh_start_checksum (lf_header lf)) lf"
  obtains lf' where "log_new now uuid v io (lf_file lf) mc md = Inr lf'"
    "log_inv lf'" "log_committed lf' = log_committed lf" "log_pending lf' = []"
    "lf_header lf' = lf_header lf" "log_chain crc (lh_start_checksum (lf_header lf)) lf'"
proof -
  define h where "h = lf_header lf"
  define this0 where "this0 = \<lparr> lf_file = lf_file lf, lf_header = h,
       lf_max_log_frame_count = mc, lf_max_log_duration = md, lf_last_compact_instant = now,
       lf_uncommitted_frame_count = 0, lf_uncommitted_checksum = 0, lf_commited_checksum = 0 \<rparr>"
  define cs where "cs = last_sum (lh_start_checksum h) (log_committed lf)"
  define lf' where "lf' = this0\<lparr>lf_commited_checksum := cs, lf_uncommitted_checksum := cs\<rparr>"
  have hd: "read_header (lf_file lf) = Inr h" using inv by (simp add: log_inv_def h_def)
  have ne: "lf_file lf \<noteq> []"
    using read_header_length [OF hd] by (auto simp: LOG_HEADER_SIZE_def)
  have roll: "log_inv (log_rollback lf)" by (rule log_rollback_facts [OF inv])
  have inv0: "log_inv this0"
    using roll by (simp add: log_inv_def log_room_def log_total_def log_rollback_def this0_def h_def)
  have h0: "lf_header this0 = lf_header lf" by (simp add: this0_def h_def)
  have c0: "log_committed this0 = log_committed lf"
    by (simp add: log_committed_def this0_def h_def)
  have last: "log_frame (lh_start_frame_no h + lh_frame_count h - 1) this0
      = Inr (last (log_committed lf))" if "lh_frame_count h \<noteq> 0"
  proof -
    have pos: "0 < unat (lh_frame_count h)" using that by (simp add: unat_gt_0)
    have sc: "unat (lh_start_frame_no h + lh_frame_count h)
              = unat (lh_start_frame_no h) + unat (lh_frame_count h)"
      unfolding h_def by (rule unat_start_count [OF inv])
    have n: "unat (lh_start_frame_no h + lh_frame_count h - 1)
             = unat (lh_start_frame_no h) + unat (lh_frame_count h) - 1"
      using pos sc by (subst unat_sub_ge) (simp_all add: word_le_nat_alt)
    have "log_committed lf \<noteq> []" using pos by (simp add: log_committed_def h_def)
    then show ?thesis
      using pos n by (auto simp: log_frame_lookup [OF inv0] c0 last_conv_nth h0 h_def
          word_less_nat_alt)
  qed
  have new: "log_new now uuid v io (lf_file lf) mc md = Inr lf'"
  proof (cases "lh_frame_count h = 0")
    case True
    then have "cs = lh_start_checksum h" by (simp add: cs_def log_committed_def h_def)
    then show ?thesis
      using True hd ne
      by (simp add: log_new_def Let_def last_commited_frame_no_def this0_def lf'_def)
  next
    case False
    then have "log_committed lf \<noteq> []"
      by (simp add: log_committed_def h_def unat_eq_0)
    then have "cs = frame_checksum (last (log_committed lf))"
      by (simp add: cs_def last_sum_def)
    then show ?thesis
      using False hd ne last
      by (simp add: log_new_def Let_def last_commited_frame_no_def this0_def [symmetric])
        (simp add: this0_def lf'_def)
  qed
  have p': "log_pending lf' = []" by (simp add: log_pending_def log_total_def lf'_def this0_def)
  have c': "log_committed lf' = log_committed lf"
    using c0 by (simp add: log_committed_def lf'_def)
  have "log_inv lf'"
    using inv0 by (simp add: log_inv_def log_room_def log_total_def lf'_def)
  moreover have "log_chain crc (lh_start_checksum h) lf'"
    using ch by (simp add: log_chain_def c' p' h_def) (simp add: lf'_def cs_def h_def)
  ultimately show thesis
    using that new c' p' by (simp add: h_def lf'_def this0_def)
qed

lemma do_compaction_ok:
  assumes inv: "log_inv lf" and temp: "ce_temp_log env = Some []"
    and "do_compaction env size_after lf = (r, lf', jobs)" and "jobs \<noteq> []"
  shows "r = Inr ()" "jobs = [(lf, size_after)]" "log_inv lf'" "log_committed lf' = []"
    "log_pending lf' = []" "lf_uncommitted_frame_count lf = 0"
    "lh_start_frame_no (lf_header lf')
       = lh_start_frame_no (lf_header lf) + lh_frame_count (lf_header lf)"
    "lh_start_checksum (lf_header lf') = lf_commited_checksum lf"
    "lh_db_id (lf_header lf') = lh_db_id (lf_header lf)"
    "lf_uncommitted_checksum lf' = 0" "lf_commited_checksum lf' = 0"
proof -
  define h where "h = (lf_header lf)
      \<lparr>lh_start_frame_no := lh_start_frame_no (lf_header lf) + lh_frame_count (lf_header lf),
        lh_frame_count := 0, lh_start_checksum := lf_commited_checksum lf\<rparr>"
  obtain new where new: "log_new (ce_now env) (ce_uuid env) (ce_version env) (ce_io_new env) []
      (lf_max_log_frame_count lf) (lf_max_log_duration lf) = Inr new"
    using assms(3,4) temp
    by (cases "log_new (ce_now env) (ce_uuid env) (ce_version env) (ce_io_new env) []
      (lf_max_log_frame_count lf) (lf_max_log_duration lf)")
      (auto simp: do_compaction_def split: if_splits)
  note new_facts = log_new_fresh [OF new]
  have u: "lf_uncommitted_frame_count new = 0" "lf_uncommitted_checksum new = 0"
      "lf_commited_checksum new = 0"
    using new by (auto simp: log_new_def write_header_def write_all_at_def Let_def
        split: io.splits if_splits)
  have r: "r = Inr ()" "jobs = [(lf, size_after)]" "lf_uncommitted_frame_count lf = 0"
    "lf' = new\<lparr>lf_header := h, lf_file := put_at 0 (log_header_bytes h) (lf_file new)\<rparr>"
    using assms(3,4) temp new
    by (auto simp: do_compaction_def write_header_def write_all_at_def Let_def h_def
        split: if_splits io.splits)
  then show "r = Inr ()" "jobs = [(lf, size_after)]" "lf_uncommitted_frame_count lf = 0" by auto
  have magic: "lh_magic h = WAL_MAGIC"
    using inv read_header_magic by (auto simp: log_inv_def h_def)
  have tot: "log_total lf' = 0" by (simp add: log_total_def r h_def u)
  have hdr: "lf_header lf' = h" by (simp add: r)
  have "unat (lh_start_frame_no h) < 2 ^ 64" using unat_u64_less by simp
  then show "log_inv lf'"
    using read_header_put [OF magic] tot
    by (simp add: log_inv_def log_room_def hdr) (simp add: r log_sizes)
  show "log_committed lf' = []" "log_pending lf' = []"
    by (simp_all add: log_committed_def log_pending_def tot hdr) (simp add: h_def)
  show "lh_start_frame_no (lf_header lf')
       = lh_start_frame_no (lf_header lf) + lh_frame_count (lf_header lf)"
    "lh_start_checksum (lf_header lf') = lf_commited_checksum lf"
    "lh_db_id (lf_header lf') = lh_db_id (lf_header lf)"
    "lf_uncommitted_checksum lf' = 0" "lf_commited_checksum lf' = 0"
    by (simp_all add: r h_def u)
qed


section \<open>Reachable logs\<close>

datatype log_event = EvPush WalPage | EvPushFailed WalPage | EvCommit | EvRollback | EvReopen

inductive log_step :: "crc64 \<Rightarrow> LogFile \<Rightarrow> log_event \<Rightarrow> LogFile \<Rightarrow> bool" for crc :: crc64 where
  step_push: "log_room 1 lf \<Longrightarrow> push_page crc io p lf = (Inr (), lf') \<Longrightarrow>
    log_step crc lf (EvPush p) lf'"
| step_push_failed: "push_page crc io p lf = (Inl e, lf') \<Longrightarrow>
    log_step crc lf (EvPushFailed p) lf'"
| step_commit: "log_commit io lf = (Inr (), lf') \<Longrightarrow> log_step crc lf EvCommit lf'"
| step_rollback: "log_step crc lf EvRollback (log_rollback lf)"
| step_reopen: "log_new now uuid v io (lf_file lf) mc md = Inr lf' \<Longrightarrow>
    log_step crc lf EvReopen lf'"

definition log_start :: "LogFile \<Rightarrow> bool" where
  "log_start lf \<longleftrightarrow> (\<exists>now uuid v io mc md. log_new now uuid v io [] mc md = Inr lf)"

definition log_good :: "crc64 \<Rightarrow> LogFile \<Rightarrow> bool" where
  "log_good crc lf \<longleftrightarrow> log_inv lf \<and> log_chain crc (lh_start_checksum (lf_header lf)) lf"

lemma log_good_step:
  assumes "log_good crc lf" and step: "log_step crc lf e lf'"
  shows "log_good crc lf'"
proof -
  have g: "log_inv lf" "log_chain crc (lh_start_checksum (lf_header lf)) lf"
    using assms(1) by (simp_all add: log_good_def)
  from step show ?thesis
  proof cases
    case (step_push io p)
    then show ?thesis
      using push_page_ok(1,4) [OF g(1) _ step_push(3)] log_chain_push [OF g(1) _ g(2) step_push(3)]
      by (simp add: log_good_def)
  next
    case (step_push_failed io p e)
    then show ?thesis
      using push_page_error(1,4) [OF g(1) step_push_failed(2)]
        log_chain_error [OF g step_push_failed(2)]
      by (simp add: log_good_def)
  next
    case (step_commit io)
    then show ?thesis
      using log_commit_IoOk(1,6) [OF g(1) step_commit(2)] log_chain_commit [OF g step_commit(2)]
      by (simp add: log_good_def)
  next
    case step_rollback
    have "lf_header (log_rollback lf) = lf_header lf" by (simp add: log_rollback_def)
    then show ?thesis
      using log_rollback_facts(1) [OF g(1)] log_chain_rollback [OF g] step_rollback
      by (simp add: log_good_def)
  next
    case (step_reopen now uuid v io mc md)
    obtain lf'' where "log_new now uuid v io (lf_file lf) mc md = Inr lf''" "log_inv lf''"
      "lf_header lf'' = lf_header lf" "log_chain crc (lh_start_checksum (lf_header lf)) lf''"
      using log_new_reopen [OF g, of now uuid v io mc md] by metis
    then show ?thesis using step_reopen by (simp add: log_good_def)
  qed
qed

interpretation log_system: inductive_invariant log_start "log_step crc" "log_good crc" for crc
proof (unfold_locales, goal_cases)
  case (1 lf)
  then show ?case using log_new_fresh by (auto simp: log_start_def log_good_def)
next
  case (2 lf e lf')
  then show ?case by (rule log_good_step)
qed

section \<open>A concrete log\<close>

definition fresh_log :: LogFile where
  "fresh_log =
     \<lparr> lf_file = put_at 0 (log_header_bytes
          \<lparr> lh_magic = WAL_MAGIC, lh_start_checksum = 0, lh_db_id = 7,
            lh_start_frame_no = 0, lh_frame_count = 0, lh_version = 2,
            lh_page_size = word_of_nat WAL_PAGE_SIZE, lh_sqld_version = (0, 0, 22, 0) \<rparr>) [],
       lf_header = \<lparr> lh_magic = WAL_MAGIC, lh_start_checksum = 0, lh_db_id = 7,
            lh_start_frame_no = 0, lh_frame_count = 0, lh_version = 2,
            lh_page_size = word_of_nat WAL_PAGE_SIZE, lh_sqld_version = (0, 0, 22, 0) \<rparr>,
       lf_max_log_frame_count = 10, lf_max_log_duration = None, lf_last_compact_instant = 0,
       lf_uncommitted_frame_count = 0, lf_uncommitted_checksum = 0, lf_commited_checksum = 0 \<rparr>"

lemma fresh_log_new: "log_new 0 7 (0, 0, 22, 0) IoOk [] 10 None = Inr fresh_log"
  by (simp add: log_new_def fresh_log_def write_header_def write_all_at_def)

lemmas fresh_log_facts = log_new_fresh [OF fresh_log_new]

lemma fresh_log_start: "log_start fresh_log"
  unfolding log_start_def by (intro exI) (rule fresh_log_new)

lemma fresh_log_reach: "reach log_start (log_step crc) fresh_log"
  by (rule reach_init) (rule fresh_log_start)

lemma fresh_log_room: "n \<le> 1000 \<Longrightarrow> log_room n fresh_log"
  by (simp add: log_room_def log_total_def fresh_log_def log_sizes)

definition zero_page :: "u32 \<Rightarrow> u32 \<Rightarrow> WalPage" where
  "zero_page n sz = \<lparr> wp_page_no = n, wp_size_after = sz, wp_data = replicate 4096 0 \<rparr>"

lemma length_zero_page [simp]: "length (wp_data (zero_page n sz)) = WAL_PAGE_SIZE"
  by (simp add: zero_page_def WAL_PAGE_SIZE_def)

lemma push_page_success:
  assumes "length (wp_data p) = WAL_PAGE_SIZE"
  shows "fst (push_page crc IoOk p lf) = Inr ()"
  using assms by (simp add: push_page_eq Let_def)


definition one_frame_log :: LogFile where
  "one_frame_log =
     snd (log_commit IoOk (snd (push_page (\<lambda>s d. s) IoOk (zero_page 1 1) fresh_log)))"

lemma one_frame_log_facts:
  "reach log_start (log_step (\<lambda>s d. s)) one_frame_log"
  "log_inv one_frame_log"
  "log_committed one_frame_log = [pushed_frame (\<lambda>s d. s) (zero_page 1 1) fresh_log]"
  "lh_frame_count (lf_header one_frame_log) = 1"
  "lh_start_frame_no (lf_header one_frame_log) = 0"
proof -
  define crc :: crc64 where "crc = (\<lambda>s d. s)"
  define lf1 where "lf1 = snd (push_page crc IoOk (zero_page 1 1) fresh_log)"
  have lf2: "one_frame_log = snd (log_commit IoOk lf1)"
    by (simp add: one_frame_log_def lf1_def crc_def)
  have p: "push_page crc IoOk (zero_page 1 1) fresh_log = (Inr (), lf1)"
    using push_page_success [of "zero_page 1 1"] by (simp add: lf1_def prod_eq_iff)
  have c: "log_commit IoOk lf1 = (Inr (), one_frame_log)"
    by (simp add: lf2 log_commit_def write_header_def write_all_at_def)
  have room: "log_room 1 fresh_log" by (rule fresh_log_room) simp
  have "reach log_start (log_step crc) lf1"
    using fresh_log_reach by (rule reach_step) (rule step_push [OF room p])
  then have "reach log_start (log_step crc) one_frame_log"
    by (rule reach_step) (rule step_commit [OF c])
  then show "reach log_start (log_step (\<lambda>s d. s)) one_frame_log" by (simp add: crc_def)
  note p' = push_page_ok [OF fresh_log_facts(1) room p]
  show "log_inv one_frame_log"
    "log_committed one_frame_log = [pushed_frame (\<lambda>s d. s) (zero_page 1 1) fresh_log]"
    using log_commit_IoOk [OF p'(1) c] p'(2,3) fresh_log_facts(2,3) by (simp_all add: crc_def)
  show "lh_frame_count (lf_header one_frame_log) = 1"
    "lh_start_frame_no (lf_header one_frame_log) = 0"
    using push_page_IoOk(3) [OF p]
    by (simp_all add: lf2 log_commit_def write_header_def write_all_at_def)
      (simp_all add: fresh_log_def)
qed

section \<open>Properties of the log\<close>

text \<open>
  (C1) The running checksum of every log that pushes, failed pushes, commits,
  rollbacks and restarts can produce verifies, and its value is the checksum
  the log continues from.
\<close>

theorem reachable_log_verifies:
  assumes "reach log_start (log_step crc) lf"
  shows "compute_checksum crc (lf_header lf) lf = Inr (lf_commited_checksum lf)"
  using log_system.reach_inv [OF assms]
  by (simp add: log_good_def log_chain_def compute_checksum_chain)

theorem reachable_log_verifies_witness:
  "compute_checksum (\<lambda>s d. s + 1) (lf_header fresh_log) fresh_log = Inr 0"
  using reachable_log_verifies [OF fresh_log_reach, of "\<lambda>s d. s + 1"]
  by (simp add: fresh_log_def)



text \<open>
  (C19) A restart loses nothing that was committed and revives nothing that was
  not: opening the file of any reachable log succeeds and gives a log with the
  same header and the same committed frames, from which pushing continues the
  same checksum chain.
\<close>

theorem restart_keeps_committed_frames:
  assumes "reach log_start (log_step crc) lf"
  shows "\<exists>lf'. log_new now uuid v io (lf_file lf) mc md = Inr lf' \<and>
    lf_header lf' = lf_header lf \<and> log_committed lf' = log_committed lf \<and>
    log_pending lf' = [] \<and> lf_uncommitted_checksum lf' = lf_commited_checksum lf"
proof -
  have g: "log_inv lf" "log_chain crc (lh_start_checksum (lf_header lf)) lf"
    using log_system.reach_inv [OF assms] by (simp_all add: log_good_def)
  from log_new_reopen [OF this, of now uuid v io mc md] obtain lf' where
    "log_new now uuid v io (lf_file lf) mc md = Inr lf'" "log_committed lf' = log_committed lf"
    "log_pending lf' = []" "lf_header lf' = lf_header lf"
    "log_chain crc (lh_start_checksum (lf_header lf)) lf'" .
  then show ?thesis using g by (auto simp: log_chain_def)
qed

theorem restart_keeps_committed_frames_witness:
  "\<exists>lf'. log_new 5 9 (0, 0, 23, 0) IoOk (lf_file fresh_log) 10 None = Inr lf' \<and>
     lf_header lf' = lf_header fresh_log"
  using restart_keeps_committed_frames [OF fresh_log_reach [of "\<lambda>s d. s"]]
  by blast

text \<open>
  A compaction breaks the checksum chain: the fresh log announces the old
  checksum as its starting checksum but computes the next frame from zero, so
  the verification of the log rejects the first frame written after a
  compaction. The hypothesis on the CRC is its injectivity in the initial value.
\<close>

theorem compaction_breaks_checksum:
  assumes inv: "log_inv lf" and temp: "ce_temp_log env = Some []"
    and compact: "do_compaction env size_after lf = (r, lf1, jobs)" "jobs \<noteq> []"
    and push: "log_room 1 lf1" "push_page crc io page lf1 = (Inr (), lf2)"
    and commit: "log_commit io' lf2 = (Inr (), lf3)"
    and crc: "\<And>s s' d. crc s d = crc s' d \<Longrightarrow> s = s'"
    and "lf_commited_checksum lf \<noteq> 0"
  shows "compute_checksum crc (lf_header lf3) lf3 = Inl InvalidChecksum"
proof -
  note d = do_compaction_ok [OF inv temp compact]
  note p = push_page_ok [OF d(3) push]
  note c = log_commit_IoOk [OF p(1) commit]
  have "log_committed lf3 = [pushed_frame crc page lf1]"
    using c(2) p(2,3) d(4,5) by simp
  moreover have "lh_start_checksum (lf_header lf3) = lf_commited_checksum lf"
    using c(6) p(4) d(8) by simp
  moreover have "crc 0 (wp_data page) \<noteq> crc (lf_commited_checksum lf) (wp_data page)"
    using crc assms(9) by metis
  ultimately show ?thesis
    by (simp add: compute_checksum_chain [OF c(1)] d(10))
qed

theorem compaction_breaks_checksum_witness:
  "\<exists>lf1 lf2 lf3.
     do_compaction \<lparr> ce_now = 0, ce_uuid = 1, ce_version = (0, 0, 22, 0), ce_temp_log = Some [],
       ce_io_new = IoOk, ce_io_header = IoOk, ce_rename_ok = True, ce_compactor_alive = True \<rparr> 1
       (fresh_log\<lparr>lf_commited_checksum := 5\<rparr>)
       = (Inr (), lf1, [(fresh_log\<lparr>lf_commited_checksum := 5\<rparr>, 1)]) \<and>
     push_page (\<lambda>s d. s + 1) IoOk (zero_page 1 1) lf1 = (Inr (), lf2) \<and>
     log_commit IoOk lf2 = (Inr (), lf3) \<and>
     compute_checksum (\<lambda>s d. s + 1) (lf_header lf3) lf3 = Inl InvalidChecksum"
proof -
  define env where "env = \<lparr> ce_now = 0, ce_uuid = 1, ce_version = (0, 0, 22, 0),
    ce_temp_log = Some [], ce_io_new = IoOk, ce_io_header = IoOk, ce_rename_ok = True,
    ce_compactor_alive = True \<rparr>"
  define lf where "lf = fresh_log\<lparr>lf_commited_checksum := 5\<rparr>"
  define lf1 where "lf1 = fst (snd (do_compaction env 1 lf))"
  define lf2 where "lf2 = snd (push_page (\<lambda>s d. s + 1) IoOk (zero_page 1 1) lf1)"
  define lf3 where "lf3 = snd (log_commit IoOk lf2)"
  have inv: "log_inv lf"
    using fresh_log_facts(1) by (simp add: lf_def log_inv_def log_room_def log_total_def)
  have d: "do_compaction env 1 lf = (Inr (), lf1, [(lf, 1)])"
    by (simp add: lf1_def do_compaction_def env_def lf_def fresh_log_def log_new_def Let_def
        write_header_def write_all_at_def)
  have room: "log_room 1 lf1"
    using do_compaction_ok(4,5,7) [OF inv _ d]
    by (simp add: lf1_def do_compaction_def env_def lf_def fresh_log_def log_new_def Let_def
        write_header_def write_all_at_def log_room_def log_total_def log_sizes)
  have p: "push_page (\<lambda>s d. s + 1) IoOk (zero_page 1 1) lf1 = (Inr (), lf2)"
    using push_page_success [of "zero_page 1 1"] by (simp add: lf2_def prod_eq_iff)
  have c: "log_commit IoOk lf2 = (Inr (), lf3)"
    by (simp add: lf3_def log_commit_def write_header_def write_all_at_def)
  have "ce_temp_log env = Some []" by (simp add: env_def)
  from compaction_breaks_checksum [OF inv this d _ room p c] show ?thesis
    using d p c unfolding env_def lf_def by (auto simp: fresh_log_def)
qed

end
