(* ===== verification/Logger.thy ===== *)
theory Logger
  imports ReplicationLog
begin

text \<open>
  \<^verbatim>\<open>sqld/src/replication/primary/logger.rs\<close>, second half: \<^verbatim>\<open>ReplicationLogger\<close>, which
  opens or recovers the log of a database, and \<^verbatim>\<open>ReplicationLoggerHook\<close>, the WAL
  methods SQLite calls when it writes, undoes or checkpoints frames.
\<close>

section \<open>ReplicationLogger and the WAL hook\<close>

record ReplicationLogger =
  rl_generation_id :: Uuid
  rl_generation_start_index :: u64
  rl_log_file :: LogFile
  rl_compactor :: "(LogFile \<times> u32) list"
  rl_new_frame_notifier :: FrameNo
  rl_closed_signal :: bool
  rl_auto_checkpoint :: u32

definition from_log_file :: "Uuid \<Rightarrow> u32 \<Rightarrow> LogFile \<Rightarrow> ReplicationLogger" where
  "from_log_file gen auto_checkpoint lf =
     (let h = lf_header lf;
          generation_start_frame_no = lh_start_frame_no h + lh_frame_count h
      in \<lparr> rl_generation_id = gen, rl_generation_start_index = generation_start_frame_no,
           rl_log_file = lf,
           rl_compactor = [],
           rl_new_frame_notifier = generation_start_frame_no,
           rl_closed_signal = False,
           rl_auto_checkpoint = auto_checkpoint \<rparr>)"

definition should_recover ::
  "bool \<Rightarrow> u16 \<times> u16 \<times> u16 \<times> u16 \<Rightarrow> bool \<Rightarrow> bool \<Rightarrow> LogFileHeader \<Rightarrow> bool" where
  "should_recover dirty current fresh data_exists h \<longleftrightarrow>
     dirty \<or> (lh_version h < 2 \<or> lh_sqld_version h \<noteq> current) \<or> (fresh \<and> data_exists)"

text \<open>The loop of \<^verbatim>\<open>recover\<close> over the pages of the database file.\<close>

fun recover_pages ::
  "crc64 \<Rightarrow> (nat \<Rightarrow> io) \<Rightarrow> (nat \<Rightarrow> io) \<Rightarrow> nat \<Rightarrow> nat \<Rightarrow> byte list list \<Rightarrow> LogFile
     \<Rightarrow> log_error + LogFile" where
  "recover_pages crc io_page io_commit num_page i [] lf = Inr lf"
| "recover_pages crc io_page io_commit num_page i (buf # bufs) lf =
     (case push_page crc (io_page i)
             \<lparr> wp_page_no = word_of_nat (i + 1),
               wp_size_after = (if i = num_page - 1 then word_of_nat num_page else 0),
               wp_data = buf \<rparr> lf of
        (Inl e, _) \<Rightarrow> Inl e
      | (Inr _, lf) \<Rightarrow>
          (case log_commit (io_commit i) lf of
             (Inl e, _) \<Rightarrow> Inl e
           | (Inr _, lf) \<Rightarrow> recover_pages crc io_page io_commit num_page (Suc i) bufs lf))"

definition pages_of :: "byte list \<Rightarrow> byte list list" where
  "pages_of data =
     map (\<lambda>i. byte_slice (i * WAL_PAGE_SIZE) WAL_PAGE_SIZE data)
       [0..<length data div WAL_PAGE_SIZE]"

definition recover ::
  "crc64 \<Rightarrow> nat \<Rightarrow> u128 \<Rightarrow> Uuid \<Rightarrow> u16 \<times> u16 \<times> u16 \<times> u16 \<Rightarrow> io \<Rightarrow> (nat \<Rightarrow> io)
     \<Rightarrow> (nat \<Rightarrow> io) \<Rightarrow> byte list \<Rightarrow> u32 \<Rightarrow> LogFile \<Rightarrow> log_error + ReplicationLogger" where
  "recover crc now uuid gen current io io_page io_commit data auto_checkpoint lf =
     (case log_reset now uuid current io lf of
        Inl e \<Rightarrow> Inl e
      | Inr lf \<Rightarrow>
          if length data mod WAL_PAGE_SIZE \<noteq> 0 then Inl Panicked
          else (case recover_pages crc io_page io_commit (length data div WAL_PAGE_SIZE) 0
                       (pages_of data) lf of
                  Inl e \<Rightarrow> Inl e
                | Inr lf \<Rightarrow> Inr (from_log_file gen auto_checkpoint lf)))"

definition max_frame_count_of_size :: "u64 \<Rightarrow> u64" where
  "max_frame_count_of_size max_log_size =
     max_log_size * 1000000 div word_of_nat FRAME_SIZE"

text \<open>
  \<^verbatim>\<open>log\<close> is the content of \<^verbatim>\<open>wallog\<close> (None when the file does not exist), \<^verbatim>\<open>data\<close> the
  database file after the checkpoint that precedes a recovery.
\<close>

definition logger_open ::
  "crc64 \<Rightarrow> nat \<Rightarrow> u128 \<Rightarrow> u128 \<Rightarrow> Uuid \<Rightarrow> u16 \<times> u16 \<times> u16 \<times> u16 \<Rightarrow> io \<Rightarrow> io \<Rightarrow> (nat \<Rightarrow> io)
     \<Rightarrow> (nat \<Rightarrow> io) \<Rightarrow> file_data option \<Rightarrow> byte list option \<Rightarrow> u64 \<Rightarrow> nat option \<Rightarrow> bool
     \<Rightarrow> u32 \<Rightarrow> log_error + ReplicationLogger" where
  "logger_open crc now uuid uuid' gen current io io' io_page io_commit log data
       max_log_size max_duration dirty auto_checkpoint =
     (case log_new now uuid current io (case log of None \<Rightarrow> [] | Some f \<Rightarrow> f)
             (max_frame_count_of_size max_log_size) max_duration of
        Inl e \<Rightarrow> Inl e
      | Inr lf \<Rightarrow>
          if should_recover dirty current (log = None) (data \<noteq> None) (lf_header lf)
          then (case data of
                  None \<Rightarrow> Inl IoError
                | Some d \<Rightarrow>
                    recover crc now uuid' gen current io' io_page io_commit d auto_checkpoint lf)
          else Inr (from_log_file gen auto_checkpoint lf))"

fun write_pages ::
  "crc64 \<Rightarrow> (nat \<Rightarrow> io) \<Rightarrow> WalPage list \<Rightarrow> LogFile \<Rightarrow> (log_error + unit) \<times> LogFile" where
  "write_pages crc ios [] lf = (Inr (), lf)"
| "write_pages crc ios (page # pages) lf =
     (case push_page crc (ios 0) page lf of
        (Inl e, lf) \<Rightarrow> (Inl e, lf)
      | (Inr _, lf) \<Rightarrow> write_pages crc (\<lambda>n. ios (Suc n)) pages lf)"

definition logger_commit ::
  "io \<Rightarrow> ReplicationLogger \<Rightarrow> (log_error + FrameNo) \<times> ReplicationLogger" where
  "logger_commit io rl =
     (case log_commit io (rl_log_file rl) of
        (Inl e, lf) \<Rightarrow> (Inl e, rl\<lparr>rl_log_file := lf\<rparr>)
      | (Inr _, lf) \<Rightarrow> (Inr (last_frame_no (lf_header lf)), rl\<lparr>rl_log_file := lf\<rparr>))"

definition get_frame :: "FrameNo \<Rightarrow> ReplicationLogger \<Rightarrow> log_error + Frame" where
  "get_frame n rl = log_frame n (rl_log_file rl)"

definition logger_maybe_compact ::
  "compact_env \<Rightarrow> ReplicationLogger \<Rightarrow> (log_error + bool) \<times> ReplicationLogger" where
  "logger_maybe_compact env rl =
     (let lf = rl_log_file rl
      in if \<not> should_compact (ce_now env) lf then (Inr False, rl)
         else (case rev_frames_iter lf of
                 [] \<Rightarrow> (Inr False, rl)
               | Inl e # _ \<Rightarrow> (Inl e, rl)
               | Inr last_frame # _ \<Rightarrow>
                   if frame_size_after last_frame = 0 then (Inl Panicked, rl)
                   else (case do_compaction env (frame_size_after last_frame) lf of
                           (Inl e, lf, jobs) \<Rightarrow>
                             (Inl e, rl\<lparr>rl_log_file := lf, rl_compactor := rl_compactor rl @ jobs\<rparr>)
                         | (Inr _, lf, jobs) \<Rightarrow>
                             (Inr True,
                              rl\<lparr>rl_log_file := lf, rl_compactor := rl_compactor rl @ jobs\<rparr>))))"

record HookCtx =
  hk_buffer :: "WalPage list"
  hk_logger :: ReplicationLogger
  hk_replicator :: "Replicator option"

definition hook_write_frame :: "u32 \<times> byte list \<Rightarrow> HookCtx \<Rightarrow> HookCtx" where
  "hook_write_frame pg ctx =
     ctx\<lparr>hk_buffer := hk_buffer ctx @
           [\<lparr> wp_page_no = fst pg, wp_size_after = 0, wp_data = snd pg \<rparr>]\<rparr>"

definition set_last_size :: "u32 \<Rightarrow> WalPage list \<Rightarrow> WalPage list" where
  "set_last_size n ps = butlast ps @ [(last ps)\<lparr>wp_size_after := n\<rparr>]"

definition hook_flush ::
  "crc64 \<Rightarrow> (nat \<Rightarrow> io) \<Rightarrow> u32 \<Rightarrow> HookCtx \<Rightarrow> (log_error + unit) \<times> HookCtx" where
  "hook_flush crc ios size_after ctx =
     (if hk_buffer ctx = [] then (Inr (), ctx)
      else (let buffer = set_last_size size_after (hk_buffer ctx);
                rl = hk_logger ctx
            in case write_pages crc ios buffer (rl_log_file rl) of
                 (Inl e, lf) \<Rightarrow>
                   (Inl e, ctx\<lparr>hk_buffer := buffer, hk_logger := rl\<lparr>rl_log_file := lf\<rparr>\<rparr>)
               | (Inr _, lf) \<Rightarrow>
                   (Inr (), ctx\<lparr>hk_buffer := [], hk_logger := rl\<lparr>rl_log_file := lf\<rparr>\<rparr>)))"

definition hook_commit :: "io \<Rightarrow> HookCtx \<Rightarrow> (log_error + unit) \<times> HookCtx" where
  "hook_commit io ctx =
     (case logger_commit io (hk_logger ctx) of
        (Inl e, rl) \<Rightarrow> (Inl e, ctx\<lparr>hk_logger := rl\<rparr>)
      | (Inr new_frame_no, rl) \<Rightarrow>
          (Inr (), ctx\<lparr>hk_logger := rl\<lparr>rl_new_frame_notifier := new_frame_no\<rparr>\<rparr>))"

definition hook_rollback :: "HookCtx \<Rightarrow> HookCtx" where
  "hook_rollback ctx =
     (let rl = hk_logger ctx
      in ctx\<lparr>hk_logger := rl\<lparr>rl_log_file := log_rollback (rl_log_file rl)\<rparr>, hk_buffer := []\<rparr>)"

text \<open>
  The result of a hook call is a SQLite return code, or the process has
  aborted (\<^term>\<open>None\<close>).
\<close>

definition SQLITE_OK :: int where "SQLITE_OK = 0"
definition SQLITE_BUSY :: int where "SQLITE_BUSY = 5"
definition SQLITE_IOERR :: int where "SQLITE_IOERR = 10"
definition SQLITE_IOERR_WRITE :: int where "SQLITE_IOERR_WRITE = 778"
definition SQLITE_CHECKPOINT_TRUNCATE :: int where "SQLITE_CHECKPOINT_TRUNCATE = 3"

definition backup_frames :: "u32 \<Rightarrow> nat \<Rightarrow> Replicator option \<Rightarrow> (Replicator option) option" where
  "backup_frames last_valid_frame frame_count rep =
     (case rep of
        None \<Rightarrow> Some None
      | Some r \<Rightarrow>
          (case set_page_size WAL_PAGE_SIZE (register_last_valid_frame last_valid_frame r) of
             Inl _ \<Rightarrow> None
           | Inr r \<Rightarrow> Some (Some (submit_frames (word_of_nat frame_count) r))))"

text \<open>
  \<^verbatim>\<open>orig_rc\<close> is the return code of SQLite's own \<^verbatim>\<open>xFrames\<close>, \<^verbatim>\<open>mx_frame\<close> the last valid
  frame of SQLite's WAL before the call.
\<close>

definition on_frames ::
  "crc64 \<Rightarrow> (nat \<Rightarrow> io) \<Rightarrow> io \<Rightarrow> compact_env \<Rightarrow> int \<Rightarrow> u32 \<Rightarrow> (u32 \<times> byte list) list
     \<Rightarrow> u32 \<Rightarrow> bool \<Rightarrow> HookCtx \<Rightarrow> int option \<times> HookCtx" where
  "on_frames crc ios io_commit env orig_rc mx_frame pages ntruncate is_commit ctx =
     (case hook_flush crc ios ntruncate (fold hook_write_frame pages ctx) of
        (Inl e, ctx) \<Rightarrow> (Some SQLITE_IOERR, ctx)
      | (Inr _, ctx) \<Rightarrow>
          if is_commit \<and> orig_rc = 0
          then (case hook_commit io_commit ctx of
                  (Inl e, ctx) \<Rightarrow> (None, ctx)
                | (Inr _, ctx) \<Rightarrow>
                    (case backup_frames mx_frame (length pages) (hk_replicator ctx) of
                       None \<Rightarrow> (None, ctx)
                     | Some rep \<Rightarrow>
                         (let ctx = ctx\<lparr>hk_replicator := rep\<rparr>; rl = hk_logger ctx
                          in case log_maybe_compact env ntruncate (rl_log_file rl) of
                               (r, lf, jobs) \<Rightarrow>
                                 (if isl r then None else Some orig_rc,
                                  ctx\<lparr>hk_logger := rl\<lparr>rl_log_file := lf,
                                        rl_compactor := rl_compactor rl @ jobs\<rparr>\<rparr>))))
          else (Some orig_rc, ctx))"

definition on_undo :: "int \<Rightarrow> HookCtx \<Rightarrow> int \<times> HookCtx" where
  "on_undo orig_rc ctx = (orig_rc, hook_rollback ctx)"

definition on_savepoint_undo :: "int \<Rightarrow> u32 \<Rightarrow> HookCtx \<Rightarrow> int \<times> HookCtx" where
  "on_savepoint_undo orig_rc wal_data ctx =
     (if orig_rc \<noteq> SQLITE_OK then (orig_rc, ctx)
      else (orig_rc,
            ctx\<lparr>hk_replicator :=
                  map_option (rollback_to_frame wal_data) (hk_replicator ctx)\<rparr>))"

text \<open>
  \<^verbatim>\<open>committed\<close> is what \<^verbatim>\<open>wait_until_committed\<close> returned, \<^verbatim>\<open>uuid\<close> the fresh generation
  and \<^verbatim>\<open>snapshot_ok\<close> the outcome of \<^verbatim>\<open>snapshot_main_db_file\<close>.
\<close>

definition on_checkpoint ::
  "int \<Rightarrow> int \<Rightarrow> bool \<Rightarrow> Uuid \<Rightarrow> bool \<Rightarrow> HookCtx \<Rightarrow> int \<times> HookCtx" where
  "on_checkpoint emode orig_rc committed uuid snapshot_ok ctx =
     (if emode < SQLITE_CHECKPOINT_TRUNCATE then (SQLITE_BUSY, ctx)
      else if orig_rc \<noteq> SQLITE_OK then (orig_rc, ctx)
      else (case hk_replicator ctx of
              None \<Rightarrow> (SQLITE_OK, ctx)
            | Some r \<Rightarrow>
                (let last_known = last_known_frame r; r = request_flush r
                 in if last_known = 0
                    then (SQLITE_OK,
                          ctx\<lparr>hk_replicator := Some (skip_snapshot_for_current_generation r)\<rparr>)
                    else if \<not> committed then (SQLITE_IOERR_WRITE, ctx\<lparr>hk_replicator := Some r\<rparr>)
                    else (let r = snd (set_generation uuid r)
                          in (if snapshot_ok then SQLITE_OK else SQLITE_IOERR_WRITE,
                              ctx\<lparr>hk_replicator := Some r\<rparr>)))))"


section \<open>The hook and the log\<close>

lemma write_pages_push_all: "write_pages crc ios ps lf = push_all (push_page crc) ios ps lf"
  by (induction ps arbitrary: ios lf) (auto split: prod.splits sum.splits)

abbreviation hook_log :: "HookCtx \<Rightarrow> LogFile" where
  "hook_log ctx \<equiv> rl_log_file (hk_logger ctx)"

text \<open>The pages a call of \<^verbatim>\<open>xFrames\<close> hands to the log: only the last one carries the size.\<close>

definition wal_pages :: "u32 \<Rightarrow> (u32 \<times> byte list) list \<Rightarrow> WalPage list" where
  "wal_pages ntruncate pages =
     (let ps = map (\<lambda>(n, d). \<lparr> wp_page_no = n, wp_size_after = 0, wp_data = d \<rparr>) pages
      in if ps = [] then [] else set_last_size ntruncate ps)"

lemma fold_hook_write_frame:
  "fold hook_write_frame pages ctx =
     ctx\<lparr>hk_buffer := hk_buffer ctx @
           map (\<lambda>(n, d). \<lparr> wp_page_no = n, wp_size_after = 0, wp_data = d \<rparr>) pages\<rparr>"
  by (induction pages arbitrary: ctx) (auto simp: hook_write_frame_def)

lemma length_wal_pages: "length (wal_pages n pages) = length pages"
  by (simp add: wal_pages_def set_last_size_def Let_def)

lemma push_page_start:
  "push_page crc io p lf = (r, lf') \<Longrightarrow> lf_header lf' = lf_header lf"
  by (auto simp: push_page_eq Let_def split: if_splits)

lemma push_all_start:
  "push_all (push_page crc) ios ps lf = (r, lf') \<Longrightarrow> lf_header lf' = lf_header lf"
proof (induction ps arbitrary: ios lf)
  case (Cons p ps)
  then show ?case
    using push_page_start [of crc "ios 0" p lf]
    by (cases "push_page crc (ios 0) p lf") (auto split: sum.splits)
qed simp

text \<open>A hook between two transactions.\<close>

definition hook_idle :: "HookCtx \<Rightarrow> bool" where
  "hook_idle ctx \<longleftrightarrow> log_inv (hook_log ctx) \<and> log_pending (hook_log ctx) = [] \<and> hk_buffer ctx = []"

lemma hook_flush_pages:
  assumes "hk_buffer ctx = []"
    and "hook_flush crc ios ntruncate (fold hook_write_frame pages ctx) = (r, ctx')"
  shows "\<exists>lf'. write_pages crc ios (wal_pages ntruncate pages) (hook_log ctx) = (r, lf') \<and>
      hk_logger ctx' = (hk_logger ctx)\<lparr>rl_log_file := lf'\<rparr> \<and>
      hk_replicator ctx' = hk_replicator ctx \<and> (r = Inr () \<longrightarrow> hk_buffer ctx' = [])"
  using assms
  by (auto simp: hook_flush_def fold_hook_write_frame wal_pages_def Let_def
      split: if_splits prod.splits sum.splits)

lemma hook_commit_facts:
  assumes "hook_commit io ctx = (Inr u, ctx')"
  shows "\<exists>lf'. log_commit io (hook_log ctx) = (Inr (), lf') \<and>
      hk_logger ctx' = (hk_logger ctx)
        \<lparr>rl_log_file := lf', rl_new_frame_notifier := last_frame_no (lf_header lf')\<rparr> \<and>
      hk_buffer ctx' = hk_buffer ctx \<and> hk_replicator ctx' = hk_replicator ctx"
  using assms
  by (auto simp: hook_commit_def logger_commit_def split: prod.splits sum.splits)


section \<open>A concrete hook\<close>

definition crc_count :: crc64 where
  "crc_count s d = s + word_of_nat (length d)"

definition idle_ctx :: HookCtx where
  "idle_ctx = \<lparr> hk_buffer = [], hk_logger = from_log_file 3 1000 fresh_log, hk_replicator = None \<rparr>"

definition quiet_env :: compact_env where
  "quiet_env = \<lparr> ce_now = 0, ce_uuid = 1, ce_version = (0, 0, 22, 0), ce_temp_log = Some [],
     ce_io_new = IoOk, ce_io_header = IoOk, ce_rename_ok = True, ce_compactor_alive = True \<rparr>"

definition one_page :: "(u32 \<times> byte list) list" where
  "one_page = [(1, replicate 4096 0)]"

lemma idle_ctx_log [simp]: "hook_log idle_ctx = fresh_log" "hk_buffer idle_ctx = []"
  by (simp_all add: idle_ctx_def from_log_file_def Let_def)

lemma idle_ctx_idle: "hook_idle idle_ctx"
  using fresh_log_facts by (simp add: hook_idle_def)

lemma wal_pages_one: "wal_pages n one_page = [zero_page 1 n]"
  by (simp add: wal_pages_def one_page_def set_last_size_def zero_page_def)

lemma fold_one_page:
  "fold hook_write_frame one_page idle_ctx = idle_ctx\<lparr>hk_buffer := [zero_page 1 0]\<rparr>"
  by (simp add: fold_hook_write_frame) (simp add: one_page_def zero_page_def idle_ctx_def)

section \<open>Undo and commit\<close>

lemma on_frames_not_committed:
  assumes "hook_idle ctx" "log_room (length pages) (hook_log ctx)"
    and "on_frames crc ios io_commit env orig_rc mx pages ntruncate is_commit ctx = (Some rc, ctx')"
    and "\<not> is_commit \<or> rc \<noteq> 0"
  shows "\<exists>r. write_pages crc ios (wal_pages ntruncate pages) (hook_log ctx) = (r, hook_log ctx')"
proof -
  obtain r ctx1 where fl: "hook_flush crc ios ntruncate (fold hook_write_frame pages ctx) = (r, ctx1)"
    by fastforce
  have "ctx' = ctx1"
  proof (cases r)
    case (Inl e)
    then show ?thesis using assms(3) fl by (simp add: on_frames_def)
  next
    case (Inr u)
    have "\<not> (is_commit \<and> orig_rc = 0)"
      using assms(3,4) fl Inr
      by (auto simp: on_frames_def Let_def split: sum.splits prod.splits option.splits if_splits)
    then show ?thesis using assms(3) fl Inr by (auto simp: on_frames_def)
  qed
  then show ?thesis
    using hook_flush_pages [OF _ fl] assms(1) by (auto simp: hook_idle_def)
qed

text \<open>
  (C21) Writing frames is a no-op when it is undone: whatever part of the pages
  reached the file, and whether the shadow write or SQLite's own write failed,
  the undo callback leaves exactly the frames that were committed before.
\<close>

theorem frames_then_undo_is_noop:
  assumes "hook_idle ctx" "log_room (length pages) (hook_log ctx)"
    and "on_frames crc ios io_commit env orig_rc mx pages ntruncate is_commit ctx = (Some rc, ctx1)"
    and "\<not> is_commit \<or> rc \<noteq> 0"
    and "on_undo undo_rc ctx1 = (rc', ctx2)"
  shows "hook_idle ctx2 \<and> log_committed (hook_log ctx2) = log_committed (hook_log ctx)"
proof -
  obtain r where "push_all (push_page crc) ios (wal_pages ntruncate pages) (hook_log ctx)
      = (r, hook_log ctx1)"
    using on_frames_not_committed [OF assms(1-4)] by (auto simp: write_pages_push_all)
  moreover have "log_inv (hook_log ctx)" using assms(1) by (simp add: hook_idle_def)
  ultimately show ?thesis
    using shadow_wal.rollback_push_all [of "hook_log ctx" "wal_pages ntruncate pages" crc ios r]
      assms(2,5)
    by (auto simp: hook_idle_def on_undo_def hook_rollback_def length_wal_pages Let_def)
qed

theorem frames_then_undo_is_noop_witness:
  "let ctx1 = snd (on_frames crc_count (\<lambda>_. IoErr 100) IoOk quiet_env 0 0 one_page 1 True idle_ctx);
       ctx2 = snd (on_undo 0 ctx1)
   in hook_log ctx1 \<noteq> fresh_log \<and> hook_idle ctx2 \<and> log_committed (hook_log ctx2) = []"
proof -
  define ctx1 where "ctx1 = idle_ctx\<lparr>hk_buffer := [zero_page 1 1],
      hk_logger := (hk_logger idle_ctx)\<lparr>rl_log_file := fresh_log\<lparr>lf_file :=
        put_at (unat (next_byte_offset fresh_log)) (take 100 (pushed_frame crc_count (zero_page 1 1) fresh_log))
          (lf_file fresh_log)\<rparr>\<rparr>\<rparr>"
  have z: "set_last_size 1 [zero_page 1 0] = [zero_page 1 1]"
    by (simp add: set_last_size_def zero_page_def)
  have len: "length (pushed_frame crc_count (zero_page 1 1) fresh_log) = FRAME_SIZE"
    by (rule length_pushed_frame) simp
  then have ne: "pushed_frame crc_count (zero_page 1 1) fresh_log \<noteq> []"
    by (auto simp: frame_sizes)
  have run: "on_frames crc_count (\<lambda>_. IoErr 100) IoOk quiet_env 0 0 one_page 1 True idle_ctx
      = (Some SQLITE_IOERR, ctx1)"
    by (simp add: on_frames_def fold_one_page hook_flush_def z push_page_eq Let_def
        write_all_at_def len ne ctx1_def)
      (simp add: frame_sizes)
  have "length (lf_file (hook_log ctx1)) \<noteq> length (lf_file fresh_log)"
    using log_inv_offset [OF fresh_log_facts(1)]
    by (simp add: ctx1_def len frame_sizes log_total_def) (simp add: fresh_log_def log_sizes)
  then have "hook_log ctx1 \<noteq> fresh_log" by auto
  moreover have "log_room (length one_page) (hook_log idle_ctx)"
    by (simp add: fresh_log_room one_page_def)
  ultimately show ?thesis
    using frames_then_undo_is_noop [OF idle_ctx_idle _ run, of 0 0 "snd (on_undo 0 ctx1)"]
      run fresh_log_facts(2)
    by (simp add: SQLITE_IOERR_def on_undo_def Let_def)
qed

lemma on_frames_committed:
  assumes "hook_idle ctx"
    and "on_frames crc ios io_commit env orig_rc mx pages ntruncate True ctx = (Some 0, ctx')"
  obtains lf1 lf2 jobs where
    "push_all (push_page crc) ios (wal_pages ntruncate pages) (hook_log ctx) = (Inr (), lf1)"
    "log_commit io_commit lf1 = (Inr (), lf2)"
    "log_maybe_compact env ntruncate lf2 = (Inr (), hook_log ctx', jobs)"
    "rl_compactor (hk_logger ctx') = rl_compactor (hk_logger ctx) @ jobs"
    "rl_new_frame_notifier (hk_logger ctx') = last_frame_no (lf_header lf2)"
    "hk_buffer ctx' = []"
proof -
  obtain r ctx1 where fl: "hook_flush crc ios ntruncate (fold hook_write_frame pages ctx) = (r, ctx1)"
    by fastforce
  have r: "r = Inr ()" and rc: "orig_rc = 0"
    using assms(2) fl
    by (auto simp: on_frames_def SQLITE_IOERR_def split: sum.splits if_splits)
  have buf: "hk_buffer ctx = []" using assms(1) by (simp add: hook_idle_def)
  from hook_flush_pages [OF buf fl] obtain lf1 where
    w: "write_pages crc ios (wal_pages ntruncate pages) (hook_log ctx) = (Inr (), lf1)"
    and l1: "hk_logger ctx1 = (hk_logger ctx)\<lparr>rl_log_file := lf1\<rparr>" "hk_buffer ctx1 = []"
    using r by auto
  obtain rc2 ctx2 where cm: "hook_commit io_commit ctx1 = (rc2, ctx2)" by fastforce
  have rc2: "rc2 = Inr ()"
    using assms(2) fl r rc cm by (auto simp: on_frames_def split: sum.splits)
  from hook_commit_facts [OF cm [unfolded rc2]] obtain lf2 where
    c: "log_commit io_commit lf1 = (Inr (), lf2)"
    and l2: "hk_logger ctx2 = (hk_logger ctx1)
        \<lparr>rl_log_file := lf2, rl_new_frame_notifier := last_frame_no (lf_header lf2)\<rparr>"
      "hk_buffer ctx2 = hk_buffer ctx1"
    using l1(1) by auto
  obtain r3 lf3 jobs where mc: "log_maybe_compact env ntruncate lf2 = (r3, lf3, jobs)"
    by (metis prod_cases3)
  have "r3 = Inr () \<and> hook_log ctx' = lf3 \<and>
      rl_compactor (hk_logger ctx') = rl_compactor (hk_logger ctx) @ jobs \<and>
      rl_new_frame_notifier (hk_logger ctx') = last_frame_no (lf_header lf2) \<and> hk_buffer ctx' = []"
    using assms(2) fl r rc cm rc2 mc l1 l2
    by (auto simp: on_frames_def Let_def not_isl_unit split: option.splits if_splits sum.splits)
  then show thesis
    using that [of lf1 lf2 jobs] w c mc by (auto simp: write_pages_push_all)
qed





section \<open>Recovery from the database file\<close>

definition recovered_page :: "nat \<Rightarrow> nat \<Rightarrow> byte list \<Rightarrow> WalPage" where
  "recovered_page num_page i buf =
     \<lparr> wp_page_no = word_of_nat (i + 1),
       wp_size_after = (if i = num_page - 1 then word_of_nat num_page else 0),
       wp_data = buf \<rparr>"

lemma recover_pages_ok:
  assumes "log_inv lf" "log_pending lf = []" "log_room (length bufs) lf"
    and "\<And>b. b \<in> set bufs \<Longrightarrow> length b = WAL_PAGE_SIZE"
  shows "\<exists>lf' fs. recover_pages crc (\<lambda>_. IoOk) (\<lambda>_. IoOk) n i bufs lf = Inr lf' \<and>
    log_inv lf' \<and> log_pending lf' = [] \<and> log_committed lf' = log_committed lf @ fs \<and>
    lh_start_frame_no (lf_header lf') = lh_start_frame_no (lf_header lf) \<and>
    list_all2 frame_of_page fs (map (\<lambda>(k, b). recovered_page n k b) (enumerate i bufs))"
  using assms
proof (induction bufs arbitrary: i lf)
  case (Cons b bufs)
  define lf1 where "lf1 = snd (push_page crc IoOk (recovered_page n i b) lf)"
  define lf2 where "lf2 = snd (log_commit IoOk lf1)"
  have len: "length (wp_data (recovered_page n i b)) = WAL_PAGE_SIZE"
    using Cons.prems(4) by (simp add: recovered_page_def)
  have p: "push_page crc IoOk (recovered_page n i b) lf = (Inr (), lf1)"
    using push_page_success [OF len] by (simp add: lf1_def prod_eq_iff)
  have c: "log_commit IoOk lf1 = (Inr (), lf2)"
    by (simp add: lf2_def log_commit_def write_header_def write_all_at_def)
  have "log_room 1 lf" using Cons.prems(3) by (rule log_room_mono) simp
  note p' = push_page_ok [OF Cons.prems(1) this p]
  note c' = log_commit_IoOk [OF p'(1) c]
  have "log_room (length bufs) lf2"
    using Cons.prems(3) c'(4,5) p'(4,5) by (simp add: log_room_def)
  then obtain lf' fs where IH:
    "recover_pages crc (\<lambda>_. IoOk) (\<lambda>_. IoOk) n (Suc i) bufs lf2 = Inr lf'"
    "log_inv lf'" "log_pending lf' = []" "log_committed lf' = log_committed lf2 @ fs"
    "lh_start_frame_no (lf_header lf') = lh_start_frame_no (lf_header lf2)"
    "list_all2 frame_of_page fs (map (\<lambda>(k, b). recovered_page n k b) (enumerate (Suc i) bufs))"
    using Cons.IH [of lf2 "Suc i"] c'(1,3) Cons.prems(4) by auto
  have "frame_of_page (pushed_frame crc (recovered_page n i b) lf) (recovered_page n i b)"
    by (simp add: frame_of_page_def)
  then show ?case
    using IH p c c'(2,5) p'(2,3,4) Cons.prems(2)
    by (intro exI [of _ lf'] exI [of _ "pushed_frame crc (recovered_page n i b) lf # fs"])
      (simp add: recovered_page_def)
qed simp

lemma pages_of_length: "b \<in> set (pages_of d) \<Longrightarrow> length b = WAL_PAGE_SIZE"
proof -
  assume "b \<in> set (pages_of d)"
  then obtain i where i: "i < length d div WAL_PAGE_SIZE"
    and b: "b = byte_slice (i * WAL_PAGE_SIZE) WAL_PAGE_SIZE d"
    by (auto simp: pages_of_def)
  have "Suc i * WAL_PAGE_SIZE \<le> length d div WAL_PAGE_SIZE * WAL_PAGE_SIZE"
    using i by (intro mult_le_mono1) simp
  also have "\<dots> \<le> length d" by simp
  finally show ?thesis unfolding b by (intro length_byte_slice) simp
qed

lemma concat_pages_of: "concat (pages_of d) = take (length d div WAL_PAGE_SIZE * WAL_PAGE_SIZE) d"
proof -
  have "concat (map (\<lambda>i. byte_slice (i * WAL_PAGE_SIZE) WAL_PAGE_SIZE d) [0..<n])
        = take (n * WAL_PAGE_SIZE) d" for n
  proof (induction n)
    case (Suc n)
    then show ?case
      using take_add [of "n * WAL_PAGE_SIZE" WAL_PAGE_SIZE d]
      by (simp add: byte_slice_def add.commute)
  qed simp
  then show ?thesis by (simp add: pages_of_def)
qed

text \<open>
  (C22) Recovery rebuilds the log from the database file: it succeeds on every
  file of whole pages, the pages of the new log read in order are the file, they
  are numbered from one, and exactly the last frame marks a transaction boundary
  with the size of the database. The logger starts a generation at the end of
  this log.
\<close>

theorem recover_rebuilds_log:
  assumes "length data mod WAL_PAGE_SIZE = 0"
    and "LOG_HEADER_SIZE + length data div WAL_PAGE_SIZE * FRAME_SIZE < 2 ^ 64"
  shows "\<exists>rl fs. recover crc now uuid gen v IoOk (\<lambda>_. IoOk) (\<lambda>_. IoOk) data auto_checkpoint lf = Inr rl \<and>
    log_committed (rl_log_file rl) = fs \<and> log_inv (rl_log_file rl) \<and>
    length fs = length data div WAL_PAGE_SIZE \<and>
    concat (map frame_page fs) = data \<and>
    (\<forall>i<length fs. frame_page_no (fs ! i) = word_of_nat (i + 1) \<and>
       frame_size_after (fs ! i) = (if i = length fs - 1 then word_of_nat (length fs) else 0)) \<and>
    rl_generation_start_index rl = word_of_nat (length fs)"
proof -
  define np where "np = length data div WAL_PAGE_SIZE"
  have fits: "np < 2 ^ 64" and data: "np * WAL_PAGE_SIZE = length data"
    using assms by (auto simp: np_def frame_sizes LOG_HEADER_SIZE_def)
  obtain lf0 where new: "log_reset now uuid v IoOk lf = Inr lf0"
    by (simp add: log_reset_def log_new_def write_header_def write_all_at_def Let_def)
  note lf0 = log_new_fresh [OF new [unfolded log_reset_def]]
  have t0: "log_total lf0 = 0"
    using lf0(2,3) by (simp add: log_committed_def log_pending_def)
  have len: "length (pages_of data) = np" by (simp add: pages_of_def np_def)
  have "log_room np lf0"
    using assms(2) fits by (simp add: log_room_def t0 lf0(5) np_def)
  then obtain lf' fs where r:
    "recover_pages crc (\<lambda>_. IoOk) (\<lambda>_. IoOk) np 0 (pages_of data) lf0 = Inr lf'"
    "log_inv lf'" "log_committed lf' = fs" "lh_start_frame_no (lf_header lf') = 0"
    and all: "list_all2 frame_of_page fs
      (map (\<lambda>(k, b). recovered_page np k b) (enumerate 0 (pages_of data)))"
    using recover_pages_ok [OF lf0(1,3), of "pages_of data" crc np 0] len pages_of_length lf0(2,5)
    by auto
  have lfs: "length fs = np" using list_all2_lengthD [OF all] len by simp
  have each: "frame_of_page (fs ! i) (recovered_page np i (pages_of data ! i))" if "i < np" for i
    using list_all2_nthD [OF all, of i] that len lfs by (simp add: nth_enumerate_eq)
  have pages: "map frame_page fs = pages_of data"
    by (rule nth_equalityI)
      (use each lfs len in \<open>auto simp: frame_of_page_def recovered_page_def\<close>)
  have "concat (map frame_page fs) = data"
    unfolding pages concat_pages_of using data by (simp add: np_def)
  moreover have "lh_frame_count (lf_header lf') = word_of_nat np"
    using r(3) lfs by (metis length_log_committed of_nat_unat ucast_id)
  ultimately show ?thesis
    using assms(1) r new lfs each
    by (intro exI [of _ "from_log_file gen auto_checkpoint lf'"] exI [of _ fs])
      (auto simp: recover_def np_def [symmetric] from_log_file_def Let_def frame_of_page_def
        recovered_page_def)
qed

theorem recover_rebuilds_log_witness:
  "\<exists>rl. recover crc_count 0 1 3 (0, 0, 22, 0) IoOk (\<lambda>_. IoOk) (\<lambda>_. IoOk)
      (replicate 8192 0) 1000 fresh_log = Inr rl \<and>
    concat (map frame_page (log_committed (rl_log_file rl))) = replicate 8192 0"
  using recover_rebuilds_log [of "replicate 8192 0" crc_count 0 1 3 "(0, 0, 22, 0)" 1000 fresh_log]
  by (auto simp: frame_sizes LOG_HEADER_SIZE_def)

end
