(* ===== verification/Snapshot.thy ===== *)
theory Snapshot
  imports ReplicationLog
begin

text \<open>
  \<^verbatim>\<open>sqld/src/replication/snapshot.rs\<close>: snapshots of the replication log. A
  compaction reads the old log backwards and keeps the newest frame of each
  page; several snapshots are merged the same way when they take too much
  space. The snapshot directory is an association list from names to file
  contents in the order the directory is listed. A name made by this code is
  its three fields, the database and the first and last frame number; any other
  name is a string.
\<close>

record SnapshotFileHeader =
  sh_db_id :: u128
  sh_start_frame_no :: u64
  sh_end_frame_no :: u64
  sh_frame_count :: u64
  sh_size_after :: u32
  sh_pad :: u32

record SnapshotFile =
  sf_file :: file_data
  sf_header :: SnapshotFileHeader

datatype snap_name = SnapName u128 u64 u64 | OtherName string

type_synonym snap_dir = "(snap_name \<times> file_data) list"

definition SNAPHOT_SPACE_AMPLIFICATION_FACTOR :: u64 where
  "SNAPHOT_SPACE_AMPLIFICATION_FACTOR = 2"

definition MAX_SNAPSHOT_NUMBER :: nat where
  "MAX_SNAPSHOT_NUMBER = 32"

definition SNAP_HEADER_SIZE :: nat where
  "SNAP_HEADER_SIZE = 48"

definition snap_header_bytes :: "SnapshotFileHeader \<Rightarrow> byte list" where
  "snap_header_bytes h =
     word_bytes 16 (sh_db_id h) @ word_bytes 8 (sh_start_frame_no h) @
     word_bytes 8 (sh_end_frame_no h) @ word_bytes 8 (sh_frame_count h) @
     word_bytes 4 (sh_size_after h) @ word_bytes 4 (sh_pad h)"

definition snap_header_of_bytes :: "byte list \<Rightarrow> SnapshotFileHeader" where
  "snap_header_of_bytes bs =
     \<lparr> sh_db_id = bytes_word (byte_slice 0 16 bs),
       sh_start_frame_no = bytes_word (byte_slice 16 8 bs),
       sh_end_frame_no = bytes_word (byte_slice 24 8 bs),
       sh_frame_count = bytes_word (byte_slice 32 8 bs),
       sh_size_after = bytes_word (byte_slice 40 4 bs),
       sh_pad = bytes_word (byte_slice 44 4 bs) \<rparr>"

fun parse_snapshot_name :: "snap_name \<Rightarrow> (u128 \<times> u64 \<times> u64) option" where
  "parse_snapshot_name (SnapName db s e) = Some (db, s, e)"
| "parse_snapshot_name (OtherName _) = None"

definition snapshot_open :: "file_data \<Rightarrow> log_error + SnapshotFile" where
  "snapshot_open f =
     (case read_exact_at 0 SNAP_HEADER_SIZE f of
        None \<Rightarrow> Inl IoError
      | Some buf \<Rightarrow> Inr \<lparr> sf_file = f, sf_header = snap_header_of_bytes buf \<rparr>)"

fun find_snapshot_file :: "snap_dir \<Rightarrow> FrameNo \<Rightarrow> log_error + SnapshotFile option" where
  "find_snapshot_file [] n = Inr None"
| "find_snapshot_file ((name, f) # dir) n =
     (case parse_snapshot_name name of
        None \<Rightarrow> find_snapshot_file dir n
      | Some (_, s, e) \<Rightarrow>
          if s \<le> n \<and> n \<le> e
          then (case snapshot_open f of Inl err \<Rightarrow> Inl err | Inr snap \<Rightarrow> Inr (Some snap))
          else find_snapshot_file dir n)"

definition snapshot_frame_at :: "u64 \<Rightarrow> SnapshotFile \<Rightarrow> log_error + Frame" where
  "snapshot_frame_at i snap =
     (case read_exact_at (unat (word_of_nat SNAP_HEADER_SIZE + i * word_of_nat FRAME_SIZE :: u64))
             FRAME_SIZE (sf_file snap) of
        None \<Rightarrow> Inl IoError
      | Some buf \<Rightarrow>
          (case try_from_bytes buf of None \<Rightarrow> Inl InvalidFrameSize | Some fr \<Rightarrow> Inr fr))"

definition snapshot_frames_iter :: "SnapshotFile \<Rightarrow> (log_error + Frame) list" where
  "snapshot_frames_iter snap =
     map (\<lambda>i. snapshot_frame_at (word_of_nat i) snap) [0..<unat (sh_frame_count (sf_header snap))]"

definition frames_iter_from :: "u64 \<Rightarrow> SnapshotFile \<Rightarrow> (log_error + Frame) list" where
  "frames_iter_from n snap =
     takeWhile (\<lambda>r. case r of Inl _ \<Rightarrow> True | Inr fr \<Rightarrow> \<not> frame_no fr < n)
       (snapshot_frames_iter snap)"

section \<open>Building a snapshot\<close>

record SnapshotBuilder =
  sb_seen_pages :: "u32 set"
  sb_header :: SnapshotFileHeader
  sb_snapshot_file :: file_data
  sb_last_seen_frame_no :: u64

definition builder_new :: "u128 \<Rightarrow> SnapshotBuilder" where
  "builder_new db_id =
     \<lparr> sb_seen_pages = {},
       sb_header = \<lparr> sh_db_id = db_id, sh_start_frame_no = - 1, sh_end_frame_no = 0,
                     sh_frame_count = 0, sh_size_after = 0, sh_pad = 0 \<rparr>,
       sb_snapshot_file = replicate SNAP_HEADER_SIZE 0,
       sb_last_seen_frame_no = - 1 \<rparr>"

definition append_frame :: "Frame \<Rightarrow> SnapshotBuilder \<Rightarrow> log_error + SnapshotBuilder" where
  "append_frame fr b =
     (if \<not> frame_no fr < sb_last_seen_frame_no b then Inl Panicked
      else
        (let b = b\<lparr>sb_last_seen_frame_no := frame_no fr\<rparr>;
             h = sb_header b;
             h = (if frame_no fr < sh_start_frame_no h
                  then h\<lparr>sh_start_frame_no := frame_no fr\<rparr> else h);
             h = (if sh_end_frame_no h < frame_no fr
                  then h\<lparr>sh_end_frame_no := frame_no fr, sh_size_after := frame_size_after fr\<rparr>
                  else h)
         in Inr (if frame_page_no fr \<in> sb_seen_pages b then b\<lparr>sb_header := h\<rparr>
                 else b\<lparr>sb_seen_pages := insert (frame_page_no fr) (sb_seen_pages b),
                        sb_snapshot_file := sb_snapshot_file b @ fr,
                        sb_header := h\<lparr>sh_frame_count := sh_frame_count h + 1\<rparr>\<rparr>)))"

fun append_frames ::
  "(log_error + Frame) list \<Rightarrow> SnapshotBuilder \<Rightarrow> log_error + SnapshotBuilder" where
  "append_frames [] b = Inr b"
| "append_frames (Inl e # frames) b = Inl e"
| "append_frames (Inr fr # frames) b =
     (case append_frame fr b of Inl e \<Rightarrow> Inl e | Inr b \<Rightarrow> append_frames frames b)"

definition dir_persist :: "snap_name \<Rightarrow> file_data \<Rightarrow> snap_dir \<Rightarrow> snap_dir" where
  "dir_persist name f dir = filter (\<lambda>e. fst e \<noteq> name) dir @ [(name, f)]"

definition dir_remove :: "snap_name \<Rightarrow> snap_dir \<Rightarrow> log_error + snap_dir" where
  "dir_remove name dir =
     (if name \<in> fst ` set dir then Inr (filter (\<lambda>e. fst e \<noteq> name) dir) else Inl IoError)"

definition builder_finish :: "SnapshotBuilder \<Rightarrow> snap_dir \<Rightarrow> (snap_name \<times> u64) \<times> snap_dir" where
  "builder_finish b dir =
     (let h = sb_header b;
          f = put_at 0 (snap_header_bytes h) (sb_snapshot_file b);
          name = SnapName (sh_db_id h) (sh_start_frame_no h) (sh_end_frame_no h)
      in ((name, sh_frame_count h), dir_persist name f dir))"

definition perform_compaction ::
  "LogFile \<Rightarrow> u128 \<Rightarrow> snap_dir \<Rightarrow> log_error + ((snap_name \<times> u64) \<times> snap_dir)" where
  "perform_compaction lf db_id dir =
     (case append_frames (rev_frames_iter lf) (builder_new db_id) of
        Inl e \<Rightarrow> Inl e
      | Inr b \<Rightarrow> Inr (builder_finish b dir))"

section \<open>Merging snapshots\<close>

definition merger_should_compact :: "(snap_name \<times> u64) list \<Rightarrow> u32 \<Rightarrow> bool" where
  "merger_should_compact snapshots db_page_count \<longleftrightarrow>
     SNAPHOT_SPACE_AMPLIFICATION_FACTOR * ucast db_page_count \<le> sum_list (map snd snapshots) \<or>
     MAX_SNAPSHOT_NUMBER < length snapshots"

fun append_snapshots ::
  "snap_dir \<Rightarrow> (snap_name \<times> u64) list \<Rightarrow> SnapshotBuilder \<Rightarrow> log_error + SnapshotBuilder" where
  "append_snapshots dir [] b = Inr b"
| "append_snapshots dir ((name, _) # snapshots) b =
     (case map_of dir name of
        None \<Rightarrow> Inl IoError
      | Some f \<Rightarrow>
          (case snapshot_open f of
             Inl e \<Rightarrow> Inl e
           | Inr snap \<Rightarrow>
               (case append_frames (snapshot_frames_iter snap) b of
                  Inl e \<Rightarrow> Inl e
                | Inr b \<Rightarrow> append_snapshots dir snapshots b)))"

fun remove_snapshots :: "(snap_name \<times> u64) list \<Rightarrow> snap_dir \<Rightarrow> log_error + snap_dir" where
  "remove_snapshots [] dir = Inr dir"
| "remove_snapshots ((name, _) # snapshots) dir =
     (case dir_remove name dir of Inl e \<Rightarrow> Inl e | Inr dir \<Rightarrow> remove_snapshots snapshots dir)"

definition merge_snapshots ::
  "(snap_name \<times> u64) list \<Rightarrow> snap_dir \<Rightarrow> u128 \<Rightarrow> log_error + ((snap_name \<times> u64) \<times> snap_dir)" where
  "merge_snapshots snapshots dir db_id =
     (case append_snapshots dir (rev snapshots) (builder_new db_id) of
        Inl e \<Rightarrow> Inl e
      | Inr b \<Rightarrow>
          (case snapshots of
             [] \<Rightarrow> Inl Panicked
           | first # _ \<Rightarrow>
               (case (parse_snapshot_name (fst first), parse_snapshot_name (fst (last snapshots))) of
                  (Some (_, start, _), Some (_, _, end_no)) \<Rightarrow>
                    (let b = b\<lparr>sb_header := (sb_header b)\<lparr>sh_start_frame_no := start,
                                                       sh_end_frame_no := end_no\<rparr>\<rparr>;
                         (info, dir) = builder_finish b dir
                     in case remove_snapshots snapshots dir of
                          Inl e \<Rightarrow> Inl e
                        | Inr dir \<Rightarrow> Inr (info, dir))
                | _ \<Rightarrow> Inl Panicked)))"

text \<open>One turn of the merger loop: the thread ends on an error.\<close>

definition merger_step ::
  "u128 \<Rightarrow> snap_name \<times> u64 \<times> u32 \<Rightarrow> (snap_name \<times> u64) list \<times> snap_dir
     \<Rightarrow> log_error + (snap_name \<times> u64) list \<times> snap_dir" where
  "merger_step db_id msg st =
     (case msg of (name, n, db_page_count) \<Rightarrow>
        (let snapshots = fst st @ [(name, n)]
         in if merger_should_compact snapshots db_page_count
            then (case merge_snapshots snapshots (snd st) db_id of
                    Inl e \<Rightarrow> Inl e
                  | Inr (info, dir) \<Rightarrow> Inr ([info], dir))
            else Inr (snapshots, snd st)))"

fun open_all :: "snap_dir \<Rightarrow> log_error + (snap_name \<times> u64 \<times> u64) list" where
  "open_all [] = Inr []"
| "open_all ((name, f) # dir) =
     (case snapshot_open f of
        Inl e \<Rightarrow> Inl e
      | Inr snap \<Rightarrow>
          (case open_all dir of
             Inl e \<Rightarrow> Inl e
           | Inr infos \<Rightarrow>
               Inr ((name, sh_frame_count (sf_header snap),
                     sh_start_frame_no (sf_header snap)) # infos)))"

definition init_snapshot_info_list ::
  "snap_dir option \<Rightarrow> log_error + (snap_name \<times> u64) list" where
  "init_snapshot_info_list dir =
     (case dir of
        None \<Rightarrow> Inr []
      | Some dir \<Rightarrow>
          (case open_all dir of
             Inl e \<Rightarrow> Inl e
           | Inr temp \<Rightarrow>
               Inr (map (\<lambda>(name, count, _). (name, count)) (sort_key (\<lambda>(_, _, s). s) temp))))"


section \<open>The newest version of each page\<close>

text \<open>
  From frames listed newest first, the first frame of each page; and the effect
  of frames on a database, a map from page numbers to contents.
\<close>

fun newest :: "u32 set \<Rightarrow> Frame list \<Rightarrow> Frame list" where
  "newest seen [] = []"
| "newest seen (f # fs) =
     (if frame_page_no f \<in> seen then newest seen fs
      else f # newest (insert (frame_page_no f) seen) fs)"

definition apply_frames :: "Frame list \<Rightarrow> (u32 \<rightharpoonup> byte list) \<Rightarrow> (u32 \<rightharpoonup> byte list)" where
  "apply_frames fs db = fold (\<lambda>f db. db(frame_page_no f \<mapsto> frame_page f)) fs db"

definition newest_first :: "Frame list \<Rightarrow> bool" where
  "newest_first fs \<longleftrightarrow> sorted_wrt (\<lambda>f g. frame_no g < frame_no f) fs"

lemma apply_frames_simps [simp]:
  "apply_frames [] db = db"
  "apply_frames (f # fs) db = apply_frames fs (db(frame_page_no f \<mapsto> frame_page f))"
  "apply_frames (fs @ gs) db = apply_frames gs (apply_frames fs db)"
  by (simp_all add: apply_frames_def)

lemma apply_frames_other:
  "p \<noteq> q \<Longrightarrow> apply_frames fs (db(q \<mapsto> x)) p = apply_frames fs db p"
proof (induction fs arbitrary: db)
  case (Cons f fs)
  show ?case
  proof (cases "frame_page_no f = q")
    case False
    then have "db(q \<mapsto> x, frame_page_no f \<mapsto> frame_page f) = db(frame_page_no f \<mapsto> frame_page f, q \<mapsto> x)"
      by (intro fun_upd_twist) simp
    then show ?thesis
      using Cons.IH [OF Cons.prems, of "db(frame_page_no f \<mapsto> frame_page f)"]
      by (simp only: apply_frames_simps)
  qed (simp only: apply_frames_simps fun_upd_upd)
qed simp

lemma apply_newest_seen:
  "apply_frames (newest seen fs) db p =
     (if p \<in> seen then db p else apply_frames (rev fs) db p)"
proof (induction fs arbitrary: seen db)
  case (Cons f fs)
  then show ?case by (auto simp: apply_frames_other)
qed simp

lemma apply_newest: "apply_frames (newest {} fs) db = apply_frames (rev fs) db"
  by (rule ext) (simp add: apply_newest_seen)

lemma set_newest: "set (newest seen fs) \<subseteq> set fs"
  by (induction fs arbitrary: seen) auto

lemma newest_append:
  "newest seen (fs @ gs) = newest seen fs @ newest (seen \<union> frame_page_no ` set fs) gs"
proof (induction fs arbitrary: seen)
  case (Cons f fs)
  have "insert (frame_page_no f) seen \<union> frame_page_no ` set fs
        = seen \<union> frame_page_no ` set (f # fs)" by auto
  moreover have "seen \<union> frame_page_no ` set (f # fs) = seen \<union> frame_page_no ` set fs"
    if "frame_page_no f \<in> seen" using that by auto
  ultimately show ?case using Cons by auto
qed simp

lemma newest_newest:
  "newest seen (newest seen' fs) = newest (seen \<union> seen') fs"
proof (induction fs arbitrary: seen seen')
  case (Cons f fs)
  then show ?case
    by (auto simp: Un_insert_left Un_insert_right insert_absorb intro: arg_cong2 [where f = newest])
qed simp

lemma pages_newest: "frame_page_no ` set (newest seen fs) = frame_page_no ` set fs - seen"
  by (induction fs arbitrary: seen) auto

lemma distinct_newest: "distinct (map frame_page_no (newest seen fs))"
proof (induction fs arbitrary: seen)
  case (Cons f fs)
  have "frame_page_no f \<notin> frame_page_no ` set (newest (insert (frame_page_no f) seen) fs)"
    by (simp add: pages_newest)
  then show ?case using Cons by simp
qed simp

lemma newest_first_newest: "newest_first fs \<Longrightarrow> newest_first (newest seen fs)"
proof (induction fs arbitrary: seen)
  case (Cons f fs)
  then show ?case using set_newest [of "insert (frame_page_no f) seen" fs]
    by (auto simp: newest_first_def)
qed (simp add: newest_first_def)

lemma newest_first_append:
  "newest_first (fs @ gs) \<longleftrightarrow>
     newest_first fs \<and> newest_first gs \<and> (\<forall>f\<in>set fs. \<forall>g\<in>set gs. frame_no g < frame_no f)"
  by (simp add: newest_first_def sorted_wrt_append)

lemma newest_first_Cons:
  "newest_first (f # fs) \<longleftrightarrow> (\<forall>g\<in>set fs. frame_no g < frame_no f) \<and> newest_first fs"
  by (simp add: newest_first_def)

section \<open>What the builder writes\<close>

definition header_after :: "Frame list \<Rightarrow> SnapshotFileHeader \<Rightarrow> SnapshotFileHeader" where
  "header_after fs h =
     (if fs = [] then h
      else (let h = h\<lparr>sh_start_frame_no := min (sh_start_frame_no h) (frame_no (last fs))\<rparr>
            in if sh_end_frame_no h < frame_no (hd fs)
               then h\<lparr>sh_end_frame_no := frame_no (hd fs), sh_size_after := frame_size_after (hd fs)\<rparr>
               else h))"

lemma append_frame_ok:
  assumes "frame_no f < sb_last_seen_frame_no b"
  shows "append_frame f b = Inr
    \<lparr> sb_seen_pages = insert (frame_page_no f) (sb_seen_pages b),
      sb_header = (header_after [f] (sb_header b))
        \<lparr>sh_frame_count := sh_frame_count (sb_header b)
            + word_of_nat (length (newest (sb_seen_pages b) [f]))\<rparr>,
      sb_snapshot_file = sb_snapshot_file b @ concat (newest (sb_seen_pages b) [f]),
      sb_last_seen_frame_no = frame_no f \<rparr>"
  using assms
  by (auto simp: append_frame_def header_after_def Let_def min_def insert_absorb)

lemma append_frames_ok:
  assumes "newest_first fs" "\<forall>f\<in>set fs. frame_no f < sb_last_seen_frame_no b"
  shows "append_frames (map Inr fs) b = Inr
    \<lparr> sb_seen_pages = sb_seen_pages b \<union> frame_page_no ` set fs,
      sb_header = (header_after fs (sb_header b))
        \<lparr>sh_frame_count := sh_frame_count (sb_header b)
            + word_of_nat (length (newest (sb_seen_pages b) fs))\<rparr>,
      sb_snapshot_file = sb_snapshot_file b @ concat (newest (sb_seen_pages b) fs),
      sb_last_seen_frame_no = (if fs = [] then sb_last_seen_frame_no b else frame_no (last fs)) \<rparr>"
  using assms
proof (induction fs arbitrary: b)
  case (Cons f fs)
  define b1 where "b1 =
    \<lparr> sb_seen_pages = insert (frame_page_no f) (sb_seen_pages b),
      sb_header = (header_after [f] (sb_header b))
        \<lparr>sh_frame_count := sh_frame_count (sb_header b)
            + word_of_nat (length (newest (sb_seen_pages b) [f]))\<rparr>,
      sb_snapshot_file = sb_snapshot_file b @ concat (newest (sb_seen_pages b) [f]),
      sb_last_seen_frame_no = frame_no f \<rparr>"
  have 1: "append_frame f b = Inr b1"
    unfolding b1_def by (rule append_frame_ok) (use Cons.prems in simp)
  have nf: "newest_first fs" "\<forall>g\<in>set fs. frame_no g < frame_no f"
    using Cons.prems(1) by (simp_all add: newest_first_Cons)
  have IH: "append_frames (map Inr fs) b1 = Inr
    \<lparr> sb_seen_pages = sb_seen_pages b1 \<union> frame_page_no ` set fs,
      sb_header = (header_after fs (sb_header b1))
        \<lparr>sh_frame_count := sh_frame_count (sb_header b1)
            + word_of_nat (length (newest (sb_seen_pages b1) fs))\<rparr>,
      sb_snapshot_file = sb_snapshot_file b1 @ concat (newest (sb_seen_pages b1) fs),
      sb_last_seen_frame_no = (if fs = [] then sb_last_seen_frame_no b1 else frame_no (last fs)) \<rparr>"
    by (rule Cons.IH) (use nf in \<open>simp_all add: b1_def\<close>)
  have h: "header_after fs (h'\<lparr>sh_frame_count := c\<rparr>) = (header_after fs h')\<lparr>sh_frame_count := c\<rparr>"
    for h' c by (simp add: header_after_def Let_def)
  have "fs \<noteq> [] \<Longrightarrow> frame_no (hd fs) < frame_no f \<and> frame_no (last fs) < frame_no f"
    using nf(2) by simp
  then have hh: "header_after fs (header_after [f] h') = header_after (f # fs) h'" for h'
    by (auto simp: header_after_def Let_def min_def)
  show ?case
    using 1 IH by (auto simp: b1_def h hh insert_absorb)
qed (simp add: header_after_def)


section \<open>Reading a snapshot back\<close>

text \<open>The file of a snapshot: a header and the frames, one after the other.\<close>

definition snapshot_file :: "SnapshotFileHeader \<Rightarrow> Frame list \<Rightarrow> file_data" where
  "snapshot_file h fs = snap_header_bytes h @ concat fs"

definition frames_fit :: "Frame list \<Rightarrow> bool" where
  "frames_fit fs \<longleftrightarrow>
     (\<forall>f\<in>set fs. length f = FRAME_SIZE) \<and> SNAP_HEADER_SIZE + length fs * FRAME_SIZE < 2 ^ 64"

lemmas snap_sizes = SNAP_HEADER_SIZE_def frame_sizes

lemma length_snap_header_bytes [simp, codec_simps]:
  "length (snap_header_bytes h) = SNAP_HEADER_SIZE"
  by (simp add: snap_header_bytes_def SNAP_HEADER_SIZE_def)

lemma snap_header_roundtrip [simp, codec_simps]:
  "snap_header_of_bytes (snap_header_bytes h) = h"
  by (simp add: snap_header_of_bytes_def snap_header_bytes_def codec_simps)

lemma slice_concat:
  "\<forall>f\<in>set fs. length f = n \<Longrightarrow> i < length fs \<Longrightarrow> byte_slice (i * n) n (concat fs) = fs ! i"
proof (induction fs arbitrary: i)
  case (Cons f fs)
  then show ?case by (cases i) (simp_all add: byte_slice_def)
qed simp

lemma length_concat_const: "\<forall>f\<in>set fs. length f = n \<Longrightarrow> length (concat fs) = length fs * n"
  by (induction fs) auto

lemma snapshot_open_file:
  "snapshot_open (snapshot_file h fs) = Inr \<lparr> sf_file = snapshot_file h fs, sf_header = h \<rparr>"
proof -
  have "read_exact_at 0 SNAP_HEADER_SIZE (snapshot_file h fs) = Some (snap_header_bytes h)"
    by (simp add: read_exact_at_def snapshot_file_def codec_simps)
  then show ?thesis by (simp add: snapshot_open_def)
qed

lemma snapshot_frame_at_nth:
  assumes "frames_fit fs" "i < length fs"
  shows "snapshot_frame_at (word_of_nat i) \<lparr> sf_file = snapshot_file h fs, sf_header = h' \<rparr> = Inr (fs ! i)"
proof -
  have len: "\<forall>f\<in>set fs. length f = FRAME_SIZE" using assms(1) by (simp add: frames_fit_def)
  have "Suc i * FRAME_SIZE \<le> length fs * FRAME_SIZE" using assms(2) by (intro mult_le_mono1) simp
  then have fits: "SNAP_HEADER_SIZE + i * FRAME_SIZE + FRAME_SIZE \<le> SNAP_HEADER_SIZE + length fs * FRAME_SIZE"
    by simp
  also have "\<dots> < 2 ^ 64" using assms(1) by (simp add: frames_fit_def)
  finally have i: "SNAP_HEADER_SIZE + i * FRAME_SIZE < 2 ^ 64" by simp
  have "word_of_nat SNAP_HEADER_SIZE + word_of_nat i * word_of_nat FRAME_SIZE
        = (word_of_nat (SNAP_HEADER_SIZE + i * FRAME_SIZE) :: u64)" by simp
  then have off: "unat (word_of_nat SNAP_HEADER_SIZE + word_of_nat i * word_of_nat FRAME_SIZE :: u64)
        = SNAP_HEADER_SIZE + i * FRAME_SIZE"
    using i by (simp only: unat_of_nat) simp
  have "read_exact_at (SNAP_HEADER_SIZE + i * FRAME_SIZE) FRAME_SIZE (snapshot_file h fs)
        = Some (fs ! i)"
    using fits slice_concat [OF len assms(2)] length_concat_const [OF len]
    by (simp add: read_exact_at_def snapshot_file_def codec_simps)
  moreover have "length (fs ! i) = FRAME_SIZE" using len assms(2) by simp
  ultimately show ?thesis by (simp add: snapshot_frame_at_def off try_from_bytes_def)
qed

lemma snapshot_frames_iter_file:
  assumes "frames_fit fs" "sh_frame_count h = word_of_nat (length fs)"
  shows "snapshot_frames_iter \<lparr> sf_file = snapshot_file h fs, sf_header = h \<rparr> = map Inr fs"
proof -
  have "length fs < 2 ^ 64"
    using assms(1) by (simp add: frames_fit_def snap_sizes)
  then have "unat (sh_frame_count h) = length fs"
    using assms(2) by (simp add: unat_of_nat)
  then show ?thesis
    by (intro nth_equalityI) (simp_all add: snapshot_frames_iter_def snapshot_frame_at_nth [OF assms(1)])
qed

lemma takeWhile_newest_first:
  assumes "newest_first fs"
  shows "takeWhile (\<lambda>f. \<not> frame_no f < n) fs = filter (\<lambda>f. n \<le> frame_no f) fs"
  using assms
proof (induction fs)
  case (Cons f fs)
  have "filter (\<lambda>f. n \<le> frame_no f) fs = []" if "frame_no f < n"
    using Cons.prems that by (auto simp: newest_first_Cons filter_empty_conv)
  then show ?case using Cons by (auto simp: newest_first_Cons)
qed simp

lemma frames_iter_from_file:
  assumes "frames_fit fs" "sh_frame_count h = word_of_nat (length fs)" "newest_first fs"
  shows "frames_iter_from n \<lparr> sf_file = snapshot_file h fs, sf_header = h \<rparr>
    = map Inr (filter (\<lambda>f. n \<le> frame_no f) fs)"
proof -
  have "takeWhile (\<lambda>r. case r of Inl _ \<Rightarrow> True | Inr fr \<Rightarrow> \<not> frame_no fr < n) (map Inr fs)
        = map Inr (takeWhile (\<lambda>f. \<not> frame_no f < n) fs)"
    by (simp add: takeWhile_map o_def)
  then show ?thesis
    using assms by (simp add: frames_iter_from_def snapshot_frames_iter_file takeWhile_newest_first)
qed

section \<open>Compaction\<close>

lemma put_at_zero_header:
  "length hb = n \<Longrightarrow> put_at 0 hb (replicate n 0 @ body) = hb @ body"
  by (simp add: put_at_def)

lemma length_committed_frame:
  assumes "log_inv lf" "f \<in> set (log_committed lf)"
  shows "length f = FRAME_SIZE"
proof -
  obtain i where i: "i < unat (lh_frame_count (lf_header lf))" and f: "f = slot (lf_file lf) i"
    using assms(2) by (auto simp: log_committed_def)
  have "Suc i * FRAME_SIZE \<le> log_total lf * FRAME_SIZE"
    using i by (intro mult_le_mono1) (simp add: log_total_def)
  then show ?thesis
    unfolding f slot_def using assms(1) by (intro length_byte_slice) (simp add: log_inv_def)
qed

lemma unat_committed_frame_no:
  assumes "log_inv lf" "i < length (log_committed lf)"
  shows "unat (frame_no (log_committed lf ! i)) = unat (lh_start_frame_no (lf_header lf)) + i"
proof -
  have b: "unat (lh_start_frame_no (lf_header lf)) + i < 2 ^ 64"
    using assms by (simp add: log_inv_def log_room_def log_total_def)
  then have "unat (word_of_nat i :: u64) = i" by (simp add: unat_of_nat)
  then show ?thesis
    using committed_frame_no [OF assms] b by (simp add: unat_add_less)
qed

lemma newest_first_committed:
  assumes "log_inv lf"
  shows "newest_first (rev (log_committed lf))"
    "\<forall>f\<in>set (rev (log_committed lf)). frame_no f < - 1"
proof -
  show "newest_first (rev (log_committed lf))"
    unfolding newest_first_def sorted_wrt_rev
    using unat_committed_frame_no [OF assms]
    by (auto simp: sorted_wrt_iff_nth_less word_less_nat_alt)
  show "\<forall>f\<in>set (rev (log_committed lf)). frame_no f < - 1"
  proof
    fix f
    assume "f \<in> set (rev (log_committed lf))"
    then obtain i where i: "i < length (log_committed lf)" "f = log_committed lf ! i"
      by (auto simp: in_set_conv_nth)
    then have "unat (frame_no f) < 2 ^ 64 - 1"
      using unat_committed_frame_no [OF assms i(1)] assms
      by (simp add: log_inv_def log_room_def log_total_def)
    then show "frame_no f < - 1" unfolding word_less_nat_alt unat_u64_max .
  qed
qed

lemma frames_fit_newest: "frames_fit fs \<Longrightarrow> frames_fit (newest seen fs)"
proof -
  assume f: "frames_fit fs"
  have "length (newest seen fs) \<le> length fs"
    by (induction fs arbitrary: seen) (auto intro: le_SucI)
  then show ?thesis
    using f set_newest [of seen fs] unfolding frames_fit_def snap_sizes by auto
qed

lemma frames_fit_committed:
  assumes "log_inv lf"
  shows "frames_fit (rev (log_committed lf))"
proof -
  have "length (log_committed lf) * FRAME_SIZE \<le> log_total lf * FRAME_SIZE"
    by (intro mult_le_mono1) (simp add: log_total_def)
  then show ?thesis
    using assms length_committed_frame [OF assms]
    by (auto simp: frames_fit_def log_inv_def log_room_def log_sizes SNAP_HEADER_SIZE_def)
qed

text \<open>A snapshot of a segment of the log: the newest frames of its pages.\<close>

definition snapshot_of :: "Frame list \<Rightarrow> file_data \<Rightarrow> bool" where
  "snapshot_of seg f \<longleftrightarrow>
     (\<exists>h. f = snapshot_file h (newest {} (rev seg)) \<and>
          sh_frame_count h = word_of_nat (length (newest {} (rev seg))))"

lemma snapshot_of_open:
  assumes "snapshot_of seg f" "frames_fit seg"
  obtains h where "snapshot_open f = Inr \<lparr> sf_file = f, sf_header = h \<rparr>"
    "snapshot_frames_iter \<lparr> sf_file = f, sf_header = h \<rparr> = map Inr (newest {} (rev seg))"
proof -
  obtain h where h: "f = snapshot_file h (newest {} (rev seg))"
    "sh_frame_count h = word_of_nat (length (newest {} (rev seg)))"
    using assms(1) by (auto simp: snapshot_of_def)
  have "frames_fit (rev seg)" using assms(2) by (simp add: frames_fit_def)
  then have "frames_fit (newest {} (rev seg))" by (rule frames_fit_newest)
  then show thesis
    using that [of h] snapshot_frames_iter_file [OF _ h(2)] h(1) by (simp add: snapshot_open_file)
qed

definition compacted_header :: "u128 \<Rightarrow> Frame list \<Rightarrow> SnapshotFileHeader" where
  "compacted_header db_id seg =
     \<lparr> sh_db_id = db_id, sh_start_frame_no = frame_no (hd seg), sh_end_frame_no = frame_no (last seg),
       sh_frame_count = word_of_nat (length (newest {} (rev seg))),
       sh_size_after = (if frame_no (last seg) = 0 then 0 else frame_size_after (last seg)),
       sh_pad = 0 \<rparr>"

lemma append_frames_new:
  assumes "seg \<noteq> []" "newest_first (rev seg)" "\<forall>f\<in>set (rev seg). frame_no f < - 1"
  shows "append_frames (map Inr (rev seg)) (builder_new db_id) = Inr
    \<lparr> sb_seen_pages = frame_page_no ` set seg, sb_header = compacted_header db_id seg,
      sb_snapshot_file = replicate SNAP_HEADER_SIZE 0 @ concat (newest {} (rev seg)),
      sb_last_seen_frame_no = frame_no (hd seg) \<rparr>"
proof -
  have "frame_no (hd seg) \<le> - 1" by simp
  then have m: "min (- 1) (frame_no (hd seg)) = frame_no (hd seg)" by (rule min_absorb2)
  show ?thesis
    using append_frames_ok [OF assms(2), of "builder_new db_id"] assms
    by (simp add: builder_new_def header_after_def compacted_header_def Let_def last_rev hd_rev m
        word_greater_zero_iff)
qed

lemma perform_compaction_ok:
  assumes inv: "log_inv lf" and ne: "log_committed lf \<noteq> []"
  defines "seg \<equiv> log_committed lf"
  shows "perform_compaction lf db_id dir = Inr
    ((SnapName db_id (frame_no (hd seg)) (frame_no (last seg)),
      word_of_nat (length (newest {} (rev seg)))),
     dir_persist (SnapName db_id (frame_no (hd seg)) (frame_no (last seg)))
       (snapshot_file (compacted_header db_id seg) (newest {} (rev seg))) dir)"
  using append_frames_new [of seg db_id] newest_first_committed [OF inv] ne
  by (simp add: perform_compaction_def rev_frames_iter_committed [OF inv] seg_def builder_finish_def
      Let_def put_at_zero_header snapshot_file_def)
    (simp add: compacted_header_def)


lemma map_of_persist: "map_of (dir_persist name f dir) n = (if n = name then Some f else map_of dir n)"
proof -
  have "map_of (filter (\<lambda>e. fst e \<noteq> name) dir) n = (if n = name then None else map_of dir n)"
    by (induction dir) auto
  then show ?thesis by (auto simp: dir_persist_def map_add_def split: option.splits)
qed

lemma dir_remove_ok:
  assumes "map_of dir name \<noteq> None"
  obtains dir' where "dir_remove name dir = Inr dir'"
    "\<And>n. map_of dir' n = (if n = name then None else map_of dir n)"
proof -
  have "name \<in> fst ` set dir" using assms by (simp add: map_of_eq_None_iff)
  moreover have "map_of (filter (\<lambda>e. fst e \<noteq> name) dir) n = (if n = name then None else map_of dir n)" for n
    by (induction dir) auto
  ultimately show thesis using that by (simp add: dir_remove_def)
qed

lemma remove_snapshots_ok:
  assumes "distinct (map fst infos)" "\<forall>i\<in>set infos. map_of dir (fst i) \<noteq> None"
  shows "\<exists>dir'. remove_snapshots infos dir = Inr dir' \<and>
    (\<forall>n. map_of dir' n = (if n \<in> fst ` set infos then None else map_of dir n))"
  using assms
proof (induction infos arbitrary: dir)
  case (Cons i infos)
  obtain name c where i: "i = (name, c)" by fastforce
  obtain dir1 where d1: "dir_remove name dir = Inr dir1"
    "\<And>n. map_of dir1 n = (if n = name then None else map_of dir n)"
    using Cons.prems(2) i by (metis dir_remove_ok fst_conv list.set_intros(1))
  have "\<forall>i\<in>set infos. map_of dir1 (fst i) \<noteq> None"
    using Cons.prems i d1(2) by auto
  then obtain dir' where "remove_snapshots infos dir1 = Inr dir'"
    "\<forall>n. map_of dir' n = (if n \<in> fst ` set infos then None else map_of dir1 n)"
    using Cons.IH [of dir1] Cons.prems(1) by auto
  then show ?case using d1 i by auto
qed simp

text \<open>
  (C4) Compacting a log keeps its effect: compaction of a non-empty log
  succeeds, the snapshot it stores is named after the first and the last frame,
  holds each page at most once, and applying its frames to any database gives
  what applying the whole log gives.
\<close>

theorem compaction_preserves_database:
  assumes "log_inv lf" "log_committed lf \<noteq> []"
  shows "\<exists>count dir' f snap fs.
    perform_compaction lf db_id dir = Inr ((SnapName db_id (frame_no (hd (log_committed lf)))
        (frame_no (last (log_committed lf))), count), dir') \<and>
    map_of dir' (SnapName db_id (frame_no (hd (log_committed lf)))
        (frame_no (last (log_committed lf)))) = Some f \<and>
    snapshot_open f = Inr snap \<and> snapshot_frames_iter snap = map Inr fs \<and>
    distinct (map frame_page_no fs) \<and> set fs \<subseteq> set (log_committed lf) \<and>
    (\<forall>db. apply_frames fs db = apply_frames (log_committed lf) db)"
proof -
  define seg where "seg = log_committed lf"
  have fit: "frames_fit (newest {} (rev seg))"
    unfolding seg_def by (rule frames_fit_newest [OF frames_fit_committed [OF assms(1)]])
  have "snapshot_frames_iter \<lparr> sf_file = snapshot_file (compacted_header db_id seg) (newest {} (rev seg)),
      sf_header = compacted_header db_id seg \<rparr> = map Inr (newest {} (rev seg))"
    by (rule snapshot_frames_iter_file [OF fit]) (simp add: compacted_header_def)
  moreover have "set (newest {} (rev seg)) \<subseteq> set seg" using set_newest [of "{}" "rev seg"] by simp
  ultimately show ?thesis
    using perform_compaction_ok [OF assms, of db_id dir]
    by (simp add: map_of_persist snapshot_open_file distinct_newest apply_newest seg_def)
qed

theorem compaction_preserves_database_witness:
  "\<exists>count dir' f snap fs.
     perform_compaction one_frame_log 7 [] = Inr ((SnapName 7 0 0, count), dir') \<and>
     map_of dir' (SnapName 7 0 0) = Some f \<and>
     snapshot_open f = Inr snap \<and> snapshot_frames_iter snap = map Inr fs \<and>
     apply_frames fs Map.empty 1 = Some (replicate 4096 0)"
proof -
  have c: "log_committed one_frame_log \<noteq> []" by (simp add: one_frame_log_facts(3))
  have n: "frame_no (hd (log_committed one_frame_log)) = 0"
      "frame_no (last (log_committed one_frame_log)) = 0"
    by (simp_all add: one_frame_log_facts(3) next_frame_no_def)
      (simp_all add: fresh_log_def)
  have "apply_frames (log_committed one_frame_log) Map.empty 1 = Some (replicate 4096 0)"
    by (simp add: one_frame_log_facts(3)) (simp add: zero_page_def)
  then show ?thesis
    using compaction_preserves_database [OF one_frame_log_facts(2) c, of 7 "[]"]
    unfolding n by fastforce
qed

text \<open>
  A replica that has applied the log up to frame number \<^term>\<open>n\<close> catches up from a
  snapshot: the frames the snapshot yields from \<^term>\<open>n\<close> on bring its database to
  the state after the whole log, for every split of the log at \<^term>\<open>n\<close>.
\<close>

theorem snapshot_catch_up:
  assumes "log_inv lf" "log_committed lf = old @ new"
    and "\<forall>f\<in>set old. frame_no f < n" "\<forall>f\<in>set new. n \<le> frame_no f"
    and "snapshot_of (log_committed lf) f"
  shows "\<exists>snap gs. snapshot_open f = Inr snap \<and> frames_iter_from n snap = map Inr gs \<and>
    (\<forall>db. apply_frames gs (apply_frames old db) = apply_frames (log_committed lf) db)"
proof -
  define fs where "fs = newest {} (rev (log_committed lf))"
  obtain h where h: "f = snapshot_file h fs" "sh_frame_count h = word_of_nat (length fs)"
    using assms(5) by (auto simp: snapshot_of_def fs_def)
  have fit: "frames_fit fs"
    unfolding fs_def by (rule frames_fit_newest [OF frames_fit_committed [OF assms(1)]])
  have "newest_first fs"
    unfolding fs_def by (rule newest_first_newest [OF newest_first_committed(1) [OF assms(1)]])
  note it = frames_iter_from_file [OF fit h(2) this, of n]
  have split: "fs = newest {} (rev new) @ newest (frame_page_no ` set new) (rev old)"
    by (simp add: fs_def assms(2) newest_append)
  have "filter (\<lambda>f. n \<le> frame_no f) (newest {} (rev new)) = newest {} (rev new)"
    using assms(4) set_newest [of "{}" "rev new"] by (auto simp: filter_id_conv)
  moreover have "filter (\<lambda>f. n \<le> frame_no f) (newest (frame_page_no ` set new) (rev old)) = []"
    using assms(3) set_newest [of "frame_page_no ` set new" "rev old"]
    by (fastforce simp: filter_empty_conv)
  ultimately have "filter (\<lambda>f. n \<le> frame_no f) fs = newest {} (rev new)"
    by (simp add: split)
  then show ?thesis
    using it h(1) assms(2) by (simp add: snapshot_open_file apply_newest)
qed

theorem snapshot_catch_up_witness:
  "\<exists>snap gs. snapshot_open (snapshot_file (compacted_header 7 (log_committed one_frame_log))
       (newest {} (rev (log_committed one_frame_log)))) = Inr snap \<and>
     frames_iter_from 0 snap = map Inr gs \<and>
     apply_frames gs Map.empty = apply_frames (log_committed one_frame_log) Map.empty"
proof -
  have "snapshot_of (log_committed one_frame_log)
      (snapshot_file (compacted_header 7 (log_committed one_frame_log))
        (newest {} (rev (log_committed one_frame_log))))"
    by (auto simp: snapshot_of_def compacted_header_def)
  from snapshot_catch_up [OF one_frame_log_facts(2) _ _ _ this,
      of "[]" "log_committed one_frame_log" 0]
  show ?thesis by auto
qed

section \<open>Merging\<close>

lemma append_frames_append:
  "append_frames (xs @ ys) b =
     (case append_frames xs b of Inl e \<Rightarrow> Inl e | Inr b \<Rightarrow> append_frames ys b)"
  by (induction xs b rule: append_frames.induct) (auto split: sum.splits)

lemma append_snapshots_segments:
  assumes "list_all2 (\<lambda>i seg. \<exists>f. map_of dir (fst i) = Some f \<and> snapshot_of seg f \<and> frames_fit seg)
    infos segs"
  shows "append_snapshots dir infos b =
    append_frames (map Inr (concat (map (\<lambda>seg. newest {} (rev seg)) segs))) b"
  using assms
proof (induction arbitrary: b rule: list_all2_induct)
  case (Cons i infos seg segs)
  then obtain f where f: "map_of dir (fst i) = Some f" "snapshot_of seg f" "frames_fit seg" by blast
  obtain h where "snapshot_open f = Inr \<lparr> sf_file = f, sf_header = h \<rparr>"
    "snapshot_frames_iter \<lparr> sf_file = f, sf_header = h \<rparr> = map Inr (newest {} (rev seg))"
    using f(2,3) by (rule snapshot_of_open)
  then show ?case
    using Cons.IH f(1) by (cases i) (auto simp: append_frames_append split: sum.splits)
qed simp

text \<open>
  Segments written newest first, each already reduced to its newest frames,
  reduce to what the whole log reduces to.
\<close>

lemma newest_concat:
  "newest seen (concat (map (\<lambda>seg. newest {} (rev seg)) segs)) = newest seen (concat (map rev segs))"
proof (induction segs arbitrary: seen)
  case (Cons seg segs)
  then show ?case by (simp add: newest_append newest_newest pages_newest)
qed simp

lemma concat_rev_rev: "concat (map rev (rev segs)) = rev (concat segs)"
  by (induction segs) simp_all

lemma newest_first_concat:
  "newest_first (concat (map rev segs)) \<Longrightarrow>
   newest_first (concat (map (\<lambda>seg. newest {} (rev seg)) segs))"
proof (induction segs)
  case (Cons seg segs)
  have sub: "set (concat (map (\<lambda>seg. newest {} (rev seg)) segs)) \<subseteq> set (concat (map rev segs))" for segs
    using set_newest by fastforce
  have "newest_first (newest {} (rev seg))"
    using Cons.prems by (intro newest_first_newest) (simp add: newest_first_append)
  moreover have "frame_no g < frame_no f" if "f \<in> set (newest {} (rev seg))"
    "g \<in> set (concat (map (\<lambda>seg. newest {} (rev seg)) segs))" for f g
  proof -
    have "f \<in> set (rev seg)" "g \<in> set (concat (map rev segs))"
      using that set_newest [of "{}" "rev seg"] sub [of segs] by blast+
    then show ?thesis using Cons.prems by (simp only: newest_first_append list.map concat.simps)
  qed
  ultimately show ?case
    using Cons by (simp only: newest_first_append list.map concat.simps) blast
qed simp

lemma hd_newest: "fs \<noteq> [] \<Longrightarrow> hd (newest {} fs) = hd fs \<and> newest {} fs \<noteq> []"
  by (cases fs) simp_all

lemma hd_concat_newest:
  "concat (map rev segs) \<noteq> [] \<Longrightarrow>
   hd (concat (map (\<lambda>seg. newest {} (rev seg)) segs)) = hd (concat (map rev segs)) \<and>
   concat (map (\<lambda>seg. newest {} (rev seg)) segs) \<noteq> []"
proof (induction segs)
  case (Cons seg segs)
  then show ?case using hd_newest [of "rev seg"] by (cases "seg = []") auto
qed simp


definition seg_name :: "u128 \<Rightarrow> Frame list \<Rightarrow> snap_name" where
  "seg_name db_id seg = SnapName db_id (frame_no (hd seg)) (frame_no (last seg))"

text \<open>The entry of the merger's list for a segment of the log, and its file.\<close>

definition stored :: "u128 \<Rightarrow> snap_dir \<Rightarrow> snap_name \<times> u64 \<Rightarrow> Frame list \<Rightarrow> bool" where
  "stored db_id dir info seg \<longleftrightarrow>
     seg \<noteq> [] \<and> frames_fit seg \<and> fst info = seg_name db_id seg \<and>
     (\<exists>f. map_of dir (fst info) = Some f \<and> snapshot_of seg f)"

definition oldest_first :: "Frame list \<Rightarrow> bool" where
  "oldest_first fs \<longleftrightarrow> sorted_wrt (\<lambda>f g. frame_no f < frame_no g) fs"

lemma newest_first_rev: "newest_first (rev fs) \<longleftrightarrow> oldest_first fs"
  by (simp add: newest_first_def oldest_first_def sorted_wrt_rev)

lemma oldest_first_append:
  "oldest_first (fs @ gs) \<longleftrightarrow>
     oldest_first fs \<and> oldest_first gs \<and> (\<forall>f\<in>set fs. \<forall>g\<in>set gs. frame_no f < frame_no g)"
  by (simp add: oldest_first_def sorted_wrt_append)

lemma seg_before:
  assumes "oldest_first (concat (seg # segs))" "f \<in> set seg" "seg' \<in> set segs" "g \<in> set seg'"
  shows "frame_no f < frame_no g"
  using assms by (auto simp: oldest_first_append)

lemma distinct_seg_names:
  assumes "oldest_first (concat segs)" "\<forall>seg\<in>set segs. seg \<noteq> []"
  shows "distinct (map (seg_name db_id) segs)"
  using assms
proof (induction segs)
  case (Cons seg segs)
  have "seg_name db_id seg \<noteq> seg_name db_id seg'" if "seg' \<in> set segs" for seg'
    using seg_before [OF Cons.prems(1), of "hd seg" seg' "hd seg'"] that Cons.prems(2)
    by (auto simp: seg_name_def)
  then show ?case using Cons by (auto simp: oldest_first_append)
qed simp

lemma last_concat: "segs \<noteq> [] \<Longrightarrow> last segs \<noteq> [] \<Longrightarrow> last (concat segs) = last (last segs)"
proof (induction segs)
  case (Cons seg segs)
  moreover have "concat segs \<noteq> []" if "segs \<noteq> []" "last segs \<noteq> []"
    using that last_in_set [of segs] by auto
  ultimately show ?case by auto
qed simp

lemma merged_name_new:
  assumes "oldest_first (concat segs)" "\<forall>seg\<in>set segs. seg \<noteq> []" "2 \<le> length segs" "seg \<in> set segs"
  shows "seg_name db_id (concat segs) \<noteq> seg_name db_id seg"
proof -
  obtain s0 rest where segs: "segs = s0 # rest" "rest \<noteq> []" "s0 \<noteq> []"
    using assms(2,3) by (cases segs; cases "tl segs") auto
  have lastne: "last rest \<in> set rest" "last rest \<noteq> []" "concat rest \<noteq> []"
    using segs(2) assms(2) segs(1) last_in_set by auto
  have l: "last (concat segs) = last (last rest)" and h: "hd (concat segs) = hd s0"
    using lastne segs last_concat [of rest] by simp_all
  show ?thesis
  proof (cases "seg = s0")
    case True
    then have "frame_no (last seg) < frame_no (last (concat segs))"
      using seg_before [OF assms(1) [unfolded segs(1)], of "last s0" "last rest" "last (last rest)"]
        segs(3) lastne l by simp
    then show ?thesis by (auto simp: seg_name_def)
  next
    case False
    then have seg: "seg \<in> set rest" "seg \<noteq> []" using assms(2,4) segs(1) by auto
    have "frame_no (hd s0) < frame_no (hd seg)"
      by (rule seg_before [OF assms(1) [unfolded segs(1)] _ seg(1)]) (use segs(3) seg(2) in simp_all)
    then show ?thesis using h by (auto simp: seg_name_def)
  qed
qed

lemma stored_present:
  "list_all2 (stored db_id dir) infos segs \<Longrightarrow> \<forall>i\<in>set infos. map_of dir (fst i) \<noteq> None"
  by (induction rule: list_all2_induct) (auto simp: stored_def)

lemma append_snapshots_stored:
  assumes st: "list_all2 (stored db_id dir) infos segs" and ne: "infos \<noteq> []"
    and asc: "oldest_first (concat segs)" and bound: "\<forall>f\<in>set (concat segs). frame_no f < - 1"
  obtains b where "append_snapshots dir (rev infos) (builder_new db_id) = Inr b"
    "sb_snapshot_file b = replicate SNAP_HEADER_SIZE 0 @ concat (newest {} (rev (concat segs)))"
    "sh_frame_count (sb_header b) = word_of_nat (length (newest {} (rev (concat segs))))"
    "sh_db_id (sb_header b) = db_id"
proof -
  define ds where "ds = concat (map (\<lambda>seg. newest {} (rev seg)) (rev segs))"
  have "list_all2 (\<lambda>i seg. \<exists>f. map_of dir (fst i) = Some f \<and> snapshot_of seg f \<and> frames_fit seg)
      (rev infos) (rev segs)"
    unfolding list_all2_rev using st by (rule list_all2_mono) (auto simp: stored_def)
  note app = append_snapshots_segments [OF this, of "builder_new db_id", folded ds_def]
  have nf: "newest_first ds"
    unfolding ds_def using asc
    by (intro newest_first_concat) (simp add: concat_rev_rev newest_first_rev)
  have "set ds \<subseteq> set (concat segs)"
    using set_newest [of "{}"] by (fastforce simp: ds_def)
  then have "\<forall>f\<in>set ds. frame_no f < sb_last_seen_frame_no (builder_new db_id)"
    using bound by (auto simp: builder_new_def)
  note ok = append_frames_ok [OF nf this]
  have new: "newest {} ds = newest {} (rev (concat segs))"
    unfolding ds_def newest_concat concat_rev_rev ..
  show thesis
    by (rule that [OF app [unfolded ok]])
      (simp_all add: builder_new_def new header_after_def Let_def)
qed

text \<open>
  (C27) Merging snapshots is compacting the concatenation of what they cover: for
  two or more stored snapshots of consecutive segments of the log, the merge
  succeeds, stores exactly the snapshot of the joined segment under the name of
  its first and last frame, removes the sources and touches no other file.
\<close>

theorem merge_is_compaction_of_concat:
  assumes st: "list_all2 (stored db_id dir) infos segs" and two: "2 \<le> length segs"
    and asc: "oldest_first (concat segs)" and bound: "\<forall>f\<in>set (concat segs). frame_no f < - 1"
    and fit: "frames_fit (concat segs)"
  shows "\<exists>info dir'. merge_snapshots infos dir db_id = Inr (info, dir') \<and>
    stored db_id dir' info (concat segs) \<and>
    (\<forall>i\<in>set infos. map_of dir' (fst i) = None) \<and>
    (\<forall>n. n \<notin> fst ` set infos \<and> n \<noteq> fst info \<longrightarrow> map_of dir' n = map_of dir n)"
proof -
  have len: "length infos = length segs" using st by (rule list_all2_lengthD)
  have ne: "infos \<noteq> []" "segs \<noteq> []" using two len by auto
  have nes: "\<forall>seg\<in>set segs. seg \<noteq> []" and names: "map fst infos = map (seg_name db_id) segs"
    using st by (induction rule: list_all2_induct) (auto simp: stored_def)
  obtain b where b: "append_snapshots dir (rev infos) (builder_new db_id) = Inr b"
    "sb_snapshot_file b = replicate SNAP_HEADER_SIZE 0 @ concat (newest {} (rev (concat segs)))"
    "sh_frame_count (sb_header b) = word_of_nat (length (newest {} (rev (concat segs))))"
    "sh_db_id (sb_header b) = db_id"
    using append_snapshots_stored [OF st ne(1) asc bound] .
  have first: "fst (hd infos) = seg_name db_id (hd segs)"
    and final: "fst (last infos) = seg_name db_id (last segs)"
    using names ne by (metis hd_map, metis last_map)
  define merged where "merged = seg_name db_id (concat segs)"
  have hdl: "merged = SnapName db_id (frame_no (hd (hd segs))) (frame_no (last (last segs)))"
    using ne(2) nes by (cases segs) (auto simp: merged_def seg_name_def last_concat)
  define f where "f = snapshot_file ((sb_header b)\<lparr>sh_start_frame_no := frame_no (hd (hd segs)),
      sh_end_frame_no := frame_no (last (last segs))\<rparr>) (newest {} (rev (concat segs)))"
  have snap: "snapshot_of (concat segs) f"
    using b(3) by (auto simp: snapshot_of_def f_def)
  have notin: "merged \<notin> fst ` set infos"
    using merged_name_new [OF asc nes two] arg_cong [OF names, of set] by (auto simp: merged_def)
  have "\<forall>i\<in>set infos. map_of (dir_persist merged f dir) (fst i) \<noteq> None"
    using stored_present [OF st] by (simp add: map_of_persist)
  moreover have "distinct (map fst infos)"
    unfolding names by (rule distinct_seg_names [OF asc nes])
  ultimately obtain dir' where dir': "remove_snapshots infos (dir_persist merged f dir) = Inr dir'"
    "\<forall>n. map_of dir' n = (if n \<in> fst ` set infos then None else map_of (dir_persist merged f dir) n)"
    using remove_snapshots_ok by blast
  have "merge_snapshots infos dir db_id = Inr ((merged, sh_frame_count (sb_header b)), dir')"
    using b dir'(1) first final ne(1) hdl
    by (cases infos) (simp_all add: merge_snapshots_def seg_name_def builder_finish_def Let_def
        put_at_zero_header snapshot_file_def f_def)
  moreover have "concat segs \<noteq> []" using ne(2) nes by (cases segs) auto
  ultimately show ?thesis
    using dir'(2) notin snap fit
    by (intro exI [of _ "(merged, sh_frame_count (sb_header b))"] exI [of _ dir'])
      (auto simp: stored_def merged_def [symmetric] map_of_persist)
qed

definition sample_frame :: "u64 \<Rightarrow> u32 \<Rightarrow> Frame" where
  "sample_frame n p =
     header_bytes \<lparr> fh_frame_no = n, fh_checksum = 0, fh_page_no = p, fh_size_after = 1 \<rparr>
       @ replicate 4096 0"

definition sample_file :: "Frame list \<Rightarrow> file_data" where
  "sample_file seg = snapshot_file (compacted_header 7 seg) (newest {} (rev seg))"

definition sample_dir :: snap_dir where
  "sample_dir = [(SnapName 7 0 0, sample_file [sample_frame 0 1]),
                 (SnapName 7 1 1, sample_file [sample_frame 1 2])]"

lemma sample_frame_simps [simp]:
  "frame_no (sample_frame n p) = n" "frame_page_no (sample_frame n p) = p"
  "length (sample_frame n p) = FRAME_SIZE"
  by (simp_all add: sample_frame_def frame_sizes)

lemma sample_snapshot_of: "snapshot_of seg (sample_file seg)"
  by (auto simp: snapshot_of_def sample_file_def compacted_header_def)

lemma sample_stored:
  "stored 7 sample_dir (SnapName 7 0 0, 1) [sample_frame 0 1]"
  "stored 7 sample_dir (SnapName 7 1 1, 1) [sample_frame 1 2]"
  by (simp_all add: stored_def sample_dir_def seg_name_def frames_fit_def snap_sizes
      sample_snapshot_of)

theorem merge_is_compaction_of_concat_witness:
  "\<exists>info dir'. merge_snapshots [(SnapName 7 0 0, 1), (SnapName 7 1 1, 1)] sample_dir 7 = Inr (info, dir') \<and>
     fst info = SnapName 7 0 1 \<and> map_of dir' (SnapName 7 0 1) \<noteq> None \<and>
     map_of dir' (SnapName 7 0 0) = None"
proof -
  have "list_all2 (stored 7 sample_dir) [(SnapName 7 0 0, 1), (SnapName 7 1 1, 1)]
      [[sample_frame 0 1], [sample_frame 1 2]]"
    using sample_stored by simp
  from merge_is_compaction_of_concat [OF this] show ?thesis
    by (auto simp: oldest_first_def frames_fit_def snap_sizes stored_def seg_name_def u64_less_max)
qed

text \<open>
  Merging a single snapshot destroys it: the merged snapshot gets the name
  of its only source, replaces it, and is then removed with the sources. The
  merger does this whenever one snapshot alone holds at least twice the pages
  of the database, as after a transaction that shrinks the database.
\<close>

theorem merge_of_one_loses_snapshot:
  assumes st: "stored db_id dir info seg" and "oldest_first seg" "\<forall>f\<in>set seg. frame_no f < - 1"
  shows "\<exists>info' dir'. merge_snapshots [info] dir db_id = Inr (info', dir') \<and>
    fst info' = fst info \<and> map_of dir' (fst info) = None"
proof -
  have st': "list_all2 (stored db_id dir) [info] [seg]" using st by simp
  obtain b where b: "append_snapshots dir (rev [info]) (builder_new db_id) = Inr b"
    "sh_db_id (sb_header b) = db_id"
    using append_snapshots_stored [OF st'] assms(2,3) by (metis concat.simps append_Nil2 list.distinct(1))
  have name: "fst info = SnapName db_id (frame_no (hd seg)) (frame_no (last seg))"
    using st by (simp add: stored_def seg_name_def)
  define f where "f = put_at 0 (snap_header_bytes ((sb_header b)\<lparr>sh_start_frame_no := frame_no (hd seg),
      sh_end_frame_no := frame_no (last seg)\<rparr>)) (sb_snapshot_file b)"
  obtain dir' where d: "dir_remove (fst info) (dir_persist (fst info) f dir) = Inr dir'"
    "\<And>n. map_of dir' n = (if n = fst info then None else map_of (dir_persist (fst info) f dir) n)"
    using dir_remove_ok [of "dir_persist (fst info) f dir" "fst info"] by (auto simp: map_of_persist)
  show ?thesis
    using b d name
    by (intro exI [of _ "(fst info, sh_frame_count (sb_header b))"] exI [of _ dir'])
      (cases info, simp add: merge_snapshots_def builder_finish_def Let_def f_def)
qed


theorem merge_of_one_loses_snapshot_witness:
  "map_of sample_dir (SnapName 7 1 1) \<noteq> None \<and>
   (\<exists>info' dir'. merge_snapshots [(SnapName 7 1 1, 1)] sample_dir 7 = Inr (info', dir') \<and>
     map_of dir' (SnapName 7 1 1) = None)"
  using merge_of_one_loses_snapshot [OF sample_stored(2)]
  by (auto simp: oldest_first_def sample_dir_def u64_less_max)

end
