(* ===== verification/FrameStream.thy ===== *)
theory FrameStream
  imports Logger Snapshot Auth
begin

text \<open>
  \<^verbatim>\<open>sqld/src/replication/primary/frame_stream.rs\<close>: the stream of frames a primary
  serves to a replica, and \<^verbatim>\<open>sqld/src/rpc/replication_log.rs\<close>: the gRPC service
  around it. A poll of the stream is a function of the logger it sees at this
  moment; \<^verbatim>\<open>changed\<close> is what the future that waits for the notifier has resolved to,
  if it has.
\<close>

datatype FrameStreamState = Init | WaitingFrameNo | WaitingFrame FrameNo | Closed

record FrameStream =
  fs_current_frame_no :: FrameNo
  fs_max_available_frame_no :: FrameNo
  fs_state :: FrameStreamState
  fs_wait_for_more :: bool
  fs_produced_frames :: nat
  fs_max_frames :: "nat option"

datatype 'a poll = Pending | Ready 'a

definition stream_new :: "ReplicationLogger \<Rightarrow> FrameNo \<Rightarrow> bool \<Rightarrow> nat option \<Rightarrow> FrameStream" where
  "stream_new rl current wait max_frames =
     \<lparr> fs_current_frame_no = current,
       fs_max_available_frame_no = rl_new_frame_notifier rl,
       fs_state = Init, fs_wait_for_more = wait,
       fs_produced_frames = 0, fs_max_frames = max_frames \<rparr>"

definition transition_state_next_frame :: "FrameStream \<Rightarrow> FrameStream" where
  "transition_state_next_frame s =
     (if fs_state s = Closed then s
      else if fs_max_frames s = Some (fs_produced_frames s) then s\<lparr>fs_state := Closed\<rparr>
      else s\<lparr>fs_state := WaitingFrame (fs_current_frame_no s)\<rparr>)"

function poll_next ::
  "ReplicationLogger \<Rightarrow> (log_error + FrameNo) option \<Rightarrow> FrameStream
     \<Rightarrow> (log_error + Frame) option poll \<times> FrameStream" where
  "poll_next rl changed s =
     (if rl_closed_signal rl then (Ready (Some (Inl LoggerClosed)), s)
      else (case fs_state s of
              Init \<Rightarrow> poll_next rl changed (transition_state_next_frame s)
            | WaitingFrameNo \<Rightarrow>
                (case changed of
                   None \<Rightarrow> (Pending, s)
                 | Some (Inr n) \<Rightarrow>
                     poll_next rl None
                       (transition_state_next_frame (s\<lparr>fs_max_available_frame_no := n\<rparr>))
                 | Some (Inl e) \<Rightarrow> (Ready (Some (Inl e)), s\<lparr>fs_state := Closed\<rparr>))
            | WaitingFrame n \<Rightarrow>
                (case get_frame n rl of
                   Inr frame \<Rightarrow>
                     (Ready (Some (Inr frame)),
                      transition_state_next_frame
                        (s\<lparr>fs_current_frame_no := fs_current_frame_no s + 1,
                           fs_produced_frames := fs_produced_frames s + 1\<rparr>))
                 | Inl Ahead \<Rightarrow>
                     if \<not> fs_wait_for_more s then (Ready None, s\<lparr>fs_state := Closed\<rparr>)
                     else if fs_max_available_frame_no s < rl_new_frame_notifier rl
                     then poll_next rl changed
                            (transition_state_next_frame
                               (s\<lparr>fs_max_available_frame_no := rl_new_frame_notifier rl\<rparr>))
                     else (Pending, s\<lparr>fs_state := WaitingFrameNo\<rparr>)
                 | Inl e \<Rightarrow> (Ready (Some (Inl e)), s\<lparr>fs_state := Closed\<rparr>))
            | Closed \<Rightarrow> (Ready None, s)))"
  by pat_completeness auto

text \<open>
  A poll comes to an end: the wait for the notifier is left at most once, the
  announced maximum is raised at most once, and the initial state is left for good.
\<close>

termination poll_next
proof (relation "measures [\<lambda>(rl, changed, s). if changed = None then 0 else 1 :: nat,
      \<lambda>(rl, changed, s). if fs_max_available_frame_no s < rl_new_frame_notifier rl then 1 else 0,
      \<lambda>(rl, changed, s). if fs_state s = Init then 1 else 0]", goal_cases)
qed (auto simp: transition_state_next_frame_def)

declare poll_next.simps [simp del]


section \<open>The replication service\<close>

text \<open>
  \<^verbatim>\<open>lookup\<close> stands for \<^verbatim>\<open>NamespaceStore::with\<close>: the logger of a namespace or an error.
  Binary metadata maps a key to its decoded bytes, or to None when they cannot
  be decoded.
\<close>

datatype ns_error = NamespaceDoesntExist string | OtherError string

record LogRequest =
  rq_metadata :: metadata
  rq_bin_metadata :: "(string \<times> string option) list"
  rq_remote_addr :: "nat option"
  rq_next_offset :: FrameNo

record 'k ReplicationLogService =
  svc_replicas_with_hello :: "(nat \<times> string) set"
  svc_auth :: "'k Auth option"
  svc_disable_namespaces :: bool
  svc_connected_replicas :: u64

record HelloResponse =
  hr_database_id :: u128
  hr_generation_start_index :: u64
  hr_generation_id :: u128

definition NO_HELLO_ERROR_MSG :: string where "NO_HELLO_ERROR_MSG = ''NO_HELLO''"
definition NEED_SNAPSHOT_ERROR_MSG :: string where "NEED_SNAPSHOT_ERROR_MSG = ''NEED_SNAPSHOT''"
definition NAMESPACE_DOESNT_EXIST :: string where
  "NAMESPACE_DOESNT_EXIST = ''NAMESPACE_DOESNT_EXIST''"
definition MAX_FRAMES_PER_BATCH :: nat where "MAX_FRAMES_PER_BATCH = 1024"
definition DEFAULT_NAMESPACE_NAME :: string where "DEFAULT_NAMESPACE_NAME = ''default''"

definition extract_namespace ::
  "bool \<Rightarrow> (string \<times> string option) list \<Rightarrow> Status + string" where
  "extract_namespace disable_namespaces md =
     (if disable_namespaces then Inr DEFAULT_NAMESPACE_NAME
      else (case map_of md ''x-namespace-bin'' of
              Some (Some ns) \<Rightarrow> Inr ns
            | Some None \<Rightarrow> Inl (InvalidArgument, ''Metadata can't be converted into Bytes'')
            | None \<Rightarrow> Inl (InvalidArgument, ''Missing x-namespace-bin metadata'')))"

definition service_authenticate ::
  "'k jwt_decode \<Rightarrow> 'k ReplicationLogService \<Rightarrow> metadata \<Rightarrow> Status + unit" where
  "service_authenticate decode svc md =
     (case svc_auth svc of
        None \<Rightarrow> Inr ()
      | Some auth \<Rightarrow>
          (case authenticate_grpc decode auth md of Inl e \<Rightarrow> Inl e | Inr _ \<Rightarrow> Inr ()))"

fun error_message :: "log_error \<Rightarrow> string" where
  "error_message SnapshotRequired = ''could not fetch log entry, snapshot required''"
| "error_message Ahead = ''requested entry is ahead of log''"
| "error_message InvalidHeader = ''invalid replication log header''"
| "error_message InvalidFrameSize = ''invalid frame size''"
| "error_message LoggerClosed = ''logger closed''"
| "error_message e = ''io error''"

definition map_frame_stream_output :: "log_error + Frame \<Rightarrow> Status + Frame" where
  "map_frame_stream_output r =
     (case r of
        Inr frame \<Rightarrow> Inr frame
      | Inl SnapshotRequired \<Rightarrow> Inl (FailedPrecondition, NEED_SNAPSHOT_ERROR_MSG)
      | Inl Ahead \<Rightarrow> Inl (OutOfRange, ''frame not yet available'')
      | Inl e \<Rightarrow> Inl (Internal, error_message e))"

definition status_of_ns_error :: "ns_error \<Rightarrow> Status" where
  "status_of_ns_error e =
     (case e of
        NamespaceDoesntExist _ \<Rightarrow> (FailedPrecondition, NAMESPACE_DOESNT_EXIST)
      | OtherError msg \<Rightarrow> (Internal, msg))"

text \<open>\<^verbatim>\<open>StreamGuard\<close>: a connected stream counts as a connected replica until it is dropped.\<close>

definition guard_new :: "'k ReplicationLogService \<Rightarrow> 'k ReplicationLogService" where
  "guard_new svc = svc\<lparr>svc_connected_replicas := svc_connected_replicas svc + 1\<rparr>"

definition guard_drop :: "'k ReplicationLogService \<Rightarrow> 'k ReplicationLogService" where
  "guard_drop svc = svc\<lparr>svc_connected_replicas := svc_connected_replicas svc - 1\<rparr>"

text \<open>What \<^verbatim>\<open>log_entries\<close> and \<^verbatim>\<open>batch_log_entries\<close> check before they open a stream.\<close>

definition open_logger ::
  "'k jwt_decode \<Rightarrow> (string \<Rightarrow> ns_error + ReplicationLogger) \<Rightarrow> 'k ReplicationLogService
     \<Rightarrow> LogRequest \<Rightarrow> Status + ReplicationLogger" where
  "open_logger decode lookup svc req =
     (case service_authenticate decode svc (rq_metadata req) of
        Inl e \<Rightarrow> Inl e
      | Inr _ \<Rightarrow>
          (case extract_namespace (svc_disable_namespaces svc) (rq_bin_metadata req) of
             Inl e \<Rightarrow> Inl e
           | Inr ns \<Rightarrow>
               (case rq_remote_addr req of
                  None \<Rightarrow> Inl (Internal, ''No remote RPC address'')
                | Some addr \<Rightarrow>
                    if (addr, ns) \<notin> svc_replicas_with_hello svc
                    then Inl (FailedPrecondition, NO_HELLO_ERROR_MSG)
                    else (case lookup ns of
                            Inl e \<Rightarrow> Inl (status_of_ns_error e)
                          | Inr rl \<Rightarrow> Inr rl))))"

definition log_entries ::
  "'k jwt_decode \<Rightarrow> (string \<Rightarrow> ns_error + ReplicationLogger) \<Rightarrow> 'k ReplicationLogService
     \<Rightarrow> LogRequest \<Rightarrow> (Status + FrameStream) \<times> 'k ReplicationLogService" where
  "log_entries decode lookup svc req =
     (case open_logger decode lookup svc req of
        Inl e \<Rightarrow> (Inl e, svc)
      | Inr rl \<Rightarrow> (Inr (stream_new rl (rq_next_offset req) True None), guard_new svc))"

text \<open>\<^verbatim>\<open>collect::<Result<Vec<_>, _>>\<close> of the mapped stream; None when the fuel is used up.\<close>

fun collect_frames :: "nat \<Rightarrow> ReplicationLogger \<Rightarrow> FrameStream \<Rightarrow> (Status + Frame list) option" where
  "collect_frames 0 rl s = None"
| "collect_frames (Suc fuel) rl s =
     (case poll_next rl None s of
        (Pending, s) \<Rightarrow> collect_frames fuel rl s
      | (Ready None, s) \<Rightarrow> Some (Inr [])
      | (Ready (Some r), s) \<Rightarrow>
          (case map_frame_stream_output r of
             Inl e \<Rightarrow> Some (Inl e)
           | Inr frame \<Rightarrow>
               (case collect_frames fuel rl s of
                  None \<Rightarrow> None
                | Some (Inl e) \<Rightarrow> Some (Inl e)
                | Some (Inr frames) \<Rightarrow> Some (Inr (frame # frames)))))"

definition batch_log_entries ::
  "'k jwt_decode \<Rightarrow> (string \<Rightarrow> ns_error + ReplicationLogger) \<Rightarrow> 'k ReplicationLogService
     \<Rightarrow> LogRequest \<Rightarrow> (Status + Frame list) option" where
  "batch_log_entries decode lookup svc req =
     (case open_logger decode lookup svc req of
        Inl e \<Rightarrow> Some (Inl e)
      | Inr rl \<Rightarrow>
          collect_frames (MAX_FRAMES_PER_BATCH + 1) rl
            (stream_new rl (rq_next_offset req) False (Some MAX_FRAMES_PER_BATCH)))"

definition hello ::
  "'k jwt_decode \<Rightarrow> (string \<Rightarrow> ns_error + ReplicationLogger) \<Rightarrow> 'k ReplicationLogService
     \<Rightarrow> LogRequest \<Rightarrow> (Status + HelloResponse) \<times> 'k ReplicationLogService" where
  "hello decode lookup svc req =
     (case service_authenticate decode svc (rq_metadata req) of
        Inl e \<Rightarrow> (Inl e, svc)
      | Inr _ \<Rightarrow>
          (case extract_namespace (svc_disable_namespaces svc) (rq_bin_metadata req) of
             Inl e \<Rightarrow> (Inl e, svc)
           | Inr ns \<Rightarrow>
               (case rq_remote_addr req of
                  None \<Rightarrow> (Inl (Internal, ''No remote RPC address''), svc)
                | Some addr \<Rightarrow>
                    (let svc = svc\<lparr>svc_replicas_with_hello :=
                                     insert (addr, ns) (svc_replicas_with_hello svc)\<rparr>
                     in case lookup ns of
                          Inl e \<Rightarrow> (Inl (status_of_ns_error e), svc)
                        | Inr rl \<Rightarrow>
                            (Inr \<lparr> hr_database_id = lh_db_id (lf_header (rl_log_file rl)),
                                   hr_generation_start_index = rl_generation_start_index rl,
                                   hr_generation_id = rl_generation_id rl \<rparr>, svc)))))"

text \<open>
  The snapshot handler: the frames are sent until the first error. The lookup
  of the namespace is unwrapped: None is a panic of the handler.
\<close>

fun send_frames :: "(log_error + Frame) list \<Rightarrow> (Status + Frame) list" where
  "send_frames [] = []"
| "send_frames (Inr frame # frames) = Inr frame # send_frames frames"
| "send_frames (Inl e # frames) = [Inl (Internal, error_message e)]"

definition snapshot_handler ::
  "'k jwt_decode \<Rightarrow> (string \<Rightarrow> ns_error + ReplicationLogger) \<Rightarrow> (string \<Rightarrow> snap_dir)
     \<Rightarrow> 'k ReplicationLogService \<Rightarrow> LogRequest \<Rightarrow> (Status + (Status + Frame) list) option" where
  "snapshot_handler decode lookup dir svc req =
     (case service_authenticate decode svc (rq_metadata req) of
        Inl e \<Rightarrow> Some (Inl e)
      | Inr _ \<Rightarrow>
          (case extract_namespace (svc_disable_namespaces svc) (rq_bin_metadata req) of
             Inl e \<Rightarrow> Some (Inl e)
           | Inr ns \<Rightarrow>
               (case lookup ns of
                  Inl _ \<Rightarrow> None
                | Inr rl \<Rightarrow>
                    (case find_snapshot_file (dir ns) (rq_next_offset req) of
                       Inr (Some snap) \<Rightarrow>
                         Some (Inr (send_frames (frames_iter_from (rq_next_offset req) snap)))
                     | Inr None \<Rightarrow> Some (Inl (Unavailable, ''snapshot not found''))
                     | Inl e \<Rightarrow> Some (Inl (Internal, error_message e))))))"


section \<open>The interface of a source of frames\<close>

text \<open>
  What a stream relies on: a window of frame numbers is readable and every frame
  carries the number it was asked for.
\<close>

fun read_run :: "(FrameNo \<Rightarrow> log_error + Frame) \<Rightarrow> nat \<Rightarrow> FrameNo \<Rightarrow> Frame list" where
  "read_run get 0 n = []"
| "read_run get (Suc k) n =
     (case get n of Inr f \<Rightarrow> f # read_run get k (n + 1) | Inl _ \<Rightarrow> [])"

locale frame_source =
  fixes good :: "'l \<Rightarrow> bool"
    and lo :: "'l \<Rightarrow> nat"
    and hi :: "'l \<Rightarrow> nat"
    and get :: "FrameNo \<Rightarrow> 'l \<Rightarrow> log_error + Frame"
  assumes hi_bound: "good l \<Longrightarrow> hi l < 2 ^ 64"
    and get_before: "good l \<Longrightarrow> unat n < lo l \<Longrightarrow> get n l = Inl SnapshotRequired"
    and get_within: "good l \<Longrightarrow> lo l \<le> unat n \<Longrightarrow> unat n < hi l \<Longrightarrow>
      \<exists>f. get n l = Inr f \<and> frame_no f = n"
    and get_ahead: "good l \<Longrightarrow> lo l \<le> unat n \<Longrightarrow> hi l \<le> unat n \<Longrightarrow> get n l = Inl Ahead"
begin

lemma get_number: "good l \<Longrightarrow> get n l = Inr f \<Longrightarrow> frame_no f = n"
  using get_before get_within get_ahead by (metis Inl_Inr_False Inr_inject linorder_not_le)

lemma read_run_facts:
  assumes "good l" "lo l \<le> unat n"
  shows "length (read_run (\<lambda>n. get n l) k n) = min k (hi l - unat n) \<and>
    (\<forall>i<length (read_run (\<lambda>n. get n l) k n).
       frame_no (read_run (\<lambda>n. get n l) k n ! i) = n + word_of_nat i)"
  using assms(2)
proof (induction k arbitrary: n)
  case (Suc k)
  show ?case
  proof (cases "unat n < hi l")
    case True
    then obtain f where f: "get n l = Inr f" "frame_no f = n"
      using get_within [OF assms(1) Suc.prems] by blast
    have "unat (n + 1) = Suc (unat n)"
      by (rule unat_add_one) (use True hi_bound [OF assms(1)] in simp)
    then show ?thesis
      using Suc.IH [of "n + 1"] Suc.prems f True
      by (auto simp: less_Suc_eq_0_disj min_def add.assoc)
  next
    case False
    then show ?thesis using get_ahead [OF assms(1) Suc.prems] by simp
  qed
qed simp

end

definition logger_first :: "ReplicationLogger \<Rightarrow> nat" where
  "logger_first rl = unat (lh_start_frame_no (lf_header (rl_log_file rl)))"

definition logger_next :: "ReplicationLogger \<Rightarrow> nat" where
  "logger_next rl = logger_first rl + length (log_committed (rl_log_file rl))"

definition logger_good :: "ReplicationLogger \<Rightarrow> bool" where
  "logger_good rl \<longleftrightarrow> log_inv (rl_log_file rl)"

interpretation logger_source: frame_source logger_good logger_first logger_next get_frame
proof (unfold_locales, goal_cases)
  case (1 rl)
  then show ?case
    by (simp add: logger_good_def logger_next_def logger_first_def log_inv_def log_room_def
        log_total_def)
next
  case (2 rl n)
  then show ?case
    by (simp add: logger_good_def logger_first_def get_frame_def log_frame_lookup word_less_nat_alt)
next
  case (3 rl n)
  have inv: "log_inv (rl_log_file rl)" using 3(1) by (simp add: logger_good_def)
  have i: "unat n - logger_first rl < length (log_committed (rl_log_file rl))"
    using 3(2,3) by (simp add: logger_next_def)
  have "unat (frame_no (log_committed (rl_log_file rl) ! (unat n - logger_first rl))) = unat n"
    using unat_committed_frame_no [OF inv i] 3(2) by (simp add: logger_first_def)
  then have "frame_no (log_committed (rl_log_file rl) ! (unat n - logger_first rl)) = n"
    by (simp add: word_unat_eq_iff)
  then show ?case
    using 3 i by (auto simp: get_frame_def log_frame_lookup [OF inv] logger_first_def logger_next_def
        word_less_nat_alt)
next
  case (4 rl n)
  then show ?case
    by (simp add: logger_good_def logger_first_def logger_next_def get_frame_def log_frame_lookup
        word_less_nat_alt)
qed

section \<open>Batches\<close>

lemma poll_waiting:
  assumes "\<not> rl_closed_signal rl" "fs_state s = WaitingFrame n" "\<not> fs_wait_for_more s"
  shows "poll_next rl c s =
    (case get_frame n rl of
       Inr frame \<Rightarrow>
         (Ready (Some (Inr frame)),
          transition_state_next_frame
            (s\<lparr>fs_current_frame_no := fs_current_frame_no s + 1,
               fs_produced_frames := fs_produced_frames s + 1\<rparr>))
     | Inl Ahead \<Rightarrow> (Ready None, s\<lparr>fs_state := Closed\<rparr>)
     | Inl e \<Rightarrow> (Ready (Some (Inl e)), s\<lparr>fs_state := Closed\<rparr>))"
  using assms by (subst poll_next.simps) (simp split: sum.splits log_error.splits)

lemma poll_closed:
  assumes "\<not> rl_closed_signal rl" "fs_state s = Closed"
  shows "poll_next rl c s = (Ready None, s)"
  using assms by (subst poll_next.simps) simp

lemma collect_batch:
  assumes good: "logger_good rl" and open_log: "\<not> rl_closed_signal rl"
    and "\<not> fs_wait_for_more s" "fs_state s \<noteq> Closed"
    and "fs_max_frames s = Some (fs_produced_frames s + k)" "k < fuel"
    and "logger_first rl \<le> unat (fs_current_frame_no s)"
  shows "collect_frames fuel rl (transition_state_next_frame s) =
    Some (Inr (read_run (\<lambda>n. get_frame n rl) k (fs_current_frame_no s)))"
  using assms(3-)
proof (induction k arbitrary: s fuel)
  case 0
  then obtain fuel' where fuel: "fuel = Suc fuel'" by (cases fuel) auto
  have "transition_state_next_frame s = s\<lparr>fs_state := Closed\<rparr>"
    using 0 by (simp add: transition_state_next_frame_def)
  then show ?case using poll_closed [OF open_log] by (simp add: fuel)
next
  case (Suc k)
  obtain fuel' where fuel: "fuel = Suc fuel'" "k < fuel'" using Suc.prems(4) by (cases fuel) auto
  define t where "t = s\<lparr>fs_state := WaitingFrame (fs_current_frame_no s)\<rparr>"
  have tr: "transition_state_next_frame s = t"
    using Suc.prems by (simp add: transition_state_next_frame_def t_def)
  note poll = poll_waiting [OF open_log, of t "fs_current_frame_no s" None]
  show ?case
  proof (cases "unat (fs_current_frame_no s) < logger_next rl")
    case True
    then obtain f where f: "get_frame (fs_current_frame_no s) rl = Inr f"
      using logger_source.get_within [OF good Suc.prems(5)] by blast
    have "unat (fs_current_frame_no s + 1) = Suc (unat (fs_current_frame_no s))"
      by (rule unat_add_one) (use True logger_source.hi_bound [OF good] in simp)
    then have "collect_frames fuel' rl (transition_state_next_frame
        (t\<lparr>fs_current_frame_no := fs_current_frame_no s + 1,
           fs_produced_frames := fs_produced_frames s + 1\<rparr>))
      = Some (Inr (read_run (\<lambda>n. get_frame n rl) k (fs_current_frame_no s + 1)))"
      using Suc.prems fuel(2) by (subst Suc.IH) (simp_all add: t_def)
    then show ?thesis
      using poll f Suc.prems(1)
      by (simp add: fuel tr t_def map_frame_stream_output_def)
  next
    case False
    then have "get_frame (fs_current_frame_no s) rl = Inl Ahead"
      using logger_source.get_ahead [OF good Suc.prems(5)] by simp
    then show ?thesis
      using poll Suc.prems(1) by (simp add: fuel tr t_def)
  qed
qed

lemma collect_frames_Init:
  assumes "\<not> rl_closed_signal rl" "fs_state s = Init"
  shows "collect_frames fuel rl s = collect_frames fuel rl (transition_state_next_frame s)"
proof (cases fuel)
  case (Suc f)
  have "poll_next rl None s = poll_next rl None (transition_state_next_frame s)"
    using assms by (subst poll_next.simps) simp
  then show ?thesis by (simp add: Suc)
qed simp

lemma stream_new_Init: "fs_state (stream_new rl n w m) = Init"
  by (simp add: stream_new_def)

text \<open>
  (C24) A batch request on a well-formed log that still holds the requested frame
  returns exactly the frames from this number on, consecutive and in order, up
  to the end of the committed log or 1024 frames.
\<close>

theorem batch_serves_consecutive_frames:
  assumes "open_logger decode lookup svc req = Inr rl"
    and "logger_good rl" "\<not> rl_closed_signal rl"
    and "logger_first rl \<le> unat (rq_next_offset req)"
  shows "\<exists>frames. batch_log_entries decode lookup svc req = Some (Inr frames) \<and>
    length frames = min MAX_FRAMES_PER_BATCH (logger_next rl - unat (rq_next_offset req)) \<and>
    (\<forall>i<length frames. frame_no (frames ! i) = rq_next_offset req + word_of_nat i)"
proof -
  have "collect_frames (MAX_FRAMES_PER_BATCH + 1) rl
      (transition_state_next_frame
        (stream_new rl (rq_next_offset req) False (Some MAX_FRAMES_PER_BATCH)))
    = Some (Inr (read_run (\<lambda>n. get_frame n rl) MAX_FRAMES_PER_BATCH (rq_next_offset req)))"
    using assms by (subst collect_batch) (simp_all add: stream_new_def)
  then have "batch_log_entries decode lookup svc req
      = Some (Inr (read_run (\<lambda>n. get_frame n rl) MAX_FRAMES_PER_BATCH (rq_next_offset req)))"
    using collect_frames_Init [OF assms(3) stream_new_Init]
    by (simp add: batch_log_entries_def assms(1) del: collect_frames.simps)
  then show ?thesis
    using logger_source.read_run_facts [OF assms(2,4)] by blast
qed


definition sample_logger :: ReplicationLogger where
  "sample_logger = from_log_file 3 1000 one_frame_log"

definition open_service :: "unit ReplicationLogService" where
  "open_service = \<lparr> svc_replicas_with_hello = {(9, ''default'')}, svc_auth = None,
     svc_disable_namespaces = True, svc_connected_replicas = 0 \<rparr>"

definition sample_request :: "FrameNo \<Rightarrow> LogRequest" where
  "sample_request n = \<lparr> rq_metadata = [], rq_bin_metadata = [], rq_remote_addr = Some 9,
     rq_next_offset = n \<rparr>"

lemma sample_logger_simps:
  "rl_log_file sample_logger = one_frame_log" "\<not> rl_closed_signal sample_logger"
  "logger_good sample_logger" "logger_first sample_logger = 0" "logger_next sample_logger = 1"
  by (simp_all add: sample_logger_def from_log_file_def Let_def logger_good_def logger_first_def
      logger_next_def one_frame_log_facts)

lemma sample_open:
  "open_logger (\<lambda>_ _. Inl InvalidToken) (\<lambda>_. Inr sample_logger) open_service (sample_request n)
     = Inr sample_logger"
  by (simp add: open_logger_def service_authenticate_def extract_namespace_def open_service_def
      sample_request_def DEFAULT_NAMESPACE_NAME_def)

theorem batch_serves_consecutive_frames_witness:
  "\<exists>f. batch_log_entries (\<lambda>_ _. Inl InvalidToken) (\<lambda>_. Inr sample_logger) open_service
     (sample_request 0) = Some (Inr [f]) \<and> frame_no f = 0"
proof -
  have "logger_first sample_logger \<le> unat (rq_next_offset (sample_request 0))"
    by (simp add: sample_logger_simps)
  from batch_serves_consecutive_frames [OF sample_open sample_logger_simps(3,2) this]
  obtain frames where "batch_log_entries (\<lambda>_ _. Inl InvalidToken) (\<lambda>_. Inr sample_logger) open_service
     (sample_request 0) = Some (Inr frames)" "length frames = 1" "frame_no (frames ! 0) = 0"
    by (auto simp: sample_logger_simps sample_request_def MAX_FRAMES_PER_BATCH_def)
  then show ?thesis by (auto simp: length_Suc_conv)
qed

section \<open>Streams against a changing log\<close>

text \<open>
  A run polls the stream against the logger of each moment; between two polls
  the primary may commit, compact or close the log in any way.
\<close>

fun run_polls ::
  "(ReplicationLogger \<times> (log_error + FrameNo) option) list \<Rightarrow> FrameStream
     \<Rightarrow> (log_error + Frame) option poll list \<times> FrameStream" where
  "run_polls [] s = ([], s)"
| "run_polls ((rl, changed) # envs) s =
     (case poll_next rl changed s of
        (r, s) \<Rightarrow> (case run_polls envs s of (rs, s) \<Rightarrow> (r # rs, s)))"

fun produced :: "(log_error + Frame) option poll list \<Rightarrow> Frame list" where
  "produced [] = []"
| "produced (Ready (Some (Inr f)) # rs) = f # produced rs"
| "produced (_ # rs) = produced rs"

definition stream_ok :: "FrameStream \<Rightarrow> bool" where
  "stream_ok s \<longleftrightarrow> (\<forall>n. fs_state s = WaitingFrame n \<longrightarrow> n = fs_current_frame_no s)"

lemma stream_ok_transition [simp]: "stream_ok (transition_state_next_frame s)"
  by (simp add: stream_ok_def transition_state_next_frame_def)

lemma transition_current [simp]:
  "fs_current_frame_no (transition_state_next_frame s) = fs_current_frame_no s"
  by (simp add: transition_state_next_frame_def)

lemma poll_next_number:
  "stream_ok s \<Longrightarrow> poll_next rl changed s = (r, s') \<Longrightarrow> logger_good rl \<Longrightarrow>
    stream_ok s' \<and>
    (case produced [r] of
       [] \<Rightarrow> fs_current_frame_no s' = fs_current_frame_no s
     | f # _ \<Rightarrow> frame_no f = fs_current_frame_no s \<and>
               fs_current_frame_no s' = fs_current_frame_no s + 1)"
proof (induction rl changed s arbitrary: r s' rule: poll_next.induct)
  case (1 rl changed s)
  note IH = "1.IH" and pr = "1.prems"
  show ?case
  proof (cases "rl_closed_signal rl")
    case True
    then show ?thesis using pr(1,2) by (subst (asm) poll_next.simps) auto
  next
    case open_log: False
    show ?thesis
    proof (cases "fs_state s")
      case Init
      then have "poll_next rl changed (transition_state_next_frame s) = (r, s')"
        using pr(2) open_log by (subst (asm) poll_next.simps) simp
      from IH(1) [OF open_log Init stream_ok_transition this pr(3)] show ?thesis by (simp split: list.splits)
    next
      case WaitingFrameNo
      show ?thesis
      proof (cases changed)
        case None
        then show ?thesis using pr(1,2) open_log WaitingFrameNo by (subst (asm) poll_next.simps) auto
      next
        case (Some c)
        show ?thesis
        proof (cases c)
          case (Inl e)
          then show ?thesis
            using pr(1,2) open_log WaitingFrameNo Some
            by (subst (asm) poll_next.simps) (auto simp: stream_ok_def)
        next
          case (Inr n)
          define t where "t = transition_state_next_frame (s\<lparr>fs_max_available_frame_no := n\<rparr>)"
          have ok: "stream_ok t" by (simp add: t_def)
          have "poll_next rl None t = (r, s')"
            using pr(2) open_log WaitingFrameNo Some Inr unfolding t_def
            by (subst (asm) poll_next.simps) simp
          from IH(2) [OF open_log WaitingFrameNo Some Inr ok [unfolded t_def] this [unfolded t_def] pr(3)]
          show ?thesis by (simp split: list.splits)
        qed
      qed
    next
      case (WaitingFrame n)
      have n: "n = fs_current_frame_no s" using pr(1) WaitingFrame by (simp add: stream_ok_def)
      show ?thesis
      proof (cases "get_frame n rl")
        case (Inr f)
        have "frame_no f = n" by (rule logger_source.get_number [OF pr(3) Inr])
        then show ?thesis
          using pr(2) open_log WaitingFrame Inr n
          by (subst (asm) poll_next.simps) auto
      next
        case (Inl e)
        define t where "t = transition_state_next_frame
            (s\<lparr>fs_max_available_frame_no := rl_new_frame_notifier rl\<rparr>)"
        have ok: "stream_ok t" by (simp add: t_def)
        have rec: "stream_ok s' \<and> (case produced [r] of
             [] \<Rightarrow> fs_current_frame_no s' = fs_current_frame_no s
           | f # _ \<Rightarrow> frame_no f = fs_current_frame_no s \<and>
                     fs_current_frame_no s' = fs_current_frame_no s + 1)"
          if "e = Ahead" "fs_wait_for_more s" "fs_max_available_frame_no s < rl_new_frame_notifier rl"
        proof -
          have "poll_next rl changed t = (r, s')"
            using pr(2) open_log WaitingFrame Inl that unfolding t_def
            by (subst (asm) poll_next.simps) simp
          from IH(3) [OF open_log WaitingFrame Inl that(1) _ that(3) ok [unfolded t_def]
              this [unfolded t_def] pr(3)] that(2)
          show ?thesis by (simp split: list.splits)
        qed
        then show ?thesis
          using pr(1,2) open_log WaitingFrame Inl
          by (subst (asm) poll_next.simps)
            (auto simp: stream_ok_def split: log_error.splits if_splits)
      qed
    next
      case Closed
      then show ?thesis using pr(1,2) open_log by (subst (asm) poll_next.simps) auto
    qed
  qed
qed


text \<open>
  (C23) Whatever the primary does between two polls, a stream never skips,
  repeats or reorders: the frames it produces carry the numbers that follow
  the requested one, without a gap.
\<close>

theorem stream_never_skips:
  assumes "\<forall>(rl, c)\<in>set envs. logger_good rl"
    and "run_polls envs (stream_new rl0 n wait max_frames) = (rs, s')"
  shows "\<forall>i<length (produced rs). frame_no (produced rs ! i) = n + word_of_nat i"
proof -
  have "stream_ok s \<Longrightarrow> run_polls envs s = (rs, s') \<Longrightarrow>
      \<forall>i<length (produced rs). frame_no (produced rs ! i) = fs_current_frame_no s + word_of_nat i" for s
    using assms(1)
  proof (induction envs arbitrary: s rs)
    case (Cons env envs)
    obtain rl c where env: "env = (rl, c)" by fastforce
    obtain r s1 where p: "poll_next rl c s = (r, s1)" by fastforce
    obtain rs1 where q: "run_polls envs s1 = (rs1, s')" "rs = r # rs1"
      using Cons.prems(2) p env by (auto split: prod.splits)
    have good: "logger_good rl" using Cons.prems(3) env by auto
    note num = poll_next_number [OF Cons.prems(1) p good]
    have IH: "\<forall>i<length (produced rs1). frame_no (produced rs1 ! i) = fs_current_frame_no s1 + word_of_nat i"
      using Cons.IH [OF _ q(1)] num Cons.prems(3) by auto
    show ?case
    proof (cases "produced [r]")
      case Nil
      then have "produced rs = produced rs1"
        using q(2) by (cases "[r]" rule: produced.cases) auto
      then show ?thesis using IH num Nil by simp
    next
      case (Cons f _)
      then have "produced rs = f # produced rs1"
        using q(2) by (cases "[r]" rule: produced.cases) auto
      then show ?thesis
        using IH num Cons by (auto simp: less_Suc_eq_0_disj add.assoc)
    qed
  qed simp
  from this [OF _ assms(2)] show ?thesis by (simp add: stream_new_def stream_ok_def)
qed

theorem stream_never_skips_witness:
  "let (rs, s) = run_polls [(sample_logger, None), (sample_logger, None)]
       (stream_new sample_logger 0 True None)
   in length (produced rs) = 1 \<and> frame_no (produced rs ! 0) = 0 \<and> rs ! 1 = Pending"
proof -
  obtain f where f: "get_frame 0 sample_logger = Inr f"
    using logger_source.get_within [OF sample_logger_simps(3), of 0] sample_logger_simps(4,5) by auto
  have a: "get_frame 1 sample_logger = Inl Ahead"
    using logger_source.get_ahead [OF sample_logger_simps(3), of 1] sample_logger_simps(4,5) by auto
  define s1 where "s1 = (stream_new sample_logger 0 True None)
    \<lparr>fs_current_frame_no := 1, fs_produced_frames := 1, fs_state := WaitingFrame 1\<rparr>"
  have p1: "poll_next sample_logger None (stream_new sample_logger 0 True None) = (Ready (Some (Inr f)), s1)"
    by (subst poll_next.simps, subst poll_next.simps)
      (simp add: sample_logger_simps(2) stream_new_def transition_state_next_frame_def f s1_def)
  have p2: "poll_next sample_logger None s1 = (Pending, s1\<lparr>fs_state := WaitingFrameNo\<rparr>)"
    by (subst poll_next.simps) (simp add: sample_logger_simps(2) s1_def a stream_new_def)
  have run: "run_polls [(sample_logger, None), (sample_logger, None)] (stream_new sample_logger 0 True None)
      = ([Ready (Some (Inr f)), Pending], s1\<lparr>fs_state := WaitingFrameNo\<rparr>)"
    by (simp add: p1 p2)
  show ?thesis
    using stream_never_skips [OF _ run] run by (simp add: sample_logger_simps(3))
qed



end
