(* ===== verification/Replica.thy ===== *)
theory Replica
  imports FrameStream
begin

text \<open>
  \<^verbatim>\<open>sqld/src/replication/replica/\<close>: the replica side. \<^verbatim>\<open>meta.rs\<close> keeps which frame was
  last applied and from which database and generation, \<^verbatim>\<open>replicator.rs\<close> downloads
  frames and hands them over at transaction boundaries, \<^verbatim>\<open>hook.rs\<close> injects them
  into SQLite by replacing the frames of a dummy write. SQLite is seen through
  the contract of \<^verbatim>\<open>xFrames\<close>: when it returns 0 the pages are appended to the open
  transaction, and a commit makes the transaction part of the database, whose
  size becomes the number of pages passed.
\<close>

section \<open>The replication meta file\<close>

record WalIndexMeta =
  wm_pre_commit_frame_no :: FrameNo
  wm_post_commit_frame_no :: FrameNo
  wm_generation_id :: u128
  wm_database_id :: u128

definition META_SIZE :: nat where "META_SIZE = 48"

definition meta_bytes :: "WalIndexMeta \<Rightarrow> byte list" where
  "meta_bytes m =
     word_bytes 8 (wm_pre_commit_frame_no m) @ word_bytes 8 (wm_post_commit_frame_no m) @
     word_bytes 16 (wm_generation_id m) @ word_bytes 16 (wm_database_id m)"

definition meta_of_bytes :: "byte list \<Rightarrow> WalIndexMeta" where
  "meta_of_bytes bs =
     \<lparr> wm_pre_commit_frame_no = bytes_word (byte_slice 0 8 bs),
       wm_post_commit_frame_no = bytes_word (byte_slice 8 8 bs),
       wm_generation_id = bytes_word (byte_slice 16 16 bs),
       wm_database_id = bytes_word (byte_slice 32 16 bs) \<rparr>"

text \<open>None is a file too short to hold a meta; the flag is the outcome of the read itself.\<close>

definition meta_read :: "bool \<Rightarrow> file_data \<Rightarrow> log_error + WalIndexMeta option" where
  "meta_read ok f =
     (case read_exact_at 0 META_SIZE f of
        Some buf \<Rightarrow> if ok then Inr (Some (meta_of_bytes buf)) else Inl IoError
      | None \<Rightarrow> if ok then Inr None else Inl IoError)"

datatype ReplicationError = Lagging | DbIncompatible | ReplicationOther string

text \<open>The identifiers of a hello message are strings; None is one that is not a UUID.\<close>

record hello_msg =
  hm_database_id :: "u128 option"
  hm_generation_start_index :: u64
  hm_generation_id :: "u128 option"

definition hello_of_response :: "HelloResponse \<Rightarrow> hello_msg" where
  "hello_of_response r =
     \<lparr> hm_database_id = Some (hr_database_id r),
       hm_generation_start_index = hr_generation_start_index r,
       hm_generation_id = Some (hr_generation_id r) \<rparr>"

definition merge_from_hello :: "WalIndexMeta \<Rightarrow> hello_msg \<Rightarrow> ReplicationError + WalIndexMeta" where
  "merge_from_hello m h =
     (case hm_database_id h of
        None \<Rightarrow> Inl (ReplicationOther ''invalid database id from primary'')
      | Some db_id \<Rightarrow>
          (case hm_generation_id h of
             None \<Rightarrow> Inl (ReplicationOther ''invalid generation id from primary'')
           | Some gen_id \<Rightarrow>
               if db_id \<noteq> wm_database_id m then Inl DbIncompatible
               else if wm_generation_id m = gen_id then Inr m
               else if wm_pre_commit_frame_no m \<le> hm_generation_start_index h
               then Inr (m\<lparr>wm_generation_id := gen_id\<rparr>)
               else Inl Lagging))"

definition new_from_hello :: "hello_msg \<Rightarrow> ReplicationError + WalIndexMeta" where
  "new_from_hello h =
     (case hm_database_id h of
        None \<Rightarrow> Inl (ReplicationOther ''invalid database id from primary'')
      | Some db_id \<Rightarrow>
          (case hm_generation_id h of
             None \<Rightarrow> Inl (ReplicationOther ''invalid generation id from primary'')
           | Some gen_id \<Rightarrow>
               Inr \<lparr> wm_pre_commit_frame_no = - 1, wm_post_commit_frame_no = - 1,
                     wm_generation_id = gen_id, wm_database_id = db_id \<rparr>))"

section \<open>Injecting frames\<close>

datatype Frames = FramesVec "Frame list" | FramesSnapshot file_data

text \<open>\<^verbatim>\<open>TempSnapshot::iter\<close>: chunks of the size of a frame; None when the last one is short.\<close>

function chunks :: "file_data \<Rightarrow> Frame list option" where
  "chunks f =
     (if f = [] then Some []
      else if length f < FRAME_SIZE then None
      else map_option ((#) (take FRAME_SIZE f)) (chunks (drop FRAME_SIZE f)))"
  by pat_completeness auto

termination chunks
  by (relation "measure length") (simp_all add: frame_sizes)

declare chunks.simps [simp del]

fun header_step :: "Frame \<Rightarrow> u64 \<times> u32 \<Rightarrow> u64 \<times> u32" where
  "header_step f (fno, size_after) =
     (if fno < frame_no f then (frame_no f, frame_size_after f) else (fno, size_after))"

definition make_page_header :: "Frame list \<Rightarrow> (u32 \<times> byte list) list \<times> u64 \<times> u32" where
  "make_page_header frames =
     (map (\<lambda>f. (frame_page_no f, frame_page f)) frames, fold header_step frames (0, 0))"

definition to_headers :: "Frames \<Rightarrow> ((u32 \<times> byte list) list \<times> u64 \<times> u32) option" where
  "to_headers frames =
     (case frames of
        FramesVec fs \<Rightarrow> Some (make_page_header fs)
      | FramesSnapshot f \<Rightarrow> map_option make_page_header (chunks f))"

record InjectorHookCtx =
  ic_is_txn :: bool
  ic_meta :: "WalIndexMeta option"
  ic_meta_file :: file_data
  ic_notifier :: FrameNo
  ic_wal :: "(u32 \<times> byte list) list"
  ic_db :: "u32 \<rightharpoonup> byte list"
  ic_size :: u32

definition pre_commit :: "io \<Rightarrow> FrameNo \<Rightarrow> InjectorHookCtx \<Rightarrow> (log_error + unit) \<times> InjectorHookCtx" where
  "pre_commit io fno ctx =
     (case ic_meta ctx of
        None \<Rightarrow> (Inl Panicked, ctx)
      | Some m \<Rightarrow>
          (let m = m\<lparr>wm_pre_commit_frame_no := fno\<rparr>;
               (ok, f) = write_all_at io 0 (meta_bytes m) (ic_meta_file ctx)
           in (if ok then Inr () else Inl IoError, ctx\<lparr>ic_meta := Some m, ic_meta_file := f\<rparr>)))"

definition post_commit :: "io \<Rightarrow> FrameNo \<Rightarrow> InjectorHookCtx \<Rightarrow> (log_error + unit) \<times> InjectorHookCtx" where
  "post_commit io fno ctx =
     (case ic_meta ctx of
        None \<Rightarrow> (Inl Panicked, ctx)
      | Some m \<Rightarrow>
          if wm_pre_commit_frame_no m \<noteq> fno then (Inl Panicked, ctx)
          else
            (let m = m\<lparr>wm_post_commit_frame_no := fno\<rparr>;
                 (ok, f) = write_all_at io 0 (meta_bytes m) (ic_meta_file ctx);
                 ctx = ctx\<lparr>ic_meta := Some m, ic_meta_file := f\<rparr>
             in if ok then (Inr (), ctx\<lparr>ic_notifier := fno\<rparr>) else (Inl IoError, ctx)))"

text \<open>SQLite's \<^verbatim>\<open>xFrames\<close> when it succeeds.\<close>

definition wal_append ::
  "(u32 \<times> byte list) list \<Rightarrow> u32 \<Rightarrow> bool \<Rightarrow> InjectorHookCtx \<Rightarrow> InjectorHookCtx" where
  "wal_append pages size_after commit ctx =
     (let wal = ic_wal ctx @ pages
      in if commit
         then ctx\<lparr>ic_wal := [], ic_db := ic_db ctx ++ map_of (rev wal), ic_size := size_after\<rparr>
         else ctx\<lparr>ic_wal := wal\<rparr>)"

definition inject_pages ::
  "io \<Rightarrow> io \<Rightarrow> int \<Rightarrow> (u32 \<times> byte list) list \<Rightarrow> FrameNo \<Rightarrow> u32 \<Rightarrow> InjectorHookCtx
     \<Rightarrow> (log_error + unit) \<times> InjectorHookCtx" where
  "inject_pages io_pre io_post orig_rc pages fno size_after ctx =
     (let ctx = ctx\<lparr>ic_is_txn := True\<rparr>
      in case (if size_after \<noteq> 0 then pre_commit io_pre fno ctx else (Inr (), ctx)) of
           (Inl e, ctx) \<Rightarrow> (Inl e, ctx)
         | (Inr _, ctx) \<Rightarrow>
             if orig_rc \<noteq> 0 then (Inl IoError, ctx)
             else
               (let ctx = wal_append pages size_after (size_after \<noteq> 0) ctx
                in if size_after \<noteq> 0
                   then (case post_commit io_post fno ctx of
                           (Inl e, ctx) \<Rightarrow> (Inl e, ctx)
                         | (Inr _, ctx) \<Rightarrow> (Inr (), ctx\<lparr>ic_is_txn := False\<rparr>))
                   else (Inr (), ctx)))"

text \<open>
  The \<^verbatim>\<open>xFrames\<close> hook: it takes batches from the channel until one ends a
  transaction. Each batch comes with the outcomes of the two meta writes and
  of SQLite's call. None is a hook that still waits for the channel; the last
  component is what is left in the channel.
\<close>

datatype inject_rc = ContinueReplication | ExitReplication | InjectError

type_synonym batch = "Frames \<times> io \<times> io \<times> int"

fun replica_on_frames ::
  "bool \<Rightarrow> batch list \<Rightarrow> InjectorHookCtx \<Rightarrow> inject_rc option \<times> InjectorHookCtx \<times> batch list" where
  "replica_on_frames closed [] ctx = (if closed then Some ExitReplication else None, ctx, [])"
| "replica_on_frames closed ((frames, io_pre, io_post, rc) # batches) ctx =
     (case to_headers frames of
        None \<Rightarrow> (Some InjectError, ctx, batches)
      | Some (pages, fno, size_after) \<Rightarrow>
          (case inject_pages io_pre io_post rc pages fno size_after ctx of
             (Inl _, ctx) \<Rightarrow> (Some InjectError, ctx, batches)
           | (Inr _, ctx) \<Rightarrow>
               if \<not> ic_is_txn ctx then (Some ContinueReplication, ctx, batches)
               else replica_on_frames closed batches ctx))"

lemma replica_on_frames_shorter:
  "replica_on_frames closed batches ctx = (Some ContinueReplication, ctx', batches') \<Longrightarrow>
   length batches' < length batches"
  by (induction closed batches ctx rule: replica_on_frames.induct)
    (fastforce split: option.splits prod.splits sum.splits if_splits)+

text \<open>
  \<^verbatim>\<open>FrameInjector::step\<close> and the loop around it: steps are taken as long as they
  ask to continue. The result is None while the injector waits.
\<close>

function injector_run ::
  "bool \<Rightarrow> batch list \<Rightarrow> InjectorHookCtx \<Rightarrow> (log_error + unit) option \<times> InjectorHookCtx" where
  "injector_run closed batches ctx =
     (case replica_on_frames closed batches ctx of
        (rc, ctx, batches) \<Rightarrow>
          (case rc of
             None \<Rightarrow> (None, ctx)
           | Some ContinueReplication \<Rightarrow> injector_run closed batches ctx
           | Some ExitReplication \<Rightarrow> (Some (Inr ()), ctx)
           | Some InjectError \<Rightarrow> (Some (Inl IoError), ctx)))"
  by pat_completeness auto

termination injector_run
  by (relation "measure (\<lambda>(_, batches, _). length batches)")
    (auto dest: replica_on_frames_shorter [OF sym] replica_on_frames_shorter)

declare injector_run.simps [simp del]

section \<open>The replicator\<close>

definition MAX_REPLICA_REPLICATION_BUFFER_LEN :: nat where
  "MAX_REPLICA_REPLICATION_BUFFER_LEN = 10000000 div 4096"

definition HANDSHAKE_MAX_RETRIES :: nat where "HANDSHAKE_MAX_RETRIES = 100"

definition current_frame_no :: "FrameNo \<Rightarrow> FrameNo option" where
  "current_frame_no notifier = (if notifier \<noteq> - 1 then Some notifier else None)"

definition next_offset :: "FrameNo \<Rightarrow> FrameNo" where
  "next_offset notifier = (case current_frame_no notifier of Some x \<Rightarrow> x + 1 | None \<Rightarrow> 0)"

text \<open>\<^verbatim>\<open>TempSnapshot::from_stream\<close> over the frames of a snapshot response.\<close>

fun temp_snapshot :: "(Status + byte list) list \<Rightarrow> Status + file_data" where
  "temp_snapshot [] = Inr []"
| "temp_snapshot (Inl e # frames) = Inl e"
| "temp_snapshot (Inr d # frames) =
     (case try_from_bytes d of
        None \<Rightarrow> Inl (Internal, ''invalid frame size'')
      | Some f \<Rightarrow>
          (case temp_snapshot frames of Inl e \<Rightarrow> Inl e | Inr rest \<Rightarrow> Inr (f @ rest)))"

definition load_snapshot ::
  "(FrameNo \<Rightarrow> Status + (Status + byte list) list) \<Rightarrow> FrameNo \<Rightarrow> Status + Frames" where
  "load_snapshot snapshot_rpc notifier =
     (case snapshot_rpc (next_offset notifier) of
        Inl e \<Rightarrow> Inl e
      | Inr frames \<Rightarrow>
          (case temp_snapshot frames of Inl e \<Rightarrow> Inl e | Inr f \<Rightarrow> Inr (FramesSnapshot f)))"

text \<open>
  The loop of \<^verbatim>\<open>replicate\<close> over the items of the stream, each with the value of the
  applied-frame notifier at that moment: the batches sent to the injector and
  the result.
\<close>

fun replicate_loop ::
  "(FrameNo \<Rightarrow> Status + (Status + byte list) list) \<Rightarrow> ((Status + byte list) \<times> FrameNo) list
     \<Rightarrow> Frame list \<Rightarrow> Frames list \<times> (Status + unit)" where
  "replicate_loop snapshot_rpc [] buffer = ([], Inr ())"
| "replicate_loop snapshot_rpc ((Inr d, notifier) # items) buffer =
     (case try_from_bytes d of
        None \<Rightarrow> ([], Inl (Internal, ''invalid frame size''))
      | Some frame \<Rightarrow>
          (let buffer = buffer @ [frame]
           in if frame_size_after frame \<noteq> 0 \<or> MAX_REPLICA_REPLICATION_BUFFER_LEN < length buffer
              then (case replicate_loop snapshot_rpc items [] of
                      (sent, r) \<Rightarrow> (FramesVec buffer # sent, r))
              else replicate_loop snapshot_rpc items buffer))"
| "replicate_loop snapshot_rpc ((Inl (code, msg), notifier) # items) buffer =
     (if code = FailedPrecondition \<and> msg = NEED_SNAPSHOT_ERROR_MSG
      then (case load_snapshot snapshot_rpc notifier of
              Inl e \<Rightarrow> ([], Inl e)
            | Inr snap \<Rightarrow>
                (case replicate_loop snapshot_rpc items [] of
                   (sent, r) \<Rightarrow> (snap # sent, r)))
      else ([], Inl (code, msg)))"

datatype reset_op = ResetReset | ResetDestroy

datatype handshake_error =
    HsReplication ReplicationError | HsIo | HsReset string | HsNamespaceDoesntExist
  | HsPrimaryConnectionTimeout

definition handle_replication_error :: "ReplicationError \<Rightarrow> handshake_error \<times> reset_op list" where
  "handle_replication_error e =
     (HsReplication e,
      case e of Lagging \<Rightarrow> [ResetReset] | DbIncompatible \<Rightarrow> [ResetReset] | _ \<Rightarrow> [])"

text \<open>The meta after a successful hello: the one in memory, else the one on disk, else a new one.\<close>

definition merge_meta ::
  "WalIndexMeta option \<Rightarrow> bool \<Rightarrow> file_data \<Rightarrow> hello_msg
     \<Rightarrow> (handshake_error + WalIndexMeta) \<times> reset_op list" where
  "merge_meta meta read_ok meta_file h =
     (let merge = (\<lambda>m. case merge_from_hello m h of
                     Inr m \<Rightarrow> (Inr m, [])
                   | Inl e \<Rightarrow> (case handle_replication_error e of (e, ops) \<Rightarrow> (Inl e, ops)))
      in case meta of
           Some m \<Rightarrow> merge m
         | None \<Rightarrow>
             (case meta_read read_ok meta_file of
                Inl _ \<Rightarrow> (Inl HsIo, [])
              | Inr (Some m) \<Rightarrow> merge m
              | Inr None \<Rightarrow>
                  (case new_from_hello h of
                     Inr m \<Rightarrow> (Inr m, [])
                   | Inl e \<Rightarrow> (Inl (HsReplication e), []))))"

text \<open>
  The handshake: \<^verbatim>\<open>answers\<close> gives the answer to each attempt, \<^verbatim>\<open>destroy\<close> the outcome
  of destroying the namespace. The result is the error or the new meta, and
  the resets of the namespace asked for.
\<close>

fun handshake_loop ::
  "nat \<Rightarrow> (nat \<Rightarrow> Status + hello_msg) \<Rightarrow> (string + unit) \<Rightarrow> WalIndexMeta option \<Rightarrow> bool \<Rightarrow> file_data
     \<Rightarrow> (handshake_error + WalIndexMeta) \<times> reset_op list" where
  "handshake_loop 0 answers destroy meta read_ok meta_file = (Inl HsPrimaryConnectionTimeout, [])"
| "handshake_loop (Suc n) answers destroy meta read_ok meta_file =
     (case answers 0 of
        Inr h \<Rightarrow> merge_meta meta read_ok meta_file h
      | Inl (code, msg) \<Rightarrow>
          if code = FailedPrecondition \<and> msg = NAMESPACE_DOESNT_EXIST
          then (Inl (case destroy of Inl e \<Rightarrow> HsReset e | Inr _ \<Rightarrow> HsNamespaceDoesntExist),
                [ResetDestroy])
          else handshake_loop n (\<lambda>i. answers (Suc i)) destroy meta read_ok meta_file)"

definition try_perform_handshake ::
  "(nat \<Rightarrow> Status + hello_msg) \<Rightarrow> (string + unit) \<Rightarrow> WalIndexMeta option \<Rightarrow> bool \<Rightarrow> file_data
     \<Rightarrow> (handshake_error + WalIndexMeta) \<times> reset_op list" where
  "try_perform_handshake = handshake_loop HANDSHAKE_MAX_RETRIES"

text \<open>One round of \<^verbatim>\<open>replicate\<close>: the stream is opened at the next offset.\<close>

definition replicate_round ::
  "(FrameNo \<Rightarrow> Status + ((Status + byte list) \<times> FrameNo) list)
     \<Rightarrow> (FrameNo \<Rightarrow> Status + (Status + byte list) list) \<Rightarrow> FrameNo \<Rightarrow> Frames list \<times> (Status + unit)" where
  "replicate_round log_entries_rpc snapshot_rpc notifier =
     (case log_entries_rpc (next_offset notifier) of
        Inl e \<Rightarrow> ([], Inl e)
      | Inr items \<Rightarrow> replicate_loop snapshot_rpc items [])"

section \<open>What a replica holds\<close>

text \<open>
  Of the frames received, those up to the last one that ends a transaction are
  committed, the others belong to the open transaction.
\<close>

definition committed :: "Frame list \<Rightarrow> Frame list" where
  "committed fs = rev (dropWhile (\<lambda>f. frame_size_after f = 0) (rev fs))"

definition open_txn :: "Frame list \<Rightarrow> Frame list" where
  "open_txn fs = rev (takeWhile (\<lambda>f. frame_size_after f = 0) (rev fs))"

abbreviation page_of :: "Frame \<Rightarrow> u32 \<times> byte list" where
  "page_of f \<equiv> (frame_page_no f, frame_page f)"

abbreviation ascending :: "Frame list \<Rightarrow> bool" where
  "ascending \<equiv> sorted_wrt (\<lambda>f g. frame_no f < frame_no g)"

lemma committed_open: "committed fs @ open_txn fs = fs"
  by (simp add: committed_def open_txn_def flip: rev_append)

lemma committed_commit:
  assumes "b \<noteq> []" "frame_size_after (last b) \<noteq> 0"
  shows "committed (fs @ b) = fs @ b" "open_txn (fs @ b) = []"
  using assms by (cases b rule: rev_cases; simp add: committed_def open_txn_def)+

lemma committed_open_batch:
  assumes "\<forall>f\<in>set b. frame_size_after f = 0"
  shows "committed (fs @ b) = committed fs" "open_txn (fs @ b) = open_txn fs @ b"
  using assms by (induction b rule: rev_induct; simp add: committed_def open_txn_def)+

lemma add_pages: "db ++ map_of (rev (map page_of fs)) = apply_frames fs db"
  by (induction fs rule: rev_induct)
    (simp_all only: apply_frames_simps map_append list.map rev_append rev.simps append.simps
      map_of.simps map_add_empty map_add_upd fst_conv snd_conv)

lemma header_fold_above:
  "(\<forall>f\<in>set fs. frame_no f \<le> n) \<Longrightarrow> fold header_step fs (n, s) = (n, s)"
  by (induction fs) (auto simp: not_less)

lemma header_fold_ascending:
  assumes "ascending fs" "fs \<noteq> []" "n < frame_no (last fs)"
  shows "fold header_step fs (n, s) = (frame_no (last fs), frame_size_after (last fs))"
  using assms
proof (induction fs arbitrary: n s)
  case (Cons f fs)
  then show ?case by (cases "fs = []") auto
qed simp

lemma header_fold_open:
  "(\<forall>f\<in>set fs. frame_size_after f = 0) \<Longrightarrow> \<exists>m. fold header_step fs (n, 0) = (m, 0)"
  by (induction fs arbitrary: n) auto

lemma header_fold_newest_first:
  assumes "newest_first (f # fs)" "0 < frame_no f"
  shows "fold header_step (f # fs) (0, 0) = (frame_no f, frame_size_after f)"
  using assms header_fold_above [of fs "frame_no f"]
  by (auto simp: newest_first_Cons less_imp_le)

lemma meta_bytes_length [simp]: "length (meta_bytes m) = META_SIZE"
  by (simp add: meta_bytes_def META_SIZE_def codec_simps)

lemma meta_roundtrip [simp]: "meta_of_bytes (meta_bytes m) = m"
  by (cases m) (simp add: meta_of_bytes_def meta_bytes_def codec_simps)

lemma meta_read_put [simp]: "meta_read True (put_at 0 (meta_bytes m) f) = Inr (Some m)"
  by (simp add: meta_read_def file_simps)

text \<open>
  The state of a replica that started from \<^term>\<open>db\<close> and was handed the frames
  \<^term>\<open>fs\<close>: the database is the committed frames applied to \<^term>\<open>db\<close>, the WAL holds
  the open transaction, and after a commit the meta file and the notifier name
  the last committed frame.
\<close>

definition replica_at :: "(u32 \<rightharpoonup> byte list) \<Rightarrow> Frame list \<Rightarrow> InjectorHookCtx \<Rightarrow> bool" where
  "replica_at db fs ctx \<longleftrightarrow>
     ic_db ctx = apply_frames (committed fs) db \<and> ic_wal ctx = map page_of (open_txn fs) \<and>
     ic_is_txn ctx = (open_txn fs \<noteq> []) \<and> ic_meta ctx \<noteq> None \<and>
     (committed fs \<noteq> [] \<longrightarrow>
        ic_notifier ctx = frame_no (last (committed fs)) \<and>
        ic_size ctx = frame_size_after (last (committed fs)) \<and>
        (\<exists>m. meta_read True (ic_meta_file ctx) = Inr (Some m) \<and> ic_meta ctx = Some m \<and>
           wm_pre_commit_frame_no m = frame_no (last (committed fs)) \<and>
           wm_post_commit_frame_no m = frame_no (last (committed fs))))"

text \<open>A batch as the replicator cuts it: only its last frame may end a transaction.\<close>

definition batch_cut :: "Frame list \<Rightarrow> bool" where
  "batch_cut b \<longleftrightarrow> b \<noteq> [] \<and> (\<forall>f\<in>set (butlast b). frame_size_after f = 0)"

lemma inject_open:
  assumes "replica_at db fs ctx" "\<forall>f\<in>set b. frame_size_after f = 0" "b \<noteq> []"
  shows "\<exists>ctx'. inject_pages io_pre io_post 0 (map page_of b) n 0 ctx = (Inr (), ctx') \<and>
    replica_at db (fs @ b) ctx'"
  using assms
  by (simp add: inject_pages_def wal_append_def replica_at_def Let_def committed_open_batch)

lemma inject_commit:
  assumes "replica_at db fs ctx" "b \<noteq> []" "frame_size_after (last b) \<noteq> 0"
  shows "\<exists>ctx'. inject_pages IoOk IoOk 0 (map page_of b) (frame_no (last b))
       (frame_size_after (last b)) ctx = (Inr (), ctx') \<and> replica_at db (fs @ b) ctx'"
proof -
  obtain m where m: "ic_meta ctx = Some m"
    using assms(1) by (auto simp: replica_at_def)
  have "ic_db ctx ++ map_of (rev (ic_wal ctx @ map page_of b)) = apply_frames (fs @ b) db"
  proof -
    have "ic_wal ctx @ map page_of b = map page_of (open_txn fs @ b)"
      using assms(1) by (simp add: replica_at_def)
    then have "ic_db ctx ++ map_of (rev (ic_wal ctx @ map page_of b))
        = apply_frames (open_txn fs @ b) (apply_frames (committed fs) db)"
      using assms(1) by (simp only: add_pages) (simp add: replica_at_def)
    also have "\<dots> = apply_frames ((committed fs @ open_txn fs) @ b) db" by simp
    finally show ?thesis by (simp add: committed_open)
  qed
  then show ?thesis
    using assms(2,3) m
    by (simp add: inject_pages_def pre_commit_def post_commit_def write_all_at_def wal_append_def
        replica_at_def Let_def committed_commit)
qed

lemma inject_batch:
  assumes "replica_at db fs ctx" "batch_cut b" "ascending b"
    and "frame_size_after (last b) \<noteq> 0 \<longrightarrow> frame_no (last b) \<noteq> 0"
  shows "\<exists>pages n s ctx'. to_headers (FramesVec b) = Some (pages, n, s) \<and>
    inject_pages IoOk IoOk 0 pages n s ctx = (Inr (), ctx') \<and> replica_at db (fs @ b) ctx'"
proof (cases "frame_size_after (last b) = 0")
  case True
  have open_b: "\<forall>f\<in>set b. frame_size_after f = 0"
    using assms(2) True by (cases b rule: rev_cases) (auto simp: batch_cut_def)
  then have "\<exists>n. fold header_step b (0, 0) = (n, 0)"
    by (rule header_fold_open)
  then show ?thesis
    using inject_open [OF assms(1) open_b] assms(2)
    by (auto simp: to_headers_def make_page_header_def batch_cut_def)
next
  case False
  then have "0 < frame_no (last b)" using assms(4) by (simp add: word_neq_0_conv)
  then have "fold header_step b (0, 0) = (frame_no (last b), frame_size_after (last b))"
    using assms(2,3) by (intro header_fold_ascending) (simp_all add: batch_cut_def)
  then show ?thesis
    using inject_commit [OF assms(1) _ False] assms(2)
    by (auto simp: to_headers_def make_page_header_def batch_cut_def)
qed

lemma injector_run_Cons:
  assumes "to_headers frames = Some (pages, n, s)"
    and "inject_pages io_pre io_post rc pages n s ctx = (Inr (), ctx')"
  shows "injector_run closed ((frames, io_pre, io_post, rc) # batches) ctx
    = injector_run closed batches ctx'"
proof (cases "ic_is_txn ctx'")
  case True
  then show ?thesis using assms by (subst (1 2) injector_run.simps) simp
next
  case False
  then show ?thesis using assms by (subst injector_run.simps) simp
qed

abbreviation good_batch :: "Frames \<Rightarrow> batch" where
  "good_batch frames \<equiv> (frames, IoOk, IoOk, 0)"

lemma injector_run_Nil: "injector_run False [] ctx = (None, ctx)"
  by (subst injector_run.simps) simp

lemma injector_run_batches:
  assumes "replica_at db fs ctx" "\<forall>b\<in>set bs. batch_cut b \<and> ascending b"
    and "\<forall>b\<in>set bs. frame_size_after (last b) \<noteq> 0 \<longrightarrow> frame_no (last b) \<noteq> 0"
  shows "\<exists>ctx'. injector_run False (map (\<lambda>b. good_batch (FramesVec b)) bs) ctx = (None, ctx') \<and>
    replica_at db (fs @ concat bs) ctx'"
  using assms
proof (induction bs arbitrary: fs ctx)
  case Nil
  then show ?case by (simp add: injector_run_Nil)
next
  case (Cons b bs)
  obtain pages n s ctx1 where step: "to_headers (FramesVec b) = Some (pages, n, s)"
    "inject_pages IoOk IoOk 0 pages n s ctx = (Inr (), ctx1)" "replica_at db (fs @ b) ctx1"
    using inject_batch [OF Cons.prems(1), of b] Cons.prems(2,3) by auto
  have "\<exists>ctx'. injector_run False (map (\<lambda>b. good_batch (FramesVec b)) bs) ctx1 = (None, ctx') \<and>
      replica_at db ((fs @ b) @ concat bs) ctx'"
    using Cons.IH [OF step(3)] Cons.prems(2,3) by simp
  then show ?case by (simp add: injector_run_Cons [OF step(1,2)])
qed

text \<open>How the replicator cuts a run of good frames into batches.\<close>

fun cut_batches :: "Frame list \<Rightarrow> Frame list \<Rightarrow> Frame list list" where
  "cut_batches buffer [] = []"
| "cut_batches buffer (f # fs) =
     (if frame_size_after f \<noteq> 0 \<or> MAX_REPLICA_REPLICATION_BUFFER_LEN < length (buffer @ [f])
      then (buffer @ [f]) # cut_batches [] fs
      else cut_batches (buffer @ [f]) fs)"

lemma replicate_loop_cut:
  assumes "\<forall>i\<in>set items. length (fst i) = FRAME_SIZE"
  shows "replicate_loop rpc (map (\<lambda>i. (Inr (fst i), snd i)) items) buffer =
    (map FramesVec (cut_batches buffer (map fst items)), Inr ())"
  using assms
proof (induction items arbitrary: buffer)
  case (Cons i items)
  have "length (fst i) = FRAME_SIZE" using Cons.prems by simp
  then have "try_from_bytes (fst i) = Some (fst i)" by (simp add: try_from_bytes_def)
  then show ?case using Cons.IH Cons.prems by (simp add: Let_def del: append.simps)
qed simp

lemma cut_batches_cut:
  "(\<forall>f\<in>set buffer. frame_size_after f = 0) \<Longrightarrow> b \<in> set (cut_batches buffer fs) \<Longrightarrow> batch_cut b"
proof (induction fs arbitrary: buffer)
  case (Cons f fs)
  have "batch_cut (buffer @ [f])" using Cons.prems(1) by (simp add: batch_cut_def)
  moreover have "b \<in> set (cut_batches [] fs) \<Longrightarrow> batch_cut b"
    using Cons.IH [of "[]"] by simp
  moreover have "frame_size_after f = 0 \<Longrightarrow> b \<in> set (cut_batches (buffer @ [f]) fs) \<Longrightarrow> batch_cut b"
    using Cons.IH [of "buffer @ [f]"] Cons.prems(1) by simp
  ultimately show ?case using Cons.prems(2) by (simp split: if_splits) blast+
qed simp

lemma cut_batches_concat:
  "(\<forall>f\<in>set buffer. frame_size_after f = 0) \<Longrightarrow>
   \<exists>rest. concat (cut_batches buffer fs) @ rest = buffer @ fs \<and> (\<forall>f\<in>set rest. frame_size_after f = 0)"
proof (induction fs arbitrary: buffer)
  case (Cons f fs)
  have "frame_size_after f = 0 \<Longrightarrow> \<exists>rest. concat (cut_batches (buffer @ [f]) fs) @ rest
      = (buffer @ [f]) @ fs \<and> (\<forall>f\<in>set rest. frame_size_after f = 0)"
    using Cons.prems by (intro Cons.IH) simp
  then show ?case using Cons.IH [of "[]"] by simp
qed simp

lemma ascending_concat: "ascending (concat bs) \<Longrightarrow> \<forall>b\<in>set bs. ascending b"
  by (induction bs) (auto simp: sorted_wrt_append)

lemma chunks_concat: "(\<forall>f\<in>set fs. length f = FRAME_SIZE) \<Longrightarrow> chunks (concat fs) = Some fs"
proof (induction fs)
  case (Cons f fs)
  then have "f \<noteq> []" by (auto simp: frame_sizes)
  with Cons show ?case by (subst chunks.simps) simp
qed (simp add: chunks.simps)

lemma temp_snapshot_frames:
  "(\<forall>f\<in>set fs. length f = FRAME_SIZE) \<Longrightarrow> temp_snapshot (map Inr fs) = Inr (concat fs)"
  by (induction fs) (simp_all add: try_from_bytes_def)

lemma apply_frames_outside: "p \<notin> frame_page_no ` set fs \<Longrightarrow> apply_frames fs db p = db p"
  by (induction fs arbitrary: db) auto

lemma apply_frames_inside:
  "p \<in> frame_page_no ` set fs \<Longrightarrow> apply_frames fs d p = apply_frames fs d' p"
  by (induction fs rule: rev_induct) auto

lemma apply_frames_absorb:
  assumes "frame_page_no ` set gs \<subseteq> frame_page_no ` set fs"
  shows "apply_frames fs (apply_frames gs db) = apply_frames fs db"
proof
  fix p
  show "apply_frames fs (apply_frames gs db) p = apply_frames fs db p"
  proof (cases "p \<in> frame_page_no ` set fs")
    case False
    then have "p \<notin> frame_page_no ` set gs" using assms by blast
    with False show ?thesis by (simp only: apply_frames_outside not_False_eq_True)
  qed (rule apply_frames_inside)
qed

lemma newest_of_commit:
  "newest {} (rev (fs @ [f])) = f # newest {frame_page_no f} (rev fs)"
  by simp

lemma filter_newest_split:
  assumes "\<forall>g\<in>set old. frame_no g < n" "\<forall>g\<in>set new. n \<le> frame_no g"
  shows "filter (\<lambda>f. n \<le> frame_no f) (newest {} (rev (old @ new))) = newest {} (rev new)"
proof -
  have "filter (\<lambda>f. n \<le> frame_no f) (newest {} (rev new)) = newest {} (rev new)"
    using assms(2) set_newest [of "{}" "rev new"] by (auto simp: filter_id_conv)
  moreover have "filter (\<lambda>f. n \<le> frame_no f) (newest (frame_page_no ` set new) (rev old)) = []"
    using assms(1) set_newest [of "frame_page_no ` set new" "rev old"]
    by (fastforce simp: filter_empty_conv)
  ultimately show ?thesis by (simp add: newest_append)
qed

lemma inject_snapshot:
  assumes "replica_at db (old @ part) ctx" "committed (old @ part) = old"
    and "new = part @ rest" "rest \<noteq> []"
    and "frame_size_after (last rest) \<noteq> 0" "frame_no (last rest) \<noteq> 0"
    and "newest_first (rev new)" "\<forall>g\<in>set (newest {} (rev new)). length g = FRAME_SIZE"
  shows "\<exists>ctx'. to_headers (FramesSnapshot (concat (newest {} (rev new)))) =
      Some (map page_of (newest {} (rev new)), frame_no (last new), frame_size_after (last new)) \<and>
    inject_pages IoOk IoOk 0 (map page_of (newest {} (rev new))) (frame_no (last new))
      (frame_size_after (last new)) ctx = (Inr (), ctx') \<and>
    ic_db ctx' = apply_frames (old @ new) db \<and> \<not> ic_is_txn ctx' \<and>
    ic_notifier ctx' = frame_no (last new)"
proof -
  define gs where "gs = newest {} (rev new)"
  obtain fs where new: "new = fs @ [last new]"
    using assms(3,4) by (metis append_butlast_last_id append_is_Nil_conv)
  then have gs: "gs = last new # newest {frame_page_no (last new)} (rev fs)"
    unfolding gs_def by (metis newest_of_commit)
  have "newest_first gs" unfolding gs_def by (rule newest_first_newest [OF assms(7)])
  then have hd: "fold header_step gs (0, 0) = (frame_no (last new), frame_size_after (last new))"
    unfolding gs using assms(3,4,6) by (intro header_fold_newest_first) (simp_all add: word_neq_0_conv)
  have part: "open_txn (old @ part) = part"
    using committed_open [of "old @ part"] assms(2) by simp
  obtain m where m: "ic_meta ctx = Some m" and st: "ic_db ctx = apply_frames old db"
      "ic_wal ctx = map page_of part"
    using assms(1,2) part by (auto simp: replica_at_def)
  have "ic_db ctx ++ map_of (rev (ic_wal ctx @ map page_of gs)) = apply_frames (part @ gs) (ic_db ctx)"
    unfolding st(2) map_append [symmetric] by (rule add_pages)
  also have "\<dots> = apply_frames new (apply_frames part (ic_db ctx))"
    by (simp add: gs_def apply_newest)
  also have "\<dots> = apply_frames (old @ new) db"
    using assms(3) by (subst apply_frames_absorb) (auto simp: st(1))
  finally have db: "ic_db ctx ++ map_of (rev (ic_wal ctx @ map page_of gs)) = apply_frames (old @ new) db" .
  show ?thesis
    using assms(3-5) m db chunks_concat [OF assms(8)] hd unfolding gs_def [symmetric]
    by (simp add: to_headers_def make_page_header_def inject_pages_def pre_commit_def
        post_commit_def write_all_at_def wal_append_def Let_def del: rev_append apply_frames_simps)
qed

section \<open>Properties of the replica\<close>

definition replica_start :: "(u32 \<rightharpoonup> byte list) \<Rightarrow> WalIndexMeta \<Rightarrow> InjectorHookCtx" where
  "replica_start db m =
     \<lparr> ic_is_txn = False, ic_meta = Some m, ic_meta_file = [], ic_notifier = - 1, ic_wal = [],
       ic_db = db, ic_size = 0 \<rparr>"

lemma replica_start_at: "replica_at db [] (replica_start db m)"
  by (simp add: replica_at_def replica_start_def committed_def open_txn_def)

text \<open>
  (C3) A replica that follows the log stream shows committed transactions only,
  and all of them: after any run of frames in ascending order, handed to the
  injector in the batches the replicator cuts, its database is the start
  database with exactly the frames up to the last transaction end applied, and
  the notifier names the last of these. Frame number 0 must not by itself end a
  transaction.
\<close>

theorem replica_shows_committed_prefix:
  assumes "replica_at db old ctx"
    and "\<forall>i\<in>set items. length (fst i) = FRAME_SIZE"
    and "ascending (map fst items)"
    and "\<forall>i\<in>set items. frame_size_after (fst i) \<noteq> 0 \<longrightarrow> frame_no (fst i) \<noteq> 0"
    and "replicate_loop rpc (map (\<lambda>i. (Inr (fst i), snd i)) items) [] = (sent, r)"
  shows "\<exists>ctx'. injector_run False (map good_batch sent) ctx = (None, ctx') \<and>
    ic_db ctx' = apply_frames (committed (old @ map fst items)) db \<and>
    (committed (old @ map fst items) \<noteq> [] \<longrightarrow>
       ic_notifier ctx' = frame_no (last (committed (old @ map fst items))))"
proof -
  define bs where "bs = cut_batches [] (map fst items)"
  obtain rest where rest: "concat bs @ rest = map fst items" "\<forall>f\<in>set rest. frame_size_after f = 0"
    using cut_batches_concat [of "[]" "map fst items"] by (auto simp: bs_def)
  have sent: "sent = map FramesVec bs"
    using assms(5) replicate_loop_cut [OF assms(2), of rpc "[]"] by (simp add: bs_def)
  have cut: "\<forall>b\<in>set bs. batch_cut b"
    using cut_batches_cut [of "[]"] by (simp add: bs_def)
  have "ascending (concat bs)"
    using assms(3) unfolding rest(1) [symmetric] by (simp only: sorted_wrt_append)
  then have asc: "\<forall>b\<in>set bs. ascending b" by (rule ascending_concat)
  have "last b \<in> fst ` set items" if "b \<in> set bs" for b
  proof -
    have "last b \<in> set (concat bs @ rest)" using that cut by (auto simp: batch_cut_def intro!: bexI [of _ b] last_in_set)
    then show ?thesis unfolding rest(1) by simp
  qed
  then have "\<forall>b\<in>set bs. frame_size_after (last b) \<noteq> 0 \<longrightarrow> frame_no (last b) \<noteq> 0"
    using assms(4) by fastforce
  with injector_run_batches [OF assms(1)] cut asc obtain ctx' where
    "injector_run False (map (\<lambda>b. good_batch (FramesVec b)) bs) ctx = (None, ctx')"
    "replica_at db (old @ concat bs) ctx'" by blast
  then show ?thesis
    using committed_open_batch(1) [OF rest(2), of "old @ concat bs"] rest(1)
    by (simp add: sent replica_at_def comp_def)
qed

definition sized_frame :: "u64 \<Rightarrow> u32 \<Rightarrow> u32 \<Rightarrow> Frame" where
  "sized_frame n p s =
     header_bytes \<lparr> fh_frame_no = n, fh_checksum = 0, fh_page_no = p, fh_size_after = s \<rparr> @
     replicate WAL_PAGE_SIZE 0"

lemma sized_frame_simps [simp]:
  "length (sized_frame n p s) = FRAME_SIZE"
  "frame_no (sized_frame n p s) = n"
  "frame_page_no (sized_frame n p s) = p"
  "frame_size_after (sized_frame n p s) = s"
  "frame_page (sized_frame n p s) = replicate WAL_PAGE_SIZE 0"
  using header_bytes_header_of_frame [OF from_parts_Some, of "replicate WAL_PAGE_SIZE 0"]
    frame_page_from_parts [OF from_parts_Some, of "replicate WAL_PAGE_SIZE 0"]
  by (simp_all add: sized_frame_def FRAME_SIZE_def)

definition sample_meta :: WalIndexMeta where
  "sample_meta = \<lparr> wm_pre_commit_frame_no = - 1, wm_post_commit_frame_no = - 1,
     wm_generation_id = 5, wm_database_id = 7 \<rparr>"

theorem replica_shows_committed_prefix_witness:
  "\<exists>ctx'. injector_run False
       (map good_batch (fst (replicate_loop (\<lambda>_. Inr []) [(Inr (sized_frame 1 1 0), - 1),
          (Inr (sized_frame 2 2 2), - 1), (Inr (sized_frame 3 1 0), - 1)] [])))
       (replica_start Map.empty sample_meta) = (None, ctx') \<and>
     ic_db ctx' = apply_frames [sized_frame 1 1 0, sized_frame 2 2 2] Map.empty \<and>
     ic_notifier ctx' = 2"
proof -
  let ?items = "[(sized_frame 1 1 0, - 1), (sized_frame 2 2 2, - 1), (sized_frame 3 1 0, - 1)]"
  have len: "\<forall>i\<in>set ?items. length (fst i) = FRAME_SIZE" by simp
  have asc: "ascending (map fst ?items)" by simp
  have nz: "\<forall>i\<in>set ?items. frame_size_after (fst i) \<noteq> 0 \<longrightarrow> frame_no (fst i) \<noteq> 0" by simp
  have c: "committed [sized_frame 1 1 0, sized_frame 2 2 2, sized_frame 3 1 0]
      = [sized_frame 1 1 0, sized_frame 2 2 2]"
    by (simp add: committed_def)
  show ?thesis
    using replica_shows_committed_prefix [OF replica_start_at len asc nz prod.collapse [symmetric],
        of "\<lambda>_. Inr []" Map.empty sample_meta]
    by (simp only: list.map fst_conv snd_conv append.simps c last.simps list.distinct if_False if_True
        sized_frame_simps simp_thms)
qed

text \<open>
  (C26) A snapshot completes a replica that fell behind, also one that stopped in
  the middle of a transaction: with the segment \<^term>\<open>old @ new\<close> of the log and the
  replica at \<^term>\<open>old\<close> plus a part of a transaction of \<^term>\<open>new\<close>, injecting what the
  snapshot yields from the replica's next offset gives exactly the database
  after the whole segment, and ends the open transaction.
\<close>

theorem replica_catches_up_from_snapshot:
  assumes "ascending (old @ new)" "frames_fit (old @ new)" "snapshot_of (old @ new) f"
    and "\<forall>g\<in>set old. frame_no g < n" "\<forall>g\<in>set new. n \<le> frame_no g"
    and "new = part @ rest" "rest \<noteq> []"
    and "frame_size_after (last rest) \<noteq> 0" "frame_no (last rest) \<noteq> 0"
    and "replica_at db (old @ part) ctx" "committed (old @ part) = old"
  shows "\<exists>snap gs file ctx'. snapshot_open f = Inr snap \<and> frames_iter_from n snap = map Inr gs \<and>
    temp_snapshot (map Inr gs) = Inr file \<and>
    injector_run False [good_batch (FramesSnapshot file)] ctx = (None, ctx') \<and>
    ic_db ctx' = apply_frames (old @ new) db \<and> \<not> ic_is_txn ctx' \<and>
    ic_notifier ctx' = frame_no (last new)"
proof -
  define fs where "fs = newest {} (rev (old @ new))"
  define gs where "gs = newest {} (rev new)"
  obtain h where h: "f = snapshot_file h fs" "sh_frame_count h = word_of_nat (length fs)"
    using assms(3) by (auto simp: snapshot_of_def fs_def)
  have fit: "frames_fit (rev (old @ new))" using assms(2) by (simp add: frames_fit_def) (simp add: Un_commute add.commute)
  have nf: "newest_first (rev (old @ new))"
    using assms(1) by (simp add: newest_first_def sorted_wrt_rev del: rev_append)
  have gs: "filter (\<lambda>f. n \<le> frame_no f) fs = gs"
    unfolding fs_def gs_def by (rule filter_newest_split [OF assms(4,5)])
  have iter: "frames_iter_from n \<lparr> sf_file = f, sf_header = h \<rparr> = map Inr gs"
    unfolding h(1) gs [symmetric]
    by (rule frames_iter_from_file [OF _ h(2)])
      (simp_all only: fs_def frames_fit_newest [OF fit] newest_first_newest [OF nf])
  have len: "\<forall>g\<in>set gs. length g = FRAME_SIZE"
    using fit set_newest [of "{}" "rev new"] by (auto simp: frames_fit_def gs_def)
  have "newest_first (rev new)" using nf by (simp add: newest_first_append)
  note inj = inject_snapshot [OF assms(10,11) assms(6-9) this len [unfolded gs_def], folded gs_def]
  then obtain ctx' where "to_headers (FramesSnapshot (concat gs)) = Some (map page_of gs,
        frame_no (last new), frame_size_after (last new))"
      "inject_pages IoOk IoOk 0 (map page_of gs) (frame_no (last new)) (frame_size_after (last new)) ctx
        = (Inr (), ctx')" "ic_db ctx' = apply_frames (old @ new) db" "\<not> ic_is_txn ctx'"
      "ic_notifier ctx' = frame_no (last new)" by blast
  moreover from this(1,2) have "injector_run False [good_batch (FramesSnapshot (concat gs))] ctx = (None, ctx')"
    by (simp only: injector_run_Cons injector_run_Nil)
  ultimately show ?thesis
    using iter temp_snapshot_frames [OF len] snapshot_open_file [of h fs] unfolding h(1) by blast
qed

theorem replica_catches_up_from_snapshot_witness:
  "\<exists>snap gs file ctx'.
     snapshot_open (snapshot_file \<lparr> sh_db_id = 7, sh_start_frame_no = 1, sh_end_frame_no = 1,
         sh_frame_count = 1, sh_size_after = 1, sh_pad = 0 \<rparr> [sized_frame 1 1 1]) = Inr snap \<and>
     frames_iter_from 1 snap = map Inr gs \<and> temp_snapshot (map Inr gs) = Inr file \<and>
     injector_run False [good_batch (FramesSnapshot file)] (replica_start Map.empty sample_meta)
       = (None, ctx') \<and>
     ic_db ctx' = apply_frames [sized_frame 1 1 1] Map.empty \<and> \<not> ic_is_txn ctx' \<and>
     ic_notifier ctx' = 1"
proof -
  let ?h = "\<lparr> sh_db_id = 7, sh_start_frame_no = 1, sh_end_frame_no = 1,
         sh_frame_count = 1, sh_size_after = 1, sh_pad = 0 \<rparr>"
  have snap: "snapshot_of ([] @ [sized_frame 1 1 1]) (snapshot_file ?h [sized_frame 1 1 1])"
    by (auto simp: snapshot_of_def intro!: exI [of _ ?h])
  have fit: "frames_fit ([] @ [sized_frame 1 1 1])" by (simp add: frames_fit_def snap_sizes)
  show ?thesis
    using replica_catches_up_from_snapshot [OF _ fit snap, of 1 "[]" "[sized_frame 1 1 1]"
        Map.empty "replica_start Map.empty sample_meta"] replica_start_at
    by (simp add: committed_def)
qed

text \<open>
  The replica does not notice a transaction that consists of frame number 0
  alone: \<^verbatim>\<open>make_page_header\<close> starts its maximum at 0 and so never reads the size of
  that frame, and the injector leaves the transaction open instead of
  committing it.
\<close>

theorem frame_zero_commit_is_missed:
  assumes "replica_at db [] ctx" "frame_no f = 0"
  shows "\<exists>ctx'. injector_run False [good_batch (FramesVec [f])] ctx = (None, ctx') \<and>
    ic_db ctx' = db \<and> ic_is_txn ctx' \<and> ic_wal ctx' = [page_of f] \<and>
    ic_notifier ctx' = ic_notifier ctx"
proof -
  have h: "to_headers (FramesVec [f]) = Some ([page_of f], 0, 0)"
    using assms(2) by (simp add: to_headers_def make_page_header_def)
  have i: "inject_pages IoOk IoOk 0 [page_of f] 0 0 ctx
      = (Inr (), ctx\<lparr>ic_is_txn := True, ic_wal := ic_wal ctx @ [page_of f]\<rparr>)"
    by (simp add: inject_pages_def wal_append_def)
  show ?thesis
    using assms(1)
    by (simp add: injector_run_Cons [OF h i] injector_run_Nil replica_at_def committed_def open_txn_def)
qed

theorem frame_zero_commit_is_missed_witness:
  "\<exists>ctx'. injector_run False [good_batch (FramesVec [sized_frame 0 1 1])]
       (replica_start Map.empty sample_meta) = (None, ctx') \<and>
     ic_db ctx' = Map.empty \<and> ic_is_txn ctx'"
  using frame_zero_commit_is_missed [OF replica_start_at, of "sized_frame 0 1 1" Map.empty sample_meta]
  by auto

section \<open>The handshake\<close>

definition retried :: "Status + hello_msg \<Rightarrow> bool" where
  "retried answer \<longleftrightarrow>
     (case answer of
        Inr _ \<Rightarrow> False
      | Inl (code, msg) \<Rightarrow> \<not> (code = FailedPrecondition \<and> msg = NAMESPACE_DOESNT_EXIST))"

lemma handshake_loop_decides:
  "k < n \<Longrightarrow> (\<And>i. i < k \<Longrightarrow> retried (answers i)) \<Longrightarrow> answers k = Inr h \<Longrightarrow>
   handshake_loop n answers destroy meta ok file = merge_meta meta ok file h"
proof (induction n arbitrary: k answers)
  case (Suc n)
  note pr = Suc.prems and IH = Suc.IH
  show ?case
  proof (cases k)
    case 0
    then show ?thesis using pr(3) by simp
  next
    case (Suc j)
    have "retried (answers 0)" using pr(2) [of 0] Suc by simp
    then have "handshake_loop (Suc n) answers destroy meta ok file
        = handshake_loop n (\<lambda>i. answers (Suc i)) destroy meta ok file"
      by (auto simp: retried_def split: sum.splits)
    also have "\<dots> = merge_meta meta ok file h"
      using Suc pr by (intro IH [of j]) simp_all
    finally show ?thesis .
  qed
qed simp

lemma handshake_loop_timeout:
  "(\<And>i. i < n \<Longrightarrow> retried (answers i)) \<Longrightarrow>
   handshake_loop n answers destroy meta ok file = (Inl HsPrimaryConnectionTimeout, [])"
proof (induction n arbitrary: answers)
  case (Suc n)
  have "retried (answers 0)" using Suc.prems by simp
  moreover have "handshake_loop n (\<lambda>i. answers (Suc i)) destroy meta ok file
      = (Inl HsPrimaryConnectionTimeout, [])"
    using Suc.prems by (intro Suc.IH) simp
  ultimately show ?case by (auto simp: retried_def split: sum.splits)
qed simp

text \<open>
  (C31) The handshake protects the replica: the first answer among a hundred
  attempts decides, and a replica with a meta goes on only with its own database
  and, when the generation changed, only if it is not ahead of the primary's
  generation; otherwise the namespace is reset.
\<close>

theorem handshake_accepts_only_own_database:
  assumes "k < 100" "\<And>i. i < k \<Longrightarrow> retried (answers i)" "answers k = Inr h"
    and "hm_database_id h = Some db_id" "hm_generation_id h = Some gen_id"
  shows "try_perform_handshake answers destroy (Some m) ok file =
    (if db_id = wm_database_id m \<and>
        (gen_id = wm_generation_id m \<or> wm_pre_commit_frame_no m \<le> hm_generation_start_index h)
     then (Inr (m\<lparr>wm_generation_id := gen_id\<rparr>), [])
     else (Inl (HsReplication (if db_id = wm_database_id m then Lagging else DbIncompatible)),
           [ResetReset]))"
proof -
  have "try_perform_handshake answers destroy (Some m) ok file = merge_meta (Some m) ok file h"
    unfolding try_perform_handshake_def
    by (rule handshake_loop_decides [of k]) (use assms in \<open>simp_all add: HANDSHAKE_MAX_RETRIES_def\<close>)
  then show ?thesis
    using assms(4,5)
    by (auto simp: merge_meta_def merge_from_hello_def handle_replication_error_def)
qed

theorem handshake_accepts_only_own_database_witness:
  "try_perform_handshake (\<lambda>i. if i = 0 then Inl (Unavailable, '''') else
       Inr \<lparr> hm_database_id = Some 8, hm_generation_start_index = 0, hm_generation_id = Some 5 \<rparr>)
     (Inr ()) (Some sample_meta) True [] = (Inl (HsReplication DbIncompatible), [ResetReset])"
  by (subst handshake_accepts_only_own_database [where k = 1 and db_id = 8 and gen_id = 5])
    (auto simp: retried_def sample_meta_def)

text \<open>
  A replica that has made its meta from a hello but not yet committed a
  frame is taken to be ahead of every primary: \<^verbatim>\<open>FrameNo::MAX\<close> stands for "no frame",
  and the comparison reads it as a number. After a restart of the primary such
  a replica is reset although it has nothing the primary lacks.
\<close>

theorem fresh_replica_is_reset_after_restart:
  assumes "new_from_hello h = Inr m" "hm_database_id h' = hm_database_id h"
    and "hm_generation_id h' = Some gen_id" "hm_generation_id h \<noteq> Some gen_id"
    and "hm_generation_start_index h' \<noteq> - 1"
  shows "merge_meta (Some m) ok file h' = (Inl (HsReplication Lagging), [ResetReset])"
proof -
  have "\<not> (- 1 :: u64) \<le> hm_generation_start_index h'"
    using assms(5) word_order.extremum_unique by blast
  then show ?thesis
    using assms(1-4)
    by (auto simp: new_from_hello_def merge_meta_def merge_from_hello_def
        handle_replication_error_def split: option.splits)
qed

theorem fresh_replica_is_reset_after_restart_witness:
  "merge_meta (Some \<lparr> wm_pre_commit_frame_no = - 1, wm_post_commit_frame_no = - 1,
       wm_generation_id = 5, wm_database_id = 7 \<rparr>) True []
     \<lparr> hm_database_id = Some 7, hm_generation_start_index = 0, hm_generation_id = Some 6 \<rparr>
   = (Inl (HsReplication Lagging), [ResetReset])"
  by (rule fresh_replica_is_reset_after_restart [of
        "\<lparr> hm_database_id = Some 7, hm_generation_start_index = 0, hm_generation_id = Some 5 \<rparr>" _ _ 6])
    (simp_all add: new_from_hello_def)

end
