(* ===== verification/Decimal.thy ===== *)
theory Decimal
  imports Prelude
begin

text \<open>
  Decimal numerals as the standard library prints and reads them: display of
  integers, zero padding, and the parsing of unsigned integers.
\<close>

section \<open>Display\<close>

fun show_nat :: "nat \<Rightarrow> string" where
  "show_nat n = (if n < 10 then [char_of (48 + n)] else show_nat (n div 10) @ [char_of (48 + n mod 10)])"

declare show_nat.simps [simp del]

definition show_int :: "int \<Rightarrow> string" where
  "show_int i = (if i < 0 then ''-'' @ show_nat (nat (- i)) else show_nat (nat i))"

text \<open>The format \<^verbatim>\<open>{:0w}\<close>: zeros on the left up to the width.\<close>

definition show_padded :: "nat \<Rightarrow> nat \<Rightarrow> string" where
  "show_padded w n = replicate (w - length (show_nat n)) (CHR ''0'') @ show_nat n"

lemma length_show_nat: "n < 10 ^ length (show_nat n)"
proof (induction n rule: show_nat.induct)
  case (1 n)
  show ?case
  proof (cases "n < 10")
    case False
    then have "n div 10 < 10 ^ length (show_nat (n div 10))" using 1 by simp
    then have "n < 10 * 10 ^ length (show_nat (n div 10))" by (simp add: div_less_iff_less_mult mult.commute)
    then show ?thesis using False by (simp add: show_nat.simps [of n])
  qed (simp add: show_nat.simps [of n])
qed

definition digit :: "char \<Rightarrow> bool" where
  "digit c \<longleftrightarrow> 48 \<le> (of_char c :: nat) \<and> (of_char c :: nat) \<le> 57"

lemma show_nat_digits: "c \<in> set (show_nat n) \<Longrightarrow> 48 \<le> (of_char c :: nat) \<and> (of_char c :: nat) \<le> 57"
proof (induction n rule: show_nat.induct)
  case (1 n)
  have small: "(of_char (char_of (48 + k) :: char) :: nat) = 48 + k" if "k < 10" for k :: nat
    using that by (simp add: of_char_of)
  show ?case
  proof (cases "n < 10")
    case True
    then show ?thesis using "1.prems" small [of n] by (simp add: show_nat.simps [of n])
  next
    case False
    then show ?thesis using 1 small [of "n mod 10"] by (auto simp: show_nat.simps [of n])
  qed
qed

lemma not_digit: "(of_char c :: nat) < 48 \<or> 57 < (of_char c :: nat) \<Longrightarrow> c \<notin> set (show_nat n)"
  using show_nat_digits by fastforce

lemma show_nat_digit: "list_all digit (show_nat n)"
  using show_nat_digits by (auto simp: digit_def list_all_iff)

section \<open>Parsing\<close>

text \<open>
  \<^verbatim>\<open>str::parse\<close> for an unsigned type of the given number of bits: an optional plus
  sign and at least one digit; a value that does not fit is an error.
\<close>

definition digits_value :: "string \<Rightarrow> nat" where
  "digits_value s = fold (\<lambda>c n. n * 10 + (of_char c - 48)) s 0"

definition parse_unsigned :: "nat \<Rightarrow> string \<Rightarrow> nat option" where
  "parse_unsigned bits s =
     (let ds = (case s of c # cs \<Rightarrow> if c = CHR ''+'' \<and> cs \<noteq> [] then cs else s | [] \<Rightarrow> [])
      in if ds \<noteq> [] \<and> list_all digit ds \<and> digits_value ds < 2 ^ bits then Some (digits_value ds) else None)"

lemma fold_show_nat: "fold (\<lambda>c n. n * 10 + (of_char c - 48)) (show_nat n) 0 = n"
proof (induction n rule: show_nat.induct)
  case (1 n)
  have small: "(of_char (char_of (48 + k) :: char) :: nat) = 48 + k" if "k < 10" for k :: nat
    using that by (simp add: of_char_of)
  show ?case
  proof (cases "n < 10")
    case True
    then show ?thesis using small [of n] by (simp add: show_nat.simps [of n])
  next
    case False
    then show ?thesis using 1 small [of "n mod 10"] by (simp add: show_nat.simps [of n])
  qed
qed

lemma digits_value_zeros: "digits_value (replicate k (CHR ''0'') @ s) = digits_value s"
  by (induction k) (simp_all add: digits_value_def)

lemma show_padded_digits: "list_all digit (show_padded w n)"
  by (auto simp: show_padded_def show_nat_digit digit_def list_all_iff set_replicate_conv_if dest: show_nat_digits)

lemma show_padded_value: "digits_value (show_padded w n) = n"
  unfolding show_padded_def digits_value_zeros unfolding digits_value_def by (rule fold_show_nat)

lemma show_padded_nonempty: "show_padded w n \<noteq> []"
  by (simp add: show_padded_def show_nat.simps [of n])

lemma parse_show_padded: "n < 2 ^ bits \<Longrightarrow> parse_unsigned bits (show_padded w n) = Some n"
proof -
  assume n: "n < 2 ^ bits"
  obtain c cs where s: "show_padded w n = c # cs" using show_padded_nonempty [of w n] by (cases "show_padded w n") auto
  have "digit c" using show_padded_digits [of w n] s by simp
  then have "c \<noteq> CHR ''+''" by (auto simp: digit_def)
  then show ?thesis
    using n s show_padded_digits [of w n] show_padded_value [of w n] by (simp add: parse_unsigned_def)
qed

lemma show_padded_0: "show_padded 0 n = show_nat n"
  by (simp add: show_padded_def)

end
