(* ===== verification/Errors.thy ===== *)
theory Errors
  imports Auth Decimal
begin

text \<open>
  \<^verbatim>\<open>sqld/src/error.rs\<close>: the errors of the server, their messages and the HTTP status
  each is answered with. An error of a library is the text it displays as; the
  formatting of byte sizes is a library too and an argument of the messages.
\<close>

datatype QueryResultBuilderError =
    ResponseTooLarge u64
  | BuilderInternal string
  | BuilderPanicked

datatype LoadDumpError =
    DumpIo string | ReplicaLoadDump | DumpLoadExistingDb | DumpFilePathNotAbsolute
  | DumpFileDoesntExist | InvalidDumpUrl | DumpFetch string | UnsupportedUrlScheme string

datatype ForkError =
    ForkInternal string | ForkIo string | ForkLogRead string | ForkReplica
  | ForkCreateNamespace string

text \<open>An error message of the proxy protocol.\<close>

datatype ErrorCode = CodeSqlError | CodeTxBusy | CodeTxTimeout | CodeInternal

record RpcError =
  re_code :: ErrorCode
  re_message :: string

datatype Error =
    LibSqlInvalidQueryParams string
  | LibSqlTxTimeout
  | LibSqlTxBusy
  | IOError string
  | RusqliteError string
  | RpcQueryError RpcError
  | RpcQueryExecutionError Status
  | DbValueError string
  | InternalError string
  | InvalidBatchStep nat
  | NotAuthorized string
  | ReplicatorExited
  | DbCreateTimeout
  | BuilderError QueryResultBuilderError
  | Blocked "string option"
  | ErrJson string
  | TooManyRequests
  | FailedToParse string
  | QueryError string
  | ErrAuth AuthError
  | ErrAnyhow string
  | InvalidHost string
  | ErrNamespaceDoesntExist string
  | NamespaceAlreadyExist string
  | InvalidNamespace
  | ErrReplication string
  | PrimaryConnectionTimeout
  | ErrLoadDump LoadDumpError
  | InvalidMetadataBytes string
  | ReplicaRestoreError
  | LoadDumpExistingDb
  | ConflictingRestoreParameters
  | ErrFork ForkError

section \<open>Messages\<close>

text \<open>The numbers of the codes in \<^verbatim>\<open>proto/proxy.proto\<close>.\<close>

fun error_code_number :: "ErrorCode \<Rightarrow> nat" where
  "error_code_number CodeSqlError = 0"
| "error_code_number CodeTxBusy = 1"
| "error_code_number CodeTxTimeout = 2"
| "error_code_number CodeInternal = 3"

fun builder_error_message :: "(u64 \<Rightarrow> string) \<Rightarrow> QueryResultBuilderError \<Rightarrow> string" where
  "builder_error_message bytesize (ResponseTooLarge s) =
     ''query response exceeds the maximum size of '' @ bytesize s @
     ''. Try reducing the number of queried rows.''"
| "builder_error_message bytesize (BuilderInternal e) = e"
| "builder_error_message bytesize BuilderPanicked = ''''"

fun load_dump_message :: "LoadDumpError \<Rightarrow> string" where
  "load_dump_message (DumpIo e) = ''IO error: '' @ e"
| "load_dump_message ReplicaLoadDump = ''Cannot load a dump on a replica''"
| "load_dump_message DumpLoadExistingDb = ''cannot load from a dump if a database already exists''"
| "load_dump_message DumpFilePathNotAbsolute = ''the passed dump file path is not absolute''"
| "load_dump_message DumpFileDoesntExist = ''the passed dump file path doesn'' @ [CHR 39] @ ''t exist''"
| "load_dump_message InvalidDumpUrl = ''invalid dump url''"
| "load_dump_message (DumpFetch e) = ''error fetching dump: '' @ e"
| "load_dump_message (UnsupportedUrlScheme s) =
     ''unsupported dump url scheme `'' @ s @ ''`, supported schemes are: `http`, `file`''"

text \<open>The messages of \<^verbatim>\<open>ForkError\<close> in \<^verbatim>\<open>namespace/fork.rs\<close>.\<close>

fun fork_error_message :: "ForkError \<Rightarrow> string" where
  "fork_error_message (ForkInternal e) = ''internal error: '' @ e"
| "fork_error_message (ForkIo e) = ''io error: '' @ e"
| "fork_error_message (ForkLogRead e) = ''failed to read frame from replication log: '' @ e"
| "fork_error_message (ForkCreateNamespace e) = ''an error occured creating the namespace: '' @ e"
| "fork_error_message ForkReplica = ''cannot fork a replica, try again with the primary.''"

fun error_to_string :: "(u64 \<Rightarrow> string) \<Rightarrow> (Status \<Rightarrow> string) \<Rightarrow> Error \<Rightarrow> string" where
  "error_to_string bs st (LibSqlInvalidQueryParams e) =
     ''LibSQL failed to bind provided query parameters: `'' @ e @ ''`''"
| "error_to_string bs st LibSqlTxTimeout = ''Transaction timed-out''"
| "error_to_string bs st LibSqlTxBusy = ''Server can'' @ [CHR 39] @ ''t handle additional transactions''"
| "error_to_string bs st (IOError e) = e"
| "error_to_string bs st (RusqliteError e) = e"
| "error_to_string bs st (RpcQueryError e) =
     ''Failed to execute query via RPC. Error code: '' @ show_nat (error_code_number (re_code e)) @
     '', message: '' @ re_message e"
| "error_to_string bs st (RpcQueryExecutionError e) =
     ''Failed to execute queries via RPC protocol: `'' @ st e @ ''`''"
| "error_to_string bs st (DbValueError e) = ''Database value error: `'' @ e @ ''`''"
| "error_to_string bs st (InternalError e) = ''Internal Error: `'' @ e @ ''`''"
| "error_to_string bs st (InvalidBatchStep n) = ''Invalid batch step: '' @ show_nat n"
| "error_to_string bs st (NotAuthorized e) = ''Not authorized to execute query: '' @ e"
| "error_to_string bs st ReplicatorExited =
     ''The replicator exited, instance cannot make any progress.''"
| "error_to_string bs st DbCreateTimeout = ''Timed out while openning database connection''"
| "error_to_string bs st (BuilderError e) = builder_error_message bs e"
| "error_to_string bs st (Blocked msg) =
     ''Operation was blocked'' @ (case msg of Some m \<Rightarrow> '': '' @ m | None \<Rightarrow> '''')"
| "error_to_string bs st (ErrJson e) = e"
| "error_to_string bs st TooManyRequests = ''Too many concurrent requests''"
| "error_to_string bs st (FailedToParse e) = ''Failed to parse query: `'' @ e @ ''`''"
| "error_to_string bs st (QueryError e) = ''Query error: `'' @ e @ ''`''"
| "error_to_string bs st (ErrAuth e) = ''Unauthorized: `'' @ auth_message e @ ''`''"
| "error_to_string bs st (ErrAnyhow e) = ''Internal Error: `'' @ e @ ''`''"
| "error_to_string bs st (InvalidHost e) = ''Invalid host header: `'' @ e @ ''`''"
| "error_to_string bs st (ErrNamespaceDoesntExist n) =
     ''Namespace `'' @ n @ ''` doesn'' @ [CHR 39] @ ''t exist''"
| "error_to_string bs st (NamespaceAlreadyExist n) = ''Namespace `'' @ n @ ''` already exists''"
| "error_to_string bs st InvalidNamespace = ''Invalid namespace''"
| "error_to_string bs st (ErrReplication e) = ''replication error: '' @ e"
| "error_to_string bs st PrimaryConnectionTimeout = ''Failed to connect to primary''"
| "error_to_string bs st (ErrLoadDump e) = ''Error while loading dump: '' @ load_dump_message e"
| "error_to_string bs st (InvalidMetadataBytes e) =
     ''Unable to convert metadata value: `'' @ e @ ''`''"
| "error_to_string bs st ReplicaRestoreError = ''Cannot call parametrized restore over replica''"
| "error_to_string bs st LoadDumpExistingDb =
     ''cannot load from a dump if a database already exists.''"
| "error_to_string bs st ConflictingRestoreParameters =
     ''cannot restore database when conflicting params were provided''"
| "error_to_string bs st (ErrFork e) = ''failed to fork database: '' @ fork_error_message e"

section \<open>HTTP status\<close>

datatype StatusCode =
    BAD_REQUEST | UNAUTHORIZED | TOO_MANY_REQUESTS | INTERNAL_SERVER_ERROR | SERVICE_UNAVAILABLE

fun load_dump_status :: "LoadDumpError \<Rightarrow> StatusCode" where
  "load_dump_status (DumpIo _) = INTERNAL_SERVER_ERROR"
| "load_dump_status (DumpFetch _) = INTERNAL_SERVER_ERROR"
| "load_dump_status _ = BAD_REQUEST"

fun fork_status :: "ForkError \<Rightarrow> StatusCode" where
  "fork_status ForkReplica = BAD_REQUEST"
| "fork_status _ = INTERNAL_SERVER_ERROR"

fun error_status :: "Error \<Rightarrow> StatusCode" where
  "error_status (FailedToParse _) = BAD_REQUEST"
| "error_status (ErrAuth _) = UNAUTHORIZED"
| "error_status (ErrAnyhow _) = INTERNAL_SERVER_ERROR"
| "error_status (LibSqlInvalidQueryParams _) = BAD_REQUEST"
| "error_status LibSqlTxTimeout = BAD_REQUEST"
| "error_status LibSqlTxBusy = TOO_MANY_REQUESTS"
| "error_status (IOError _) = INTERNAL_SERVER_ERROR"
| "error_status (RusqliteError _) = INTERNAL_SERVER_ERROR"
| "error_status (RpcQueryError _) = BAD_REQUEST"
| "error_status (RpcQueryExecutionError _) = INTERNAL_SERVER_ERROR"
| "error_status (DbValueError _) = BAD_REQUEST"
| "error_status (InternalError _) = INTERNAL_SERVER_ERROR"
| "error_status (InvalidBatchStep _) = INTERNAL_SERVER_ERROR"
| "error_status (NotAuthorized _) = UNAUTHORIZED"
| "error_status ReplicatorExited = SERVICE_UNAVAILABLE"
| "error_status DbCreateTimeout = SERVICE_UNAVAILABLE"
| "error_status (BuilderError _) = INTERNAL_SERVER_ERROR"
| "error_status (Blocked _) = INTERNAL_SERVER_ERROR"
| "error_status (ErrJson _) = INTERNAL_SERVER_ERROR"
| "error_status TooManyRequests = TOO_MANY_REQUESTS"
| "error_status (QueryError _) = BAD_REQUEST"
| "error_status (InvalidHost _) = BAD_REQUEST"
| "error_status (ErrNamespaceDoesntExist _) = BAD_REQUEST"
| "error_status (ErrReplication _) = INTERNAL_SERVER_ERROR"
| "error_status PrimaryConnectionTimeout = INTERNAL_SERVER_ERROR"
| "error_status (NamespaceAlreadyExist _) = BAD_REQUEST"
| "error_status InvalidNamespace = BAD_REQUEST"
| "error_status (ErrLoadDump e) = load_dump_status e"
| "error_status (InvalidMetadataBytes _) = INTERNAL_SERVER_ERROR"
| "error_status ReplicaRestoreError = BAD_REQUEST"
| "error_status LoadDumpExistingDb = BAD_REQUEST"
| "error_status ConflictingRestoreParameters = BAD_REQUEST"
| "error_status (ErrFork e) = fork_status e"

text \<open>\<^verbatim>\<open>ErrorCode::from\<close> and \<^verbatim>\<open>Error::from\<close> of \<^verbatim>\<open>rpc/proxy.rs\<close>.\<close>

fun rpc_error_code :: "Error \<Rightarrow> ErrorCode" where
  "rpc_error_code (LibSqlInvalidQueryParams _) = CodeSqlError"
| "rpc_error_code LibSqlTxTimeout = CodeTxTimeout"
| "rpc_error_code LibSqlTxBusy = CodeTxBusy"
| "rpc_error_code _ = CodeInternal"

definition rpc_error_of :: "(Error \<Rightarrow> string) \<Rightarrow> Error \<Rightarrow> RpcError" where
  "rpc_error_of display e = \<lparr> re_code = rpc_error_code e, re_message = display e \<rparr>"

end
