(* ===== verification/QueryAnalysis.thy ===== *)
theory QueryAnalysis
  imports Auth
begin

text \<open>
  \<^verbatim>\<open>sqld/src/query_analysis.rs\<close> and \<^verbatim>\<open>sqld/src/query.rs\<close>: classification of statements, the
  transaction state they lead to, and the binding of parameters. The SQL parser
  is a library; its syntax trees are a datatype with the constructors the code
  matches on and one for all others, and a parser run is the sequence of its
  results, each with the answer of the \<^verbatim>\<open>peek\<close> that follows it.
\<close>

section \<open>Statements\<close>

record QualifiedName =
  qn_db_name :: "string option"
  qn_name :: string

datatype Stmt =
    StmtBegin | StmtCommit | StmtRollback
  | CreateVirtualTable QualifiedName
  | CreateTable bool QualifiedName
  | StmtInsert QualifiedName
  | StmtUpdate QualifiedName
  | StmtDelete QualifiedName
  | DropTable QualifiedName
  | AlterTable QualifiedName
  | DropIndex | DropTrigger | CreateTrigger bool | CreateIndex
  | StmtSelect
  | StmtPragma QualifiedName bool
  | CreateView bool | DropView
  | StmtOther string

datatype Cmd = Explain Stmt | ExplainQueryPlan Stmt | CmdStmt Stmt

datatype StmtKind = TxnBegin | TxnEnd | Read | Write | Other

record Statement =
  st_stmt :: string
  st_kind :: StmtKind
  st_is_iud :: bool
  st_is_insert :: bool

definition is_temp :: "QualifiedName \<Rightarrow> bool" where
  "is_temp n \<longleftrightarrow> qn_db_name n = Some ''TEMP''"

text \<open>\<^verbatim>\<open>to_lowercase\<close> on the ASCII letters; the reserved names contain no others.\<close>

definition is_reserved_tbl :: "QualifiedName \<Rightarrow> bool" where
  "is_reserved_tbl n \<longleftrightarrow>
     map ascii_lower (qn_name n) \<in>
       {''_litestream_seq'', ''_litestream_lock'', ''libsql_wasm_func_table''}"

definition write_if_not_reserved :: "QualifiedName \<Rightarrow> StmtKind option" where
  "write_if_not_reserved n = (if is_reserved_tbl n then None else Some Write)"

definition readonly_pragmas :: "string list" where
  "readonly_pragmas =
     [''table_list'', ''index_list'', ''table_info'', ''table_xinfo'', ''index_xinfo'',
      ''pragma_list'', ''compile_options'', ''database_list'', ''function_list'',
      ''module_list'', ''encoding'']"

definition primary_pragmas :: "string list" where
  "primary_pragmas =
     [''foreign_keys'', ''foreign_key_list'', ''foreign_key_check'', ''collation_list'',
      ''data_version'', ''freelist_count'', ''integrity_check'', ''legacy_file_format'',
      ''page_count'', ''quick_check'', ''stats'', ''user_version'']"

definition primary_no_arg_pragmas :: "string list" where
  "primary_no_arg_pragmas =
     [''analysis_limit'', ''application_id'', ''auto_vacuum'', ''automatic_index'',
      ''busy_timeout'', ''cache_size'', ''cache_spill'', ''cell_size_check'',
      ''checkpoint_fullfsync'', ''defer_foreign_keys'', ''fullfsync'', ''hard_heap_limit'',
      ''journal_mode'', ''journal_size_limit'', ''legacy_alter_table'', ''locking_mode'',
      ''max_page_count'', ''mmap_size'', ''page_size'', ''query_only'', ''read_uncommitted'',
      ''recursive_triggers'', ''reverse_unordered_selects'', ''schema_version'',
      ''secure_delete'', ''soft_heap_limit'', ''synchronous'', ''temp_store'', ''threads'',
      ''trusted_schema'', ''wal_autocheckpoint'']"

definition pragma_kind :: "QualifiedName \<Rightarrow> bool \<Rightarrow> StmtKind option" where
  "pragma_kind n has_body =
     (if qn_name n \<in> set readonly_pragmas then Some Read
      else if qn_name n \<in> set primary_pragmas then Some Write
      else if qn_name n \<in> set primary_no_arg_pragmas
      then (if has_body then None else Some Write)
      else None)"

fun stmt_kind_of :: "Cmd \<Rightarrow> StmtKind option" where
  "stmt_kind_of (Explain (StmtPragma n body)) = pragma_kind n body"
| "stmt_kind_of (Explain _) = Some Other"
| "stmt_kind_of (ExplainQueryPlan _) = Some Other"
| "stmt_kind_of (CmdStmt StmtBegin) = Some TxnBegin"
| "stmt_kind_of (CmdStmt StmtCommit) = Some TxnEnd"
| "stmt_kind_of (CmdStmt StmtRollback) = Some TxnEnd"
| "stmt_kind_of (CmdStmt (CreateVirtualTable n)) = (if is_temp n then None else Some Write)"
| "stmt_kind_of (CmdStmt (CreateTable temporary n)) =
     (if temporary \<or> is_temp n then None else Some Write)"
| "stmt_kind_of (CmdStmt (StmtInsert n)) = write_if_not_reserved n"
| "stmt_kind_of (CmdStmt (StmtUpdate n)) = write_if_not_reserved n"
| "stmt_kind_of (CmdStmt (StmtDelete n)) = write_if_not_reserved n"
| "stmt_kind_of (CmdStmt (DropTable n)) = write_if_not_reserved n"
| "stmt_kind_of (CmdStmt (AlterTable n)) = write_if_not_reserved n"
| "stmt_kind_of (CmdStmt DropIndex) = Some Write"
| "stmt_kind_of (CmdStmt DropTrigger) = Some Write"
| "stmt_kind_of (CmdStmt (CreateTrigger temporary)) = (if temporary then None else Some Write)"
| "stmt_kind_of (CmdStmt CreateIndex) = Some Write"
| "stmt_kind_of (CmdStmt StmtSelect) = Some Read"
| "stmt_kind_of (CmdStmt (StmtPragma n body)) = pragma_kind n body"
| "stmt_kind_of (CmdStmt (CreateView temporary)) = (if temporary then None else Some Write)"
| "stmt_kind_of (CmdStmt DropView) = Some Write"
| "stmt_kind_of (CmdStmt (StmtOther _)) = None"

section \<open>The transaction state machine\<close>

datatype State = Txn | InitState | Invalid

fun state_step :: "State \<Rightarrow> StmtKind \<Rightarrow> State" where
  "state_step Txn TxnBegin = Invalid"
| "state_step InitState TxnEnd = Invalid"
| "state_step Txn TxnEnd = InitState"
| "state_step InitState TxnBegin = Txn"
| "state_step Invalid _ = Invalid"
| "state_step s _ = s"

definition state_reset :: "State \<Rightarrow> State" where
  "state_reset _ = InitState"

definition predict_final_state :: "State \<Rightarrow> Statement list \<Rightarrow> State" where
  "predict_final_state s stmts = fold (\<lambda>st s. state_step s (st_kind st)) stmts s"

section \<open>Parsing\<close>

definition empty_statement :: Statement where
  "empty_statement = \<lparr> st_stmt = '''', st_kind = Read, st_is_iud = False, st_is_insert = False \<rparr>"

fun is_iud_cmd :: "Cmd \<Rightarrow> bool" where
  "is_iud_cmd (CmdStmt (StmtInsert _)) = True"
| "is_iud_cmd (CmdStmt (StmtUpdate _)) = True"
| "is_iud_cmd (CmdStmt (StmtDelete _)) = True"
| "is_iud_cmd _ = False"

fun is_insert_cmd :: "Cmd \<Rightarrow> bool" where
  "is_insert_cmd (CmdStmt (StmtInsert _)) = True"
| "is_insert_cmd _ = False"

fun is_create_table_cmd :: "Cmd \<Rightarrow> bool" where
  "is_create_table_cmd (CmdStmt (CreateTable _ _)) = True"
| "is_create_table_cmd _ = False"

definition parse_inner ::
  "(Cmd \<Rightarrow> string) \<Rightarrow> string \<Rightarrow> nat \<Rightarrow> bool \<Rightarrow> Cmd \<Rightarrow> string + Statement" where
  "parse_inner to_string original stmt_count has_more_stmts c =
     (case stmt_kind_of c of
        None \<Rightarrow> Inl ''unsupported statement''
      | Some kind \<Rightarrow>
          if stmt_count = 1 \<and> \<not> has_more_stmts \<and> is_create_table_cmd c
          then Inr \<lparr> st_stmt = original, st_kind = kind, st_is_iud = False, st_is_insert = False \<rparr>
          else Inr \<lparr> st_stmt = to_string c, st_kind = kind,
                     st_is_iud = is_iud_cmd c, st_is_insert = is_insert_cmd c \<rparr>)"

type_synonym parser_run = "((string + Cmd) \<times> bool) list"

record sql_parser =
  sp_run :: "string \<Rightarrow> parser_run"
  sp_to_string :: "Cmd \<Rightarrow> string"

fun parse_from :: "(Cmd \<Rightarrow> string) \<Rightarrow> string \<Rightarrow> nat \<Rightarrow> parser_run \<Rightarrow> (string + Statement) list" where
  "parse_from to_string s count [] = []"
| "parse_from to_string s count ((r, has_more) # rs) =
     (case r of Inr cmd \<Rightarrow> parse_inner to_string s (count + 1) has_more cmd | Inl e \<Rightarrow> Inl e)
     # parse_from to_string s (count + 1) rs"

definition parse_statements :: "sql_parser \<Rightarrow> string \<Rightarrow> (string + Statement) list" where
  "parse_statements p s = parse_from (sp_to_string p) s 0 (sp_run p s)"

definition stmt_is_read_only :: "Statement \<Rightarrow> bool" where
  "stmt_is_read_only st \<longleftrightarrow> st_kind st \<in> {Read, TxnEnd, TxnBegin}"

section \<open>Values and parameters\<close>

type_synonym f64 = "64 word"
type_synonym i64 = "64 word"

datatype Value = Null | Integer i64 | Real f64 | Text string | Blob "byte list"

text \<open>A value as SQLite hands it out: its text need not be UTF-8.\<close>

datatype ValueRef = RefNull | RefInteger i64 | RefReal f64 | RefText "byte list" | RefBlob "byte list"

definition utf8_cont :: "byte \<Rightarrow> bool" where
  "utf8_cont b \<longleftrightarrow> 0x80 \<le> b \<and> b \<le> 0xBF"

text \<open>The byte sequences \<^verbatim>\<open>String::from_utf8\<close> accepts.\<close>

fun utf8_valid :: "byte list \<Rightarrow> bool" where
  "utf8_valid [] = True"
| "utf8_valid (a # bs) =
     (if a < 0x80 then utf8_valid bs
      else case bs of
        b # bs \<Rightarrow>
          if 0xC2 \<le> a \<and> a \<le> 0xDF then utf8_cont b \<and> utf8_valid bs
          else (case bs of
            c # bs \<Rightarrow>
              if 0xE0 \<le> a \<and> a \<le> 0xEF
              then utf8_cont b \<and> (a = 0xE0 \<longrightarrow> 0xA0 \<le> b) \<and> (a = 0xED \<longrightarrow> b \<le> 0x9F) \<and>
                   utf8_cont c \<and> utf8_valid bs
              else (case bs of
                d # bs \<Rightarrow>
                  0xF0 \<le> a \<and> a \<le> 0xF4 \<and> utf8_cont b \<and> (a = 0xF0 \<longrightarrow> 0x90 \<le> b) \<and>
                  (a = 0xF4 \<longrightarrow> b \<le> 0x8F) \<and> utf8_cont c \<and> utf8_cont d \<and> utf8_valid bs
              | [] \<Rightarrow> False)
          | [] \<Rightarrow> False)
      | [] \<Rightarrow> False)"

definition bytes_of_string :: "string \<Rightarrow> byte list" where
  "bytes_of_string s = map (\<lambda>c. word_of_nat (of_char c)) s"

definition string_of_bytes :: "byte list \<Rightarrow> string" where
  "string_of_bytes bs = map (\<lambda>b. char_of (unat b)) bs"

lemma string_bytes_roundtrip: "bytes_of_string (string_of_bytes bs) = bs"
proof -
  have "(word_of_nat (of_char (char_of (unat b) :: char)) :: byte) = b" for b :: byte
  proof -
    have "unat b < 2 ^ LENGTH(8)" by (rule unsigned_less)
    then show ?thesis by simp
  qed
  then show ?thesis by (simp add: bytes_of_string_def string_of_bytes_def comp_def)
qed

lemma bytes_string_roundtrip: "string_of_bytes (bytes_of_string s) = s"
proof -
  have "char_of (unat (word_of_nat (of_char c) :: byte)) = c" for c :: char
  proof -
    have "of_char c < (256 :: nat)" by (metis of_char_mod_256 mod_less_divisor zero_less_numeral)
    then show ?thesis by (simp add: unat_of_nat take_bit_nat_eq_self)
  qed
  then show ?thesis by (simp add: bytes_of_string_def string_of_bytes_def comp_def)
qed

fun value_ref_of :: "Value \<Rightarrow> ValueRef" where
  "value_ref_of Null = RefNull"
| "value_ref_of (Integer i) = RefInteger i"
| "value_ref_of (Real x) = RefReal x"
| "value_ref_of (Text s) = RefText (bytes_of_string s)"
| "value_ref_of (Blob b) = RefBlob b"

fun value_try_from :: "ValueRef \<Rightarrow> string + Value" where
  "value_try_from RefNull = Inr Null"
| "value_try_from (RefInteger i) = Inr (Integer i)"
| "value_try_from (RefReal x) = Inr (Real x)"
| "value_try_from (RefText s) =
     (if utf8_valid s then Inr (Text (string_of_bytes s)) else Inl ''invalid utf-8 sequence'')"
| "value_try_from (RefBlob b) = Inr (Blob b)"

datatype Params = Named "(string \<times> Value) list" | Positional "Value list"

record Query =
  q_stmt :: Statement
  q_params :: Params
  q_want_rows :: bool

definition params_empty :: Params where "params_empty = Positional []"

text \<open>\<^verbatim>\<open>assert!(pos > 0)\<close> is the outer None.\<close>

definition get_pos :: "Params \<Rightarrow> nat \<Rightarrow> Value option option" where
  "get_pos p pos =
     (if pos = 0 then None
      else Some (case p of
             Named _ \<Rightarrow> None
           | Positional vs \<Rightarrow> if pos - 1 < length vs then Some (vs ! (pos - 1)) else None))"

definition get_named :: "Params \<Rightarrow> string \<Rightarrow> Value option" where
  "get_named p name = (case p of Named m \<Rightarrow> map_of m name | Positional _ \<Rightarrow> None)"

definition params_len :: "Params \<Rightarrow> nat" where
  "params_len p = (case p of Named m \<Rightarrow> length m | Positional vs \<Rightarrow> length vs)"

text \<open>\<^verbatim>\<open>str::parse::<usize>\<close>: an optional plus sign and decimal digits below \<^term>\<open>(2::nat) ^ 64\<close>.\<close>

definition digit_value :: "char \<Rightarrow> nat option" where
  "digit_value c = (let n = of_char c :: nat in if 48 \<le> n \<and> n \<le> 57 then Some (n - 48) else None)"

fun parse_digits :: "nat \<Rightarrow> string \<Rightarrow> nat option" where
  "parse_digits acc [] = Some acc"
| "parse_digits acc (c # cs) =
     (case digit_value c of
        None \<Rightarrow> None
      | Some d \<Rightarrow> if acc * 10 + d < 2 ^ 64 then parse_digits (acc * 10 + d) cs else None)"

definition parse_usize :: "string \<Rightarrow> nat option" where
  "parse_usize s =
     (let s = (case s of c # cs \<Rightarrow> if c = CHR ''+'' then cs else s | [] \<Rightarrow> [])
      in if s = [] then None else parse_digits 0 s)"

datatype bind_error =
    TooManyParameters nat nat | InvalidParameter string
  | ValueNotFoundName string | ValueNotFoundIndex nat | BindPanicked

text \<open>The value of one parameter of a statement, given its index and its name.\<close>

definition param_value :: "Params \<Rightarrow> nat \<Rightarrow> string option \<Rightarrow> bind_error + Value" where
  "param_value p index name =
     (let found = (case name of
            Some name \<Rightarrow>
              (case name of
                 [] \<Rightarrow> Inr (Some (case get_named p name of Some v \<Rightarrow> Some v | None \<Rightarrow> get_named p []))
               | c # cs \<Rightarrow>
                   if c = CHR ''?''
                   then (case parse_usize cs of
                           None \<Rightarrow> Inl (InvalidParameter name)
                         | Some pos \<Rightarrow> Inr (get_pos p pos))
                   else Inr (Some (case get_named p name of Some v \<Rightarrow> Some v | None \<Rightarrow> get_named p cs)))
          | None \<Rightarrow> Inr (get_pos p index))
      in case found of
           Inl e \<Rightarrow> Inl e
         | Inr None \<Rightarrow> Inl BindPanicked
         | Inr (Some (Some v)) \<Rightarrow> Inr v
         | Inr (Some None) \<Rightarrow>
             Inl (case name of Some name \<Rightarrow> ValueNotFoundName name | None \<Rightarrow> ValueNotFoundIndex index))"

fun bind_from :: "Params \<Rightarrow> nat \<Rightarrow> string option list \<Rightarrow> bind_error + Value list" where
  "bind_from p index [] = Inr []"
| "bind_from p index (name # names) =
     (case param_value p index name of
        Inl e \<Rightarrow> Inl e
      | Inr v \<Rightarrow> (case bind_from p (index + 1) names of Inl e \<Rightarrow> Inl e | Inr vs \<Rightarrow> Inr (v # vs)))"

text \<open>The statement is its parameter names, in the order of their indices.\<close>

definition params_bind :: "Params \<Rightarrow> string option list \<Rightarrow> bind_error + Value list" where
  "params_bind p names =
     (if length names < params_len p
      then Inl (TooManyParameters (length names) (params_len p))
      else bind_from p 1 names)"

section \<open>Properties\<close>

text \<open>The commands whose statements a replica may run on its own.\<close>

definition harmless_cmd :: "Cmd \<Rightarrow> bool" where
  "harmless_cmd c \<longleftrightarrow>
     c \<in> {CmdStmt StmtSelect, CmdStmt StmtBegin, CmdStmt StmtCommit, CmdStmt StmtRollback} \<or>
     (\<exists>n body. c \<in> {CmdStmt (StmtPragma n body), Explain (StmtPragma n body)} \<and>
        qn_name n \<in> set readonly_pragmas)"

lemma pragma_kind_cases:
  "pragma_kind n body = Some k \<Longrightarrow>
   k = Read \<and> qn_name n \<in> set readonly_pragmas \<or> k = Write"
  by (auto simp: pragma_kind_def split: if_splits)

lemma kind_read_only:
  "stmt_kind_of c = Some k \<Longrightarrow> k \<in> {Read, TxnEnd, TxnBegin} \<Longrightarrow> harmless_cmd c"
  by (cases c rule: stmt_kind_of.cases)
    (auto simp: harmless_cmd_def write_if_not_reserved_def dest: pragma_kind_cases split: if_splits)

lemma parse_inner_kind:
  "parse_inner ts orig k m c = Inr st \<Longrightarrow> stmt_kind_of c = Some (st_kind st)"
  by (auto simp: parse_inner_def split: option.splits if_splits)

lemma parse_from_nth:
  "i < length rs \<Longrightarrow> parse_from ts s k rs ! i =
     (case fst (rs ! i) of Inr cmd \<Rightarrow> parse_inner ts s (k + i + 1) (snd (rs ! i)) cmd | Inl e \<Rightarrow> Inl e)"
  by (induction rs arbitrary: i k) (auto simp: nth_Cons split: nat.splits sum.splits)

lemma length_parse_from [simp]: "length (parse_from ts s k rs) = length rs"
  by (induction rs arbitrary: k) auto



text \<open>
  The prediction of the final state: it is the state a connection is in when
  every statement succeeds, where a BEGIN inside a transaction and a COMMIT or
  ROLLBACK outside one fail.
\<close>

fun txn_after :: "bool \<Rightarrow> StmtKind list \<Rightarrow> bool option" where
  "txn_after open [] = Some open"
| "txn_after open (k # ks) =
     (case k of
        TxnBegin \<Rightarrow> if open then None else txn_after True ks
      | TxnEnd \<Rightarrow> if open then txn_after False ks else None
      | _ \<Rightarrow> txn_after open ks)"

lemma predict_Invalid: "fold (\<lambda>st s. state_step s (st_kind st)) stmts Invalid = Invalid"
  by (induction stmts) simp_all

lemma predict_final_state_txn_after:
  "predict_final_state (if open then Txn else InitState) stmts =
     (case txn_after open (map st_kind stmts) of
        None \<Rightarrow> Invalid | Some True \<Rightarrow> Txn | Some False \<Rightarrow> InitState)"
proof (induction stmts arbitrary: "open")
  case (Cons st stmts)
  show ?case
    using Cons.IH [of True] Cons.IH [of False]
    by (cases "st_kind st"; cases "open") (simp_all add: predict_final_state_def predict_Invalid)
qed (simp add: predict_final_state_def)

lemma bind_from_positional:
  "k \<le> length xs \<Longrightarrow> bind_from (Positional xs) (k + 1) (replicate n None) =
     (if k + n \<le> length xs then Inr (take n (drop k xs))
      else Inl (ValueNotFoundIndex (length xs + 1)))"
proof (induction n arbitrary: k)
  case (Suc n)
  show ?case
  proof (cases "k < length xs")
    case True
    then show ?thesis
      using Suc.IH [of "k + 1"]
      by (simp add: param_value_def get_pos_def) (auto simp: Cons_nth_drop_Suc [symmetric])
  next
    case False
    then show ?thesis using Suc.prems by (simp add: param_value_def get_pos_def)
  qed
qed simp

text \<open>
  Binding positional parameters: a statement with anonymous parameters is
  bound exactly when the number of values matches, each parameter gets the value
  at its position, and otherwise the error names the first missing parameter or
  the two counts.
\<close>

theorem bind_positional:
  "params_bind (Positional xs) (replicate n None) =
     (if n = length xs then Inr xs
      else if n < length xs then Inl (TooManyParameters n (length xs))
      else Inl (ValueNotFoundIndex (length xs + 1)))"
  using bind_from_positional [of 0 xs n] by (auto simp: params_bind_def params_len_def)

end
