(* ===== verification/ResultBuilder.thy ===== *)
theory ResultBuilder
  imports Errors QueryAnalysis
begin

text \<open>
  \<^verbatim>\<open>sqld/src/query_result_builder.rs\<close> and the builders of \<^verbatim>\<open>rpc/proxy.rs\<close> and
  \<^verbatim>\<open>http/result_builder.rs\<close>. The methods of the trait \<^verbatim>\<open>QueryResultBuilder\<close> are the
  constructors of a type of events, and a builder is a function that takes an
  event to a new state or an error; an assertion that fails is the error
  \<^const>\<open>BuilderPanicked\<close>.
\<close>

section \<open>The interface\<close>

record Column =
  col_name :: string
  col_decl_ty :: "string option"

record QueryBuilderConfig =
  qc_max_size :: "u64 option"
  qc_max_total_size :: "u64 option"
  qc_auto_checkpoint :: u32

datatype event =
    EvInit QueryBuilderConfig
  | BeginStep
  | FinishStep u64 "i64 option"
  | StepError Error
  | ColsDescription "Column list"
  | BeginRows
  | BeginRow
  | AddRowValue ValueRef
  | FinishRow
  | FinishRows
  | Finish

type_synonym 'b feed = "event \<Rightarrow> 'b \<Rightarrow> QueryResultBuilderError + 'b"

text \<open>A sequence of calls that stops at the first error.\<close>

fun feed_all :: "'b feed \<Rightarrow> event list \<Rightarrow> 'b \<Rightarrow> QueryResultBuilderError + 'b" where
  "feed_all feed [] b = Inr b"
| "feed_all feed (e # es) b =
     (case feed e b of Inl err \<Rightarrow> Inl err | Inr b \<Rightarrow> feed_all feed es b)"

lemma feed_all_append:
  "feed_all feed (es @ es') b =
     (case feed_all feed es b of Inl err \<Rightarrow> Inl err | Inr b \<Rightarrow> feed_all feed es' b)"
  by (induction es arbitrary: b) (auto split: sum.splits)

text \<open>
  The order of calls the trait promises, as the transition table of the
  repository's tests has it: for each method, the calls it may directly follow.
\<close>

datatype FsmState =
    FsInit | FsFinish | FsBeginStep | FsFinishStep | FsStepError | FsColsDescription
  | FsFinishRows | FsBeginRows | FsFinishRow | FsBeginRow | FsAddRowValue

fun fsm_target :: "event \<Rightarrow> FsmState" where
  "fsm_target (EvInit _) = FsInit"
| "fsm_target BeginStep = FsBeginStep"
| "fsm_target (FinishStep _ _) = FsFinishStep"
| "fsm_target (StepError _) = FsStepError"
| "fsm_target (ColsDescription _) = FsColsDescription"
| "fsm_target BeginRows = FsBeginRows"
| "fsm_target BeginRow = FsBeginRow"
| "fsm_target (AddRowValue _) = FsAddRowValue"
| "fsm_target FinishRow = FsFinishRow"
| "fsm_target FinishRows = FsFinishRows"
| "fsm_target Finish = FsFinish"

fun fsm_allowed :: "FsmState \<Rightarrow> FsmState \<Rightarrow> bool" where
  "fsm_allowed from FsInit = True"
| "fsm_allowed from FsFinish = (from \<in> {FsInit, FsFinishStep})"
| "fsm_allowed from FsBeginStep = (from \<in> {FsInit, FsFinishStep})"
| "fsm_allowed from FsFinishStep = (from \<in> {FsBeginStep, FsStepError, FsFinishRows})"
| "fsm_allowed from FsStepError =
     (from \<in> {FsBeginStep, FsColsDescription, FsFinishRows, FsBeginRows, FsFinishRow, FsBeginRow,
       FsAddRowValue})"
| "fsm_allowed from FsColsDescription = (from = FsBeginStep)"
| "fsm_allowed from FsFinishRows = (from \<in> {FsBeginRows, FsFinishRow})"
| "fsm_allowed from FsBeginRows = (from = FsColsDescription)"
| "fsm_allowed from FsFinishRow = (from \<in> {FsBeginRow, FsAddRowValue})"
| "fsm_allowed from FsBeginRow = (from \<in> {FsBeginRows, FsFinishRow})"
| "fsm_allowed from FsAddRowValue = (from \<in> {FsBeginRow, FsAddRowValue})"

fun fsm_run :: "FsmState \<Rightarrow> event list \<Rightarrow> FsmState option" where
  "fsm_run s [] = Some s"
| "fsm_run s (e # es) = (if fsm_allowed s (fsm_target e) then fsm_run (fsm_target e) es else None)"

lemma fsm_run_append:
  "fsm_run s (es @ es') = (case fsm_run s es of None \<Rightarrow> None | Some s' \<Rightarrow> fsm_run s' es')"
  by (induction es arbitrary: s) auto

text \<open>A property of the builder that every call of a legal sequence keeps.\<close>

lemma feed_all_invariant:
  assumes "\<And>s b e b'. e \<in> set es \<Longrightarrow> P s b \<Longrightarrow> fsm_allowed s (fsm_target e) \<Longrightarrow>
      feed e b = Inr b' \<Longrightarrow> P (fsm_target e) b'"
    and "P s b" "fsm_run s es = Some s'" "feed_all feed es b = Inr b'"
  shows "P s' b'"
  using assms
proof (induction es arbitrary: s b)
  case (Cons e es)
  then obtain b1 where b1: "feed e b = Inr b1" "feed_all feed es b1 = Inr b'"
    by (auto split: sum.splits)
  have ok: "fsm_allowed s (fsm_target e)" "fsm_run (fsm_target e) es = Some s'"
    using Cons.prems(3) by (auto split: if_splits)
  have "P (fsm_target e) b1" using Cons.prems(1) [OF _ Cons.prems(2) ok(1) b1(1)] by simp
  moreover have "\<And>s b e b'. e \<in> set es \<Longrightarrow> P s b \<Longrightarrow> fsm_allowed s (fsm_target e) \<Longrightarrow>
      feed e b = Inr b' \<Longrightarrow> P (fsm_target e) b'"
    using Cons.prems(1) by (meson list.set_intros(2))
  ultimately show ?case using Cons.IH ok(2) b1(2) by blast
qed simp

text \<open>
  The contract of a builder: as long as the calls come in the promised order it
  does not panic. \<^verbatim>\<open>inv_at s b\<close> describes the builder after a call of kind \<^verbatim>\<open>s\<close>.
\<close>

locale query_result_builder =
  fixes feed :: "'b feed" and inv_at :: "FsmState \<Rightarrow> 'b \<Rightarrow> bool"
  assumes feed_ok:
    "inv_at s b \<Longrightarrow> fsm_allowed s (fsm_target e) \<Longrightarrow> feed e b \<noteq> Inl BuilderPanicked"
  and feed_inv:
    "inv_at s b \<Longrightarrow> fsm_allowed s (fsm_target e) \<Longrightarrow> feed e b = Inr b' \<Longrightarrow> inv_at (fsm_target e) b'"
begin

lemma feed_all_no_panic:
  "inv_at s b \<Longrightarrow> fsm_run s es \<noteq> None \<Longrightarrow> feed_all feed es b \<noteq> Inl BuilderPanicked"
proof (induction es arbitrary: s b)
  case (Cons e es)
  then have ok: "fsm_allowed s (fsm_target e)" "fsm_run (fsm_target e) es \<noteq> None"
    by (auto split: if_splits)
  show ?case
  proof (cases "feed e b")
    case (Inl err)
    then show ?thesis using feed_ok [OF Cons.prems(1) ok(1)] by auto
  next
    case (Inr b')
    then show ?thesis
      using Cons.IH [OF feed_inv [OF Cons.prems(1) ok(1) Inr] ok(2)] by simp
  qed
qed simp

lemma feed_all_inv:
  "inv_at s b \<Longrightarrow> fsm_run s es = Some s' \<Longrightarrow> feed_all feed es b = Inr b' \<Longrightarrow> inv_at s' b'"
proof (induction es arbitrary: s b)
  case (Cons e es)
  then show ?case by (auto split: if_splits sum.splits intro: feed_inv)
qed simp

end

section \<open>Builders that record outcomes or nothing\<close>

datatype StepResult = StepOk | StepErr Error | StepSkipped

record StepResultsBuilder =
  sr_current :: "Error option"
  sr_step_results :: "StepResult list"
  sr_is_skipped :: bool

definition step_results_new :: StepResultsBuilder where
  "step_results_new = \<lparr> sr_current = None, sr_step_results = [], sr_is_skipped = False \<rparr>"

fun step_results_feed :: "StepResultsBuilder feed" where
  "step_results_feed (EvInit _) b = Inr step_results_new"
| "step_results_feed BeginStep b = Inr (b\<lparr>sr_is_skipped := True\<rparr>)"
| "step_results_feed (FinishStep _ _) b =
     (let res = (case sr_current b of
            Some e \<Rightarrow> StepErr e
          | None \<Rightarrow> if sr_is_skipped b then StepSkipped else StepOk)
      in Inr (b\<lparr>sr_current := None, sr_step_results := sr_step_results b @ [res]\<rparr>))"
| "step_results_feed (StepError e) b =
     (if sr_current b \<noteq> None then Inl BuilderPanicked else Inr (b\<lparr>sr_current := Some e\<rparr>))"
| "step_results_feed (ColsDescription _) b = Inr (b\<lparr>sr_is_skipped := False\<rparr>)"
| "step_results_feed BeginRows b = Inr b"
| "step_results_feed BeginRow b = Inr b"
| "step_results_feed (AddRowValue _) b = Inr b"
| "step_results_feed FinishRow b = Inr b"
| "step_results_feed FinishRows b = Inr b"
| "step_results_feed Finish b = Inr b"

definition step_results_inv :: "FsmState \<Rightarrow> StepResultsBuilder \<Rightarrow> bool" where
  "step_results_inv s b \<longleftrightarrow> (sr_current b \<noteq> None \<longrightarrow> s = FsStepError)"

interpretation step_results: query_result_builder step_results_feed step_results_inv
proof
  fix s e and b b' :: StepResultsBuilder
  assume "step_results_inv s b" "fsm_allowed s (fsm_target e)"
  then show "step_results_feed e b \<noteq> Inl BuilderPanicked"
    "step_results_feed e b = Inr b' \<Longrightarrow> step_results_inv (fsm_target e) b'"
    by (cases e; auto simp: step_results_inv_def step_results_new_def Let_def split: if_splits)+
qed

fun ignore_result_feed :: "unit feed" where
  "ignore_result_feed e b = Inr b"

interpretation ignore_result: query_result_builder ignore_result_feed "\<lambda>_ _. True"
  by unfold_locales simp_all

record 'b Take =
  tk_limit :: nat
  tk_count :: nat
  tk_inner :: 'b

definition take_new :: "nat \<Rightarrow> 'b \<Rightarrow> 'b Take" where
  "take_new limit b = \<lparr> tk_limit = limit, tk_count = 0, tk_inner = b \<rparr>"

definition take_inner :: "'b feed \<Rightarrow> event \<Rightarrow> 'b Take \<Rightarrow> QueryResultBuilderError + 'b Take" where
  "take_inner feed e t =
     (case feed e (tk_inner t) of Inl err \<Rightarrow> Inl err | Inr b \<Rightarrow> Inr (t\<lparr>tk_inner := b\<rparr>))"

fun take_feed :: "'b feed \<Rightarrow> 'b Take feed" where
  "take_feed feed (EvInit c) t = take_inner feed (EvInit c) (t\<lparr>tk_count := 0\<rparr>)"
| "take_feed feed (FinishStep n r) t =
     (if tk_count t < tk_limit t
      then (case take_inner feed (FinishStep n r) t of
              Inl err \<Rightarrow> Inl err
            | Inr t \<Rightarrow> Inr (t\<lparr>tk_count := tk_count t + 1\<rparr>))
      else Inr t)"
| "take_feed feed Finish t = take_inner feed Finish t"
| "take_feed feed e t = (if tk_count t < tk_limit t then take_inner feed e t else Inr t)"

text \<open>
  Below the limit the inner builder sees every call; above it, it stays where the
  last counted step ended.
\<close>

definition take_inv :: "(FsmState \<Rightarrow> 'b \<Rightarrow> bool) \<Rightarrow> FsmState \<Rightarrow> 'b Take \<Rightarrow> bool" where
  "take_inv inv_at s t \<longleftrightarrow>
     inv_at (if s = FsFinish \<or> tk_count t < tk_limit t then s
             else if tk_limit t = 0 then FsInit else FsFinishStep) (tk_inner t)"

lemma take_feed_cases:
  assumes "query_result_builder feed inv_at" "take_inv inv_at s t" "fsm_allowed s (fsm_target e)"
  shows "take_feed feed e t \<noteq> Inl BuilderPanicked"
    and "take_feed feed e t = Inr t' \<Longrightarrow> take_inv inv_at (fsm_target e) t'"
proof -
  note ok = query_result_builder.feed_ok [OF assms(1)]
    and pres = query_result_builder.feed_inv [OF assms(1)]
  define s' where "s' = (if s = FsFinish \<or> tk_count t < tk_limit t then s
    else if tk_limit t = 0 then FsInit else FsFinishStep)"
  have inner: "inv_at s' (tk_inner t)" using assms(2) by (simp add: take_inv_def s'_def)
  have allowed: "fsm_allowed s' (fsm_target e)"
    if "tk_count t < tk_limit t \<or> e = Finish \<or> (\<exists>c. e = EvInit c)"
    using assms(3) that by (cases e) (auto simp: s'_def)
  show "take_feed feed e t \<noteq> Inl BuilderPanicked"
    using ok [OF inner allowed]
    by (cases e) (auto simp: take_inner_def split: sum.splits)
  show "take_feed feed e t = Inr t' \<Longrightarrow> take_inv inv_at (fsm_target e) t'"
    using pres [OF inner allowed] inner assms(3)
    by (cases e) (auto simp: take_inner_def take_inv_def s'_def split: sum.splits if_splits)
qed

text \<open>The wrapper keeps the contract of whatever it wraps.\<close>

context query_result_builder
begin

lemma take_builder: "query_result_builder (take_feed feed) (take_inv inv_at)"
  using take_feed_cases [OF query_result_builder_axioms] by unfold_locales blast+

end

interpretation take_step_results:
  query_result_builder "take_feed step_results_feed" "take_inv step_results_inv"
  by (rule step_results.take_builder)

section \<open>The events of a step\<close>

text \<open>
  What a driver reports of a step: it was skipped, it ran to the end, or it
  failed after some of the events of a run.
\<close>

datatype step_run =
    Skipped
  | Ran "Column list" "ValueRef list list" u64 "i64 option"
  | FailedAfter "event list" Error

fun row_event :: "event \<Rightarrow> bool" where
  "row_event (ColsDescription _) = True"
| "row_event BeginRows = True"
| "row_event BeginRow = True"
| "row_event (AddRowValue _) = True"
| "row_event FinishRow = True"
| "row_event FinishRows = True"
| "row_event _ = False"

definition row_events :: "ValueRef list \<Rightarrow> event list" where
  "row_events vs = BeginRow # map AddRowValue vs @ [FinishRow]"

fun step_events :: "step_run \<Rightarrow> event list" where
  "step_events Skipped = [BeginStep, FinishStep 0 None]"
| "step_events (Ran cols rows n r) =
     [BeginStep, ColsDescription cols, BeginRows] @ concat (map row_events rows) @
     [FinishRows, FinishStep n r]"
| "step_events (FailedAfter es e) = BeginStep # es @ [StepError e, FinishStep 0 None]"

fun step_legal :: "step_run \<Rightarrow> bool" where
  "step_legal (FailedAfter es e) = (list_all row_event es \<and> fsm_run FsBeginStep es \<noteq> None)"
| "step_legal _ = True"

definition program_events :: "QueryBuilderConfig \<Rightarrow> step_run list \<Rightarrow> event list" where
  "program_events c steps = EvInit c # concat (map step_events steps) @ [Finish]"

lemma fsm_row_values:
  "s \<in> {FsBeginRow, FsAddRowValue} \<Longrightarrow>
   fsm_run s (map AddRowValue vs) = Some (if vs = [] then s else FsAddRowValue)"
  by (induction vs arbitrary: s) auto

lemma fsm_rows:
  "s \<in> {FsBeginRows, FsFinishRow} \<Longrightarrow>
   \<exists>s'\<in>{FsBeginRows, FsFinishRow}. fsm_run s (concat (map row_events rows)) = Some s'"
proof (induction rows arbitrary: s)
  case (Cons vs rows)
  have "fsm_run s (row_events vs) = Some FsFinishRow"
    using Cons.prems by (auto simp: row_events_def fsm_run_append fsm_row_values)
  then show ?case using Cons.IH [of FsFinishRow] by (simp add: fsm_run_append)
qed simp

lemma fsm_row_prefix:
  "list_all row_event es \<Longrightarrow> fsm_run s es = Some s' \<Longrightarrow>
   fsm_allowed s FsStepError \<Longrightarrow> fsm_allowed s' FsStepError"
proof (induction es arbitrary: s)
  case (Cons e es)
  have "fsm_allowed (fsm_target e) FsStepError"
    using Cons.prems(1) by (cases e) auto
  then show ?case using Cons by (auto split: if_splits)
qed simp

lemma fsm_step:
  assumes "step_legal st" "s \<in> {FsInit, FsFinishStep}"
  shows "fsm_run s (step_events st) = Some FsFinishStep"
proof (cases st)
  case (Ran cols rows n r)
  obtain s' where "s' \<in> {FsBeginRows, FsFinishRow}"
    "fsm_run FsBeginRows (concat (map row_events rows)) = Some s'"
    using fsm_rows [of FsBeginRows rows] by auto
  then show ?thesis using Ran assms(2) by (auto simp: fsm_run_append)
next
  case (FailedAfter es e)
  then obtain s' where s': "fsm_run FsBeginStep es = Some s'" using assms(1) by auto
  then have "fsm_allowed s' FsStepError"
    using fsm_row_prefix [of es FsBeginStep s'] FailedAfter assms(1) by simp
  then show ?thesis using FailedAfter assms(2) s' by (auto simp: fsm_run_append)
qed (use assms(2) in auto)

lemma fsm_steps:
  "list_all step_legal steps \<Longrightarrow> s \<in> {FsInit, FsFinishStep} \<Longrightarrow>
   \<exists>s'\<in>{FsInit, FsFinishStep}. fsm_run s (concat (map step_events steps)) = Some s'"
proof (induction steps arbitrary: s)
  case (Cons st steps)
  then show ?case
    using fsm_step [of st s] Cons.IH [of FsFinishStep] by (simp add: fsm_run_append)
qed simp

lemma fsm_program:
  assumes "list_all step_legal steps"
  shows "fsm_run s (program_events c steps) = Some FsFinish"
proof -
  obtain s' where "s' \<in> {FsInit, FsFinishStep}"
    "fsm_run FsInit (concat (map step_events steps)) = Some s'"
    using fsm_steps [OF assms, of FsInit] by auto
  then show ?thesis by (auto simp: program_events_def fsm_run_append)
qed

text \<open>The outcome the recording builder keeps of each step.\<close>

fun step_outcome :: "step_run \<Rightarrow> StepResult" where
  "step_outcome Skipped = StepSkipped"
| "step_outcome (Ran _ _ _ _) = StepOk"
| "step_outcome (FailedAfter _ e) = StepErr e"

lemma step_results_row_events:
  "list_all row_event es \<Longrightarrow> \<exists>sk. feed_all step_results_feed es b = Inr (b\<lparr>sr_is_skipped := sk\<rparr>)"
proof (induction es arbitrary: b)
  case Nil
  then show ?case by (auto intro: exI [of _ "sr_is_skipped b"])
next
  case (Cons e es)
  then obtain sk' where "step_results_feed e b = Inr (b\<lparr>sr_is_skipped := sk'\<rparr>)"
    by (cases e) (auto intro: that [of "sr_is_skipped b"])
  then show ?case
    using Cons.IH [of "b\<lparr>sr_is_skipped := sk'\<rparr>"] Cons.prems by auto
qed

lemma step_results_rows:
  "feed_all step_results_feed (concat (map row_events rows)) b = Inr b"
proof (induction rows)
  case (Cons vs rows)
  have "feed_all step_results_feed (map AddRowValue vs) b = Inr b"
    by (induction vs) simp_all
  then show ?case using Cons by (simp add: row_events_def feed_all_append)
qed simp

lemma step_results_step:
  assumes "step_legal st" "sr_current b = None"
  shows "\<exists>sk. feed_all step_results_feed (step_events st) b =
    Inr (b\<lparr>sr_step_results := sr_step_results b @ [step_outcome st], sr_is_skipped := sk\<rparr>)"
proof (cases st)
  case (FailedAfter es e)
  obtain sk where "feed_all step_results_feed es (b\<lparr>sr_is_skipped := True\<rparr>)
      = Inr (b\<lparr>sr_is_skipped := sk\<rparr>)"
    using step_results_row_events [of es "b\<lparr>sr_is_skipped := True\<rparr>"] assms(1) FailedAfter by auto
  then show ?thesis
    using FailedAfter assms(2)
    by (cases b) (auto simp: feed_all_append Let_def)
qed (use assms(2) in \<open>cases b; auto simp: feed_all_append step_results_rows Let_def\<close>)+

lemma step_results_steps:
  assumes "list_all step_legal steps" "sr_current b = None"
  shows "\<exists>sk. feed_all step_results_feed (concat (map step_events steps)) b =
    Inr (b\<lparr>sr_step_results := sr_step_results b @ map step_outcome steps, sr_is_skipped := sk\<rparr>)"
  using assms
proof (induction steps arbitrary: b)
  case Nil
  then show ?case by (cases b) auto
next
  case (Cons st steps)
  obtain sk where sk: "feed_all step_results_feed (step_events st) b =
    Inr (b\<lparr>sr_step_results := sr_step_results b @ [step_outcome st], sr_is_skipped := sk\<rparr>)"
    using step_results_step [of st b] Cons.prems by auto
  show ?case
    using Cons.IH [of "b\<lparr>sr_step_results := sr_step_results b @ [step_outcome st], sr_is_skipped := sk\<rparr>"]
      Cons.prems sk by (simp add: feed_all_append)
qed

lemma step_results_program:
  assumes "list_all step_legal steps"
  shows "\<exists>b'. feed_all step_results_feed (program_events c steps) b = Inr b' \<and>
    sr_step_results b' = map step_outcome steps"
  using step_results_steps [OF assms, of step_results_new]
  by (auto simp: program_events_def feed_all_append step_results_new_def)

end
