(* ===== verification/Connection.thy ===== *)
theory Connection
  imports ResultBuilder
begin

text \<open>
  \<^verbatim>\<open>sqld/src/connection/\<close>: programs of conditional steps (\<^verbatim>\<open>program.rs\<close>), their execution on
  a SQLite connection (\<^verbatim>\<open>libsql.rs\<close>) and the batch operations every connection offers
  (\<^verbatim>\<open>mod.rs\<close>). SQLite is an argument: a record of functions on an abstract state,
  with what \<^verbatim>\<open>prepare\<close> returns, the results of the successive calls of \<^verbatim>\<open>next\<close>, and the
  state after so many of these calls. Time is a number of milliseconds.
\<close>

section \<open>SQLite\<close>

record prepared =
  pr_cols :: "Column list"
  pr_params :: "string option list"
  pr_is_explain :: bool
  pr_is_readonly :: bool

record 'c sqlite =
  sq_prepare :: "'c \<Rightarrow> string \<Rightarrow> string + prepared"
  sq_rows :: "'c \<Rightarrow> string \<Rightarrow> Value list \<Rightarrow> (string + ValueRef list) list"
  sq_after :: "'c \<Rightarrow> string \<Rightarrow> Value list \<Rightarrow> nat \<Rightarrow> 'c"
  sq_autocommit :: "'c \<Rightarrow> bool"
  sq_changes :: "'c \<Rightarrow> u64"
  sq_last_insert_rowid :: "'c \<Rightarrow> i64"
  sq_status :: "'c \<Rightarrow> string \<Rightarrow> Value list \<Rightarrow> int \<times> int"

section \<open>Programs\<close>

datatype Cond =
    CondOk nat | CondErr nat | CondNot Cond | CondOr "Cond list" | CondAnd "Cond list"
  | CondIsAutocommit

record Step =
  sp_cond :: "Cond option"
  sp_query :: Query

type_synonym Program = "Step list"

definition program_is_read_only :: "Program \<Rightarrow> bool" where
  "program_is_read_only pgm \<longleftrightarrow> (\<forall>s\<in>set pgm. stmt_is_read_only (q_stmt (sp_query s)))"

record DescribeResponse =
  dr_params :: "string option list"
  dr_cols :: "Column list"
  dr_is_explain :: bool
  dr_is_readonly :: bool

definition get_step_res :: "bool list \<Rightarrow> nat \<Rightarrow> Error + bool" where
  "get_step_res results step =
     (if step < length results then Inr (results ! step) else Inl (InvalidBatchStep step))"

fun eval_cond :: "Cond \<Rightarrow> bool list \<Rightarrow> bool \<Rightarrow> Error + bool"
and eval_conds :: "(bool \<Rightarrow> bool \<Rightarrow> bool) \<Rightarrow> bool \<Rightarrow> Cond list \<Rightarrow> bool list \<Rightarrow> bool \<Rightarrow> Error + bool" where
  "eval_cond (CondOk step) results ac = get_step_res results step"
| "eval_cond (CondErr step) results ac =
     (case get_step_res results step of Inl e \<Rightarrow> Inl e | Inr r \<Rightarrow> Inr (\<not> r))"
| "eval_cond (CondNot c) results ac =
     (case eval_cond c results ac of Inl e \<Rightarrow> Inl e | Inr r \<Rightarrow> Inr (\<not> r))"
| "eval_cond (CondAnd cs) results ac = eval_conds (\<and>) True cs results ac"
| "eval_cond (CondOr cs) results ac = eval_conds (\<or>) False cs results ac"
| "eval_cond CondIsAutocommit results ac = Inr ac"
| "eval_conds f x [] results ac = Inr x"
| "eval_conds f x (c # cs) results ac =
     (case eval_cond c results ac of Inl e \<Rightarrow> Inl e | Inr y \<Rightarrow> eval_conds f (f x y) cs results ac)"

section \<open>The connection\<close>

record Stats =
  ss_rows_written :: u64
  ss_rows_read :: u64
  ss_storage_bytes_used :: u64
  ss_write_requests_delegated :: u64

record DatabaseConfig =
  dc_block_reads :: bool
  dc_block_writes :: bool
  dc_block_reason :: "string option"

record 'c Connection =
  cn_timeout_deadline :: "nat option"
  cn_conn :: 'c
  cn_timed_out :: bool
  cn_stats :: Stats
  cn_config :: DatabaseConfig
  cn_builder_config :: QueryBuilderConfig

definition TXN_TIMEOUT :: nat where "TXN_TIMEOUT = 5000"

definition update_stats :: "int \<times> int \<Rightarrow> Stats \<Rightarrow> Stats" where
  "update_stats status st =
     (case status of (rows_read, rows_written) \<Rightarrow>
        let rows_read = (if rows_read = 0 \<and> rows_written = 0 then 1 else rows_read)
        in st\<lparr>ss_rows_read := ss_rows_read st + word_of_int rows_read,
              ss_rows_written := ss_rows_written st + word_of_int rows_written\<rparr>)"

definition stmt_blocked :: "StmtKind \<Rightarrow> DatabaseConfig \<Rightarrow> bool" where
  "stmt_blocked kind config =
     (case kind of
        Read \<Rightarrow> dc_block_reads config
      | TxnBegin \<Rightarrow> dc_block_reads config
      | Other \<Rightarrow> dc_block_reads config
      | Write \<Rightarrow> dc_block_reads config \<or> dc_block_writes config
      | TxnEnd \<Rightarrow> False)"

text \<open>The values of one row; a column the row does not have is an error.\<close>

fun row_values :: "'b feed \<Rightarrow> nat \<Rightarrow> ValueRef list \<Rightarrow> 'b \<Rightarrow> (Error + unit) \<times> 'b" where
  "row_values feed 0 vs b = (Inr (), b)"
| "row_values feed (Suc n) [] b = (Inl (RusqliteError ''invalid column index''), b)"
| "row_values feed (Suc n) (v # vs) b =
     (case feed (AddRowValue v) b of
        Inl e \<Rightarrow> (Inl (BuilderError e), b)
      | Inr b \<Rightarrow> row_values feed n vs b)"

text \<open>The loop over the rows: its result, the builder, and the number of calls of \<^verbatim>\<open>next\<close>.\<close>

fun query_rows ::
  "'b feed \<Rightarrow> nat \<Rightarrow> (string + ValueRef list) list \<Rightarrow> 'b \<Rightarrow> nat \<Rightarrow> (Error + unit) \<times> 'b \<times> nat" where
  "query_rows feed cols [] b n = (Inr (), b, Suc n)"
| "query_rows feed cols (Inl e # rows) b n = (Inl (RusqliteError e), b, Suc n)"
| "query_rows feed cols (Inr vs # rows) b n =
     (case feed BeginRow b of
        Inl e \<Rightarrow> (Inl (BuilderError e), b, Suc n)
      | Inr b \<Rightarrow>
          (case row_values feed cols vs b of
             (Inl e, b) \<Rightarrow> (Inl e, b, Suc n)
           | (Inr _, b) \<Rightarrow>
               (case feed FinishRow b of
                  Inl e \<Rightarrow> (Inl (BuilderError e), b, Suc n)
                | Inr b \<Rightarrow> query_rows feed cols rows b (Suc n))))"

text \<open>The text an error of the parameter binding displays as; a failed assertion has none.\<close>

fun bind_error_message :: "bind_error \<Rightarrow> string" where
  "bind_error_message (TooManyParameters n m) =
     ''too many parameters, expected '' @ show_nat n @ '' found '' @ show_nat m"
| "bind_error_message (InvalidParameter name) =
     ''invalid parameter {name}: expected a numerical position after `?`''"
| "bind_error_message (ValueNotFoundName name) = ''value for parameter '' @ name @ '' not found''"
| "bind_error_message (ValueNotFoundIndex i) = ''value for parameter '' @ show_nat i @ '' not found''"
| "bind_error_message BindPanicked = []"

definition execute_query ::
  "'c sqlite \<Rightarrow> 'b feed \<Rightarrow> Query \<Rightarrow> 'c Connection \<Rightarrow> 'b
     \<Rightarrow> (Error + u64 \<times> i64 option) \<times> 'c Connection \<times> 'b" where
  "execute_query sq feed query c b =
     (let config = cn_config c;
          sql = st_stmt (q_stmt query)
      in if stmt_blocked (st_kind (q_stmt query)) config
         then (Inl (Blocked (dc_block_reason config)), c, b)
         else
           (case sq_prepare sq (cn_conn c) sql of
              Inl e \<Rightarrow> (Inl (RusqliteError e), c, b)
            | Inr stmt \<Rightarrow>
                (case feed (ColsDescription (pr_cols stmt)) b of
                   Inl e \<Rightarrow> (Inl (BuilderError e), c, b)
                 | Inr b \<Rightarrow>
                     (case params_bind (q_params query) (pr_params stmt) of
                        Inl e \<Rightarrow>
                          (Inl (if e = BindPanicked then BuilderError BuilderPanicked
                                else LibSqlInvalidQueryParams (bind_error_message e)), c, b)
                      | Inr vals \<Rightarrow>
                          (case feed BeginRows b of
                             Inl e \<Rightarrow> (Inl (BuilderError e), c, b)
                           | Inr b \<Rightarrow>
                               (case query_rows feed (length (pr_cols stmt))
                                       (sq_rows sq (cn_conn c) sql vals) b 0 of
                                  (r, b, n) \<Rightarrow>
                                    (let before = cn_conn c;
                                         c = c\<lparr>cn_conn := sq_after sq before sql vals n\<rparr>
                                     in case r of
                                          Inl e \<Rightarrow> (Inl e, c, b)
                                        | Inr _ \<Rightarrow>
                                            (case feed FinishRows b of
                                               Inl e \<Rightarrow> (Inl (BuilderError e), c, b)
                                             | Inr b \<Rightarrow>
                                                 (Inr (if st_is_iud (q_stmt query)
                                                       then sq_changes sq (cn_conn c) else 0,
                                                       if st_is_insert (q_stmt query)
                                                       then Some (sq_last_insert_rowid sq (cn_conn c))
                                                       else None),
                                                  c\<lparr>cn_stats := update_stats (sq_status sq before sql vals)
                                                      (cn_stats c)\<rparr>,
                                                  b)))))))))"

text \<open>
  A step: its result is an error of the builder, which ends the run, or whether
  the step was executed with success. The error of an invalid condition is
  handed to the builder with \<^verbatim>\<open>unwrap\<close>.
\<close>

definition finish_step ::
  "'b feed \<Rightarrow> bool \<Rightarrow> u64 \<Rightarrow> i64 option \<Rightarrow> 'c Connection \<Rightarrow> 'b \<Rightarrow> (Error + bool) \<times> 'c Connection \<times> 'b" where
  "finish_step feed enabled n r c b =
     (case feed (FinishStep n r) b of
        Inl e \<Rightarrow> (Inl (BuilderError e), c, b)
      | Inr b \<Rightarrow> (Inr enabled, c, b))"

fun builder_error :: "Error \<Rightarrow> bool" where
  "builder_error (BuilderError _) = True"
| "builder_error _ = False"

definition step_cond :: "'c sqlite \<Rightarrow> Step \<Rightarrow> bool list \<Rightarrow> 'c Connection \<Rightarrow> Error + bool" where
  "step_cond sq step results c =
     (case sp_cond step of
        None \<Rightarrow> Inr True
      | Some cond \<Rightarrow> eval_cond cond results (sq_autocommit sq (cn_conn c)))"

definition execute_step ::
  "'c sqlite \<Rightarrow> 'b feed \<Rightarrow> Step \<Rightarrow> bool list \<Rightarrow> 'c Connection \<Rightarrow> 'b
     \<Rightarrow> (Error + bool) \<times> 'c Connection \<times> 'b" where
  "execute_step sq feed step results c b =
     (case feed BeginStep b of
        Inl e \<Rightarrow> (Inl (BuilderError e), c, b)
      | Inr b \<Rightarrow>
          (case step_cond sq step results c of
             Inl e \<Rightarrow>
               (case feed (StepError e) b of
                  Inl _ \<Rightarrow> (Inl (BuilderError BuilderPanicked), c, b)
                | Inr b \<Rightarrow> finish_step feed False 0 None c b)
           | Inr enabled \<Rightarrow>
               if \<not> enabled then finish_step feed False 0 None c b
               else
                 (case execute_query sq feed (sp_query step) c b of
                    (Inr (n, r), c, b) \<Rightarrow> finish_step feed True n r c b
                  | (Inl e, c, b) \<Rightarrow>
                      if builder_error e then (Inl e, c, b)
                      else
                        (case feed (StepError e) b of
                           Inl e \<Rightarrow> (Inl (BuilderError e), c, b)
                         | Inr b \<Rightarrow> finish_step feed False 0 None c b))))"

fun run_steps ::
  "'c sqlite \<Rightarrow> 'b feed \<Rightarrow> Step list \<Rightarrow> bool list \<Rightarrow> 'c Connection \<Rightarrow> 'b
     \<Rightarrow> (Error + bool list) \<times> 'c Connection \<times> 'b" where
  "run_steps sq feed [] results c b = (Inr results, c, b)"
| "run_steps sq feed (step # steps) results c b =
     (case execute_step sq feed step results c b of
        (Inl e, c, b) \<Rightarrow> (Inl e, c, b)
      | (Inr r, c, b) \<Rightarrow> run_steps sq feed steps (results @ [r]) c b)"

definition connection_run ::
  "'c sqlite \<Rightarrow> 'b feed \<Rightarrow> nat \<Rightarrow> Program \<Rightarrow> 'c Connection \<Rightarrow> 'b \<Rightarrow> (Error + 'b) \<times> 'c Connection" where
  "connection_run sq feed now pgm c b =
     (case feed (EvInit (cn_builder_config c)) b of
        Inl e \<Rightarrow> (Inl (BuilderError e), c)
      | Inr b \<Rightarrow>
          (let is_autocommit_before = sq_autocommit sq (cn_conn c)
           in case run_steps sq feed pgm [] c b of
                (Inl e, c, b) \<Rightarrow> (Inl e, c)
              | (Inr _, c, b) \<Rightarrow>
                  (let c = (if is_autocommit_before \<and> \<not> sq_autocommit sq (cn_conn c)
                            then c\<lparr>cn_timeout_deadline := Some (now + TXN_TIMEOUT)\<rparr> else c)
                   in case feed Finish b of
                        Inl e \<Rightarrow> (Inl (BuilderError e), c)
                      | Inr b \<Rightarrow> (Inr b, c))))"

definition connection_rollback :: "'c sqlite \<Rightarrow> 'c Connection \<Rightarrow> 'c Connection" where
  "connection_rollback sq c =
     (case sq_prepare sq (cn_conn c) ''ROLLBACK'' of
        Inl _ \<Rightarrow> c
      | Inr _ \<Rightarrow> c\<lparr>cn_conn := sq_after sq (cn_conn c) ''ROLLBACK'' [] 1\<rparr>)"

definition connection_describe :: "'c sqlite \<Rightarrow> string \<Rightarrow> 'c Connection \<Rightarrow> Error + DescribeResponse" where
  "connection_describe sq sql c =
     (case sq_prepare sq (cn_conn c) sql of
        Inl e \<Rightarrow> Inl (RusqliteError e)
      | Inr stmt \<Rightarrow>
          Inr \<lparr> dr_params = pr_params stmt, dr_cols = pr_cols stmt,
                dr_is_explain = pr_is_explain stmt, dr_is_readonly = pr_is_readonly stmt \<rparr>)"

section \<open>Authorization\<close>

fun check_program_auth :: "Authenticated \<Rightarrow> Program \<Rightarrow> Error + unit" where
  "check_program_auth auth [] = Inr ()"
| "check_program_auth auth (step # steps) =
     (let stmt = q_stmt (sp_query step)
      in case auth of
           Anonymous \<Rightarrow> Inl (NotAuthorized ''anonymous access not allowed'')
         | Authorized level \<Rightarrow>
             if st_kind stmt \<in> {Read, TxnBegin, TxnEnd} \<or> level = FullAccess
             then check_program_auth auth steps
             else Inl (NotAuthorized
                    (''Current session is not authorized to run: '' @ st_stmt stmt)))"

definition check_describe_auth :: "Authenticated \<Rightarrow> Error + unit" where
  "check_describe_auth auth =
     (case auth of
        Anonymous \<Rightarrow> Inl (NotAuthorized ''anonymous access not allowed'')
      | Authorized _ \<Rightarrow> Inr ())"

section \<open>Requests to the connection\<close>

text \<open>
  The thread of a connection answers requests, and gives up on a transaction
  when the deadline passes before the next request.
\<close>

definition on_deadline :: "'c sqlite \<Rightarrow> 'c Connection \<Rightarrow> 'c Connection" where
  "on_deadline sq c =
     (connection_rollback sq c)\<lparr>cn_timed_out := True, cn_timeout_deadline := None\<rparr>"

text \<open>The waiting of the thread: the state in which a request that arrives at \<^term>\<open>now\<close> finds it.\<close>

definition wait_request :: "'c sqlite \<Rightarrow> nat \<Rightarrow> 'c Connection \<Rightarrow> 'c Connection" where
  "wait_request sq now c =
     (case cn_timeout_deadline c of
        Some deadline \<Rightarrow> if deadline \<le> now then on_deadline sq c else c
      | None \<Rightarrow> c)"

definition libsql_execute_program ::
  "'c sqlite \<Rightarrow> 'b feed \<Rightarrow> nat \<Rightarrow> Program \<Rightarrow> Authenticated \<Rightarrow> 'c Connection \<Rightarrow> 'b
     \<Rightarrow> (Error + 'b \<times> State) \<times> 'c Connection" where
  "libsql_execute_program sq feed now pgm auth c b =
     (case check_program_auth auth pgm of
        Inl e \<Rightarrow> (Inl e, c)
      | Inr _ \<Rightarrow>
          (let c = wait_request sq now c
           in if cn_timed_out c then (Inl LibSqlTxTimeout, c)
              else (case connection_run sq feed now pgm c b of
                      (Inl e, c) \<Rightarrow> (Inl e, c)
                    | (Inr b, c) \<Rightarrow>
                        (Inr (b, if sq_autocommit sq (cn_conn c) then InitState else Txn), c))))"

definition libsql_describe ::
  "'c sqlite \<Rightarrow> nat \<Rightarrow> string \<Rightarrow> Authenticated \<Rightarrow> 'c Connection
     \<Rightarrow> (Error + DescribeResponse) \<times> 'c Connection" where
  "libsql_describe sq now sql auth c =
     (case check_describe_auth auth of
        Inl e \<Rightarrow> (Inl e, c)
      | Inr _ \<Rightarrow>
          (let c = wait_request sq now c
           in (if cn_timed_out c then Inl LibSqlTxTimeout else connection_describe sq sql c, c)))"

definition libsql_is_autocommit ::
  "'c sqlite \<Rightarrow> nat \<Rightarrow> 'c Connection \<Rightarrow> (Error + bool) \<times> 'c Connection" where
  "libsql_is_autocommit sq now c =
     (let c = wait_request sq now c
      in (if cn_timed_out c then Inl LibSqlTxTimeout else Inr (sq_autocommit sq (cn_conn c)), c))"

section \<open>Batches\<close>

definition make_batch_program :: "Query list \<Rightarrow> Program" where
  "make_batch_program batch =
     map (\<lambda>(i, q). \<lparr> sp_cond = (if 0 < i then Some (CondOk (i - 1)) else None), sp_query = q \<rparr>)
       (enumerate 0 batch)"

text \<open>\<^verbatim>\<open>Statement::parse("ROLLBACK").next().unwrap().unwrap()\<close>; None is a panic.\<close>

definition rollback_query :: "sql_parser \<Rightarrow> Query option" where
  "rollback_query p =
     (case parse_statements p ''ROLLBACK'' of
        Inr st # _ \<Rightarrow> Some \<lparr> q_stmt = st, q_params = params_empty, q_want_rows = False \<rparr>
      | _ \<Rightarrow> None)"

definition rollback_program :: "Query \<Rightarrow> Query list \<Rightarrow> Program" where
  "rollback_program rollback batch =
     (let steps = make_batch_program batch
      in if steps = [] then []
         else steps @ [\<lparr> sp_cond = Some (CondNot (CondOk (length steps - 1))), sp_query = rollback \<rparr>])"

definition execute_batch_or_rollback ::
  "'c sqlite \<Rightarrow> sql_parser \<Rightarrow> 'b feed \<Rightarrow> nat \<Rightarrow> Query list \<Rightarrow> Authenticated \<Rightarrow> 'c Connection \<Rightarrow> 'b
     \<Rightarrow> (Error + 'b \<times> State) option \<times> 'c Connection" where
  "execute_batch_or_rollback sq p feed now batch auth c b =
     (case (if batch = [] then Some []
            else map_option (\<lambda>rollback. rollback_program rollback batch) (rollback_query p)) of
        None \<Rightarrow> (None, c)
      | Some pgm \<Rightarrow>
          (case libsql_execute_program sq (take_feed feed) now pgm auth c (take_new (length batch) b) of
             (Inl e, c) \<Rightarrow> (Some (Inl e), c)
           | (Inr (t, state), c) \<Rightarrow> (Some (Inr (tk_inner t, state)), c)))"

definition execute_batch ::
  "'c sqlite \<Rightarrow> 'b feed \<Rightarrow> nat \<Rightarrow> Query list \<Rightarrow> Authenticated \<Rightarrow> 'c Connection \<Rightarrow> 'b
     \<Rightarrow> (Error + 'b \<times> State) \<times> 'c Connection" where
  "execute_batch sq feed now batch auth c b =
     libsql_execute_program sq feed now (make_batch_program batch) auth c b"

end
