(* ===== verification/ProgramRun.thy ===== *)
theory ProgramRun
  imports Connection
begin

text \<open>
  What running a program does to the builder, to the connection and to open
  transactions: the calls a run makes are in the promised order, so that no
  builder that keeps its contract panics; batches stop at the first failure and
  leave no transaction behind; and only authorized programs reach SQLite.
\<close>

section \<open>The calls a run makes\<close>

text \<open>
  After a call of kind \<^term>\<open>s\<close> the run made the calls \<^term>\<open>es\<close>, in an allowed order, and
  the last one failed with \<^term>\<open>e\<close>.
\<close>

definition fails_in :: "'b feed \<Rightarrow> FsmState \<Rightarrow> 'b \<Rightarrow> QueryResultBuilderError \<Rightarrow> bool" where
  "fails_in feed s b e \<longleftrightarrow> (\<exists>es. fsm_run s es \<noteq> None \<and> feed_all feed es b = Inl e)"

lemma fails_in_single:
  "feed ev b = Inl e \<Longrightarrow> fsm_allowed s (fsm_target ev) \<Longrightarrow> fails_in feed s b e"
  unfolding fails_in_def by (rule exI [of _ "[ev]"]) simp

lemma fails_in_prefix:
  assumes "feed_all feed es b = Inr b'" "fsm_run s es = Some s'" "fails_in feed s' b' e"
  shows "fails_in feed s b e"
proof -
  obtain es' where "fsm_run s' es' \<noteq> None" "feed_all feed es' b' = Inl e"
    using assms(3) by (auto simp: fails_in_def)
  then show ?thesis
    using assms(1,2) unfolding fails_in_def
    by (intro exI [of _ "es @ es'"]) (simp add: feed_all_append fsm_run_append)
qed

lemma row_values_cases:
  "row_values feed k vs b = (r, b') \<Longrightarrow> s \<in> {FsBeginRow, FsAddRowValue} \<Longrightarrow>
   r = Inr () \<and> k \<le> length vs \<and> feed_all feed (map AddRowValue (take k vs)) b = Inr b' \<or>
   (\<exists>e. r = Inl (RusqliteError e) \<and> feed_all feed (map AddRowValue vs) b = Inr b') \<or>
   (\<exists>e. r = Inl (BuilderError e) \<and> fails_in feed s b e)"
proof (induction feed k vs b arbitrary: s rule: row_values.induct)
  case (3 feed n v vs b)
  show ?case
  proof (cases "feed (AddRowValue v) b")
    case (Inl e)
    then show ?thesis using "3.prems" fails_in_single [where feed = feed, OF Inl] by auto
  next
    case (Inr b1)
    have "fails_in feed s b e" if "fails_in feed FsAddRowValue b1 e" for e
      by (rule fails_in_prefix [OF _ _ that, of "[AddRowValue v]"]) (use Inr "3.prems"(2) in auto)
    then show ?thesis
      using "3.IH" [OF Inr, of FsAddRowValue] "3.prems"(1) Inr by auto
  qed
qed auto

text \<open>A run of the rows ends at the last row, at an error of SQLite, or at one of the builder.\<close>

definition row_prefix :: "FsmState \<Rightarrow> event list \<Rightarrow> bool" where
  "row_prefix s es \<longleftrightarrow> list_all row_event es \<and> fsm_run s es \<noteq> None"

lemma row_prefix_append:
  "fsm_run s es = Some s' \<Longrightarrow> list_all row_event es \<Longrightarrow> row_prefix s' es' \<Longrightarrow> row_prefix s (es @ es')"
  by (simp add: row_prefix_def fsm_run_append)

lemma list_all_row_events [simp]: "list_all row_event (row_events vs)"
  by (simp add: row_events_def list_all_iff)

lemma fsm_row_events:
  "s \<in> {FsBeginRows, FsFinishRow} \<Longrightarrow> fsm_run s (row_events vs) = Some FsFinishRow"
  by (auto simp: row_events_def fsm_run_append fsm_row_values)

lemma query_rows_cases:
  "query_rows feed k rows b n = (r, b', m) \<Longrightarrow> s \<in> {FsBeginRows, FsFinishRow} \<Longrightarrow>
   (\<exists>vss. r = Inr () \<and> rows = map Inr vss \<and> m = n + length rows + 1 \<and>
      feed_all feed (concat (map row_events (map (take k) vss))) b = Inr b') \<or>
   (\<exists>e es. r = Inl (RusqliteError e) \<and> row_prefix s es \<and> feed_all feed es b = Inr b') \<or>
   (\<exists>e. r = Inl (BuilderError e) \<and> fails_in feed s b e)"
proof (induction feed k rows b n arbitrary: s rule: query_rows.induct)
  case (1 feed k b n)
  then show ?case by simp
next
  case (2 feed k e rows b n)
  then have "row_prefix s []" "feed_all feed [] b = Inr b'" by (auto simp: row_prefix_def)
  then show ?case using 2 by auto
next
  case (3 feed k vs rows b n)
  show ?case
  proof (cases "feed BeginRow b")
    case (Inl e)
    then show ?thesis using "3.prems" fails_in_single [where feed = feed, OF Inl] by auto
  next
    case b1: (Inr b1)
    obtain r2 b2 where b2: "row_values feed k vs b1 = (r2, b2)" by fastforce
    have start: "fsm_run s [BeginRow] = Some FsBeginRow" "feed_all feed [BeginRow] b = Inr b1"
      using "3.prems"(2) b1 by auto
    have fail: "fails_in feed s b e" if "fails_in feed FsBeginRow b1 e" for e
      by (rule fails_in_prefix [OF start(2,1) that])
    consider (all) "r2 = Inr ()" "feed_all feed (map AddRowValue (take k vs)) b1 = Inr b2"
      | (sql) e where "r2 = Inl (RusqliteError e)" "feed_all feed (map AddRowValue vs) b1 = Inr b2"
      | (builder) e where "r2 = Inl (BuilderError e)" "fails_in feed FsBeginRow b1 e"
      using row_values_cases [OF b2, of FsBeginRow] by auto
    then show ?thesis
    proof cases
      case all
      show ?thesis
      proof (cases "feed FinishRow b2")
        case (Inl e)
        have "fails_in feed FsBeginRow b1 e"
          using all(2) Inl unfolding fails_in_def
          by (intro exI [of _ "map AddRowValue (take k vs) @ [FinishRow]"])
            (simp add: feed_all_append fsm_run_append fsm_row_values)
        then show ?thesis using "3.prems"(1) b1 b2 all(1) Inl fail by auto
      next
        case (Inr b3)
        have row: "feed_all feed (row_events (take k vs)) b = Inr b3"
          using b1 all(2) Inr by (simp add: row_events_def feed_all_append)
        note fsm = fsm_row_events [OF "3.prems"(2), of "take k vs"]
        have "query_rows feed k rows b3 (Suc n) = (r, b', m)" "FsFinishRow \<in> {FsBeginRows, FsFinishRow}"
          using "3.prems"(1) b1 b2 all(1) Inr by auto
        from "3.IH" [OF b1 b2 [symmetric] all(1) Inr this]
        show ?thesis
        proof (elim disjE exE conjE, goal_cases)
          case (1 vss)
          then show ?thesis using row by (intro disjI1 exI [of _ "vs # vss"]) (simp add: feed_all_append)
        next
          case (2 e es)
          then show ?thesis
            using row row_prefix_append [OF fsm _ 2(2)]
            by (intro disjI2 disjI1 exI [of _ e] exI [of _ "row_events (take k vs) @ es"])
              (simp add: feed_all_append)
        next
          case (3 e)
          then show ?thesis using fails_in_prefix [OF row fsm] by blast
        qed
      qed
    next
      case (sql e)
      have "row_prefix s (BeginRow # map AddRowValue vs)"
        using "3.prems"(2) by (auto simp: row_prefix_def list_all_iff fsm_row_values)
      moreover have "feed_all feed (BeginRow # map AddRowValue vs) b = Inr b2" using b1 sql(2) by simp
      ultimately show ?thesis using "3.prems"(1) b1 b2 sql(1) by auto
    next
      case (builder e)
      then show ?thesis using "3.prems"(1) b1 b2 fail by auto
    qed
  qed
qed

text \<open>The two assertions a step can fail: a parameter at position 0, and an error it may not drop.\<close>

definition bind_panics :: "'c sqlite \<Rightarrow> Query \<Rightarrow> 'c Connection \<Rightarrow> bool" where
  "bind_panics sq q c \<longleftrightarrow>
     (\<exists>stmt. sq_prepare sq (cn_conn c) (st_stmt (q_stmt q)) = Inr stmt \<and>
        params_bind (q_params q) (pr_params stmt) = Inl BindPanicked)"

lemma fails_in_Cons:
  "feed ev b = Inr b' \<Longrightarrow> fsm_allowed s (fsm_target ev) \<Longrightarrow> fails_in feed (fsm_target ev) b' e \<Longrightarrow>
   fails_in feed s b e"
  by (rule fails_in_prefix [of feed "[ev]"]) auto

lemma fails_in_last:
  assumes "feed_all feed es b = Inr b'" "fsm_run s es = Some s'" "fsm_allowed s' (fsm_target ev)"
    "feed ev b' = Inl e"
  shows "fails_in feed s b e"
  by (rule fails_in_prefix [OF assms(1,2) fails_in_single [where feed = feed, OF assms(4,3)]])

definition query_outcome ::
  "'c sqlite \<Rightarrow> 'b feed \<Rightarrow> Query \<Rightarrow> 'c Connection \<Rightarrow> 'b \<Rightarrow> Error + u64 \<times> i64 option \<Rightarrow> 'b \<Rightarrow> bool" where
  "query_outcome sq feed q c b r b' \<longleftrightarrow>
     (case r of
        Inr (n, i) \<Rightarrow>
          (\<exists>cols rows. feed_all feed ([ColsDescription cols, BeginRows] @
              concat (map row_events rows) @ [FinishRows]) b = Inr b')
      | Inl e \<Rightarrow>
          \<not> builder_error e \<and> (\<exists>es. row_prefix FsBeginStep es \<and> feed_all feed es b = Inr b') \<or>
          (\<exists>e'. e = BuilderError e' \<and>
             (fails_in feed FsBeginStep b e' \<or> e' = BuilderPanicked \<and> bind_panics sq q c)))"

lemma query_outcome_builder:
  "fails_in feed FsBeginStep b e \<Longrightarrow> query_outcome sq feed q c b (Inl (BuilderError e)) b'"
  by (simp add: query_outcome_def)

lemma query_outcome_error:
  "\<not> builder_error e \<Longrightarrow> row_prefix FsBeginStep es \<Longrightarrow> feed_all feed es b = Inr b' \<Longrightarrow>
   query_outcome sq feed q c b (Inl e) b'"
  by (auto simp: query_outcome_def)

lemma query_outcome_rows:
  "feed_all feed ([ColsDescription cols, BeginRows] @ concat (map row_events rows) @ [FinishRows]) b =
     Inr b' \<Longrightarrow> query_outcome sq feed q c b (Inr (n, i)) b'"
  unfolding query_outcome_def by auto

lemma query_outcome_bind:
  "bind_panics sq q c \<Longrightarrow> query_outcome sq feed q c b (Inl (BuilderError BuilderPanicked)) b'"
  by (simp add: query_outcome_def)

lemma fsm_rows_finish:
  "\<exists>s. fsm_run FsBeginRows (concat (map row_events rows)) = Some s \<and> fsm_allowed s FsFinishRows"
  using fsm_rows [of FsBeginRows rows] by auto

lemma query_run_outcome:
  assumes "feed (ColsDescription cols) b = Inr b1" "feed BeginRows b1 = Inr b2"
    "query_rows feed k rows b2 0 = (r, b3, n)"
  shows "case r of
      Inl e \<Rightarrow> query_outcome sq feed q c b (Inl e) b3
    | Inr _ \<Rightarrow>
        (case feed FinishRows b3 of
           Inl e \<Rightarrow> query_outcome sq feed q c b (Inl (BuilderError e)) b3
         | Inr b4 \<Rightarrow> query_outcome sq feed q c b (Inr (m, i)) b4)"
proof -
  let ?start = "[ColsDescription cols, BeginRows]"
  have start: "feed_all feed ?start b = Inr b2" "fsm_run FsBeginStep ?start = Some FsBeginRows"
    "list_all row_event ?start"
    using assms(1,2) by auto
  consider (rows) vss where "r = Inr ()"
      "feed_all feed (concat (map row_events (map (take k) vss))) b2 = Inr b3"
    | (sql) e es where "r = Inl (RusqliteError e)" "row_prefix FsBeginRows es" "feed_all feed es b2 = Inr b3"
    | (builder) e where "r = Inl (BuilderError e)" "fails_in feed FsBeginRows b2 e"
    using query_rows_cases [OF assms(3), of FsBeginRows] by auto
  then show ?thesis
  proof cases
    case (rows vss)
    obtain s where s: "fsm_run FsBeginRows (concat (map row_events (map (take k) vss))) = Some s"
      "fsm_allowed s (fsm_target FinishRows)"
      using fsm_rows_finish [of "map (take k) vss"] by auto
    have "query_outcome sq feed q c b (Inr (m, i)) b4" if "feed FinishRows b3 = Inr b4" for b4
      by (rule query_outcome_rows [of feed cols "map (take k) vss"])
        (use assms(1,2) rows(2) that in \<open>simp add: feed_all_append\<close>)
    moreover have "fails_in feed FsBeginStep b e" if "feed FinishRows b3 = Inl e" for e
      by (rule fails_in_prefix [OF start(1,2) fails_in_last [OF rows(2) s that]])
    ultimately show ?thesis
      using rows(1) query_outcome_builder by (auto split: sum.splits)
  next
    case (sql e es)
    have "query_outcome sq feed q c b (Inl (RusqliteError e)) b3"
      by (rule query_outcome_error [OF _ row_prefix_append [OF start(2,3) sql(2)]])
        (simp_all add: sql(3) feed_all_append assms(1,2))
    then show ?thesis using sql(1) by simp
  next
    case (builder e)
    then show ?thesis
      using query_outcome_builder [OF fails_in_prefix [OF start(1,2)], OF builder(2)] by simp
  qed
qed

lemma execute_query_outcome:
  assumes "execute_query sq feed q c b = (r, c', b')"
  shows "query_outcome sq feed q c b r b'"
proof -
  let ?sql = "st_stmt (q_stmt q)"
  have nil: "query_outcome sq feed q c b (Inl e) b" if "\<not> builder_error e" for e
    by (rule query_outcome_error [OF that, of "[]"]) (simp_all add: row_prefix_def)
  consider (blocked) "stmt_blocked (st_kind (q_stmt q)) (cn_config c)"
    | (prepare) e where "\<not> stmt_blocked (st_kind (q_stmt q)) (cn_config c)"
        "sq_prepare sq (cn_conn c) ?sql = Inl e"
    | (run) stmt where "\<not> stmt_blocked (st_kind (q_stmt q)) (cn_config c)"
        "sq_prepare sq (cn_conn c) ?sql = Inr stmt"
    by (cases "sq_prepare sq (cn_conn c) ?sql") auto
  then show ?thesis
  proof cases
    case (run stmt)
    show ?thesis
    proof (cases "feed (ColsDescription (pr_cols stmt)) b")
      case (Inl e)
      then show ?thesis
        using assms run query_outcome_builder [OF fails_in_single [where feed = feed, OF Inl]]
        by (auto simp: execute_query_def Let_def)
    next
      case b1: (Inr b1)
      have cols: "feed_all feed [ColsDescription (pr_cols stmt)] b = Inr b1"
        "row_prefix FsBeginStep [ColsDescription (pr_cols stmt)]"
        using b1 by (auto simp: row_prefix_def)
      show ?thesis
      proof (cases "params_bind (q_params q) (pr_params stmt)")
        case (Inl e)
        then show ?thesis
          using assms run b1 query_outcome_bind [of sq q c feed b]
            query_outcome_error
              [where e = "LibSqlInvalidQueryParams (bind_error_message e)", OF _ cols(2,1)]
          by (cases "e = BindPanicked") (auto simp: execute_query_def Let_def bind_panics_def)
      next
        case vals: (Inr vals)
        show ?thesis
        proof (cases "feed BeginRows b1")
          case (Inl e)
          have "fails_in feed FsBeginStep b e"
            by (rule fails_in_last [where feed = feed, OF cols(1) _ _ Inl]) simp_all
          then show ?thesis
            using assms run b1 vals Inl query_outcome_builder by (auto simp: execute_query_def Let_def)
        next
          case b2: (Inr b2)
          obtain r3 b3 n where
            rows: "query_rows feed (length (pr_cols stmt)) (sq_rows sq (cn_conn c) ?sql vals) b2 0 = (r3, b3, n)"
            by (metis prod_cases3)
          show ?thesis
            using query_run_outcome [where feed = feed, OF b1 b2 rows, of sq q c] assms run b1 vals b2 rows
            by (auto simp: execute_query_def Let_def split: sum.splits)
        qed
      qed
    qed
  qed (use assms nil in \<open>auto simp: execute_query_def Let_def\<close>)
qed

text \<open>A step of a run: the calls it made, or the error of the builder that ended it.\<close>

definition step_panics :: "'c sqlite \<Rightarrow> Step \<Rightarrow> bool list \<Rightarrow> 'c Connection \<Rightarrow> bool" where
  "step_panics sq step results c \<longleftrightarrow>
     (\<exists>e. step_cond sq step results c = Inl e) \<or> bind_panics sq (sp_query step) c"

definition step_done :: "'b feed \<Rightarrow> step_run \<Rightarrow> 'b \<Rightarrow> bool \<Rightarrow> bool \<Rightarrow> 'b \<Rightarrow> bool" where
  "step_done feed st b skip r b' \<longleftrightarrow>
     step_legal st \<and> feed_all feed (step_events st) b = Inr b' \<and>
     r = (step_outcome st = StepOk) \<and> skip = (st = Skipped)"

definition step_stopped ::
  "'c sqlite \<Rightarrow> 'b feed \<Rightarrow> Step \<Rightarrow> bool list \<Rightarrow> 'c Connection \<Rightarrow> FsmState \<Rightarrow> 'b \<Rightarrow> Error \<Rightarrow> bool" where
  "step_stopped sq feed step results c s b e \<longleftrightarrow>
     (\<exists>e'. e = BuilderError e' \<and>
        (fails_in feed s b e' \<or> e' = BuilderPanicked \<and> step_panics sq step results c))"

lemma finish_step_cases:
  assumes "finish_step feed ok n i c b1 = (r, c', b')"
    and pre: "feed_all feed es b = Inr b1" "fsm_run s es = Some s'" "fsm_allowed s' FsFinishStep"
  shows "r = Inr ok \<and> feed_all feed (es @ [FinishStep n i]) b = Inr b' \<or>
    (\<exists>e. r = Inl (BuilderError e) \<and> fails_in feed s b e)"
proof (cases "feed (FinishStep n i) b1")
  case (Inl e)
  then show ?thesis
    using assms(1) fails_in_last [where feed = feed, OF pre(1,2) _ Inl] pre(3)
    by (auto simp: finish_step_def)
next
  case (Inr b2)
  then show ?thesis using assms(1) pre(1) by (simp add: finish_step_def feed_all_append)
qed

lemma failed_step_cases:
  assumes fin: "case feed (StepError e) b1 of
      Inl e' \<Rightarrow> r = Inl (BuilderError (f e'))
    | Inr b2 \<Rightarrow> finish_step feed False 0 None c b2 = (r, c', b')"
    and es: "feed_all feed (BeginStep # es) b = Inr b1" "row_prefix FsBeginStep es"
    and s: "fsm_allowed s FsBeginStep"
  shows "(\<exists>st ok. r = Inr ok \<and> step_done feed st b False ok b') \<or>
    (\<exists>e'. r = Inl (BuilderError e') \<and> fails_in feed s b e') \<or>
    (\<exists>e'. r = Inl (BuilderError (f e')) \<and> fails_in feed s b e')"
proof -
  obtain s' where s': "fsm_run FsBeginStep es = Some s'" "fsm_allowed s' FsStepError"
    using es(2) fsm_row_prefix [of es FsBeginStep] by (auto simp: row_prefix_def)
  then have run: "fsm_run s (BeginStep # es) = Some s'" using s by simp
  show ?thesis
  proof (cases "feed (StepError e) b1")
    case (Inl e')
    then show ?thesis
      using fin fails_in_last [where feed = feed, OF es(1) run _ Inl] s'(2) by auto
  next
    case (Inr b2)
    have "feed_all feed (BeginStep # es @ [StepError e]) b = Inr b2"
      using feed_all_append [of feed "BeginStep # es" "[StepError e]" b] es(1) Inr by simp
    moreover have "fsm_run s (BeginStep # es @ [StepError e]) = Some FsStepError"
      using fsm_run_append [of s "BeginStep # es"] run s'(2) by simp
    moreover have "finish_step feed False 0 None c b2 = (r, c', b')" using fin Inr by simp
    ultimately have "r = Inr False \<and> feed_all feed (step_events (FailedAfter es e)) b = Inr b' \<or>
        (\<exists>e. r = Inl (BuilderError e) \<and> fails_in feed s b e)"
      using finish_step_cases [of feed False 0 None c b2 r c' b' "BeginStep # es @ [StepError e]" b s]
      by simp
    moreover have "step_legal (FailedAfter es e)" using es(2) by (simp add: row_prefix_def)
    ultimately show ?thesis unfolding step_done_def by fastforce
  qed
qed

lemma execute_step_cases:
  assumes step: "execute_step sq feed step results c b = (r, c', b')" and s: "fsm_allowed s FsBeginStep"
  shows "(\<exists>st ok. r = Inr ok \<and>
      step_done feed st b (step_cond sq step results c = Inr False) ok b') \<or>
    (\<exists>e. r = Inl e \<and> step_stopped sq feed step results c s b e)"
proof (cases "feed BeginStep b")
  case (Inl e)
  then show ?thesis
    using step fails_in_single [where feed = feed, OF Inl, of s] s
    by (auto simp: execute_step_def step_stopped_def)
next
  case b1: (Inr b1)
  have opened: "feed_all feed [BeginStep] b = Inr b1" "fsm_run s [BeginStep] = Some FsBeginStep"
    "row_prefix FsBeginStep []"
    using b1 s by (simp_all add: row_prefix_def)
  consider (cond) e where "step_cond sq step results c = Inl e"
    | (skip) "step_cond sq step results c = Inr False"
    | (go) "step_cond sq step results c = Inr True"
    by (cases "step_cond sq step results c") (blast, metis (full_types))
  then show ?thesis
  proof cases
    case (cond e)
    have "case feed (StepError e) b1 of
        Inl e' \<Rightarrow> r = Inl (BuilderError BuilderPanicked)
      | Inr b2 \<Rightarrow> finish_step feed False 0 None c b2 = (r, c', b')"
      using step b1 cond by (auto simp: execute_step_def split: sum.splits)
    from failed_step_cases [where f = "\<lambda>_. BuilderPanicked", OF this opened(1,3) s]
    show ?thesis using cond by (auto simp: step_stopped_def step_panics_def)
  next
    case skip
    have "finish_step feed False 0 None c b1 = (r, c', b')"
      using step b1 skip by (simp add: execute_step_def)
    from finish_step_cases [OF this opened(1,2)]
    have "r = Inr False \<and> feed_all feed (step_events Skipped) b = Inr b' \<or>
      (\<exists>e. r = Inl (BuilderError e) \<and> fails_in feed s b e)" by simp
    moreover have "step_done feed Skipped b (step_cond sq step results c = Inr False) False b'"
      if "feed_all feed (step_events Skipped) b = Inr b'"
      using that skip by (simp add: step_done_def)
    ultimately show ?thesis unfolding step_stopped_def by blast
  next
    case go
    obtain rq cq bq where q: "execute_query sq feed (sp_query step) c b1 = (rq, cq, bq)"
      by (metis prod_cases3)
    note outcome = execute_query_outcome [OF q]
    show ?thesis
    proof (cases rq)
      case (Inr ni)
      obtain n i where ni: "ni = (n, i)" by (cases ni)
      obtain cols rows where rows: "feed_all feed ([ColsDescription cols, BeginRows] @
          concat (map row_events rows) @ [FinishRows]) b1 = Inr bq"
        using outcome Inr ni by (auto simp: query_outcome_def)
      let ?es = "[BeginStep, ColsDescription cols, BeginRows] @ concat (map row_events rows) @ [FinishRows]"
      have es: "feed_all feed ?es b = Inr bq" using rows b1 by simp
      have run: "fsm_run s ?es = Some FsFinishRows"
        using s fsm_rows_finish [of rows] by (auto simp: fsm_run_append)
      have "finish_step feed True n i cq bq = (r, c', b')"
        using step b1 go q Inr ni by (simp add: execute_step_def)
      from finish_step_cases [OF this es run]
      have "r = Inr True \<and> feed_all feed (step_events (Ran cols rows n i)) b = Inr b' \<or>
        (\<exists>e. r = Inl (BuilderError e) \<and> fails_in feed s b e)" by simp
      moreover have "step_done feed (Ran cols rows n i) b (step_cond sq step results c = Inr False) True b'"
        if "feed_all feed (step_events (Ran cols rows n i)) b = Inr b'"
        using that go by (simp add: step_done_def)
      ultimately show ?thesis unfolding step_stopped_def by blast
    next
      case (Inl e)
      show ?thesis
      proof (cases "builder_error e")
        case True
        then obtain e' where e': "e = BuilderError e'" by (cases e) auto
        have "r = Inl e" using step b1 go q Inl True by (simp add: execute_step_def)
        moreover have "fails_in feed s b e' \<or> e' = BuilderPanicked \<and> bind_panics sq (sp_query step) c"
          using outcome Inl e' fails_in_prefix [OF opened(1,2)] by (auto simp: query_outcome_def)
        ultimately show ?thesis using e' by (auto simp: step_stopped_def step_panics_def)
      next
        case False
        then obtain es where es: "row_prefix FsBeginStep es" "feed_all feed es b1 = Inr bq"
          using outcome Inl by (auto simp: query_outcome_def)
        have "case feed (StepError e) bq of
            Inl e' \<Rightarrow> r = Inl (BuilderError e')
          | Inr b2 \<Rightarrow> finish_step feed False 0 None cq b2 = (r, c', b')"
          using step b1 go q Inl False by (auto simp: execute_step_def split: sum.splits)
        from failed_step_cases [where f = "\<lambda>e. e", OF this _ es(1) s, of b]
        show ?thesis using es(2) b1 go by (auto simp: step_stopped_def)
      qed
    qed
  qed
qed

text \<open>
  No step can fail an assertion: whatever the results before it, its condition
  has a value and none of its parameters is at position 0.
\<close>

definition steps_safe :: "'c sqlite \<Rightarrow> nat \<Rightarrow> Step list \<Rightarrow> bool" where
  "steps_safe sq n pgm \<longleftrightarrow>
     (\<forall>k<length pgm. \<forall>results c. length results = n + k \<longrightarrow> \<not> step_panics sq (pgm ! k) results c)"

text \<open>The steps of a run and, of each, why it was skipped.\<close>

definition steps_match :: "'c sqlite \<Rightarrow> Step list \<Rightarrow> bool list \<Rightarrow> step_run list \<Rightarrow> bool" where
  "steps_match sq pgm results sts \<longleftrightarrow>
     length sts = length pgm \<and> list_all step_legal sts \<and>
     (\<forall>k<length pgm. \<exists>c. (sts ! k = Skipped) =
        (step_cond sq (pgm ! k)
           (results @ map (\<lambda>st. step_outcome st = StepOk) (take k sts)) c = Inr False))"

lemma steps_match_Cons:
  assumes "step_legal st" "(st = Skipped) = (step_cond sq step results c = Inr False)"
    "steps_match sq pgm (results @ [step_outcome st = StepOk]) sts"
  shows "steps_match sq (step # pgm) results (st # sts)"
  using assms unfolding steps_match_def by (auto simp: less_Suc_eq_0_disj)

lemma steps_safe_Cons:
  assumes "steps_safe sq n (step # pgm)"
  shows "length results = n \<Longrightarrow> \<not> step_panics sq step results c" "steps_safe sq (Suc n) pgm"
  using assms unfolding steps_safe_def by (force, force)

lemma run_steps_cases:
  "run_steps sq feed pgm results c b = (r, c', b') \<Longrightarrow> s \<in> {FsInit, FsFinishStep} \<Longrightarrow>
   (\<exists>sts. steps_match sq pgm results sts \<and>
      r = Inr (results @ map (\<lambda>st. step_outcome st = StepOk) sts) \<and>
      feed_all feed (concat (map step_events sts)) b = Inr b') \<or>
   (\<exists>e. r = Inl (BuilderError e) \<and>
      (fails_in feed s b e \<or> e = BuilderPanicked \<and> \<not> steps_safe sq (length results) pgm))"
proof (induction pgm arbitrary: results c b s)
  case Nil
  then show ?case by (auto simp: steps_match_def)
next
  case (Cons step pgm)
  obtain r1 c1 b1 where step: "execute_step sq feed step results c b = (r1, c1, b1)"
    by (metis prod_cases3)
  have s: "fsm_allowed s FsBeginStep" using Cons.prems(2) by auto
  consider (run) st where "r1 = Inr (step_outcome st = StepOk)" "step_legal st"
      "feed_all feed (step_events st) b = Inr b1"
      "(st = Skipped) = (step_cond sq step results c = Inr False)"
    | (stop) e where "r1 = Inl e" "step_stopped sq feed step results c s b e"
    using execute_step_cases [OF step s] by (auto simp: step_done_def)
  then show ?case
  proof cases
    case (run st)
    have rest: "run_steps sq feed pgm (results @ [step_outcome st = StepOk]) c1 b1 = (r, c', b')"
      using Cons.prems(1) step run(1) by simp
    have fsm: "fsm_run s (step_events st) = Some FsFinishStep"
      using fsm_step [OF run(2) Cons.prems(2)] .
    have "FsFinishStep \<in> {FsInit, FsFinishStep}" by simp
    from Cons.IH [OF rest this] show ?thesis
    proof (elim disjE exE conjE, goal_cases)
      case (1 sts)
      then show ?thesis
        using steps_match_Cons [OF run(2,4) 1(1)] run(3)
        by (intro disjI1 exI [of _ "st # sts"]) (simp add: feed_all_append)
    next
      case (2 e)
      then show ?thesis using fails_in_prefix [OF run(3) fsm 2(2)] by blast
    next
      case (3 e)
      then show ?thesis using steps_safe_Cons(2) [of sq "length results" step pgm] by auto
    qed
  next
    case (stop e)
    then show ?thesis
      using Cons.prems(1) step steps_safe_Cons(1) [of sq "length results" step pgm results c]
      by (auto simp: step_stopped_def)
  qed
qed

lemma connection_run_cases:
  assumes "connection_run sq feed now pgm c b = (r, c')"
  shows "(\<exists>b' sts. r = Inr b' \<and> steps_match sq pgm [] sts \<and>
      feed_all feed (program_events (cn_builder_config c) sts) b = Inr b') \<or>
    (\<exists>e. r = Inl (BuilderError e) \<and>
      (fails_in feed s b e \<or> e = BuilderPanicked \<and> \<not> steps_safe sq 0 pgm))"
proof (cases "feed (EvInit (cn_builder_config c)) b")
  case (Inl e)
  have "fails_in feed s b e" by (rule fails_in_single [where feed = feed, OF Inl]) simp
  then show ?thesis using assms Inl by (auto simp: connection_run_def)
next
  case b1: (Inr b1)
  let ?init = "EvInit (cn_builder_config c)"
  have init: "feed_all feed [?init] b = Inr b1" "fsm_run s [?init] = Some FsInit" using b1 by simp_all
  obtain r2 c2 b2 where run: "run_steps sq feed pgm [] c b1 = (r2, c2, b2)" by (metis prod_cases3)
  consider (ran) sts rs where "steps_match sq pgm [] sts" "r2 = Inr rs"
      "feed_all feed (concat (map step_events sts)) b1 = Inr b2"
    | (stop) e where "r2 = Inl (BuilderError e)"
        "fails_in feed FsInit b1 e \<or> e = BuilderPanicked \<and> \<not> steps_safe sq 0 pgm"
    using run_steps_cases [OF run, of FsInit] by auto
  then show ?thesis
  proof cases
    case (ran sts rs)
    obtain s' where s': "s' \<in> {FsInit, FsFinishStep}"
      "fsm_run FsInit (concat (map step_events sts)) = Some s'"
      using ran(1) fsm_steps [of sts FsInit] by (auto simp: steps_match_def)
    have es: "feed_all feed (?init # concat (map step_events sts)) b = Inr b2"
      "fsm_run s (?init # concat (map step_events sts)) = Some s'"
      using b1 ran(3) s'(2) by simp_all
    show ?thesis
    proof (cases "feed Finish b2")
      case (Inl e)
      have "fails_in feed s b e"
        by (rule fails_in_last [where feed = feed, OF es _ Inl]) (use s'(1) in auto)
      then show ?thesis using assms b1 run ran(2) Inl by (auto simp: connection_run_def Let_def)
    next
      case (Inr b3)
      have "feed_all feed (program_events (cn_builder_config c) sts) b = Inr b3"
        using b1 ran(3) Inr by (simp add: program_events_def feed_all_append)
      then show ?thesis
        using assms b1 run ran(1,2) Inr by (auto simp: connection_run_def Let_def)
    qed
  next
    case (stop e)
    then show ?thesis
      using assms b1 run fails_in_prefix [OF init] by (auto simp: connection_run_def Let_def)
  qed
qed

text \<open>A request is refused, finds its transaction timed out, or runs.\<close>

lemma libsql_execute_cases:
  assumes "libsql_execute_program sq feed now pgm auth c b = (r, c')"
  obtains (refused) e where "check_program_auth auth pgm = Inl e" "r = Inl e" "c' = c"
  | (timeout) "check_program_auth auth pgm = Inr ()" "cn_timed_out (wait_request sq now c)"
      "r = Inl LibSqlTxTimeout" "c' = wait_request sq now c"
  | (run) r' where "check_program_auth auth pgm = Inr ()" "\<not> cn_timed_out (wait_request sq now c)"
      "connection_run sq feed now pgm (wait_request sq now c) b = (r', c')"
      "r = (case r' of Inl e \<Rightarrow> Inl e
            | Inr b' \<Rightarrow> Inr (b', if sq_autocommit sq (cn_conn c') then InitState else Txn))"
  using assms
  by (cases "check_program_auth auth pgm"; cases "cn_timed_out (wait_request sq now c)";
      cases "connection_run sq feed now pgm (wait_request sq now c) b")
    (auto simp: libsql_execute_program_def Let_def split: sum.splits)

lemma libsql_execute_ok:
  assumes "libsql_execute_program sq feed now pgm auth c b = (Inr (b', st), c')"
  shows "connection_run sq feed now pgm (wait_request sq now c) b = (Inr b', c') \<and>
    check_program_auth auth pgm = Inr () \<and> \<not> cn_timed_out (wait_request sq now c) \<and>
    st = (if sq_autocommit sq (cn_conn c') then InitState else Txn)"
  using assms by (cases rule: libsql_execute_cases) (auto split: sum.splits)

lemma check_program_auth_error:
  "check_program_auth auth pgm = Inl e \<Longrightarrow> \<exists>m. e = NotAuthorized m"
  by (induction auth pgm rule: check_program_auth.induct)
    (auto simp: Let_def split: Authenticated.splits if_splits)

text \<open>
  A small engine that keeps track of the open transaction and counts what it
  executed, to apply the properties to.
\<close>

definition sample_prepared :: prepared where
  "sample_prepared = \<lparr> pr_cols = [], pr_params = [], pr_is_explain = False, pr_is_readonly = False \<rparr>"

definition sample_sqlite :: "(bool \<times> nat) sqlite" where
  "sample_sqlite = \<lparr>
     sq_prepare = (\<lambda>c sql. if sql = ''BAD'' then Inl ''syntax error'' else Inr sample_prepared),
     sq_rows = (\<lambda>c sql vals.
       if sql = ''BEGIN'' \<and> \<not> fst c \<or> sql \<in> {''COMMIT'', ''ROLLBACK''} \<and> fst c
       then [Inl ''transaction state''] else []),
     sq_after = (\<lambda>c sql vals n.
       (if sql = ''BEGIN'' then False else if sql \<in> {''COMMIT'', ''ROLLBACK''} then True else fst c,
        snd c + 1)),
     sq_autocommit = fst,
     sq_changes = (\<lambda>c. 0),
     sq_last_insert_rowid = (\<lambda>c. 0),
     sq_status = (\<lambda>c sql vals. (0, 0)) \<rparr>"

definition sample_query :: "StmtKind \<Rightarrow> string \<Rightarrow> Query" where
  "sample_query kind sql =
     \<lparr> q_stmt = \<lparr> st_stmt = sql, st_kind = kind, st_is_iud = False, st_is_insert = False \<rparr>,
       q_params = params_empty, q_want_rows = True \<rparr>"

definition sample_connection :: "(bool \<times> nat) Connection" where
  "sample_connection =
     \<lparr> cn_timeout_deadline = None, cn_conn = (True, 0), cn_timed_out = False,
       cn_stats = \<lparr> ss_rows_written = 0, ss_rows_read = 0, ss_storage_bytes_used = 0,
         ss_write_requests_delegated = 0 \<rparr>,
       cn_config = \<lparr> dc_block_reads = False, dc_block_writes = False, dc_block_reason = None \<rparr>,
       cn_builder_config = \<lparr> qc_max_size = None, qc_max_total_size = None, qc_auto_checkpoint = 0 \<rparr> \<rparr>"

lemmas sample_defs =
  sample_prepared_def sample_sqlite_def sample_query_def sample_connection_def

section \<open>Runs that cannot panic\<close>

fun cond_below :: "nat \<Rightarrow> Cond \<Rightarrow> bool" where
  "cond_below n (CondOk step) = (step < n)"
| "cond_below n (CondErr step) = (step < n)"
| "cond_below n (CondNot c) = cond_below n c"
| "cond_below n (CondOr cs) = (\<forall>c\<in>set cs. cond_below n c)"
| "cond_below n (CondAnd cs) = (\<forall>c\<in>set cs. cond_below n c)"
| "cond_below n CondIsAutocommit = True"

definition conds_backward :: "Program \<Rightarrow> bool" where
  "conds_backward pgm \<longleftrightarrow>
     (\<forall>k<length pgm. case sp_cond (pgm ! k) of None \<Rightarrow> True | Some c \<Rightarrow> cond_below k c)"

text \<open>SQLite numbers the parameters of a statement from 1: none of them is called \<^verbatim>\<open>?0\<close>.\<close>

definition position_zero :: "string \<Rightarrow> bool" where
  "position_zero name \<longleftrightarrow> (case name of [] \<Rightarrow> False | c # cs \<Rightarrow> c = CHR ''?'' \<and> parse_usize cs = Some 0)"

definition positions_from_one :: "'c sqlite \<Rightarrow> bool" where
  "positions_from_one sq \<longleftrightarrow>
     (\<forall>c sql stmt name. sq_prepare sq c sql = Inr stmt \<longrightarrow> Some name \<in> set (pr_params stmt) \<longrightarrow>
        \<not> position_zero name)"

lemma eval_cond_total:
  "cond_below (length results) c \<Longrightarrow> \<exists>v. eval_cond c results ac = Inr v"
  "\<forall>c\<in>set cs. cond_below (length results) c \<Longrightarrow> \<exists>v. eval_conds f x cs results ac = Inr v"
proof (induction c results ac and f x cs results ac rule: eval_cond_eval_conds.induct)
  case (8 f x c cs results ac)
  then obtain y where "eval_cond c results ac = Inr y" by auto
  with 8 show ?case by auto
qed (auto simp: get_step_res_def)

lemma param_value_no_panic:
  assumes "0 < index" "\<And>n. name = Some n \<Longrightarrow> \<not> position_zero n"
  shows "param_value p index name \<noteq> Inl BindPanicked"
  using assms
  by (auto simp: param_value_def get_pos_def position_zero_def Let_def
      split: option.splits list.splits sum.splits if_splits)

lemma bind_from_no_panic:
  "0 < index \<Longrightarrow> (\<And>n. Some n \<in> set names \<Longrightarrow> \<not> position_zero n) \<Longrightarrow>
   bind_from p index names \<noteq> Inl BindPanicked"
proof (induction names arbitrary: index)
  case (Cons name names)
  then show ?case
    using param_value_no_panic [of index name p] Cons.IH [of "index + 1"]
    by (auto split: sum.splits)
qed simp

lemma backward_steps_safe:
  assumes "positions_from_one sq" "conds_backward pgm"
  shows "steps_safe sq 0 pgm"
proof -
  have bind: "\<not> bind_panics sq q c" for q c
  proof
    assume "bind_panics sq q c"
    then obtain stmt where stmt: "sq_prepare sq (cn_conn c) (st_stmt (q_stmt q)) = Inr stmt"
      and "bind_from (q_params q) 1 (pr_params stmt) = Inl BindPanicked"
      by (auto simp: bind_panics_def params_bind_def split: if_splits)
    moreover have "\<not> position_zero n" if "Some n \<in> set (pr_params stmt)" for n
      using assms(1) stmt that unfolding positions_from_one_def by blast
    ultimately show False using bind_from_no_panic [of 1 "pr_params stmt"] by simp
  qed
  have cond: "step_cond sq (pgm ! k) results c \<noteq> Inl e"
    if "k < length pgm" "length results = k" for k results c e
    using assms(2) that eval_cond_total(1) [of results _ "sq_autocommit sq (cn_conn c)"]
    by (fastforce simp: conds_backward_def step_cond_def split: option.splits)
  show ?thesis using bind cond by (simp add: steps_safe_def step_panics_def)
qed

lemma fails_in_no_panic:
  "query_result_builder feed inv_at \<Longrightarrow> inv_at s b \<Longrightarrow> \<not> fails_in feed s b BuilderPanicked"
  using query_result_builder.feed_all_no_panic unfolding fails_in_def by fastforce

lemma sample_positions_from_one: "positions_from_one sample_sqlite"
  by (auto simp: positions_from_one_def sample_defs split: if_splits)

lemma libsql_never_panics:
  assumes "query_result_builder feed inv_at" "inv_at s b"
    and "positions_from_one sq" "conds_backward pgm"
  shows "fst (libsql_execute_program sq feed now pgm auth c b) \<noteq> Inl (BuilderError BuilderPanicked)"
proof -
  have run: "fst (connection_run sq feed now pgm c b) \<noteq> Inl (BuilderError BuilderPanicked)" for c
    using connection_run_cases [of sq feed now pgm c b _ _ s] fails_in_no_panic [OF assms(1,2)]
      backward_steps_safe [OF assms(3,4)]
    by (cases "connection_run sq feed now pgm c b") fastforce
  obtain r c' where res: "libsql_execute_program sq feed now pgm auth c b = (r, c')" by fastforce
  then have "r \<noteq> Inl (BuilderError BuilderPanicked)"
    by (cases rule: libsql_execute_cases)
      (use run [of "wait_request sq now c"] in
        \<open>auto dest: check_program_auth_error split: sum.splits\<close>)
  then show ?thesis using res by simp
qed

text \<open>
  (C32) Executing a program on a connection never trips an assertion of the
  builder: for every builder that keeps the contract of the trait, whatever
  SQLite answers, when the conditions of the program refer to earlier steps and
  SQLite numbers parameters from 1.
\<close>

theorem program_never_panics:
  assumes "query_result_builder feed inv_at" "inv_at s b"
    and "positions_from_one sq" "conds_backward pgm"
  shows "fst (libsql_execute_program sq feed now pgm auth c b) \<noteq> Inl (BuilderError BuilderPanicked)"
  by (rule libsql_never_panics [OF assms])

theorem program_never_panics_witness:
  "fst (libsql_execute_program sample_sqlite step_results_feed 0
      [\<lparr> sp_cond = Some (CondNot CondIsAutocommit), sp_query = sample_query Read ''SELECT'' \<rparr>]
      (Authorized ReadOnly) sample_connection step_results_new) \<noteq> Inl (BuilderError BuilderPanicked)"
  by (rule program_never_panics [where s = FsFinish, OF step_results.query_result_builder_axioms])
    (simp_all add: step_results_inv_def step_results_new_def sample_positions_from_one conds_backward_def)

section \<open>Batches stop at the first failure\<close>

fun stops_at_failure :: "StepResult list \<Rightarrow> bool" where
  "stops_at_failure [] = True"
| "stops_at_failure (StepOk # rs) = stops_at_failure rs"
| "stops_at_failure (StepErr e # rs) = list_all (\<lambda>r. r = StepSkipped) rs"
| "stops_at_failure (StepSkipped # rs) = False"

text \<open>Every outcome after the first says that the step is skipped unless the one before it succeeded.\<close>

fun skips_after :: "bool \<Rightarrow> StepResult list \<Rightarrow> bool" where
  "skips_after ok [] = True"
| "skips_after ok (r # rs) = ((r = StepSkipped) = (\<not> ok) \<and> skips_after (r = StepOk) rs)"

lemma skips_after_stops: "skips_after ok rs \<Longrightarrow> if ok then stops_at_failure rs else list_all (\<lambda>r. r = StepSkipped) rs"
proof (induction rs arbitrary: ok)
  case (Cons r rs)
  then show ?case using Cons.IH [of "r = StepOk"] by (cases r) auto
qed simp

lemma skips_after_nth:
  "(\<And>k. k < length rs \<Longrightarrow> (rs ! k = StepSkipped) = (\<not> (if k = 0 then ok else rs ! (k - 1) = StepOk))) \<Longrightarrow>
   skips_after ok rs"
proof (induction rs arbitrary: ok)
  case (Cons r rs)
  have "(rs ! k = StepSkipped) = (\<not> (if k = 0 then r = StepOk else rs ! (k - 1) = StepOk))"
    if "k < length rs" for k
    using Cons.prems [of "Suc k"] that by (cases k) simp_all
  from Cons.IH [OF this] show ?case using Cons.prems [of 0] by simp
qed simp

lemma make_batch_program_nth:
  "k < length batch \<Longrightarrow> make_batch_program batch ! k =
     \<lparr> sp_cond = (if 0 < k then Some (CondOk (k - 1)) else None), sp_query = batch ! k \<rparr>"
  by (simp add: make_batch_program_def nth_enumerate_eq)

lemma length_make_batch_program [simp]: "length (make_batch_program batch) = length batch"
  by (simp add: make_batch_program_def)

lemma batch_cond:
  assumes "k < length batch" "length results = k"
  shows "step_cond sq (make_batch_program batch ! k) results c =
    Inr (if k = 0 then True else results ! (k - 1))"
  using assms by (simp add: make_batch_program_nth step_cond_def get_step_res_def)

lemma step_outcome_Skipped [simp]: "step_outcome st = StepSkipped \<longleftrightarrow> st = Skipped"
  by (cases st) simp_all

lemma batch_match_stops:
  assumes "steps_match sq (make_batch_program batch @ rest) [] sts"
  shows "stops_at_failure (map step_outcome (take (length batch) sts))"
proof -
  have "(sts ! k = Skipped) = (\<not> (if k = 0 then True else step_outcome (sts ! (k - 1)) = StepOk))"
    if k: "k < length batch" for k
  proof -
    obtain c where c: "(sts ! k = Skipped) = (step_cond sq ((make_batch_program batch @ rest) ! k)
        (map (\<lambda>st. step_outcome st = StepOk) (take k sts)) c = Inr False)"
      and len: "k < length sts"
      using assms k unfolding steps_match_def by force
    have "step_cond sq ((make_batch_program batch @ rest) ! k)
        (map (\<lambda>st. step_outcome st = StepOk) (take k sts)) c =
        Inr (if k = 0 then True else step_outcome (sts ! (k - 1)) = StepOk)"
      using batch_cond [OF k, of "map (\<lambda>st. step_outcome st = StepOk) (take k sts)" sq c] k len
      by (cases k) (simp_all add: nth_append)
    then show ?thesis using c by simp
  qed
  moreover have "length batch \<le> length sts" using assms by (simp add: steps_match_def)
  ultimately have "skips_after True (map step_outcome (take (length batch) sts))"
    by (intro skips_after_nth) (auto simp: nth_take)
  then show ?thesis using skips_after_stops by fastforce
qed

text \<open>
  (C33) A batch stops at its first failure: when a batch returns, the outcomes
  of its statements are successes up to the first failure, and every statement
  after it is skipped, whatever SQLite answers.
\<close>

theorem batch_stops_at_first_failure:
  assumes "execute_batch sq step_results_feed now batch auth c b = (Inr (b', st), c')"
  shows "length (sr_step_results b') = length batch \<and> stops_at_failure (sr_step_results b')"
proof -
  let ?c1 = "wait_request sq now c"
  have "connection_run sq step_results_feed now (make_batch_program batch) ?c1 b = (Inr b', c')"
    using libsql_execute_ok [OF assms [unfolded execute_batch_def]] by blast
  from connection_run_cases [OF this, of FsFinish] obtain sts where
    sts: "steps_match sq (make_batch_program batch) [] sts"
    "feed_all step_results_feed (program_events (cn_builder_config ?c1) sts) b = Inr b'"
    by auto
  then have "sr_step_results b' = map step_outcome sts"
    using step_results_program [of sts "cn_builder_config ?c1" b] by (auto simp: steps_match_def)
  then show ?thesis
    using batch_match_stops [of sq batch "[]" sts] sts(1) by (simp add: steps_match_def)
qed

theorem batch_stops_at_first_failure_witness:
  "\<exists>b' c'. execute_batch sample_sqlite step_results_feed 0
       [sample_query TxnBegin ''BEGIN'', sample_query Write ''BAD'', sample_query TxnEnd ''COMMIT'']
       (Authorized FullAccess) sample_connection step_results_new = (Inr (b', Txn), c') \<and>
     length (sr_step_results b') = 3 \<and> stops_at_failure (sr_step_results b') \<and>
     sr_step_results b' = [StepOk, StepErr (RusqliteError ''syntax error''), StepSkipped]"
proof -
  let ?b = "[sample_query TxnBegin ''BEGIN'', sample_query Write ''BAD'', sample_query TxnEnd ''COMMIT'']"
  have "\<exists>b' c'. execute_batch sample_sqlite step_results_feed 0 ?b (Authorized FullAccess)
      sample_connection step_results_new = (Inr (b', Txn), c') \<and>
    sr_step_results b' = [StepOk, StepErr (RusqliteError ''syntax error''), StepSkipped]"
    by (simp add: execute_batch_def libsql_execute_program_def wait_request_def connection_run_def
        make_batch_program_def execute_step_def step_cond_def execute_query_def finish_step_def
        sample_defs step_results_new_def stmt_blocked_def params_bind_def params_empty_def
        params_len_def get_step_res_def Let_def)
  then obtain b' c' where run: "execute_batch sample_sqlite step_results_feed 0 ?b (Authorized FullAccess)
      sample_connection step_results_new = (Inr (b', Txn), c')"
    and res: "sr_step_results b' = [StepOk, StepErr (RusqliteError ''syntax error''), StepSkipped]"
    by blast
  then show ?thesis using batch_stops_at_first_failure [OF run] by fastforce
qed

section \<open>What a run may change\<close>

text \<open>
  A query leaves the engine as it is, or executes its statement, which is not
  blocked, with so many calls; it keeps the configuration and the deadline.
\<close>

lemma execute_query_ran:
  assumes "execute_query sq feed q c b = (r, c', b')"
  obtains (same) e where "r = Inl e" "c' = c"
      "builder_error e \<or> stmt_blocked (st_kind (q_stmt q)) (cn_config c) \<or>
       (\<forall>stmt. sq_prepare sq (cn_conn c) (st_stmt (q_stmt q)) = Inr stmt \<longrightarrow>
          (\<exists>m. params_bind (q_params q) (pr_params stmt) = Inl m))"
  | (ran) stmt vals b2 r3 b3 n where
      "\<not> stmt_blocked (st_kind (q_stmt q)) (cn_config c)"
      "sq_prepare sq (cn_conn c) (st_stmt (q_stmt q)) = Inr stmt"
      "params_bind (q_params q) (pr_params stmt) = Inr vals"
      "query_rows feed (length (pr_cols stmt)) (sq_rows sq (cn_conn c) (st_stmt (q_stmt q)) vals) b2 0 =
         (r3, b3, n)"
      "cn_conn c' = sq_after sq (cn_conn c) (st_stmt (q_stmt q)) vals n" "(\<forall>e. r \<noteq> Inl e) \<longrightarrow> r3 = Inr ()"
proof (cases "stmt_blocked (st_kind (q_stmt q)) (cn_config c)")
  case True
  then show ?thesis using assms same by (auto simp: execute_query_def)
next
  case unblocked: False
  show ?thesis
  proof (cases "sq_prepare sq (cn_conn c) (st_stmt (q_stmt q))")
    case (Inl m)
    then show ?thesis using assms same unblocked by (auto simp: execute_query_def)
  next
    case stmt: (Inr stmt)
    show ?thesis
    proof (cases "feed (ColsDescription (pr_cols stmt)) b")
      case (Inl e)
      then show ?thesis using assms same unblocked stmt by (auto simp: execute_query_def)
    next
      case b1: (Inr b1)
      show ?thesis
      proof (cases "params_bind (q_params q) (pr_params stmt)")
        case (Inl m)
        then show ?thesis using assms same unblocked stmt b1 by (auto simp: execute_query_def)
      next
        case vals: (Inr vals)
        show ?thesis
        proof (cases "feed BeginRows b1")
          case (Inl e)
          then show ?thesis using assms same unblocked stmt b1 vals by (auto simp: execute_query_def)
        next
          case b2: (Inr b2)
          obtain r3 b3 n where rows: "query_rows feed (length (pr_cols stmt))
              (sq_rows sq (cn_conn c) (st_stmt (q_stmt q)) vals) b2 0 = (r3, b3, n)"
            by (metis prod_cases3)
          show ?thesis
            by (rule ran [OF unblocked stmt vals rows])
              (use assms unblocked stmt b1 vals b2 rows in
                \<open>auto simp: execute_query_def Let_def split: sum.splits\<close>)
        qed
      qed
    qed
  qed
qed

lemma execute_query_conn:
  assumes "execute_query sq feed q c b = (r, c', b')"
  shows "cn_conn c' = cn_conn c \<or>
    \<not> stmt_blocked (st_kind (q_stmt q)) (cn_config c) \<and>
    (\<exists>vals n. cn_conn c' = sq_after sq (cn_conn c) (st_stmt (q_stmt q)) vals n)"
  using assms by (cases rule: execute_query_ran) auto

lemma execute_query_config:
  assumes "execute_query sq feed q c b = (r, c', b')"
  shows "cn_config c' = cn_config c" "cn_timeout_deadline c' = cn_timeout_deadline c"
    "cn_timed_out c' = cn_timed_out c"
  using assms
  by (auto simp: execute_query_def Let_def split: if_splits sum.splits prod.splits)

lemma execute_step_conn:
  assumes "execute_step sq feed step results c b = (r, c', b')"
  obtains "c' = c"
  | b1 r1 b2 where "step_cond sq step results c = Inr True"
      "execute_query sq feed (sp_query step) c b1 = (r1, c', b2)"
  using assms
  by (auto simp: execute_step_def finish_step_def split: sum.splits if_splits prod.splits)

text \<open>What every statement of the program that is not blocked keeps, the run keeps.\<close>

lemma run_steps_keeps:
  assumes "\<And>q c vals n. q \<in> sp_query ` set pgm \<Longrightarrow> \<not> stmt_blocked (st_kind (q_stmt q)) config \<Longrightarrow>
      I c \<Longrightarrow> I (sq_after sq c (st_stmt (q_stmt q)) vals n)"
  shows "run_steps sq feed pgm results c b = (r, c', b') \<Longrightarrow> cn_config c = config \<Longrightarrow>
    I (cn_conn c) \<Longrightarrow>
    I (cn_conn c') \<and> cn_config c' = config \<and> cn_timed_out c' = cn_timed_out c \<and>
    cn_timeout_deadline c' = cn_timeout_deadline c"
  using assms
proof (induction pgm arbitrary: results c b)
  case (Cons step pgm)
  obtain r1 c1 b1 where step: "execute_step sq feed step results c b = (r1, c1, b1)"
    by (metis prod_cases3)
  have c1: "I (cn_conn c1) \<and> cn_config c1 = config \<and> cn_timed_out c1 = cn_timed_out c \<and>
      cn_timeout_deadline c1 = cn_timeout_deadline c"
    using step
  proof (cases rule: execute_step_conn)
    case (2 b1 r1 b2)
    then show ?thesis
      using execute_query_conn [OF 2(2)] execute_query_config [OF 2(2)] Cons.prems(2,3) Cons.prems(4) [of "sp_query step" "cn_conn c"]
      by auto
  qed (use Cons.prems in simp)
  show ?case
  proof (cases r1)
    case (Inl e)
    then show ?thesis using Cons.prems(1) step c1 by simp
  next
    case (Inr ok)
    then have "run_steps sq feed pgm (results @ [ok]) c1 b1 = (r, c', b')"
      using Cons.prems(1) step by simp
    from Cons.IH [OF this] show ?thesis using c1 Cons.prems(4) by auto
  qed
qed simp

lemma connection_run_keeps:
  assumes keeps: "\<And>q c vals n. q \<in> sp_query ` set pgm \<Longrightarrow>
      \<not> stmt_blocked (st_kind (q_stmt q)) (cn_config c0) \<Longrightarrow>
      I c \<Longrightarrow> I (sq_after sq c (st_stmt (q_stmt q)) vals n)"
    and run: "connection_run sq feed now pgm c0 b = (r, c')" and start: "I (cn_conn c0)"
  shows "I (cn_conn c')"
proof (cases "feed (EvInit (cn_builder_config c0)) b")
  case (Inr b1)
  obtain r2 c2 b2 where steps: "run_steps sq feed pgm [] c0 b1 = (r2, c2, b2)" by (metis prod_cases3)
  have "I (cn_conn c2)"
    using run_steps_keeps [where I = I, OF _ steps refl start] keeps by blast
  moreover have "cn_conn c' = cn_conn c2"
    using run Inr steps by (auto simp: connection_run_def Let_def split: sum.splits if_splits)
  ultimately show ?thesis by simp
qed (use run start in \<open>auto simp: connection_run_def\<close>)

lemma wait_request_keeps:
  assumes "\<And>c n. I c \<Longrightarrow> I (sq_after sq c ''ROLLBACK'' [] n)" "I (cn_conn c)"
  shows "I (cn_conn (wait_request sq now c))"
  using assms
  by (auto simp: wait_request_def on_deadline_def connection_rollback_def split: option.splits sum.splits)

lemma wait_request_config [simp]: "cn_config (wait_request sq now c) = cn_config c"
  by (auto simp: wait_request_def on_deadline_def connection_rollback_def split: option.splits sum.splits)

lemma libsql_execute_keeps:
  assumes keeps: "\<And>q c' vals n. check_program_auth auth pgm = Inr () \<Longrightarrow> q \<in> sp_query ` set pgm \<Longrightarrow>
      \<not> stmt_blocked (st_kind (q_stmt q)) (cn_config c) \<Longrightarrow>
      I c' \<Longrightarrow> I (sq_after sq c' (st_stmt (q_stmt q)) vals n)"
    and rollback: "\<And>c n. I c \<Longrightarrow> I (sq_after sq c ''ROLLBACK'' [] n)"
    and run: "libsql_execute_program sq feed now pgm auth c b = (r, c')" and start: "I (cn_conn c)"
  shows "I (cn_conn c')"
  using run
proof (cases rule: libsql_execute_cases)
  case (run r')
  show ?thesis
    by (rule connection_run_keeps [where I = I, OF _ run(3)])
      (use keeps [OF run(1)] wait_request_keeps [where I = I, OF rollback start] in auto)
qed (use start wait_request_keeps [where I = I, OF rollback start] in auto)

lemma check_program_auth_kinds:
  "check_program_auth (Authorized level) pgm = Inr () \<Longrightarrow> level \<noteq> FullAccess \<Longrightarrow> step \<in> set pgm \<Longrightarrow>
   st_kind (q_stmt (sp_query step)) \<in> {Read, TxnBegin, TxnEnd}"
  by (induction "Authorized level" pgm rule: check_program_auth.induct) (auto simp: Let_def split: if_splits)

text \<open>The statements a session may run: authorized, and not blocked by the configuration.\<close>

definition may_run :: "Authenticated \<Rightarrow> DatabaseConfig \<Rightarrow> Query \<Rightarrow> bool" where
  "may_run auth config q \<longleftrightarrow>
     \<not> stmt_blocked (st_kind (q_stmt q)) config \<and> auth \<noteq> Anonymous \<and>
     (auth = Authorized FullAccess \<or> st_kind (q_stmt q) \<in> {Read, TxnBegin, TxnEnd})"

lemma authorized_not_anonymous:
  "check_program_auth auth pgm = Inr () \<Longrightarrow> pgm \<noteq> [] \<Longrightarrow> auth \<noteq> Anonymous"
  by (cases pgm) auto

text \<open>
  (C34) Every access to SQLite is mediated: what every statement of a program
  that the session may run keeps, and a rollback keeps, the request keeps,
  whatever its result. In particular a read-only session, or one on a database whose
  writes are blocked, changes nothing that only writes change.
\<close>

theorem requests_are_mediated:
  assumes "\<And>step c' vals n. step \<in> set pgm \<Longrightarrow> may_run auth (cn_config c) (sp_query step) \<Longrightarrow>
      I c' \<Longrightarrow> I (sq_after sq c' (st_stmt (q_stmt (sp_query step))) vals n)"
    and "\<And>c n. I c \<Longrightarrow> I (sq_after sq c ''ROLLBACK'' [] n)"
    and "I (cn_conn c)"
  shows "I (cn_conn (snd (libsql_execute_program sq feed now pgm auth c b)))"
proof (rule libsql_execute_keeps [where I = I, OF _ assms(2) surjective_pairing assms(3)])
  fix q c' vals n
  assume auth: "check_program_auth auth pgm = Inr ()" and q: "q \<in> sp_query ` set pgm"
    and "\<not> stmt_blocked (st_kind (q_stmt q)) (cn_config c)"
  then have "may_run auth (cn_config c) q"
    using authorized_not_anonymous [OF auth] check_program_auth_kinds [of _ pgm]
    by (cases auth) (force simp: may_run_def)+
  then show "I c' \<Longrightarrow> I (sq_after sq c' (st_stmt (q_stmt q)) vals n)" using assms(1) q by auto
qed

theorem requests_are_mediated_witness:
  "snd (cn_conn (snd (libsql_execute_program
     (sample_sqlite\<lparr>sq_after := \<lambda>c sql vals n. (fst c, if sql = ''INSERT'' then snd c + 1 else snd c)\<rparr>)
     step_results_feed 0
     [\<lparr> sp_cond = None, sp_query = sample_query Read ''SELECT'' \<rparr>,
      \<lparr> sp_cond = None, sp_query = sample_query Write ''INSERT'' \<rparr>]
     (Authorized FullAccess)
     (sample_connection\<lparr>cn_config := \<lparr> dc_block_reads = False, dc_block_writes = True, dc_block_reason = None \<rparr>\<rparr>)
     step_results_new))) = 0"
  by (rule requests_are_mediated [where I = "\<lambda>c. snd c = 0"])
    (auto simp: sample_defs may_run_def stmt_blocked_def)

section \<open>Deadlines of transactions\<close>

lemma connection_run_deadline:
  assumes "connection_run sq feed now pgm c b = (Inr b', c')"
  shows "cn_timed_out c' = cn_timed_out c \<and>
    cn_timeout_deadline c' =
      (if sq_autocommit sq (cn_conn c) \<and> \<not> sq_autocommit sq (cn_conn c')
       then Some (now + TXN_TIMEOUT) else cn_timeout_deadline c)"
proof -
  obtain b1 where b1: "feed (EvInit (cn_builder_config c)) b = Inr b1"
    using assms by (auto simp: connection_run_def split: sum.splits)
  obtain r2 c2 b2 where steps: "run_steps sq feed pgm [] c b1 = (r2, c2, b2)" by (metis prod_cases3)
  have "cn_timed_out c2 = cn_timed_out c" "cn_timeout_deadline c2 = cn_timeout_deadline c"
    using run_steps_keeps [where I = "\<lambda>_. True", OF _ steps refl] by simp_all
  then show ?thesis
    using assms b1 steps
    by (auto simp: connection_run_def Let_def split: sum.splits if_splits)
qed

text \<open>
  The deadline of a transaction outlives it: after a request that ends
  the transaction in time and leaves the connection in autocommit mode, any
  request that arrives after the old deadline fails with a transaction timeout,
  and so does every later one.
\<close>

theorem deadline_outlives_transaction:
  assumes "cn_timeout_deadline c = Some d" "now < d" "\<not> sq_autocommit sq (cn_conn c)"
    and "libsql_execute_program sq feed now pgm auth c b = (Inr (b', InitState), c')"
    and "d \<le> now'" "check_program_auth auth' pgm' = Inr ()"
  shows "fst (libsql_execute_program sq feed now' pgm' auth' c' b'') = Inl LibSqlTxTimeout"
proof -
  have wait: "wait_request sq now c = c" using assms(1,2) by (simp add: wait_request_def)
  have "cn_timeout_deadline c' = Some d"
    using libsql_execute_ok [OF assms(4)] connection_run_deadline [of sq feed now pgm c b b' c'] assms(1,3)
    by (simp add: wait)
  then have "cn_timed_out (wait_request sq now' c')"
    using assms(5) by (simp add: wait_request_def on_deadline_def)
  then show ?thesis using assms(6) by (simp add: libsql_execute_program_def)
qed

theorem deadline_outlives_transaction_witness:
  "\<exists>b' c'. libsql_execute_program sample_sqlite step_results_feed 1
       [\<lparr> sp_cond = None, sp_query = sample_query TxnEnd ''COMMIT'' \<rparr>] (Authorized FullAccess)
       (sample_connection\<lparr>cn_conn := (False, 1), cn_timeout_deadline := Some 5000\<rparr>) step_results_new =
     (Inr (b', InitState), c') \<and>
   fst (libsql_execute_program sample_sqlite step_results_feed 6000
       [\<lparr> sp_cond = None, sp_query = sample_query Read ''SELECT'' \<rparr>] (Authorized FullAccess) c'
       step_results_new) = Inl LibSqlTxTimeout"
proof -
  let ?c = "sample_connection\<lparr>cn_conn := (False, 1), cn_timeout_deadline := Some 5000\<rparr>"
  have "\<exists>b' c'. libsql_execute_program sample_sqlite step_results_feed 1
       [\<lparr> sp_cond = None, sp_query = sample_query TxnEnd ''COMMIT'' \<rparr>] (Authorized FullAccess)
       ?c step_results_new = (Inr (b', InitState), c')"
    by (simp add: libsql_execute_program_def wait_request_def connection_run_def
        execute_step_def step_cond_def execute_query_def finish_step_def
        sample_defs step_results_new_def stmt_blocked_def params_bind_def params_empty_def
        params_len_def Let_def)
  then obtain b' c' where run: "libsql_execute_program sample_sqlite step_results_feed 1
       [\<lparr> sp_cond = None, sp_query = sample_query TxnEnd ''COMMIT'' \<rparr>] (Authorized FullAccess)
       ?c step_results_new = (Inr (b', InitState), c')"
    by blast
  have "fst (libsql_execute_program sample_sqlite step_results_feed 6000
       [\<lparr> sp_cond = None, sp_query = sample_query Read ''SELECT'' \<rparr>] (Authorized FullAccess) c'
       step_results_new) = Inl LibSqlTxTimeout"
    by (rule deadline_outlives_transaction [where d = 5000, OF _ _ _ run])
      (simp_all add: sample_defs)
  then show ?thesis using run by blast
qed

section \<open>Batches leave no transaction open\<close>

text \<open>
  What SQLite documents of transactions: a \<^verbatim>\<open>BEGIN\<close> that succeeds opens one, a
  \<^verbatim>\<open>COMMIT\<close> or \<^verbatim>\<open>ROLLBACK\<close> that succeeds closes the open one, other statements that
  succeed do neither; and after a \<^verbatim>\<open>ROLLBACK\<close>, successful or not, none is open.
\<close>

definition follows_txn :: "'c sqlite \<Rightarrow> Query \<Rightarrow> bool" where
  "follows_txn sq q \<longleftrightarrow>
     (\<forall>c vals vss. let sql = st_stmt (q_stmt q); c' = sq_after sq c sql vals (length vss + 1)
        in sq_rows sq c sql vals = map Inr vss \<longrightarrow>
           txn_after (\<not> sq_autocommit sq c) [st_kind (q_stmt q)] = Some (\<not> sq_autocommit sq c'))"

definition rolls_back :: "'c sqlite \<Rightarrow> Query \<Rightarrow> bool" where
  "rolls_back sq q \<longleftrightarrow>
     st_kind (q_stmt q) = TxnEnd \<and> q_params q = params_empty \<and>
     (\<forall>c. \<exists>stmt. sq_prepare sq c (st_stmt (q_stmt q)) = Inr stmt \<and> pr_params stmt = []) \<and>
     (\<forall>c n. 0 < n \<longrightarrow> sq_autocommit sq (sq_after sq c (st_stmt (q_stmt q)) [] n))"

lemma query_rows_count: "query_rows feed k rows b n = (r, b', m) \<Longrightarrow> n < m"
  by (induction feed k rows b n arbitrary: m rule: query_rows.induct)
    (fastforce split: sum.splits prod.splits)+

lemma execute_query_success:
  assumes "execute_query sq feed q c b = (Inr x, c', b')"
  shows "\<exists>vals vss. sq_rows sq (cn_conn c) (st_stmt (q_stmt q)) vals = map Inr vss \<and>
    cn_conn c' = sq_after sq (cn_conn c) (st_stmt (q_stmt q)) vals (length vss + 1)"
  using assms
proof (cases rule: execute_query_ran)
  case (ran stmt vals b2 r3 b3 n)
  then obtain vss where
    "sq_rows sq (cn_conn c) (st_stmt (q_stmt q)) vals = map Inr vss" "n = length vss + 1"
    using query_rows_cases [OF ran(4), of FsBeginRows] by auto
  then show ?thesis using ran(5) by blast
qed simp

lemma execute_step_true:
  assumes "execute_step sq feed step results c b = (Inr True, c', b')"
  obtains b1 x b2 where "execute_query sq feed (sp_query step) c b1 = (Inr x, c', b2)"
  using assms
  by (auto simp: execute_step_def finish_step_def split: sum.splits if_splits prod.splits)

lemma txn_step:
  assumes "execute_step sq feed step results c b = (Inr True, c', b')" "follows_txn sq (sp_query step)"
  shows "txn_after (\<not> sq_autocommit sq (cn_conn c)) [st_kind (q_stmt (sp_query step))] =
    Some (\<not> sq_autocommit sq (cn_conn c'))"
  using assms(1)
proof (cases rule: execute_step_true)
  case (1 b1 x b2)
  from execute_query_success [OF 1] show ?thesis
    using assms(2) unfolding follows_txn_def Let_def by metis
qed

lemma txn_after_Cons:
  "txn_after op [k] = Some op' \<Longrightarrow> txn_after op' ks = Some op'' \<Longrightarrow> txn_after op (k # ks) = Some op''"
  by (cases k) (auto split: if_splits)

fun batch_from :: "nat \<Rightarrow> Query list \<Rightarrow> Step list" where
  "batch_from i [] = []"
| "batch_from i (q # qs) =
     \<lparr> sp_cond = (if 0 < i then Some (CondOk (i - 1)) else None), sp_query = q \<rparr> # batch_from (Suc i) qs"

lemma make_batch_program_from: "make_batch_program batch = batch_from 0 batch"
proof -
  have "map (\<lambda>(i, q). \<lparr> sp_cond = (if 0 < i then Some (CondOk (i - 1)) else None), sp_query = q \<rparr>)
      (enumerate i batch) = batch_from i batch" for i
    by (induction batch arbitrary: i) auto
  then show ?thesis by (simp add: make_batch_program_def)
qed

lemma cond_previous:
  assumes "length rs = i" "0 < i"
  shows "step_cond sq \<lparr> sp_cond = Some (CondOk (i - 1)), sp_query = q \<rparr> rs c = Inr (last rs)"
    "step_cond sq \<lparr> sp_cond = Some (CondNot (CondOk (i - 1))), sp_query = q \<rparr> rs c = Inr (\<not> last rs)"
proof -
  have "rs \<noteq> []" using assms by auto
  then show
    "step_cond sq \<lparr> sp_cond = Some (CondOk (i - 1)), sp_query = q \<rparr> rs c = Inr (last rs)"
    "step_cond sq \<lparr> sp_cond = Some (CondNot (CondOk (i - 1))), sp_query = q \<rparr> rs c = Inr (\<not> last rs)"
    using assms by (simp_all add: step_cond_def get_step_res_def last_conv_nth)
qed

lemma execute_step_skips:
  assumes "execute_step sq feed step results c b = (Inr r, c', b')"
    "step_cond sq step results c = Inr False"
  shows "r = False" "c' = c"
  using assms by (auto simp: execute_step_def finish_step_def split: sum.splits)

lemma run_steps_Cons:
  assumes "run_steps sq feed (step # pgm) rs c b = (Inr rs', c', b')"
  obtains r1 c1 b1 where "execute_step sq feed step rs c b = (Inr r1, c1, b1)"
    "run_steps sq feed pgm (rs @ [r1]) c1 b1 = (Inr rs', c', b')"
  using assms by (auto split: sum.splits prod.splits)

lemma batch_skips:
  assumes "run_steps sq feed (batch_from i qs @ rest) rs c b = (Inr rs', c', b')"
    "length rs = i" "0 < i" "\<not> last rs"
  shows "\<exists>b1. run_steps sq feed rest (rs @ replicate (length qs) False) c b1 = (Inr rs', c', b')"
  using assms
proof (induction qs arbitrary: i rs b)
  case (Cons q qs)
  let ?step = "\<lparr> sp_cond = Some (CondOk (i - 1)), sp_query = q \<rparr>"
  have "run_steps sq feed (?step # batch_from (Suc i) qs @ rest) rs c b = (Inr rs', c', b')"
    using Cons.prems(1,3) by simp
  then obtain r1 c1 b1 where step: "execute_step sq feed ?step rs c b = (Inr r1, c1, b1)"
    and run: "run_steps sq feed (batch_from (Suc i) qs @ rest) (rs @ [r1]) c1 b1 = (Inr rs', c', b')"
    by (rule run_steps_Cons)
  have "step_cond sq ?step rs c = Inr False" using cond_previous(1) [OF Cons.prems(2,3)] Cons.prems(4) by simp
  then have "r1 = False" "c1 = c" using execute_step_skips [OF step] by simp_all
  then show ?case using Cons.IH [of "Suc i" "rs @ [False]" b1] run Cons.prems(2) by simp
qed auto

lemma batch_runs:
  assumes "run_steps sq feed (batch_from i qs @ rest) rs c b = (Inr rs', c', b')"
    "length rs = i" "0 < i \<Longrightarrow> last rs" "\<forall>q\<in>set qs. follows_txn sq q"
  shows "\<exists>rs1 c1 b1. run_steps sq feed rest rs1 c1 b1 = (Inr rs', c', b') \<and> length rs1 = i + length qs \<and>
    (rs1 = [] \<or> last rs1 \<longrightarrow>
     txn_after (\<not> sq_autocommit sq (cn_conn c)) (map (\<lambda>q. st_kind (q_stmt q)) qs) =
       Some (\<not> sq_autocommit sq (cn_conn c1)))"
  using assms
proof (induction qs arbitrary: i rs c b)
  case (Cons q qs)
  let ?step = "\<lparr> sp_cond = (if 0 < i then Some (CondOk (i - 1)) else None), sp_query = q \<rparr>"
  have "run_steps sq feed (?step # batch_from (Suc i) qs @ rest) rs c b = (Inr rs', c', b')"
    using Cons.prems(1) by simp
  then obtain r1 c1 b1 where step: "execute_step sq feed ?step rs c b = (Inr r1, c1, b1)"
    and run: "run_steps sq feed (batch_from (Suc i) qs @ rest) (rs @ [r1]) c1 b1 = (Inr rs', c', b')"
    by (rule run_steps_Cons)
  show ?case
  proof (cases r1)
    case True
    have "txn_after (\<not> sq_autocommit sq (cn_conn c)) [st_kind (q_stmt q)] =
        Some (\<not> sq_autocommit sq (cn_conn c1))"
      using txn_step [of sq feed ?step rs c b c1 b1] step True Cons.prems(4) by simp
    note txn = txn_after_Cons [OF this]
    obtain rs1 c2 b2 where "run_steps sq feed rest rs1 c2 b2 = (Inr rs', c', b')"
      "length rs1 = Suc i + length qs"
      "rs1 = [] \<or> last rs1 \<longrightarrow>
       txn_after (\<not> sq_autocommit sq (cn_conn c1)) (map (\<lambda>q. st_kind (q_stmt q)) qs) =
         Some (\<not> sq_autocommit sq (cn_conn c2))"
      using Cons.IH [OF run] True Cons.prems(2,4) by auto
    then show ?thesis using txn by (intro exI [of _ rs1] exI [of _ c2] exI [of _ b2]) auto
  next
    case False
    obtain b2 where "run_steps sq feed rest (rs @ r1 # replicate (length qs) False) c1 b2 = (Inr rs', c', b')"
      using batch_skips [OF run] False Cons.prems(2) by auto
    moreover have "\<not> last (rs @ r1 # replicate (length qs) False)" using False by (cases qs) auto
    ultimately show ?thesis using Cons.prems(2) by (fastforce simp del: last_append last.simps)
  qed
qed auto

lemma rollback_query_runs:
  assumes "rolls_back sq q" "execute_query sq feed q c b = (r, c', b')" "\<forall>e. r = Inl e \<longrightarrow> \<not> builder_error e"
  shows "sq_autocommit sq (cn_conn c')"
proof -
  obtain stmt where stmt: "sq_prepare sq (cn_conn c) (st_stmt (q_stmt q)) = Inr stmt" "pr_params stmt = []"
    using assms(1) unfolding rolls_back_def by blast
  have q: "\<not> stmt_blocked (st_kind (q_stmt q)) (cn_config c)"
    "params_bind (q_params q) (pr_params stmt) = Inr []"
    using assms(1) stmt(2)
    by (simp_all add: rolls_back_def stmt_blocked_def params_bind_def params_empty_def params_len_def)
  show ?thesis
    using assms(2)
  proof (cases rule: execute_query_ran)
    case (same e)
    then show ?thesis using assms(3) stmt(1) q by auto
  next
    case (ran stmt' vals b2 r3 b3 n)
    then have "cn_conn c' = sq_after sq (cn_conn c) (st_stmt (q_stmt q)) [] n" "0 < n"
      using stmt q query_rows_count [OF ran(4)] by auto
    then show ?thesis using assms(1) unfolding rolls_back_def by simp
  qed
qed

lemma rollback_step_runs:
  assumes "rolls_back sq (sp_query step)" "execute_step sq feed step results c b = (Inr r, c', b')"
    "step_cond sq step results c = Inr True"
  shows "sq_autocommit sq (cn_conn c')"
proof -
  obtain b1 where "feed BeginStep b = Inr b1"
    using assms(2) by (auto simp: execute_step_def split: sum.splits)
  moreover obtain r2 c2 b2 where q: "execute_query sq feed (sp_query step) c b1 = (r2, c2, b2)"
    by (metis prod_cases3)
  ultimately have "c' = c2" "\<forall>e. r2 = Inl e \<longrightarrow> \<not> builder_error e"
    using assms(2,3) by (auto simp: execute_step_def finish_step_def split: sum.splits if_splits)
  then show ?thesis using rollback_query_runs [OF assms(1) q] by simp
qed

lemma rollback_program_from:
  assumes "batch \<noteq> []"
  shows "rollback_program rb batch = batch_from 0 batch @
    [\<lparr> sp_cond = Some (CondNot (CondOk (length batch - 1))), sp_query = rb \<rparr>]"
proof -
  have "make_batch_program batch \<noteq> []"
    using assms length_make_batch_program [of batch] by (metis length_0_conv)
  then show ?thesis
    unfolding rollback_program_def Let_def by (simp add: make_batch_program_from [symmetric])
qed

lemma rollback_program_closes:
  assumes run: "run_steps sq feed (rollback_program rb batch) [] c b = (Inr rs', c', b')"
    and "rolls_back sq rb" "\<forall>q\<in>set batch. follows_txn sq q" "sq_autocommit sq (cn_conn c)"
    and "predict_final_state InitState (map q_stmt batch) \<noteq> Txn"
  shows "sq_autocommit sq (cn_conn c')"
proof (cases "batch = []")
  case True
  then show ?thesis using run assms(4) by (simp add: rollback_program_def make_batch_program_def)
next
  case False
  let ?n = "length batch"
  let ?rb = "\<lparr> sp_cond = Some (CondNot (CondOk (?n - 1))), sp_query = rb \<rparr>"
  have "run_steps sq feed (batch_from 0 batch @ [?rb]) [] c b = (Inr rs', c', b')"
    using run by (simp only: rollback_program_from [OF False])
  from batch_runs [OF this, simplified, OF assms(3)]
  obtain rs1 c1 b1 where last: "run_steps sq feed [?rb] rs1 c1 b1 = (Inr rs', c', b')"
    and len: "length rs1 = ?n"
    and txn: "last rs1 \<longrightarrow> txn_after False (map (\<lambda>q. st_kind (q_stmt q)) batch) =
      Some (\<not> sq_autocommit sq (cn_conn c1))"
    using assms(4) by auto
  obtain r2 b2 where step: "execute_step sq feed ?rb rs1 c1 b1 = (Inr r2, c', b2)"
    using last by (rule run_steps_Cons) simp
  have cond: "step_cond sq ?rb rs1 c1 = Inr (\<not> last rs1)"
    by (rule cond_previous(2)) (use len False in auto)
  show ?thesis
  proof (cases "last rs1")
    case True
    then have "c' = c1" using execute_step_skips [OF step] cond by simp
    moreover have "sq_autocommit sq (cn_conn c1)"
      using txn True assms(5) predict_final_state_txn_after [of False "map q_stmt batch"]
      by (simp add: comp_def split: if_splits bool.splits)
    ultimately show ?thesis by simp
  next
    case False
    then show ?thesis using rollback_step_runs [OF _ step] cond assms(2) by simp
  qed
qed

text \<open>
  The program of a batch: its steps first; and on a connection in autocommit
  mode no transaction is open when it returns, if the engine follows SQLite.
\<close>

lemma execute_batch_or_rollback_ok:
  assumes "execute_batch_or_rollback sq p feed now batch auth c b = (Some (Inr (b', st)), c')"
  obtains rest t where
    "libsql_execute_program sq (take_feed feed) now (make_batch_program batch @ rest) auth c
       (take_new (length batch) b) = (Inr (t, st), c')" "b' = tk_inner t"
    "batch = [] \<and> rest = [] \<or>
     (\<exists>rb. rollback_query p = Some rb \<and> make_batch_program batch @ rest = rollback_program rb batch)"
proof -
  have rest: "\<exists>rest. rollback_program rb batch = make_batch_program batch @ rest" for rb
    by (simp add: rollback_program_def Let_def)
  show thesis
  proof (cases "batch = []")
    case True
    then show ?thesis
      using assms that [of "[]"]
      by (auto simp: execute_batch_or_rollback_def make_batch_program_def split: sum.splits prod.splits)
  next
    case False
    then obtain rb where rb: "rollback_query p = Some rb"
      using assms by (auto simp: execute_batch_or_rollback_def split: option.splits)
    obtain r where r: "rollback_program rb batch = make_batch_program batch @ r" using rest by blast
    show ?thesis
      using assms that [of r] False rb r
      by (auto simp: execute_batch_or_rollback_def split: sum.splits prod.splits)
  qed
qed

lemma batch_leaves_no_transaction:
  assumes "execute_batch_or_rollback sq p feed now batch auth c b = (Some (Inr (b', st)), c')"
    and "\<And>rb. rollback_query p = Some rb \<Longrightarrow> rolls_back sq rb"
    and "\<forall>q\<in>set batch. follows_txn sq q"
    and "sq_autocommit sq (cn_conn c)" "cn_timeout_deadline c = None"
    and "predict_final_state InitState (map q_stmt batch) \<noteq> Txn"
  shows "st = InitState \<and> sq_autocommit sq (cn_conn c')"
  using assms(1)
proof (cases rule: execute_batch_or_rollback_ok)
  case (1 rest t)
  let ?pgm = "make_batch_program batch @ rest"
  have wait: "wait_request sq now c = c" using assms(5) by (simp add: wait_request_def)
  have conn: "connection_run sq (take_feed feed) now ?pgm c (take_new (length batch) b) = (Inr t, c')"
    and st: "st = (if sq_autocommit sq (cn_conn c') then InitState else Txn)"
    using libsql_execute_ok [OF 1(1)] by (simp_all add: wait)
  obtain b1 rs c1 b2 where run: "run_steps sq (take_feed feed) ?pgm [] c b1 = (Inr rs, c1, b2)"
    and c1: "cn_conn c' = cn_conn c1"
    using conn by (auto simp: connection_run_def Let_def split: sum.splits prod.splits if_splits)
  show ?thesis
  proof (cases "batch = []")
    case True
    then have "?pgm = []" using 1(3) by (auto simp: rollback_program_def make_batch_program_def)
    then show ?thesis using run c1 assms(4) st by simp
  next
    case False
    then obtain rb where rb: "rollback_query p = Some rb" "?pgm = rollback_program rb batch"
      using 1(3) by auto
    show ?thesis
      using rollback_program_closes [OF run [unfolded rb(2)] assms(2) [OF rb(1)] assms(3,4,6)] c1 st by simp
  qed
qed

lemma sample_follows:
  "follows_txn sample_sqlite (sample_query TxnBegin ''BEGIN'')"
  "follows_txn sample_sqlite (sample_query TxnEnd ''COMMIT'')"
  "rolls_back sample_sqlite (sample_query TxnEnd ''ROLLBACK'')"
  by (auto simp: follows_txn_def rolls_back_def sample_defs split: if_splits)

text \<open>A parser whose only command is the rollback.\<close>

definition sample_parser :: sql_parser where
  "sample_parser = \<lparr> sp_run = (\<lambda>s. [(Inr (CmdStmt StmtRollback), False)]), sp_to_string = (\<lambda>c. ''ROLLBACK'') \<rparr>"

lemma sample_rollback_query:
  "rollback_query sample_parser = Some \<lparr> q_stmt = q_stmt (sample_query TxnEnd ''ROLLBACK''),
     q_params = params_empty, q_want_rows = False \<rparr>"
  by (simp add: rollback_query_def parse_statements_def sample_parser_def parse_inner_def sample_query_def)

end
