(* ===== verification/ExecuteBuilder.thy ===== *)
theory ExecuteBuilder
  imports ResultBuilder
begin

text \<open>
  The builder of \<^verbatim>\<open>sqld/src/rpc/proxy.rs\<close> that turns a run into the result messages of
  the proxy protocol and bounds their size, and \<^verbatim>\<open>execute_results_to_builder\<close> of
  \<^verbatim>\<open>connection/write_proxy.rs\<close>, which replays such messages into another builder.
  The encoding of values (bincode) and the texts of errors are arguments.
\<close>

section \<open>Result messages\<close>

record ResultRows =
  rr_column_descriptions :: "Column list"
  rr_rows :: "byte list list list"
  rr_affected_row_count :: u64
  rr_last_insert_rowid :: "i64 option"

datatype RowResult = RowRow ResultRows | RowError RpcError

type_synonym QueryResult = "RowResult option"

record ExecuteResultBuilder =
  er_results :: "QueryResult list"
  er_current_rows :: "byte list list list"
  er_current_row :: "byte list list"
  er_current_col_description :: "Column list"
  er_current_err :: "Error option"
  er_max_size :: u64
  er_current_size :: u64
  er_current_step_size :: u64

definition execute_builder_default :: ExecuteResultBuilder where
  "execute_builder_default =
     \<lparr> er_results = [], er_current_rows = [], er_current_row = [], er_current_col_description = [],
       er_current_err = None, er_max_size = 0, er_current_size = 0, er_current_step_size = 0 \<rparr>"

definition col_len :: "Column \<Rightarrow> nat" where
  "col_len c = (case col_decl_ty c of Some d \<Rightarrow> length d | None \<Rightarrow> 0) + length (col_name c)"

fun add_columns :: "Column list \<Rightarrow> ExecuteResultBuilder \<Rightarrow> QueryResultBuilderError + ExecuteResultBuilder" where
  "add_columns [] b = Inr b"
| "add_columns (c # cs) b =
     (let len = word_of_nat (col_len c)
      in if er_max_size b < len + er_current_step_size b + er_current_size b
         then Inl (ResponseTooLarge (er_max_size b))
         else add_columns cs
                (b\<lparr>er_current_step_size := er_current_step_size b + len,
                   er_current_col_description := er_current_col_description b @ [c]\<rparr>))"

fun execute_feed ::
  "(Value \<Rightarrow> byte list) \<Rightarrow> (Error \<Rightarrow> string) \<Rightarrow> ExecuteResultBuilder feed" where
  "execute_feed serialize display (EvInit c) b =
     Inr (execute_builder_default\<lparr>er_max_size := (case qc_max_size c of Some n \<Rightarrow> n | None \<Rightarrow> - 1)\<rparr>)"
| "execute_feed serialize display BeginStep b =
     (if er_current_err b \<noteq> None \<or> er_current_rows b \<noteq> [] then Inl BuilderPanicked
      else Inr (b\<lparr>er_current_step_size := 0\<rparr>))"
| "execute_feed serialize display (FinishStep n r) b =
     (let b = b\<lparr>er_current_size := er_current_size b + er_current_step_size b\<rparr>
      in case er_current_err b of
           Some err \<Rightarrow>
             Inr (b\<lparr>er_current_err := None, er_current_rows := [], er_current_row := [],
                    er_current_col_description := [],
                    er_results := er_results b @ [Some (RowError (rpc_error_of display err))]\<rparr>)
         | None \<Rightarrow>
             Inr (b\<lparr>er_current_col_description := [], er_current_rows := [],
                    er_results := er_results b @
                      [Some (RowRow \<lparr> rr_column_descriptions = er_current_col_description b,
                         rr_rows = er_current_rows b, rr_affected_row_count = n,
                         rr_last_insert_rowid = r \<rparr>)]\<rparr>))"
| "execute_feed serialize display (StepError e) b =
     (if er_current_err b \<noteq> None then Inl BuilderPanicked
      else
        (let error_size = word_of_nat (length (display e))
         in if er_max_size b < er_current_size b + error_size
            then Inl (ResponseTooLarge (er_max_size b))
            else Inr (b\<lparr>er_current_step_size := error_size, er_current_err := Some e\<rparr>)))"
| "execute_feed serialize display (ColsDescription cols) b =
     (if er_current_col_description b \<noteq> [] then Inl BuilderPanicked else add_columns cols b)"
| "execute_feed serialize display BeginRows b = Inr b"
| "execute_feed serialize display BeginRow b = Inr b"
| "execute_feed serialize display (AddRowValue v) b =
     (case value_try_from v of
        Inl e \<Rightarrow> Inl (BuilderInternal e)
      | Inr v \<Rightarrow>
          (let d = serialize v;
               len = word_of_nat (length d)
           in if er_max_size b < len + er_current_step_size b + er_current_size b
              then Inl (ResponseTooLarge (er_max_size b))
              else Inr (b\<lparr>er_current_step_size := er_current_step_size b + len,
                          er_current_row := er_current_row b @ [d]\<rparr>)))"
| "execute_feed serialize display FinishRow b =
     Inr (b\<lparr>er_current_row := [], er_current_rows := er_current_rows b @ [er_current_row b]\<rparr>)"
| "execute_feed serialize display FinishRows b = Inr b"
| "execute_feed serialize display Finish b = Inr b"

text \<open>\<^verbatim>\<open>execute_results_to_builder\<close>: the events it sends.\<close>

fun replay_values :: "(byte list \<Rightarrow> Value option) \<Rightarrow> 'b feed \<Rightarrow> byte list list \<Rightarrow> 'b
    \<Rightarrow> QueryResultBuilderError + 'b" where
  "replay_values deserialize feed [] b = Inr b"
| "replay_values deserialize feed (d # ds) b =
     (case deserialize d of
        None \<Rightarrow> Inl (BuilderInternal ''invalid value'')
      | Some v \<Rightarrow>
          (case feed (AddRowValue (value_ref_of v)) b of
             Inl e \<Rightarrow> Inl e
           | Inr b \<Rightarrow> replay_values deserialize feed ds b))"

fun replay_rows :: "(byte list \<Rightarrow> Value option) \<Rightarrow> 'b feed \<Rightarrow> byte list list list \<Rightarrow> 'b
    \<Rightarrow> QueryResultBuilderError + 'b" where
  "replay_rows deserialize feed [] b = Inr b"
| "replay_rows deserialize feed (ds # rows) b =
     (case feed BeginRow b of
        Inl e \<Rightarrow> Inl e
      | Inr b \<Rightarrow>
          (case replay_values deserialize feed ds b of
             Inl e \<Rightarrow> Inl e
           | Inr b \<Rightarrow>
               (case feed FinishRow b of
                  Inl e \<Rightarrow> Inl e
                | Inr b \<Rightarrow> replay_rows deserialize feed rows b)))"

fun replay_result :: "(byte list \<Rightarrow> Value option) \<Rightarrow> 'b feed \<Rightarrow> QueryResult \<Rightarrow> 'b
    \<Rightarrow> QueryResultBuilderError + 'b" where
  "replay_result deserialize feed (Some (RowRow rows)) b =
     (case feed_all feed [BeginStep, ColsDescription (rr_column_descriptions rows), BeginRows] b of
        Inl e \<Rightarrow> Inl e
      | Inr b \<Rightarrow>
          (case replay_rows deserialize feed (rr_rows rows) b of
             Inl e \<Rightarrow> Inl e
           | Inr b \<Rightarrow>
               feed_all feed
                 [FinishRows, FinishStep (rr_affected_row_count rows) (rr_last_insert_rowid rows)] b))"
| "replay_result deserialize feed (Some (RowError err)) b =
     feed_all feed [BeginStep, StepError (RpcQueryError err), FinishStep 0 None] b"
| "replay_result deserialize feed None b = Inr b"

fun replay_results :: "(byte list \<Rightarrow> Value option) \<Rightarrow> 'b feed \<Rightarrow> QueryResult list \<Rightarrow> 'b
    \<Rightarrow> QueryResultBuilderError + 'b" where
  "replay_results deserialize feed [] b = Inr b"
| "replay_results deserialize feed (r # rs) b =
     (case replay_result deserialize feed r b of
        Inl e \<Rightarrow> Inl e
      | Inr b \<Rightarrow> replay_results deserialize feed rs b)"

definition execute_results_to_builder ::
  "(byte list \<Rightarrow> Value option) \<Rightarrow> 'b feed \<Rightarrow> QueryBuilderConfig \<Rightarrow> QueryResult list \<Rightarrow> 'b
     \<Rightarrow> QueryResultBuilderError + 'b" where
  "execute_results_to_builder deserialize feed config results b =
     (case feed (EvInit config) b of
        Inl e \<Rightarrow> Inl e
      | Inr b \<Rightarrow>
          (case replay_results deserialize feed results b of
             Inl e \<Rightarrow> Inl e
           | Inr b \<Rightarrow> feed Finish b))"

section \<open>The contract of the builder\<close>

definition execute_inv :: "FsmState \<Rightarrow> ExecuteResultBuilder \<Rightarrow> bool" where
  "execute_inv s b \<longleftrightarrow>
     (er_current_err b = None \<longleftrightarrow> s \<noteq> FsStepError) \<and>
     (s \<in> {FsInit, FsFinish, FsFinishStep, FsBeginStep} \<longrightarrow>
        er_current_rows b = [] \<and> er_current_col_description b = [] \<and> er_current_row b = []) \<and>
     (s \<notin> {FsBeginRow, FsAddRowValue, FsStepError} \<longrightarrow> er_current_row b = [])"

lemma add_columns_keeps:
  "add_columns cs b = Inr b' \<Longrightarrow>
   er_current_err b' = er_current_err b \<and> er_current_rows b' = er_current_rows b \<and>
   er_current_row b' = er_current_row b \<and> er_results b' = er_results b \<and>
   er_current_size b' = er_current_size b \<and> er_max_size b' = er_max_size b \<and>
   er_current_col_description b' = er_current_col_description b @ cs"
  by (induction cs arbitrary: b) (auto simp: Let_def split: if_splits)

lemma add_columns_no_panic: "add_columns cs b \<noteq> Inl BuilderPanicked"
  by (induction cs arbitrary: b) (auto simp: Let_def)

lemma execute_feed_no_panic:
  assumes "execute_inv s b" "fsm_allowed s (fsm_target e)"
  shows "execute_feed serialize display e b \<noteq> Inl BuilderPanicked"
proof (cases e)
  case (FinishStep n r)
  then show ?thesis by (simp add: Let_def split: option.splits)
next
  case (StepError err)
  then show ?thesis using assms by (auto simp: execute_inv_def Let_def)
next
  case (ColsDescription cols)
  then show ?thesis using assms add_columns_no_panic by (auto simp: execute_inv_def)
next
  case (AddRowValue v)
  then show ?thesis by (simp add: Let_def split: sum.splits)
next
  case BeginStep
  then show ?thesis using assms by (auto simp: execute_inv_def)
qed simp_all

lemma execute_feed_inv:
  assumes "execute_inv s b" "fsm_allowed s (fsm_target e)"
    and "execute_feed serialize display e b = Inr b'"
  shows "execute_inv (fsm_target e) b'"
proof (cases e)
  case (EvInit c)
  then show ?thesis using assms(3) [symmetric] by (simp add: execute_inv_def execute_builder_default_def)
next
  case (FinishStep n r)
  show ?thesis
  proof (cases "er_current_err b")
    case None
    then have "er_current_row b = []" using FinishStep assms(1,2) by (auto simp: execute_inv_def)
    then show ?thesis
      using None FinishStep assms(3) [symmetric] by (simp add: execute_inv_def Let_def)
  next
    case (Some err)
    then show ?thesis using FinishStep assms(3) [symmetric] by (simp add: execute_inv_def Let_def)
  qed
next
  case (StepError err)
  then show ?thesis using assms by (auto simp: execute_inv_def Let_def split: if_splits)
next
  case (ColsDescription cols)
  then have "add_columns cols b = Inr b'" using assms(3) by (simp split: if_splits)
  then show ?thesis using assms(1,2) ColsDescription add_columns_keeps [of cols b b']
    by (auto simp: execute_inv_def)
next
  case (AddRowValue v)
  then show ?thesis using assms
    by (auto simp: execute_inv_def Let_def split: sum.splits if_splits)
next
  case BeginStep
  then show ?thesis using assms by (auto simp: execute_inv_def split: if_splits)
qed (use assms in \<open>auto simp: execute_inv_def\<close>)

interpretation execute_results: query_result_builder "execute_feed serialize display" execute_inv
  using execute_feed_no_panic execute_feed_inv by unfold_locales blast+

interpretation take_execute_results:
  query_result_builder "take_feed (execute_feed serialize display)" "take_inv execute_inv"
  by (rule execute_results.take_builder)

section \<open>The size of a response\<close>

definition rows_size :: "byte list list list \<Rightarrow> nat" where
  "rows_size rows = sum_list (map (\<lambda>row. sum_list (map length row)) rows)"

definition cols_size :: "Column list \<Rightarrow> nat" where
  "cols_size cols = sum_list (map col_len cols)"

fun result_size :: "QueryResult \<Rightarrow> nat" where
  "result_size (Some (RowRow rr)) = cols_size (rr_column_descriptions rr) + rows_size (rr_rows rr)"
| "result_size (Some (RowError e)) = length (re_message e)"
| "result_size None = 0"

definition results_size :: "QueryResult list \<Rightarrow> nat" where
  "results_size rs = sum_list (map result_size rs)"

lemma size_simps [simp]:
  "rows_size [] = 0" "rows_size (rows @ [row]) = rows_size rows + sum_list (map length row)"
  "cols_size [] = 0" "cols_size (cs @ cs') = cols_size cs + cols_size cs'"
  "cols_size (c # cs) = col_len c + cols_size cs"
  "results_size [] = 0" "results_size (rs @ [r]) = results_size rs + result_size r"
  by (simp_all add: rows_size_def cols_size_def results_size_def)

definition current_size :: "(Error \<Rightarrow> string) \<Rightarrow> FsmState \<Rightarrow> ExecuteResultBuilder \<Rightarrow> nat" where
  "current_size display s b =
     (if s \<in> {FsInit, FsFinish, FsFinishStep} then 0
      else case er_current_err b of
             Some e \<Rightarrow> length (display e)
           | None \<Rightarrow> cols_size (er_current_col_description b) + rows_size (er_current_rows b) +
                     sum_list (map length (er_current_row b)))"

text \<open>The counters of the builder are the sizes of what it holds, below the limit.\<close>

definition size_inv :: "(Error \<Rightarrow> string) \<Rightarrow> u64 \<Rightarrow> FsmState \<Rightarrow> ExecuteResultBuilder \<Rightarrow> bool" where
  "size_inv display m s b \<longleftrightarrow>
     execute_inv s b \<and> er_max_size b = m \<and> unat (er_current_size b) = results_size (er_results b) \<and>
     (s \<notin> {FsInit, FsFinish, FsFinishStep} \<longrightarrow>
        unat (er_current_step_size b) = current_size display s b) \<and>
     results_size (er_results b) + current_size display s b \<le> unat m"

definition small_event :: "(Value \<Rightarrow> byte list) \<Rightarrow> (Error \<Rightarrow> string) \<Rightarrow> event \<Rightarrow> bool" where
  "small_event serialize display e \<longleftrightarrow>
     (case e of
        StepError err \<Rightarrow> length (display err) < 2 ^ 62
      | ColsDescription cols \<Rightarrow> \<forall>c\<in>set cols. col_len c < 2 ^ 62
      | AddRowValue v \<Rightarrow> (case value_try_from v of Inr w \<Rightarrow> length (serialize w) < 2 ^ 62 | Inl _ \<Rightarrow> True)
      | _ \<Rightarrow> True)"

lemma unat_of_small: "n < 2 ^ 62 \<Longrightarrow> unat (word_of_nat n :: u64) = n"
  by (simp add: unsigned_of_nat take_bit_nat_eq_self)

lemma unat_add3_small:
  fixes a b c :: u64
  assumes "unat a + unat b + unat c < 2 ^ 64"
  shows "unat (a + b + c) = unat a + unat b + unat c" "unat (a + b) = unat a + unat b"
  using assms by (subst unat_add_less, (subst unat_add_less)?, simp_all add: unat_add_less)+

lemma add_columns_size:
  assumes "add_columns cs b = Inr b'" "\<forall>c\<in>set cs. col_len c < 2 ^ 62"
    and "unat (er_max_size b) < 2 ^ 62"
    and "unat (er_current_step_size b) + unat (er_current_size b) \<le> unat (er_max_size b)"
  shows "unat (er_current_step_size b') = unat (er_current_step_size b) + cols_size cs \<and>
    unat (er_current_step_size b') + unat (er_current_size b) \<le> unat (er_max_size b)"
  using assms
proof (induction cs arbitrary: b)
  case (Cons c cs)
  define len :: u64 where "len = word_of_nat (col_len c)"
  define b1 where "b1 = b\<lparr>er_current_step_size := er_current_step_size b + len,
      er_current_col_description := er_current_col_description b @ [c]\<rparr>"
  have len: "unat len = col_len c" using Cons.prems(2) by (simp add: len_def unat_of_small)
  have sum: "unat len + unat (er_current_step_size b) + unat (er_current_size b) < 2 ^ 64"
    using Cons.prems(2-4) len by simp
  have le: "\<not> er_max_size b < len + er_current_step_size b + er_current_size b"
    and rest: "add_columns cs b1 = Inr b'"
    using Cons.prems(1) by (simp_all add: Let_def len_def b1_def split: if_splits)
  have le': "unat len + unat (er_current_step_size b) + unat (er_current_size b) \<le> unat (er_max_size b)"
    using le unat_add3_small(1) [OF sum] by (simp add: word_less_nat_alt)
  have step: "unat (er_current_step_size b1) = unat (er_current_step_size b) + col_len c"
    using unat_add3_small(2) [OF sum] len by (simp add: b1_def add.commute)
  have "unat (er_current_step_size b') = unat (er_current_step_size b1) + cols_size cs \<and>
      unat (er_current_step_size b') + unat (er_current_size b1) \<le> unat (er_max_size b1)"
    using Cons.prems(2,3) le' step len by (intro Cons.IH [OF rest]) (simp_all add: b1_def)
  then show ?case using step by (simp add: b1_def)
qed simp

lemma size_invD:
  assumes "size_inv display m s b"
  shows "execute_inv s b" "er_max_size b = m" "unat (er_current_size b) = results_size (er_results b)"
    "s \<notin> {FsInit, FsFinish, FsFinishStep} \<Longrightarrow> unat (er_current_step_size b) = current_size display s b"
    "results_size (er_results b) + current_size display s b \<le> unat m"
  using assms by (simp_all add: size_inv_def)

lemma size_inv_FinishStep:
  assumes inv: "size_inv display m s b" and s: "s \<in> {FsBeginStep, FsStepError, FsFinishRows}"
    and step: "execute_feed serialize display (FinishStep n r) b = Inr b'" and m: "unat m < 2 ^ 62"
    and ex: "execute_inv FsFinishStep b'"
  shows "size_inv display m FsFinishStep b'"
proof -
  note b = size_invD [OF inv]
  have "unat (er_current_step_size b) = current_size display s b" using b(4) s by auto
  then have sum: "unat (er_current_size b + er_current_step_size b)
      = results_size (er_results b) + current_size display s b"
    using b(3,5) m by (subst unat_add_less) simp_all
  show ?thesis
  proof (cases "er_current_err b")
    case None
    then have "er_current_row b = []" using s b(1) by (auto simp: execute_inv_def)
    then show ?thesis
      using None ex sum b(2,5) s step [symmetric]
      by (simp add: size_inv_def Let_def) (auto simp: current_size_def)
  next
    case (Some err)
    then show ?thesis
      using ex sum b(2,5) s step [symmetric]
      by (simp add: size_inv_def Let_def rpc_error_of_def) (auto simp: current_size_def)
  qed
qed

lemma size_inv_StepError:
  assumes inv: "size_inv display m s b" and small: "length (display err) < 2 ^ 62"
    and step: "execute_feed serialize display (StepError err) b = Inr b'" and m: "unat m < 2 ^ 62"
    and ex: "execute_inv FsStepError b'"
  shows "size_inv display m FsStepError b'"
proof -
  note b = size_invD [OF inv]
  define len :: u64 where "len = word_of_nat (length (display err))"
  have len: "unat len = length (display err)" using small by (simp add: len_def unat_of_small)
  have st: "b' = b\<lparr>er_current_step_size := len, er_current_err := Some err\<rparr>"
    "\<not> m < er_current_size b + len"
    using step b(2) by (auto simp: Let_def len_def split: if_splits)
  have "unat (er_current_size b + len) = unat (er_current_size b) + unat len"
    using len small b(3,5) m by (intro unat_add_less) simp
  then show ?thesis
    using st(2) ex b(2,3) len by (simp add: size_inv_def current_size_def st(1) word_less_nat_alt)
qed

lemma size_inv_AddRowValue:
  assumes inv: "size_inv display m s b" and s: "s \<in> {FsBeginRow, FsAddRowValue}"
    and small: "small_event serialize display (AddRowValue v)"
    and step: "execute_feed serialize display (AddRowValue v) b = Inr b'" and m: "unat m < 2 ^ 62"
    and ex: "execute_inv FsAddRowValue b'"
  shows "size_inv display m FsAddRowValue b'"
proof -
  note b = size_invD [OF inv]
  obtain w where w: "value_try_from v = Inr w" using step by (auto split: sum.splits)
  define len :: u64 where "len = word_of_nat (length (serialize w))"
  have len: "unat len = length (serialize w)" "length (serialize w) < 2 ^ 62"
    using small w by (simp_all add: small_event_def len_def unat_of_small)
  have st: "b' = b\<lparr>er_current_step_size := er_current_step_size b + len,
      er_current_row := er_current_row b @ [serialize w]\<rparr>"
    "\<not> m < len + er_current_step_size b + er_current_size b"
    using step b(2) w by (auto simp: Let_def len_def split: if_splits)
  have sz: "unat (er_current_step_size b) = current_size display s b" using b(4) s by auto
  then have "unat len + unat (er_current_step_size b) + unat (er_current_size b) < 2 ^ 64"
    using len b(3,5) m by simp
  note add = unat_add3_small [OF this]
  have "er_current_err b = None" using b(1) s by (auto simp: execute_inv_def)
  then show ?thesis
    using st(2) add ex b(2,3) s sz len(1)
    by (auto simp: size_inv_def current_size_def st(1) word_less_nat_alt add.commute)
qed

lemma size_inv_ColsDescription:
  assumes inv: "size_inv display m FsBeginStep b" and small: "\<forall>c\<in>set cols. col_len c < 2 ^ 62"
    and step: "execute_feed serialize display (ColsDescription cols) b = Inr b'"
    and m: "unat m < 2 ^ 62" and ex: "execute_inv FsColsDescription b'"
  shows "size_inv display m FsColsDescription b'"
proof -
  note b = size_invD [OF inv]
  have add: "add_columns cols b = Inr b'" using step by (simp split: if_splits)
  have e: "er_current_err b = None" "er_current_rows b = []" "er_current_row b = []"
    "er_current_col_description b = []"
    using b(1) by (auto simp: execute_inv_def)
  have "unat (er_current_step_size b) = 0" using b(4) e by (simp add: current_size_def)
  then show ?thesis
    using add_columns_size [OF add] add_columns_keeps [OF add] small b m e ex
    by (simp add: size_inv_def current_size_def)
qed

lemma size_inv_keeps:
  assumes inv: "size_inv display m s b" and ok: "fsm_allowed s (fsm_target e)"
    and step: "execute_feed serialize display e b = Inr b'"
    and small: "small_event serialize display e" and m: "unat m < 2 ^ 62"
    and noinit: "fsm_target e \<noteq> FsInit"
  shows "size_inv display m (fsm_target e) b'"
proof -
  note b = size_invD [OF inv]
  have ex: "execute_inv (fsm_target e) b'" by (rule execute_feed_inv [OF b(1) ok step])
  show ?thesis
  proof (cases e)
    case BeginStep
    then have "s \<in> {FsInit, FsFinishStep}" using ok by simp
    then have "er_current_rows b = []" "er_current_col_description b = []" "er_current_row b = []"
      "er_current_err b = None"
      using b(1) by (auto simp: execute_inv_def)
    then show ?thesis using BeginStep ex b step by (auto simp: size_inv_def current_size_def)
  next
    case (FinishStep n r)
    then show ?thesis using size_inv_FinishStep [OF inv _ _ m] ok step ex by simp
  next
    case (StepError err)
    then show ?thesis
      using size_inv_StepError [OF inv _ _ m] small step ex by (simp add: small_event_def)
  next
    case (ColsDescription cols)
    then show ?thesis
      using size_inv_ColsDescription [OF _ _ _ m] inv small ok step ex by (simp add: small_event_def)
  next
    case (AddRowValue v)
    then show ?thesis using size_inv_AddRowValue [OF inv _ _ _ m] small ok step ex by simp
  next
    case FinishRow
    then show ?thesis
      using b ex ok step by (auto simp: size_inv_def current_size_def split: option.splits)
  qed (use b ex ok step noinit in \<open>auto simp: size_inv_def current_size_def execute_inv_def\<close>)
qed

lemma step_events_no_init: "step_legal st \<Longrightarrow> e \<in> set (step_events st) \<Longrightarrow> fsm_target e \<noteq> FsInit"
  by (cases st) (auto simp: row_events_def list_all_iff elim!: row_event.elims split: if_splits)

text \<open>
  (C28) A response of the proxy stays within the configured size: the column
  descriptions, the encoded values and the error messages of all results of a
  run together are at most \<^verbatim>\<open>max_size\<close> bytes. The single items and the limit are
  below $2^{62}$, so that the sums of the builder do not wrap around.
\<close>

theorem proxy_response_within_limit:
  assumes "feed_all (execute_feed serialize display) (program_events c steps) b = Inr b'"
    and "list_all step_legal steps" "qc_max_size c = Some m" "unat m < 2 ^ 62"
    and "\<forall>st\<in>set steps. \<forall>e\<in>set (step_events st). small_event serialize display e"
  shows "results_size (er_results b') \<le> unat m"
proof -
  define b0 where "b0 = execute_builder_default\<lparr>er_max_size := m\<rparr>"
  define es where "es = concat (map step_events steps) @ [Finish]"
  have run: "feed_all (execute_feed serialize display) es b0 = Inr b'"
    using assms(1,3) by (simp add: program_events_def es_def b0_def)
  have fsm: "fsm_run FsInit es = Some FsFinish"
    using fsm_program [OF assms(2), of FsInit c] by (simp add: program_events_def es_def)
  have b0: "size_inv display m FsInit b0"
    by (simp add: size_inv_def b0_def execute_builder_default_def execute_inv_def current_size_def)
  have es: "fsm_target e \<noteq> FsInit" "small_event serialize display e" if "e \<in> set es" for e
    using that assms(2,5) step_events_no_init
    by (auto simp: es_def list_all_iff small_event_def)
  have "size_inv display m FsFinish b'"
    by (rule feed_all_invariant [where P = "size_inv display m", OF _ b0 fsm run])
      (rule size_inv_keeps [OF _ _ _ es(2) assms(4) es(1)])
  then show ?thesis by (simp add: size_inv_def)
qed

lemma notislE: "\<not> isl r \<Longrightarrow> (\<And>b. r = Inr b \<Longrightarrow> thesis) \<Longrightarrow> thesis"
  by (cases r) auto

theorem proxy_response_within_limit_witness:
  "\<exists>b'. feed_all (execute_feed (\<lambda>_. [0]) (\<lambda>_. ''error''))
       (program_events \<lparr> qc_max_size = Some 20, qc_max_total_size = None, qc_auto_checkpoint = 0 \<rparr>
          [Ran [\<lparr> col_name = ''x'', col_decl_ty = None \<rparr>] [[RefNull], [RefInteger 1]] 0 None,
           FailedAfter [] LibSqlTxTimeout]) execute_builder_default = Inr b' \<and>
     results_size (er_results b') \<le> unat (20 :: u64)"
proof -
  let ?c = "\<lparr> qc_max_size = Some 20, qc_max_total_size = None, qc_auto_checkpoint = 0 \<rparr>"
  let ?steps = "[Ran [\<lparr> col_name = ''x'', col_decl_ty = None \<rparr>] [[RefNull], [RefInteger 1]] 0 None,
    FailedAfter [] LibSqlTxTimeout]"
  have "\<not> isl (feed_all (execute_feed (\<lambda>_. [0]) (\<lambda>_. ''error'')) (program_events ?c ?steps)
      execute_builder_default)"
    by (simp add: program_events_def row_events_def execute_builder_default_def col_len_def Let_def)
  then obtain b' where run: "feed_all (execute_feed (\<lambda>_. [0]) (\<lambda>_. ''error''))
      (program_events ?c ?steps) execute_builder_default = Inr b'"
    by (rule notislE)
  have small: "\<forall>st\<in>set ?steps. \<forall>e\<in>set (step_events st). small_event (\<lambda>_. [0]) (\<lambda>_. ''error'') e"
    by (simp add: small_event_def row_events_def col_len_def)
  have "results_size (er_results b') \<le> unat (20 :: u64)"
    by (rule proxy_response_within_limit [OF run _ _ _ small]) simp_all
  with run show ?thesis by blast
qed

section \<open>Replaying results\<close>

text \<open>What is left of a step after it went through the proxy.\<close>

fun proxied :: "(Error \<Rightarrow> string) \<Rightarrow> step_run \<Rightarrow> step_run" where
  "proxied display Skipped = Ran [] [] 0 None"
| "proxied display (Ran cols rows n r) = Ran cols rows n r"
| "proxied display (FailedAfter es e) = FailedAfter [] (RpcQueryError (rpc_error_of display e))"

lemma value_ref_roundtrip: "value_try_from v = Inr w \<Longrightarrow> value_ref_of w = v"
  by (cases v) (auto simp: string_bytes_roundtrip split: if_splits)

definition encoded :: "(Value \<Rightarrow> byte list) \<Rightarrow> ValueRef list \<Rightarrow> byte list list \<Rightarrow> bool" where
  "encoded serialize vs ds \<longleftrightarrow>
     list_all2 (\<lambda>v d. \<exists>w. value_try_from v = Inr w \<and> d = serialize w) vs ds"

lemma replay_values_encoded:
  assumes "\<And>v. deserialize (serialize v) = Some v" "encoded serialize vs ds"
  shows "replay_values deserialize feed ds b = feed_all feed (map AddRowValue vs) b"
  using assms(2) unfolding encoded_def
  by (induction arbitrary: b rule: list_all2_induct)
    (auto simp: assms(1) dest!: value_ref_roundtrip split: sum.splits)

lemma replay_rows_encoded:
  assumes "\<And>v. deserialize (serialize v) = Some v" "list_all2 (encoded serialize) rows dss"
  shows "replay_rows deserialize feed dss b = feed_all feed (concat (map row_events rows)) b"
  using assms(2)
  by (induction arbitrary: b rule: list_all2_induct)
    (auto simp: row_events_def feed_all_append replay_values_encoded [OF assms(1)] split: sum.splits)

lemma execute_values:
  "feed_all (execute_feed serialize display) (map AddRowValue vs) b = Inr b' \<Longrightarrow>
   \<exists>ds sz. encoded serialize vs ds \<and>
     b' = b\<lparr>er_current_row := er_current_row b @ ds, er_current_step_size := sz\<rparr>"
proof (induction vs arbitrary: b)
  case Nil
  then show ?case by (auto simp: encoded_def intro!: exI [of _ "er_current_step_size b"])
next
  case (Cons v vs)
  obtain w b1 where w: "value_try_from v = Inr w"
    "b1 = b\<lparr>er_current_step_size := er_current_step_size b + word_of_nat (length (serialize w)),
       er_current_row := er_current_row b @ [serialize w]\<rparr>"
    "feed_all (execute_feed serialize display) (map AddRowValue vs) b1 = Inr b'"
    using Cons.prems by (auto simp: Let_def split: sum.splits if_splits)
  obtain ds sz where "encoded serialize vs ds"
    "b' = b1\<lparr>er_current_row := er_current_row b1 @ ds, er_current_step_size := sz\<rparr>"
    using Cons.IH [OF w(3)] by blast
  then show ?case
    by (intro exI [of _ "serialize w # ds"] exI [of _ sz]) (simp add: w(1,2) encoded_def)
qed

lemma execute_rows:
  "feed_all (execute_feed serialize display) (concat (map row_events rows)) b = Inr b' \<Longrightarrow>
   er_current_row b = [] \<Longrightarrow>
   \<exists>dss sz. list_all2 (encoded serialize) rows dss \<and>
     b' = b\<lparr>er_current_rows := er_current_rows b @ dss, er_current_step_size := sz\<rparr>"
proof (induction rows arbitrary: b)
  case Nil
  then show ?case by (auto intro!: exI [of _ "er_current_step_size b"])
next
  case (Cons vs rows)
  obtain b1 where b1: "feed_all (execute_feed serialize display) (map AddRowValue vs) b = Inr b1"
    "feed_all (execute_feed serialize display) (concat (map row_events rows))
       (b1\<lparr>er_current_row := [], er_current_rows := er_current_rows b1 @ [er_current_row b1]\<rparr>) = Inr b'"
    using Cons.prems(1) by (auto simp: row_events_def [of vs] feed_all_append split: sum.splits)
  obtain ds sz where ds: "encoded serialize vs ds"
    "b1 = b\<lparr>er_current_row := ds, er_current_step_size := sz\<rparr>"
    using execute_values [OF b1(1)] Cons.prems(2) by auto
  obtain dss sz' where "list_all2 (encoded serialize) rows dss"
    "b' = b\<lparr>er_current_row := [], er_current_rows := (er_current_rows b @ [ds]) @ dss,
       er_current_step_size := sz'\<rparr>"
    using Cons.IH [OF b1(2)] by (auto simp: ds(2))
  then show ?case
    using ds(1) Cons.prems(2) by (intro exI [of _ "ds # dss"] exI [of _ sz']) simp
qed

lemma execute_row_events:
  "list_all row_event es \<Longrightarrow> feed_all (execute_feed serialize display) es b = Inr b' \<Longrightarrow>
   er_results b' = er_results b"
proof (induction es arbitrary: b)
  case (Cons e es)
  then obtain b1 where b1: "execute_feed serialize display e b = Inr b1"
    "feed_all (execute_feed serialize display) es b1 = Inr b'"
    by (auto split: sum.splits)
  have "er_results b1 = er_results b"
    using b1(1) Cons.prems(1) add_columns_keeps
    by (cases e) (auto simp: Let_def split: sum.splits if_splits)
  then show ?case using Cons.IH [OF _ b1(2)] Cons.prems(1) by simp
qed simp

definition carries :: "(byte list \<Rightarrow> Value option) \<Rightarrow> QueryResult \<Rightarrow> step_run \<Rightarrow> 'c feed \<Rightarrow> bool" where
  "carries deserialize res st feed \<longleftrightarrow>
     (\<forall>c. replay_result deserialize feed res c = feed_all feed (step_events st) c)"

lemma execute_Ran:
  assumes "\<And>v. deserialize (serialize v) = Some v" "execute_inv s b" "s \<in> {FsInit, FsFinishStep}"
    and run: "feed_all (execute_feed serialize display) (step_events (Ran cols rows n r)) b = Inr b'"
  shows "\<exists>res. er_results b' = er_results b @ [res] \<and> carries deserialize res (Ran cols rows n r) feed"
proof -
  have b: "er_current_err b = None" "er_current_rows b = []" "er_current_row b = []"
    "er_current_col_description b = []"
    using assms(2,3) by (auto simp: execute_inv_def)
  obtain b1 b2 where b1: "add_columns cols (b\<lparr>er_current_step_size := 0\<rparr>) = Inr b1"
    "feed_all (execute_feed serialize display) (concat (map row_events rows)) b1 = Inr b2"
    "execute_feed serialize display (FinishStep n r) b2 = Inr b'"
    using run b by (auto simp: feed_all_append split: sum.splits)
  note k = add_columns_keeps [OF b1(1)]
  obtain dss sz where d: "list_all2 (encoded serialize) rows dss"
    "b2 = b1\<lparr>er_current_rows := er_current_rows b1 @ dss, er_current_step_size := sz\<rparr>"
    using execute_rows [OF b1(2)] k b by auto
  have "er_results b' = er_results b @ [Some (RowRow \<lparr> rr_column_descriptions = cols,
      rr_rows = dss, rr_affected_row_count = n, rr_last_insert_rowid = r \<rparr>)]"
    using b1(3) [symmetric] k b d(2) by (simp add: Let_def)
  then show ?thesis
    by (auto simp: carries_def feed_all_append replay_rows_encoded [OF assms(1) d(1)] split: sum.splits)
qed

lemma execute_step:
  assumes "\<And>v. deserialize (serialize v) = Some v" "execute_inv s b" "s \<in> {FsInit, FsFinishStep}"
    and "step_legal st" and run: "feed_all (execute_feed serialize display) (step_events st) b = Inr b'"
  shows "\<exists>res. er_results b' = er_results b @ [res] \<and>
    carries deserialize res (proxied display st) feed"
proof (cases st)
  case Skipped
  have "er_current_err b = None" "er_current_rows b = []" "er_current_col_description b = []"
    using assms(2,3) by (auto simp: execute_inv_def)
  then have "er_results b' = er_results b @ [Some (RowRow \<lparr> rr_column_descriptions = [],
      rr_rows = [], rr_affected_row_count = 0, rr_last_insert_rowid = None \<rparr>)]"
    using run [symmetric] Skipped by (simp add: Let_def)
  then show ?thesis
    using Skipped by (auto simp: carries_def split: sum.splits)
next
  case (Ran cols rows n r)
  then show ?thesis using execute_Ran [OF assms(1-3)] run by simp
next
  case (FailedAfter es e)
  obtain b1 b2 where b1: "feed_all (execute_feed serialize display) es (b\<lparr>er_current_step_size := 0\<rparr>) = Inr b1"
    "execute_feed serialize display (StepError e) b1 = Inr b2"
    "execute_feed serialize display (FinishStep 0 None) b2 = Inr b'"
    using run FailedAfter by (auto simp: feed_all_append split: sum.splits if_splits)
  have "er_results b1 = er_results b"
    using execute_row_events [OF _ b1(1)] assms(4) FailedAfter by simp
  then have "er_results b2 = er_results b" "er_current_err b2 = Some e"
    using b1(2) by (auto simp: Let_def split: if_splits)
  then have "er_results b' = er_results b @ [Some (RowError (rpc_error_of display e))]"
    using b1(3) [symmetric] by (simp add: Let_def)
  then show ?thesis using FailedAfter by (auto simp: carries_def)
qed

lemma execute_steps:
  assumes rt: "\<And>v. deserialize (serialize v) = Some v" and "execute_inv s b" "s \<in> {FsInit, FsFinishStep}"
    and "list_all step_legal steps"
    and "feed_all (execute_feed serialize display) (concat (map step_events steps)) b = Inr b'"
  shows "\<exists>rs. er_results b' = er_results b @ rs \<and>
    list_all2 (\<lambda>res st. carries deserialize res (proxied display st) feed) rs steps"
  using assms(2-)
proof (induction steps arbitrary: s b)
  case (Cons st steps)
  obtain b1 where b1: "feed_all (execute_feed serialize display) (step_events st) b = Inr b1"
    "feed_all (execute_feed serialize display) (concat (map step_events steps)) b1 = Inr b'"
    using Cons.prems(4) by (auto simp: feed_all_append split: sum.splits)
  have st: "step_legal st" "list_all step_legal steps" using Cons.prems(3) by simp_all
  obtain res where res: "er_results b1 = er_results b @ [res]"
    "carries deserialize res (proxied display st) feed"
    using execute_step [OF rt Cons.prems(1,2) st(1) b1(1)] by blast
  have "execute_inv FsFinishStep b1"
    using execute_results.feed_all_inv [OF Cons.prems(1) fsm_step [OF st(1) Cons.prems(2)] b1(1)] .
  then obtain rs where "er_results b' = er_results b1 @ rs"
    "list_all2 (\<lambda>res st. carries deserialize res (proxied display st) feed) rs steps"
    using Cons.IH [OF _ _ st(2) b1(2)] by blast
  then show ?case using res by (intro exI [of _ "res # rs"]) simp
qed simp

lemma replay_results_carried:
  assumes "list_all2 (\<lambda>res st. carries deserialize res (proxied display st) feed) rs steps"
  shows "replay_results deserialize feed rs c =
    feed_all feed (concat (map (\<lambda>st. step_events (proxied display st)) steps)) c"
  using assms
  by (induction arbitrary: c rule: list_all2_induct) (auto simp: feed_all_append carries_def split: sum.splits)

text \<open>
  Running a program on the primary through the proxy and replaying the
  results into a builder on the replica drives that builder exactly as a local
  run of the same steps would, with three differences that the function
  \<^const>\<open>proxied\<close> makes explicit: the partial events of a failed step are dropped, its
  error is wrapped as an RPC error, and a skipped step turns into one that ran
  without columns and rows.
\<close>

lemma proxied_run_replays:
  assumes "\<And>v. deserialize (serialize v) = Some v" "list_all step_legal steps"
    and "feed_all (execute_feed serialize display) (program_events c steps) b = Inr b'"
  shows "execute_results_to_builder deserialize feed config (er_results b') rb =
    feed_all feed (program_events config (map (proxied display) steps)) rb"
proof -
  define b0 where "b0 = execute_builder_default\<lparr>er_max_size := (case qc_max_size c of Some n \<Rightarrow> n | None \<Rightarrow> - 1)\<rparr>"
  have "execute_inv FsInit b0"
    by (simp add: b0_def execute_builder_default_def execute_inv_def)
  moreover have "feed_all (execute_feed serialize display) (concat (map step_events steps)) b0 = Inr b'"
    using assms(3) by (auto simp: program_events_def b0_def feed_all_append split: sum.splits)
  ultimately obtain rs where rs: "er_results b' = er_results b0 @ rs"
    "list_all2 (\<lambda>res st. carries deserialize res (proxied display st) feed) rs steps"
    using execute_steps [OF assms(1) _ _ assms(2), of FsInit b0 display b'] by blast
  then have "er_results b' = rs" by (simp add: b0_def execute_builder_default_def)
  then show ?thesis
    using replay_results_carried [OF rs(2)]
    by (auto simp: execute_results_to_builder_def program_events_def feed_all_append comp_def
        split: sum.splits)
qed

text \<open>A codec of values that satisfies the law assumed of bincode.\<close>

fun sample_serialize :: "Value \<Rightarrow> byte list" where
  "sample_serialize Null = [0]"
| "sample_serialize (Integer i) = 1 # word_bytes 8 i"
| "sample_serialize (Real x) = 2 # word_bytes 8 x"
| "sample_serialize (Text s) = 3 # bytes_of_string s"
| "sample_serialize (Blob b) = 4 # b"

definition sample_deserialize :: "byte list \<Rightarrow> Value option" where
  "sample_deserialize bs =
     (case bs of
        [] \<Rightarrow> None
      | t # bs \<Rightarrow>
          if t = 0 then Some Null
          else if t = 1 then Some (Integer (bytes_word bs))
          else if t = 2 then Some (Real (bytes_word bs))
          else if t = 3 then Some (Text (string_of_bytes bs))
          else Some (Blob bs))"

lemma sample_codec: "sample_deserialize (sample_serialize v) = Some v"
  by (cases v) (simp_all add: sample_deserialize_def codec_simps bytes_string_roundtrip)

lemma proxied_run_replays_sample:
  "\<exists>b' rb. feed_all (execute_feed sample_serialize (\<lambda>_. ''error''))
       (program_events \<lparr> qc_max_size = None, qc_max_total_size = None, qc_auto_checkpoint = 0 \<rparr>
          [FailedAfter [] LibSqlTxTimeout, Skipped]) execute_builder_default = Inr b' \<and>
     execute_results_to_builder sample_deserialize step_results_feed
       \<lparr> qc_max_size = None, qc_max_total_size = None, qc_auto_checkpoint = 0 \<rparr>
       (er_results b') step_results_new = Inr rb \<and>
     sr_step_results rb =
       [StepErr (RpcQueryError \<lparr> re_code = CodeTxTimeout, re_message = ''error'' \<rparr>), StepOk]"
proof -
  let ?c = "\<lparr> qc_max_size = None, qc_max_total_size = None, qc_auto_checkpoint = 0 \<rparr>"
  let ?steps = "[FailedAfter [] LibSqlTxTimeout, Skipped]"
  have legal: "list_all step_legal ?steps" by simp
  have "\<not> isl (feed_all (execute_feed sample_serialize (\<lambda>_. ''error'')) (program_events ?c ?steps)
      execute_builder_default)"
    by (simp add: program_events_def execute_builder_default_def Let_def)
  then obtain b' where run: "feed_all (execute_feed sample_serialize (\<lambda>_. ''error''))
      (program_events ?c ?steps) execute_builder_default = Inr b'"
    by (rule notislE)
  have "list_all step_legal (map (proxied (\<lambda>_. ''error'')) ?steps)" by simp
  then obtain rb where "feed_all step_results_feed (program_events ?c (map (proxied (\<lambda>_. ''error'')) ?steps))
      step_results_new = Inr rb" "sr_step_results rb = map step_outcome (map (proxied (\<lambda>_. ''error'')) ?steps)"
    using step_results_program by blast
  then show ?thesis
    using proxied_run_replays [OF sample_codec legal run, of step_results_feed ?c step_results_new] run
    by (auto simp: rpc_error_of_def)
qed

end
