(* ===== verification/WriteProxy.thy ===== *)
theory WriteProxy
  imports ProgramRun ExecuteBuilder FrameStream "HOL-Library.AList"
begin

text \<open>
  The connections of a replica: \<^verbatim>\<open>sqld/src/connection/write_proxy.rs\<close>, which runs reads
  locally once the replica has caught up with the own writes and sends everything else to the
  primary, and the primary's side of the protocol, \<^verbatim>\<open>sqld/src/rpc/proxy.rs\<close>, with the
  conversions between programs and their messages (\<^verbatim>\<open>sqld/proto/proxy.proto\<close>). The channel
  to the primary, SQLite, the SQL parser and the encoding of values are arguments.
\<close>

section \<open>Messages\<close>

datatype rpc_cond = RpcCond "rpc_cond_kind option"
and rpc_cond_kind =
    RcOk i64 | RcErr i64 | RcNot "rpc_cond option" | RcAnd "rpc_cond list" | RcOr "rpc_cond list"
  | RcIsAutocommit

datatype rpc_params = RpcPositional "byte list list" | RpcNamed "string list" "byte list list"

record rpc_query =
  rq_stmt :: string
  rq_params :: "rpc_params option"
  rq_skip_rows :: bool

record rpc_step =
  rs_cond :: "rpc_cond option"
  rs_query :: "rpc_query option"

record ProgramReq =
  pq_client_id :: string
  pq_pgm :: "rpc_step list option"

datatype rpc_state = RpcInit | RpcInvalid | RpcTxn

record ExecuteResults =
  xr_results :: "QueryResult list"
  xr_state :: rpc_state
  xr_current_frame_no :: FrameNo

section \<open>Conversions\<close>

fun state_to_rpc :: "State \<Rightarrow> rpc_state" where
  "state_to_rpc Txn = RpcTxn"
| "state_to_rpc InitState = RpcInit"
| "state_to_rpc Invalid = RpcInvalid"

fun state_of_rpc :: "rpc_state \<Rightarrow> State" where
  "state_of_rpc RpcTxn = Txn"
| "state_of_rpc RpcInit = InitState"
| "state_of_rpc RpcInvalid = Invalid"

text \<open>Step numbers are cast between \<^verbatim>\<open>usize\<close> and \<^verbatim>\<open>i64\<close>.\<close>

fun cond_to_rpc :: "Cond \<Rightarrow> rpc_cond" where
  "cond_to_rpc (CondOk step) = RpcCond (Some (RcOk (word_of_nat step)))"
| "cond_to_rpc (CondErr step) = RpcCond (Some (RcErr (word_of_nat step)))"
| "cond_to_rpc (CondNot c) = RpcCond (Some (RcNot (Some (cond_to_rpc c))))"
| "cond_to_rpc (CondOr cs) = RpcCond (Some (RcOr (map cond_to_rpc cs)))"
| "cond_to_rpc (CondAnd cs) = RpcCond (Some (RcAnd (map cond_to_rpc cs)))"
| "cond_to_rpc CondIsAutocommit = RpcCond (Some RcIsAutocommit)"

text \<open>A collection of results is the first error or all the values.\<close>

fun collect_results :: "('e + 'a) list \<Rightarrow> 'e + 'a list" where
  "collect_results [] = Inr []"
| "collect_results (Inl e # rs) = Inl e"
| "collect_results (Inr x # rs) =
     (case collect_results rs of Inl e \<Rightarrow> Inl e | Inr xs \<Rightarrow> Inr (x # xs))"

fun cond_of_rpc :: "rpc_cond \<Rightarrow> string + Cond"
and cond_of_kind :: "rpc_cond_kind \<Rightarrow> string + Cond" where
  "cond_of_rpc (RpcCond None) = Inl ''invalid condition''"
| "cond_of_rpc (RpcCond (Some k)) = cond_of_kind k"
| "cond_of_kind (RcOk step) = Inr (CondOk (unat step))"
| "cond_of_kind (RcErr step) = Inr (CondErr (unat step))"
| "cond_of_kind (RcNot None) = Inl ''empty `not` condition''"
| "cond_of_kind (RcNot (Some c)) = (case cond_of_rpc c of Inl e \<Rightarrow> Inl e | Inr c \<Rightarrow> Inr (CondNot c))"
| "cond_of_kind (RcAnd cs) =
     (case collect_results (map cond_of_rpc cs) of Inl e \<Rightarrow> Inl e | Inr cs \<Rightarrow> Inr (CondAnd cs))"
| "cond_of_kind (RcOr cs) =
     (case collect_results (map cond_of_rpc cs) of Inl e \<Rightarrow> Inl e | Inr cs \<Rightarrow> Inr (CondOr cs))"
| "cond_of_kind RcIsAutocommit = Inr CondIsAutocommit"

fun params_to_rpc :: "(Value \<Rightarrow> byte list) \<Rightarrow> Params \<Rightarrow> rpc_params" where
  "params_to_rpc serialize (Named m) = RpcNamed (map fst m) (map (serialize \<circ> snd) m)"
| "params_to_rpc serialize (Positional vs) = RpcPositional (map serialize vs)"

definition decode_value :: "(byte list \<Rightarrow> Value option) \<Rightarrow> byte list \<Rightarrow> string + Value" where
  "decode_value deserialize d =
     (case deserialize d of None \<Rightarrow> Inl ''invalid value'' | Some v \<Rightarrow> Inr v)"

text \<open>The names and values are collected into a hash map: a name that occurs again is overwritten.\<close>

fun params_of_rpc :: "(byte list \<Rightarrow> Value option) \<Rightarrow> rpc_params \<Rightarrow> string + Params" where
  "params_of_rpc deserialize (RpcPositional ds) =
     (case collect_results (map (decode_value deserialize) ds) of
        Inl e \<Rightarrow> Inl e | Inr vs \<Rightarrow> Inr (Positional vs))"
| "params_of_rpc deserialize (RpcNamed names ds) =
     (case collect_results (map (decode_value deserialize) (take (length names) ds)) of
        Inl e \<Rightarrow> Inl e
      | Inr vs \<Rightarrow> Inr (Named (fold (\<lambda>(k, v). AList.update k v) (zip names vs) [])))"

definition query_to_rpc :: "(Value \<Rightarrow> byte list) \<Rightarrow> Query \<Rightarrow> rpc_query" where
  "query_to_rpc serialize q =
     \<lparr> rq_stmt = st_stmt (q_stmt q), rq_params = Some (params_to_rpc serialize (q_params q)),
       rq_skip_rows = (\<not> q_want_rows q) \<rparr>"

definition query_of_rpc ::
  "sql_parser \<Rightarrow> (byte list \<Rightarrow> Value option) \<Rightarrow> rpc_query \<Rightarrow> string + Query" where
  "query_of_rpc p deserialize q =
     (case parse_statements p (rq_stmt q) of
        [] \<Rightarrow> Inl ''invalid empty statement''
      | Inl e # _ \<Rightarrow> Inl e
      | Inr stmt # _ \<Rightarrow>
          (case rq_params q of
             None \<Rightarrow> Inl ''missing params in query''
           | Some ps \<Rightarrow>
               (case params_of_rpc deserialize ps of
                  Inl e \<Rightarrow> Inl e
                | Inr ps \<Rightarrow> Inr \<lparr> q_stmt = stmt, q_params = ps, q_want_rows = (\<not> rq_skip_rows q) \<rparr>)))"

definition step_to_rpc :: "(Value \<Rightarrow> byte list) \<Rightarrow> Step \<Rightarrow> rpc_step" where
  "step_to_rpc serialize s =
     \<lparr> rs_cond = map_option cond_to_rpc (sp_cond s),
       rs_query = Some (query_to_rpc serialize (sp_query s)) \<rparr>"

definition step_of_rpc ::
  "sql_parser \<Rightarrow> (byte list \<Rightarrow> Value option) \<Rightarrow> rpc_step \<Rightarrow> string + Step" where
  "step_of_rpc p deserialize s =
     (case rs_query s of
        None \<Rightarrow> Inl ''step is missing query''
      | Some q \<Rightarrow>
          (case query_of_rpc p deserialize q of
             Inl e \<Rightarrow> Inl e
           | Inr q \<Rightarrow>
               (case rs_cond s of
                  None \<Rightarrow> Inr \<lparr> sp_cond = None, sp_query = q \<rparr>
                | Some c \<Rightarrow>
                    (case cond_of_rpc c of
                       Inl e \<Rightarrow> Inl e
                     | Inr c \<Rightarrow> Inr \<lparr> sp_cond = Some c, sp_query = q \<rparr>))))"

definition program_to_rpc :: "(Value \<Rightarrow> byte list) \<Rightarrow> Program \<Rightarrow> rpc_step list" where
  "program_to_rpc serialize pgm = map (step_to_rpc serialize) pgm"

definition program_of_rpc ::
  "sql_parser \<Rightarrow> (byte list \<Rightarrow> Value option) \<Rightarrow> rpc_step list \<Rightarrow> string + Program" where
  "program_of_rpc p deserialize steps = collect_results (map (step_of_rpc p deserialize) steps)"

section \<open>The service of the primary\<close>

text \<open>
  A connection of every client, by its id. A namespace is what the store finds under its name:
  how a connection to it is made. The frame number the notifier of the
  namespace holds when it is read is an argument, as is the parsing of ids;
  \<^const>\<open>None\<close> is a panic of the handler.
\<close>

record ('k, 'c) ProxyService =
  ps_clients :: "string \<rightharpoonup> 'c Connection"
  ps_auth :: "'k Auth option"
  ps_disable_namespaces :: bool

record 'c proxy_env =
  pe_parser :: sql_parser
  pe_serialize :: "Value \<Rightarrow> byte list"
  pe_deserialize :: "byte list \<Rightarrow> Value option"
  pe_display :: "Error \<Rightarrow> string"
  pe_parse_uuid :: "string \<Rightarrow> string option"
  pe_namespace :: "string \<Rightarrow> ns_error + (Error + 'c Connection)"

record grpc_request =
  gr_metadata :: metadata
  gr_bin_metadata :: "(string \<times> string option) list"
  gr_message :: ProgramReq

definition proxy_authenticate ::
  "'k jwt_decode \<Rightarrow> ('k, 'c) ProxyService \<Rightarrow> metadata \<Rightarrow> Status + Authenticated" where
  "proxy_authenticate decode svc md =
     (case ps_auth svc of
        Some auth \<Rightarrow> authenticate_grpc decode auth md
      | None \<Rightarrow> from_proxy_grpc_request md)"

text \<open>The connection of the client, made and remembered when it has none.\<close>

definition client_connection ::
  "(Error \<Rightarrow> string) \<Rightarrow> string \<Rightarrow> Error + 'c Connection \<Rightarrow> ('k, 'c) ProxyService
     \<Rightarrow> (Status + 'c Connection) \<times> ('k, 'c) ProxyService" where
  "client_connection display client_id made svc =
     (case ps_clients svc client_id of
        Some db \<Rightarrow> (Inr db, svc)
      | None \<Rightarrow>
          (case made of
             Inr db \<Rightarrow> (Inr db, svc\<lparr>ps_clients := (ps_clients svc)(client_id \<mapsto> db)\<rparr>)
           | Inl e \<Rightarrow> (Inl (Internal, display e), svc)))"

definition proxy_execute ::
  "'k jwt_decode \<Rightarrow> 'c sqlite \<Rightarrow> 'c proxy_env \<Rightarrow> nat \<Rightarrow> FrameNo \<Rightarrow> grpc_request \<Rightarrow> ('k, 'c) ProxyService
     \<Rightarrow> (Status + ExecuteResults) option \<times> ('k, 'c) ProxyService" where
  "proxy_execute decode sq env now notified req svc =
     (case proxy_authenticate decode svc (gr_metadata req) of
        Inl s \<Rightarrow> (Some (Inl s), svc)
      | Inr auth \<Rightarrow>
          (case extract_namespace (ps_disable_namespaces svc) (gr_bin_metadata req) of
             Inl s \<Rightarrow> (Some (Inl s), svc)
           | Inr namespace \<Rightarrow>
               (case pq_pgm (gr_message req) of
                  None \<Rightarrow> (None, svc)
                | Some steps \<Rightarrow>
                    (case program_of_rpc (pe_parser env) (pe_deserialize env) steps of
                       Inl e \<Rightarrow> (Some (Inl (InvalidArgument, e)), svc)
                     | Inr pgm \<Rightarrow>
                         (case pe_parse_uuid env (pq_client_id (gr_message req)) of
                            None \<Rightarrow> (None, svc)
                          | Some client_id \<Rightarrow>
                              (case pe_namespace env namespace of
                                 Inl e \<Rightarrow> (Some (Inl (status_of_ns_error e)), svc)
                               | Inr made \<Rightarrow>
                                   (case client_connection (pe_display env) client_id made svc of
                                      (Inl s, svc) \<Rightarrow> (Some (Inl s), svc)
                                    | (Inr db, svc) \<Rightarrow>
                                        (case libsql_execute_program sq
                                                (execute_feed (pe_serialize env) (pe_display env)) now pgm auth
                                                db execute_builder_default of
                                           (r, db) \<Rightarrow>
                                             (let svc = svc\<lparr>ps_clients := (ps_clients svc)(client_id \<mapsto> db)\<rparr>
                                              in case r of
                                                   Inl e \<Rightarrow> (Some (Inl (PermissionDenied, pe_display env e)), svc)
                                                 | Inr (b, state) \<Rightarrow>
                                                     (Some (Inr \<lparr> xr_results = er_results b,
                                                        xr_state = state_to_rpc state,
                                                        xr_current_frame_no = notified \<rparr>), svc))))))))))"

definition proxy_disconnect ::
  "'c proxy_env \<Rightarrow> string \<Rightarrow> ('k, 'c) ProxyService \<Rightarrow> ('k, 'c) ProxyService option" where
  "proxy_disconnect env client svc =
     (case pe_parse_uuid env client of
        None \<Rightarrow> None
      | Some client_id \<Rightarrow> Some (svc\<lparr>ps_clients := (ps_clients svc)(client_id := None)\<rparr>))"

section \<open>The connection of the replica\<close>

text \<open>
  The statistics are the ones the read connection updates too. The channel to
  the primary is a function from a request and a state of the world to the
  response and the next state. The frame number the replicator has applied is the sequence of
  values the watch channel holds, the current one first; its end is the end of
  the replicator.
\<close>

record 'c WriteProxyConnection =
  wp_read_conn :: "'c Connection"
  wp_state :: State
  wp_client_id :: string
  wp_last_write_frame_no :: FrameNo
  wp_builder_config :: QueryBuilderConfig
  wp_namespace :: string

type_synonym 'w channel = "grpc_request \<Rightarrow> 'w \<Rightarrow> (Status + ExecuteResults) \<times> 'w"

definition write_proxy_new ::
  "'c Connection \<Rightarrow> string \<Rightarrow> QueryBuilderConfig \<Rightarrow> string \<Rightarrow> 'c WriteProxyConnection" where
  "write_proxy_new read_conn client_id config namespace =
     \<lparr> wp_read_conn = read_conn, wp_state = InitState, wp_client_id = client_id,
       wp_last_write_frame_no = - 1, wp_builder_config = config, wp_namespace = namespace \<rparr>"

definition inc_write_requests_delegated :: "'c WriteProxyConnection \<Rightarrow> 'c WriteProxyConnection" where
  "inc_write_requests_delegated wp =
     (let c = wp_read_conn wp; st = cn_stats c
      in wp\<lparr>wp_read_conn := c\<lparr>cn_stats :=
           st\<lparr>ss_write_requests_delegated := ss_write_requests_delegated st + 1\<rparr>\<rparr>\<rparr>)"

definition update_last_write_frame_no :: "FrameNo \<Rightarrow> 'c WriteProxyConnection \<Rightarrow> 'c WriteProxyConnection" where
  "update_last_write_frame_no new wp =
     (if wp_last_write_frame_no wp = - 1 \<or> wp_last_write_frame_no wp < new
      then wp\<lparr>wp_last_write_frame_no := new\<rparr> else wp)"

definition remote_request ::
  "(Value \<Rightarrow> byte list) \<Rightarrow> Program \<Rightarrow> Authenticated \<Rightarrow> 'c WriteProxyConnection \<Rightarrow> grpc_request" where
  "remote_request serialize pgm auth wp =
     \<lparr> gr_metadata = upgrade_grpc_request auth [],
       gr_bin_metadata = [(''x-namespace-bin'', Some (wp_namespace wp))],
       gr_message = \<lparr> pq_client_id = wp_client_id wp, pq_pgm = Some (program_to_rpc serialize pgm) \<rparr> \<rparr>"

definition execute_remote ::
  "(Value \<Rightarrow> byte list) \<Rightarrow> (byte list \<Rightarrow> Value option) \<Rightarrow> 'w channel \<Rightarrow> 'b feed \<Rightarrow> Program \<Rightarrow> Authenticated
     \<Rightarrow> 'c WriteProxyConnection \<Rightarrow> 'w \<Rightarrow> 'b
     \<Rightarrow> (Error + 'b \<times> State) \<times> 'c WriteProxyConnection \<times> 'w" where
  "execute_remote serialize deserialize remote feed pgm auth wp w b =
     (let wp = inc_write_requests_delegated wp
      in case remote (remote_request serialize pgm auth wp) w of
           (Inr r, w) \<Rightarrow>
             (let state = state_of_rpc (xr_state r);
                  wp = wp\<lparr>wp_state := state\<rparr>
              in case execute_results_to_builder deserialize feed (wp_builder_config wp) (xr_results r) b of
                   Inl e \<Rightarrow> (Inl (BuilderError e), wp, w)
                 | Inr b \<Rightarrow>
                     (Inr (b, state), update_last_write_frame_no (xr_current_frame_no r) wp, w))
         | (Inl s, w) \<Rightarrow> (Inl (RpcQueryExecutionError s), wp\<lparr>wp_state := Invalid\<rparr>, w))"

text \<open>The loop of \<^verbatim>\<open>wait_replication_sync\<close>: the value it stops at.\<close>

fun wait_applied :: "FrameNo \<Rightarrow> FrameNo \<Rightarrow> FrameNo list \<Rightarrow> Error + FrameNo" where
  "wait_applied current last_applied [] =
     (if last_applied < current then Inl ReplicatorExited else Inr last_applied)"
| "wait_applied current last_applied (n # ns) =
     (if last_applied < current then wait_applied current n ns else Inr last_applied)"

definition wait_replication_sync ::
  "'c WriteProxyConnection \<Rightarrow> FrameNo \<times> FrameNo list \<Rightarrow> Error + FrameNo" where
  "wait_replication_sync wp applied =
     (if wp_last_write_frame_no wp = - 1 then Inr (fst applied)
      else wait_applied (wp_last_write_frame_no wp) (fst applied) (snd applied))"

text \<open>\<^verbatim>\<open>Connection::rollback\<close>; None is the panic of a parser that does not know \<^verbatim>\<open>ROLLBACK\<close>.\<close>

definition libsql_rollback ::
  "'c sqlite \<Rightarrow> sql_parser \<Rightarrow> nat \<Rightarrow> Authenticated \<Rightarrow> 'c Connection \<Rightarrow> (Error + unit) option \<times> 'c Connection" where
  "libsql_rollback sq p now auth c =
     (case rollback_query p of
        None \<Rightarrow> (None, c)
      | Some q \<Rightarrow>
          (case execute_batch sq ignore_result_feed now [q] auth c () of
             (Inl e, c) \<Rightarrow> (Some (Inl e), c)
           | (Inr _, c) \<Rightarrow> (Some (Inr ()), c)))"

definition proxy_execute_program ::
  "'c sqlite \<Rightarrow> 'c proxy_env \<Rightarrow> 'w channel \<Rightarrow> 'b feed \<Rightarrow> nat \<Rightarrow> FrameNo \<times> FrameNo list \<Rightarrow> Program \<Rightarrow> Authenticated
     \<Rightarrow> 'c WriteProxyConnection \<Rightarrow> 'w \<Rightarrow> 'b
     \<Rightarrow> (Error + 'b \<times> State) option \<times> 'c WriteProxyConnection \<times> 'w" where
  "proxy_execute_program sq env remote feed now applied pgm auth wp w b =
     (if wp_state wp = InitState \<and> program_is_read_only pgm
      then (case wait_replication_sync wp applied of
              Inl e \<Rightarrow> (Some (Inl e), wp, w)
            | Inr _ \<Rightarrow>
                (case libsql_execute_program sq feed now pgm auth (wp_read_conn wp) b of
                   (Inl e, c) \<Rightarrow> (Some (Inl e), wp\<lparr>wp_read_conn := c\<rparr>, w)
                 | (Inr (b, new_state), c) \<Rightarrow>
                     if new_state \<noteq> InitState
                     then (case libsql_rollback sq (pe_parser env) now auth c of
                             (None, c) \<Rightarrow> (None, wp\<lparr>wp_read_conn := c\<rparr>, w)
                           | (Some (Inl e), c) \<Rightarrow> (Some (Inl e), wp\<lparr>wp_read_conn := c\<rparr>, w)
                           | (Some (Inr _), c) \<Rightarrow>
                               (case execute_remote (pe_serialize env) (pe_deserialize env) remote feed pgm auth
                                       (wp\<lparr>wp_read_conn := c\<rparr>) w b of
                                  (r, wp, w) \<Rightarrow> (Some r, wp, w)))
                     else (Some (Inr (b, new_state)), wp\<lparr>wp_read_conn := c\<rparr>, w)))
      else (case execute_remote (pe_serialize env) (pe_deserialize env) remote feed pgm auth wp w b of
              (r, wp, w) \<Rightarrow> (Some r, wp, w)))"

definition proxy_describe ::
  "'c sqlite \<Rightarrow> nat \<Rightarrow> FrameNo \<times> FrameNo list \<Rightarrow> string \<Rightarrow> Authenticated \<Rightarrow> 'c WriteProxyConnection
     \<Rightarrow> (Error + DescribeResponse) \<times> 'c WriteProxyConnection" where
  "proxy_describe sq now applied sql auth wp =
     (case wait_replication_sync wp applied of
        Inl e \<Rightarrow> (Inl e, wp)
      | Inr _ \<Rightarrow>
          (case libsql_describe sq now sql auth (wp_read_conn wp) of
             (r, c) \<Rightarrow> (r, wp\<lparr>wp_read_conn := c\<rparr>)))"

definition proxy_is_autocommit :: "'c WriteProxyConnection \<Rightarrow> bool" where
  "proxy_is_autocommit wp =
     (case wp_state wp of Txn \<Rightarrow> False | InitState \<Rightarrow> True | Invalid \<Rightarrow> True)"

section \<open>Conversions are faithful\<close>

fun cond_small :: "Cond \<Rightarrow> bool" where
  "cond_small (CondOk step) = (step < 2 ^ 64)"
| "cond_small (CondErr step) = (step < 2 ^ 64)"
| "cond_small (CondNot c) = cond_small c"
| "cond_small (CondOr cs) = (\<forall>c\<in>set cs. cond_small c)"
| "cond_small (CondAnd cs) = (\<forall>c\<in>set cs. cond_small c)"
| "cond_small CondIsAutocommit = True"

text \<open>
  What a message can carry: step numbers are machine words, the names of
  parameters are the keys of a map, and the printed statement parses to itself.
\<close>

definition step_carried :: "sql_parser \<Rightarrow> Step \<Rightarrow> bool" where
  "step_carried p s \<longleftrightarrow>
     (case sp_cond s of None \<Rightarrow> True | Some c \<Rightarrow> cond_small c) \<and>
     (case q_params (sp_query s) of Named m \<Rightarrow> distinct (map fst m) | Positional _ \<Rightarrow> True) \<and>
     parse_statements p (st_stmt (q_stmt (sp_query s))) = [Inr (q_stmt (sp_query s))]"

lemma collect_results_map:
  "(\<And>x. x \<in> set xs \<Longrightarrow> f (g x) = Inr x) \<Longrightarrow> collect_results (map f (map g xs)) = Inr xs"
  by (induction xs) simp_all

lemma unat_small: "n < 2 ^ 64 \<Longrightarrow> unat (word_of_nat n :: u64) = n"
  by (simp add: unsigned_of_nat take_bit_nat_eq_self)

lemma cond_roundtrip: "cond_small c \<Longrightarrow> cond_of_rpc (cond_to_rpc c) = Inr c"
proof (induction c)
  case (CondOr cs)
  then have "collect_results (map cond_of_rpc (map cond_to_rpc cs)) = Inr cs"
    by (intro collect_results_map) simp
  then show ?case by simp
next
  case (CondAnd cs)
  then have "collect_results (map cond_of_rpc (map cond_to_rpc cs)) = Inr cs"
    by (intro collect_results_map) simp
  then show ?case by simp
qed (simp_all add: unat_small)

lemma update_distinct:
  "distinct (map fst (ys @ xs)) \<Longrightarrow> fold (\<lambda>(k, v). AList.update k v) xs ys = ys @ xs"
proof (induction xs arbitrary: ys)
  case (Cons x xs)
  have new: "k \<notin> fst ` set ys \<Longrightarrow> AList.update k v ys = ys @ [(k, v)]" for k v
    by (induction ys) auto
  obtain k v where x: "x = (k, v)" by (cases x)
  have "k \<notin> fst ` set ys" using Cons.prems x by auto
  then show ?case using Cons.IH [of "ys @ [x]"] Cons.prems new [of k v] x by simp
qed simp

lemma params_roundtrip:
  assumes "\<And>v. deserialize (serialize v) = Some v"
    and "case ps of Named m \<Rightarrow> distinct (map fst m) | Positional _ \<Rightarrow> True"
  shows "params_of_rpc deserialize (params_to_rpc serialize ps) = Inr ps"
proof -
  have decode: "collect_results (map (decode_value deserialize) (map serialize vs)) = Inr vs" for vs
    using assms(1) by (intro collect_results_map) (simp add: decode_value_def)
  show ?thesis
  proof (cases ps)
    case (Named m)
    have "zip (map fst m) (map snd m) = m" by (induction m) auto
    then show ?thesis
      using Named assms(2) decode [of "map snd m"] update_distinct [of "[]" m]
      by (simp add: comp_def)
  next
    case (Positional vs)
    then show ?thesis using decode [of vs] by simp
  qed
qed

lemma step_roundtrip:
  assumes "\<And>v. deserialize (serialize v) = Some v" "step_carried p s"
  shows "step_of_rpc p deserialize (step_to_rpc serialize s) = Inr s"
  using assms(2) params_roundtrip [of deserialize serialize "q_params (sp_query s)", OF assms(1)]
  by (cases "sp_cond s")
    (auto simp: step_carried_def step_of_rpc_def step_to_rpc_def query_of_rpc_def query_to_rpc_def
      cond_roundtrip)

lemma program_roundtrip:
  assumes "\<And>v. deserialize (serialize v) = Some v" "list_all (step_carried p) pgm"
  shows "program_of_rpc p deserialize (program_to_rpc serialize pgm) = Inr pgm"
  unfolding program_of_rpc_def program_to_rpc_def
  by (rule collect_results_map) (use step_roundtrip [OF assms(1)] assms(2) in \<open>auto simp: list_all_iff\<close>)

section \<open>Remote execution\<close>

text \<open>A channel to a service of the primary; a panic there is an error of the transport.\<close>

definition service_channel ::
  "'k jwt_decode \<Rightarrow> 'c sqlite \<Rightarrow> 'c proxy_env \<Rightarrow> nat \<Rightarrow> FrameNo \<Rightarrow> ('k, 'c) ProxyService channel" where
  "service_channel decode sq env now notified req svc =
     (case proxy_execute decode sq env now notified req svc of
        (None, svc) \<Rightarrow> (Inl (Internal, ''connection error''), svc)
      | (Some r, svc) \<Rightarrow> (r, svc))"

text \<open>The client and the service agree: the service trusts the proxy and knows the client.\<close>

definition serves ::
  "'c proxy_env \<Rightarrow> ('k, 'c) ProxyService \<Rightarrow> 'd WriteProxyConnection \<Rightarrow> string \<Rightarrow> 'c Connection \<Rightarrow> bool" where
  "serves env svc wp client_id db \<longleftrightarrow>
     ps_auth svc = None \<and> \<not> ps_disable_namespaces svc \<and>
     pe_parse_uuid env (wp_client_id wp) = Some client_id \<and>
     (\<exists>made. pe_namespace env (wp_namespace wp) = Inr made \<and>
        (ps_clients svc client_id = Some db \<or> ps_clients svc client_id = None \<and> made = Inr db))"

lemma proxy_auth_header:
  "from_proxy_grpc_request (upgrade_grpc_request auth []) = Inr auth"
  by (cases auth; simp add: from_proxy_grpc_request_def upgrade_grpc_request_def header_to_str_def
      split: Authorized.splits)

lemma service_channel_runs:
  assumes rt: "\<And>v. pe_deserialize env (pe_serialize env v) = Some v"
    and pgm: "list_all (step_carried (pe_parser env)) pgm" and serves: "serves env svc wp client_id db"
    and run: "libsql_execute_program sq (execute_feed (pe_serialize env) (pe_display env)) now pgm auth db
      execute_builder_default = (r, db')"
  shows "service_channel decode sq env now notified (remote_request (pe_serialize env) pgm auth wp) svc =
    (case r of
       Inl e \<Rightarrow> Inl (PermissionDenied, pe_display env e)
     | Inr (b, st) \<Rightarrow> Inr \<lparr> xr_results = er_results b, xr_state = state_to_rpc st,
         xr_current_frame_no = notified \<rparr>,
     svc\<lparr>ps_clients := (ps_clients svc)(client_id \<mapsto> db')\<rparr>)"
proof -
  obtain made where made: "pe_namespace env (wp_namespace wp) = Inr made"
    "ps_clients svc client_id = Some db \<or> ps_clients svc client_id = None \<and> made = Inr db"
    using serves by (auto simp: serves_def)
  obtain svc' where svc': "client_connection (pe_display env) client_id made svc = (Inr db, svc')"
    "svc'\<lparr>ps_clients := (ps_clients svc')(client_id \<mapsto> db')\<rparr> =
     svc\<lparr>ps_clients := (ps_clients svc)(client_id \<mapsto> db')\<rparr>"
    using made(2) by (auto simp: client_connection_def)
  show ?thesis
    using serves made(1) svc' run program_roundtrip [OF rt pgm]
    by (cases r)
      (auto simp: service_channel_def proxy_execute_def proxy_authenticate_def remote_request_def
        proxy_auth_header extract_namespace_def serves_def Let_def)
qed


definition sample_env :: "(bool \<times> nat) proxy_env" where
  "sample_env =
     \<lparr> pe_parser = sample_parser, pe_serialize = sample_serialize, pe_deserialize = sample_deserialize,
       pe_display = (\<lambda>e. ''error''), pe_parse_uuid = Some,
       pe_namespace = (\<lambda>ns. Inr (Inr (sample_connection\<lparr>cn_conn := (False, 0)\<rparr>))) \<rparr>"

definition sample_service :: "(unit, bool \<times> nat) ProxyService" where
  "sample_service = \<lparr> ps_clients = Map.empty, ps_auth = None, ps_disable_namespaces = False \<rparr>"

definition sample_proxy :: "(bool \<times> nat) WriteProxyConnection" where
  "sample_proxy = write_proxy_new sample_connection ''client'' (cn_builder_config sample_connection) ''default''"

lemma proxied_legal: "step_legal (proxied display st)"
  by (cases st) simp_all

text \<open>The evaluation of a run on the small engine.\<close>

lemmas sample_run_defs =
  libsql_execute_program_def wait_request_def connection_run_def execute_step_def step_cond_def
  execute_query_def finish_step_def stmt_blocked_def params_bind_def params_empty_def params_len_def
  get_step_res_def step_results_new_def


section \<open>Reads see the own writes\<close>

text \<open>The frame numbers the primary reported to a connection, folded into its state.\<close>

definition note_writes :: "FrameNo list \<Rightarrow> 'c WriteProxyConnection \<Rightarrow> 'c WriteProxyConnection" where
  "note_writes fs wp = fold update_last_write_frame_no fs wp"

lemma note_writes_Cons: "note_writes (f # fs) wp = note_writes fs (update_last_write_frame_no f wp)"
  by (simp add: note_writes_def)

lemma note_write:
  assumes "f \<noteq> - 1"
  shows "f \<le> wp_last_write_frame_no (update_last_write_frame_no f wp)"
    and "wp_last_write_frame_no (update_last_write_frame_no f wp) \<noteq> - 1"
    and "wp_last_write_frame_no wp \<noteq> - 1 \<Longrightarrow>
      wp_last_write_frame_no wp \<le> wp_last_write_frame_no (update_last_write_frame_no f wp)"
  using assms by (auto simp: update_last_write_frame_no_def not_less)

lemma note_writes_grow:
  "wp_last_write_frame_no wp \<noteq> - 1 \<Longrightarrow> - 1 \<notin> set fs \<Longrightarrow>
   wp_last_write_frame_no wp \<le> wp_last_write_frame_no (note_writes fs wp) \<and>
   wp_last_write_frame_no (note_writes fs wp) \<noteq> - 1"
proof (induction fs arbitrary: wp)
  case (Cons g fs)
  have g: "g \<noteq> - 1" "- 1 \<notin> set fs" using Cons.prems(2) by auto
  show ?case
    using Cons.IH [OF note_write(2) [OF g(1)] g(2), of wp] note_write(3) [OF g(1) Cons.prems(1)]
    unfolding note_writes_Cons by (meson order_trans)
qed (simp add: note_writes_def)

lemma note_writes_max:
  "- 1 \<notin> set fs \<Longrightarrow> f \<in> set fs \<Longrightarrow>
   f \<le> wp_last_write_frame_no (note_writes fs wp) \<and>
   wp_last_write_frame_no (note_writes fs wp) \<noteq> - 1"
proof (induction fs arbitrary: wp)
  case (Cons g fs)
  have g: "g \<noteq> - 1" "- 1 \<notin> set fs" using Cons.prems(1) by auto
  show ?case
  proof (cases "f \<in> set fs")
    case True
    then show ?thesis using Cons.IH [OF g(2)] unfolding note_writes_Cons by blast
  next
    case False
    then have "f = g" using Cons.prems(2) by simp
    then show ?thesis
      using note_writes_grow [OF note_write(2) [OF g(1)] g(2), of wp] note_write(1) [OF g(1), of wp]
      unfolding note_writes_Cons by (meson order_trans)
  qed
qed simp

lemma wait_applied_reaches: "wait_applied f a as = Inr n \<Longrightarrow> f \<le> n \<and> n \<in> set (a # as)"
  by (induction f a as rule: wait_applied.induct) (auto split: if_splits)

lemma wait_applied_total: "\<exists>n\<in>set (a # as). f \<le> n \<Longrightarrow> \<exists>n. wait_applied f a as = Inr n"
  by (induction f a as rule: wait_applied.induct) auto



text \<open>
  A local read that the builder refuses can leave its transaction open: after a program
  of a \<^verbatim>\<open>BEGIN\<close> and a failing statement whose error does not fit into the response,
  the replica's connection stays in the transaction while its state still says
  that there is none, and no deadline will end it, so that later reads of this connection
  are answered inside it.
\<close>

theorem failed_local_read_leaves_transaction:
  "\<exists>wp'. proxy_execute_program sample_sqlite sample_env remote
       (execute_feed sample_serialize (\<lambda>e. ''error'')) 0 (0, [])
       [\<lparr> sp_cond = None, sp_query = sample_query TxnBegin ''BEGIN'' \<rparr>,
        \<lparr> sp_cond = None, sp_query = sample_query Read ''BAD'' \<rparr>] (Authorized ReadOnly)
       (sample_proxy\<lparr>wp_read_conn := sample_connection\<lparr>cn_builder_config :=
          \<lparr> qc_max_size = Some 1, qc_max_total_size = None, qc_auto_checkpoint = 0 \<rparr>\<rparr>\<rparr>) w
       execute_builder_default =
     (Some (Inl (BuilderError (ResponseTooLarge 1))), wp', w) \<and>
   wp_state wp' = InitState \<and> proxy_is_autocommit wp' \<and>
   \<not> sq_autocommit sample_sqlite (cn_conn (wp_read_conn wp')) \<and>
   cn_timeout_deadline (wp_read_conn wp') = None"
  by (simp add: proxy_execute_program_def program_is_read_only_def stmt_is_read_only_def
      wait_replication_sync_def sample_run_defs sample_defs sample_proxy_def write_proxy_new_def
      execute_builder_default_def proxy_is_autocommit_def Let_def)

end
