(* ===== verification/JsonBuilder.thy ===== *)
theory JsonBuilder
  imports ResultBuilder
begin

text \<open>
  \<^verbatim>\<open>sqld/src/http/result_builder.rs\<close>: the builder that writes the response of the HTTP
  API as JSON text into a buffer of bounded size, with the writing helpers of
  \<^verbatim>\<open>JsonFormatter\<close> (\<^verbatim>\<open>query_result_builder.rs\<close>). All buffers of the process share
  one counter of bytes. The JSON library is an argument: what it writes for
  each piece of syntax and each scalar, as the sequence of its writes.
\<close>

section \<open>The buffer\<close>

record LimitBuffer =
  lb_buffer :: string
  lb_limit :: u64
  lb_global_limit :: u64

definition limit_buffer_new :: "u64 \<Rightarrow> u64 \<Rightarrow> LimitBuffer" where
  "limit_buffer_new limit global_limit =
     \<lparr> lb_buffer = [], lb_limit = limit, lb_global_limit = global_limit \<rparr>"

definition word_length :: "string \<Rightarrow> u64" where
  "word_length s = word_of_nat (length s)"

text \<open>
  One call of \<^verbatim>\<open>write\<close>, on the counter and a buffer: the limit it exceeds, if any. The counter
  is increased in any case.
\<close>

definition limit_write :: "string \<Rightarrow> u64 \<times> LimitBuffer \<Rightarrow> u64 option \<times> u64 \<times> LimitBuffer" where
  "limit_write s tb =
     (case tb of (count, buf) \<Rightarrow>
        let count = count + word_length s
        in if lb_global_limit buf < count then (Some (lb_global_limit buf), count, buf)
           else if lb_limit buf < word_length (lb_buffer buf) + word_length s
           then (Some (lb_limit buf), count, buf)
           else (None, count, buf\<lparr>lb_buffer := lb_buffer buf @ s\<rparr>))"

text \<open>Dropping a buffer, or taking its contents, gives its bytes back.\<close>

definition limit_drop :: "u64 \<Rightarrow> LimitBuffer \<Rightarrow> u64" where
  "limit_drop count buf = count - word_length (lb_buffer buf)"

section \<open>The JSON library\<close>

record json_lib =
  jl_begin_array :: "string list"
  jl_end_array :: "string list"
  jl_begin_array_value :: "bool \<Rightarrow> string list"
  jl_end_array_value :: "string list"
  jl_begin_object :: "string list"
  jl_end_object :: "string list"
  jl_begin_object_key :: "bool \<Rightarrow> string list"
  jl_end_object_key :: "string list"
  jl_begin_object_value :: "string list"
  jl_end_object_value :: "string list"
  jl_null :: "string list"
  jl_str :: "string \<Rightarrow> string list"
  jl_i64 :: "i64 \<Rightarrow> string list"
  jl_f64 :: "f64 \<Rightarrow> string list"
  jl_base64 :: "byte list \<Rightarrow> string"

text \<open>
  A write goes through the formatter itself, and its error is the limit, or through a
  helper of \<^verbatim>\<open>JsonFormatter\<close>, which wraps the error.
\<close>

datatype json_write = Direct string | Wrapped string

definition direct :: "string list \<Rightarrow> json_write list" where
  "direct = map Direct"

definition wrapped :: "string list \<Rightarrow> json_write list" where
  "wrapped = map Wrapped"

definition serialize_key :: "json_lib \<Rightarrow> string \<Rightarrow> bool \<Rightarrow> json_write list" where
  "serialize_key lib key first =
     wrapped (jl_begin_object_key lib first @ jl_str lib key @ jl_end_object_key lib)"

definition serialize_value :: "json_lib \<Rightarrow> string list \<Rightarrow> json_write list" where
  "serialize_value lib v = wrapped (jl_begin_object_value lib @ v @ jl_end_object_value lib)"

definition serialize_key_value :: "json_lib \<Rightarrow> string \<Rightarrow> string list \<Rightarrow> bool \<Rightarrow> json_write list" where
  "serialize_key_value lib k v first = serialize_key lib k first @ serialize_value lib v"

definition serialize_array_value :: "json_lib \<Rightarrow> string list \<Rightarrow> bool \<Rightarrow> json_write list" where
  "serialize_array_value lib v first =
     wrapped (jl_begin_array_value lib first @ v @ jl_end_array_value lib)"

fun serialize_items :: "json_lib \<Rightarrow> bool \<Rightarrow> string list list \<Rightarrow> json_write list" where
  "serialize_items lib first [] = []"
| "serialize_items lib first (v # vs) =
     serialize_array_value lib v first @ serialize_items lib False vs"

definition serialize_array_iter :: "json_lib \<Rightarrow> string list list \<Rightarrow> json_write list" where
  "serialize_array_iter lib vs =
     wrapped (jl_begin_array lib) @ serialize_items lib True vs @ wrapped (jl_end_array lib)"

text \<open>A value of a row; \<^const>\<open>None\<close> is the panic of a text that is not UTF-8.\<close>

fun json_value :: "json_lib \<Rightarrow> ValueRef \<Rightarrow> string list option" where
  "json_value lib RefNull = Some (jl_null lib)"
| "json_value lib (RefInteger i) = Some (jl_i64 lib i)"
| "json_value lib (RefReal x) = Some (jl_f64 lib x)"
| "json_value lib (RefText t) = (if utf8_valid t then Some (jl_str lib (string_of_bytes t)) else None)"
| "json_value lib (RefBlob b) =
     Some (jl_begin_object lib @ jl_begin_object_key lib True @ jl_str lib ''base64'' @
       jl_end_object_key lib @ jl_begin_object_value lib @ jl_str lib (jl_base64 lib b) @
       jl_end_object_value lib @ jl_end_object lib)"

section \<open>The builder\<close>

text \<open>The builder, and first the counter of the process.\<close>

record JsonHttpPayloadBuilder =
  jb_total :: u64
  jb_buffer :: LimitBuffer
  jb_checkpoint :: nat
  jb_step_count :: nat
  jb_row_value_count :: nat
  jb_step_row_count :: nat
  jb_is_step_error :: bool
  jb_is_step_empty :: bool

definition json_builder_new :: "u64 \<Rightarrow> LimitBuffer \<Rightarrow> JsonHttpPayloadBuilder" where
  "json_builder_new count buf =
     \<lparr> jb_total = count, jb_buffer = buf, jb_checkpoint = 0, jb_step_count = 0,
       jb_row_value_count = 0, jb_step_row_count = 0, jb_is_step_error = False,
       jb_is_step_empty = False \<rparr>"

type_synonym json_result = "QueryResultBuilderError option \<times> JsonHttpPayloadBuilder"

fun json_writes :: "json_write list \<Rightarrow> JsonHttpPayloadBuilder \<Rightarrow> json_result" where
  "json_writes [] b = (None, b)"
| "json_writes (w # ws) b =
     (case limit_write (case w of Direct s \<Rightarrow> s | Wrapped s \<Rightarrow> s) (jb_total b, jb_buffer b) of
        (Some n, count, buf) \<Rightarrow>
          (Some (case w of
                   Direct _ \<Rightarrow> ResponseTooLarge n
                 | Wrapped _ \<Rightarrow> BuilderInternal ''response too large''),
           b\<lparr>jb_total := count, jb_buffer := buf\<rparr>)
      | (None, count, buf) \<Rightarrow> json_writes ws (b\<lparr>jb_total := count, jb_buffer := buf\<rparr>))"

definition json_truncate :: "JsonHttpPayloadBuilder \<Rightarrow> JsonHttpPayloadBuilder" where
  "json_truncate b =
     b\<lparr>jb_buffer := (jb_buffer b)\<lparr>lb_buffer := take (jb_checkpoint b) (lb_buffer (jb_buffer b))\<rparr>\<rparr>"

text \<open>Further work on the builder when the writes before it succeeded.\<close>

definition json_then :: "json_result \<Rightarrow> (JsonHttpPayloadBuilder \<Rightarrow> json_result) \<Rightarrow> json_result" where
  "json_then r f = (case r of (None, b) \<Rightarrow> f b | (Some e, b) \<Rightarrow> (Some e, b))"

fun json_event :: "json_lib \<Rightarrow> (Error \<Rightarrow> string) \<Rightarrow> event \<Rightarrow> JsonHttpPayloadBuilder \<Rightarrow> json_result" where
  "json_event lib display (EvInit config) b =
     (let buf = limit_buffer_new (case qc_max_size config of Some n \<Rightarrow> n | None \<Rightarrow> - 1)
                  (case qc_max_total_size config of Some n \<Rightarrow> n | None \<Rightarrow> - 1)
      in json_writes (direct (jl_begin_array lib))
           (json_builder_new (limit_drop (jb_total b) (jb_buffer b)) buf))"
| "json_event lib display BeginStep b =
     json_then
       (json_writes (direct (jl_begin_array_value lib (jb_step_count b = 0)))
          (b\<lparr>jb_is_step_empty := True, jb_is_step_error := False\<rparr>))
       (\<lambda>b. json_writes
          (direct (jl_begin_object lib) @ serialize_key lib ''results'' True @
           direct (jl_begin_object_value lib) @ direct (jl_begin_object lib))
          (b\<lparr>jb_checkpoint := length (lb_buffer (jb_buffer b))\<rparr>))"
| "json_event lib display (FinishStep n r) b =
     json_then
       (if jb_is_step_empty b \<and> \<not> jb_is_step_error b
        then json_writes (direct (jl_null lib)) (json_truncate b)
        else if jb_is_step_error b then json_writes (direct (jl_end_object lib)) b
        else json_writes (direct (jl_end_object lib @ jl_end_object lib)) b)
       (\<lambda>b. json_then (json_writes (direct (jl_end_array_value lib)) b)
          (\<lambda>b. (None, b\<lparr>jb_step_count := jb_step_count b + 1\<rparr>)))"
| "json_event lib display (StepError e) b =
     json_writes
       (direct (jl_begin_object lib) @ serialize_key_value lib ''error'' (jl_str lib (display e)) True)
       (json_truncate (b\<lparr>jb_is_step_error := True, jb_is_step_empty := False\<rparr>))"
| "json_event lib display (ColsDescription cols) b =
     (if jb_is_step_error b then (Some BuilderPanicked, b)
      else json_writes
             (serialize_key lib ''columns'' True @ direct (jl_begin_object_value lib) @
              serialize_array_iter lib (map (\<lambda>c. jl_str lib (col_name c)) cols) @
              direct (jl_end_object_value lib))
             (b\<lparr>jb_is_step_empty := False\<rparr>))"
| "json_event lib display BeginRows b =
     (if jb_is_step_error b then (Some BuilderPanicked, b)
      else json_writes
             (serialize_key lib ''rows'' False @ direct (jl_begin_object_value lib) @
              direct (jl_begin_array lib))
             (b\<lparr>jb_step_row_count := 0\<rparr>))"
| "json_event lib display BeginRow b =
     (if jb_is_step_error b then (Some BuilderPanicked, b\<lparr>jb_row_value_count := 0\<rparr>)
      else json_writes
             (direct (jl_begin_array_value lib (jb_step_row_count b = 0)) @ direct (jl_begin_array lib))
             (b\<lparr>jb_row_value_count := 0\<rparr>))"
| "json_event lib display (AddRowValue v) b =
     (if jb_is_step_error b then (Some BuilderPanicked, b)
      else (case json_value lib v of
              None \<Rightarrow> (Some BuilderPanicked, b)
            | Some s \<Rightarrow>
                json_then (json_writes (serialize_array_value lib s (jb_row_value_count b = 0)) b)
                  (\<lambda>b. (None, b\<lparr>jb_row_value_count := jb_row_value_count b + 1\<rparr>))))"
| "json_event lib display FinishRow b =
     (if jb_is_step_error b then (Some BuilderPanicked, b)
      else json_writes (direct (jl_end_array lib) @ direct (jl_end_array_value lib))
             (b\<lparr>jb_step_row_count := jb_step_row_count b + 1\<rparr>))"
| "json_event lib display FinishRows b =
     (if jb_is_step_error b then (Some BuilderPanicked, b)
      else json_writes (direct (jl_end_array lib) @ direct (jl_end_object_value lib)) b)"
| "json_event lib display Finish b = json_writes (direct (jl_end_array lib)) b"

definition json_feed :: "json_lib \<Rightarrow> (Error \<Rightarrow> string) \<Rightarrow> JsonHttpPayloadBuilder feed" where
  "json_feed lib display e b =
     (case json_event lib display e b of (None, b) \<Rightarrow> Inr b | (Some err, _) \<Rightarrow> Inl err)"

text \<open>Taking the text out: the counter afterwards and the text.\<close>

definition json_into_ret :: "JsonHttpPayloadBuilder \<Rightarrow> u64 \<times> string" where
  "json_into_ret b = (limit_drop (jb_total b) (jb_buffer b), lb_buffer (jb_buffer b))"

section \<open>What the builder writes\<close>

definition emit :: "string \<Rightarrow> JsonHttpPayloadBuilder \<Rightarrow> JsonHttpPayloadBuilder" where
  "emit s b = b\<lparr>jb_total := jb_total b + word_length s,
     jb_buffer := (jb_buffer b)\<lparr>lb_buffer := lb_buffer (jb_buffer b) @ s\<rparr>\<rparr>"

abbreviation json_text :: "JsonHttpPayloadBuilder \<Rightarrow> string" where
  "json_text b \<equiv> lb_buffer (jb_buffer b)"

fun write_text :: "json_write \<Rightarrow> string" where
  "write_text (Direct s) = s"
| "write_text (Wrapped s) = s"

definition writes_text :: "json_write list \<Rightarrow> string" where
  "writes_text ws = concat (map write_text ws)"

lemma writes_text_simps [simp]:
  "writes_text [] = []"
  "writes_text (ws @ ws') = writes_text ws @ writes_text ws'"
  "writes_text (direct ss) = concat ss"
  "writes_text (wrapped ss) = concat ss"
  by (simp_all add: writes_text_def direct_def wrapped_def comp_def)

lemma word_length_append [simp]: "word_length (s @ t) = word_length s + word_length t"
  by (simp add: word_length_def)

lemma word_length_simps [simp]: "word_length [] = 0" "word_length (c # s) = 1 + word_length s"
  by (simp_all add: word_length_def)

lemma emit_simps [simp]:
  "json_text (emit s b) = json_text b @ s"
  "jb_checkpoint (emit s b) = jb_checkpoint b" "jb_step_count (emit s b) = jb_step_count b"
  "jb_row_value_count (emit s b) = jb_row_value_count b"
  "jb_step_row_count (emit s b) = jb_step_row_count b"
  "jb_is_step_error (emit s b) = jb_is_step_error b" "jb_is_step_empty (emit s b) = jb_is_step_empty b"
  "jb_total (emit s b) = jb_total b + word_length s"
  by (simp_all add: emit_def)

lemma emit_emit: "emit t (emit s b) = emit (s @ t) b"
  by (simp add: emit_def algebra_simps)

lemma json_writes_ok: "json_writes ws b = (None, b') \<Longrightarrow> b' = emit (writes_text ws) b"
proof (induction ws arbitrary: b)
  case Nil
  then show ?case by (simp add: emit_def)
next
  case (Cons w ws)
  obtain r n buf where w: "limit_write (write_text w) (jb_total b, jb_buffer b) = (r, n, buf)"
    by (metis prod_cases3)
  have step: "(case w of Direct s \<Rightarrow> s | Wrapped s \<Rightarrow> s) = write_text w" by (cases w) simp_all
  have "r = None" using Cons.prems w by (auto simp: step split: option.splits)
  then have "b\<lparr>jb_total := n, jb_buffer := buf\<rparr> = emit (write_text w) b"
    using w by (auto simp: limit_write_def emit_def Let_def split: if_splits)
  then have "json_writes ws (emit (write_text w) b) = (None, b')"
    using Cons.prems w \<open>r = None\<close> by (simp add: step)
  from Cons.IH [OF this] show ?case by (simp add: emit_emit writes_text_def)
qed

lemma json_then_ok:
  "json_then r f = (None, b') \<longleftrightarrow> (\<exists>b1. r = (None, b1) \<and> f b1 = (None, b'))"
  by (auto simp: json_then_def split: prod.splits option.splits)

lemma json_feed_ok: "json_feed lib display e b = Inr b' \<longleftrightarrow> json_event lib display e b = (None, b')"
  by (auto simp: json_feed_def split: prod.splits option.splits)

text \<open>What serde_json documents of its compact formatter.\<close>

definition quoted :: "string \<Rightarrow> string" where
  "quoted s = CHR 0x22 # s @ [CHR 0x22]"

definition compact_json :: "json_lib \<Rightarrow> bool" where
  "compact_json lib \<longleftrightarrow>
     concat (jl_begin_array lib) = ''['' \<and> concat (jl_end_array lib) = '']'' \<and>
     (\<forall>first. concat (jl_begin_array_value lib first) = (if first then [] else '','')) \<and>
     concat (jl_end_array_value lib) = [] \<and>
     concat (jl_begin_object lib) = ''{'' \<and> concat (jl_end_object lib) = ''}'' \<and>
     (\<forall>first. concat (jl_begin_object_key lib first) = (if first then [] else '','')) \<and>
     concat (jl_end_object_key lib) = [] \<and>
     concat (jl_begin_object_value lib) = '':'' \<and> concat (jl_end_object_value lib) = [] \<and>
     concat (jl_null lib) = ''null'' \<and>
     (\<forall>k\<in>{''results'', ''columns'', ''rows'', ''error''}. concat (jl_str lib k) = quoted k)"

lemma compactD:
  assumes "compact_json lib"
  shows "concat (jl_begin_array lib) = ''[''" "concat (jl_end_array lib) = '']''"
    "concat (jl_begin_array_value lib first) = (if first then [] else '','')"
    "concat (jl_end_array_value lib) = []"
    "concat (jl_begin_object lib) = ''{''" "concat (jl_end_object lib) = ''}''"
    "concat (jl_begin_object_key lib first) = (if first then [] else '','')"
    "concat (jl_end_object_key lib) = []"
    "concat (jl_begin_object_value lib) = '':''" "concat (jl_end_object_value lib) = []"
    "concat (jl_null lib) = ''null''"
    "concat (jl_str lib ''results'') = quoted ''results''"
    "concat (jl_str lib ''columns'') = quoted ''columns''"
    "concat (jl_str lib ''rows'') = quoted ''rows''"
    "concat (jl_str lib ''error'') = quoted ''error''"
  using assms unfolding compact_json_def by blast+

fun joined :: "bool \<Rightarrow> string list \<Rightarrow> string" where
  "joined first [] = []"
| "joined first (s # ss) = (if first then [] else '','') @ s @ joined False ss"

definition json_array :: "string list \<Rightarrow> string" where
  "json_array ss = ''['' @ joined True ss @ '']''"

definition json_row :: "json_lib \<Rightarrow> ValueRef list \<Rightarrow> string" where
  "json_row lib vs = json_array (map (\<lambda>v. concat (the (json_value lib v))) vs)"

fun json_step :: "json_lib \<Rightarrow> (Error \<Rightarrow> string) \<Rightarrow> step_run \<Rightarrow> string" where
  "json_step lib display Skipped = ''null''"
| "json_step lib display (Ran cols rows n r) =
     ''{'' @ quoted ''results'' @ '':{'' @
       quoted ''columns'' @ '':'' @ json_array (map (\<lambda>c. concat (jl_str lib (col_name c))) cols) @ '','' @
       quoted ''rows'' @ '':'' @ json_array (map (json_row lib) rows) @ ''}}''"
| "json_step lib display (FailedAfter es e) =
     ''{'' @ quoted ''error'' @ '':'' @ concat (jl_str lib (display e)) @ ''}''"

text \<open>The whole response of a run.\<close>

definition json_response :: "json_lib \<Rightarrow> (Error \<Rightarrow> string) \<Rightarrow> step_run list \<Rightarrow> string" where
  "json_response lib display steps = json_array (map (json_step lib display) steps)"

lemma joined_append:
  "joined first (ss @ [s]) = joined first ss @ (if first \<and> ss = [] then [] else '','') @ s"
  by (induction ss arbitrary: first) auto

lemma writes_items: "compact_json lib \<Longrightarrow> writes_text (serialize_items lib first vs) = joined first (map concat vs)"
  by (induction vs arbitrary: first) (auto simp: serialize_array_value_def compactD)

lemma writes_array: "compact_json lib \<Longrightarrow> writes_text (serialize_array_iter lib vs) = json_array (map concat vs)"
  by (simp add: serialize_array_iter_def writes_items json_array_def compactD)

text \<open>The builder wrote a text and is still in the same step.\<close>

definition wrote :: "string \<Rightarrow> JsonHttpPayloadBuilder \<Rightarrow> JsonHttpPayloadBuilder \<Rightarrow> bool" where
  "wrote s b b' \<longleftrightarrow>
     json_text b' = json_text b @ s \<and> jb_total b' = jb_total b + word_length s \<and>
     jb_checkpoint b' = jb_checkpoint b \<and> jb_step_count b' = jb_step_count b \<and>
     jb_is_step_error b' = jb_is_step_error b"

lemma wrote_trans: "wrote s b b1 \<Longrightarrow> wrote t b1 b2 \<Longrightarrow> wrote (s @ t) b b2"
  by (simp add: wrote_def)

lemma wrote_Nil: "wrote [] b b"
  by (simp add: wrote_def)

lemma wrote_writes:
  "json_writes ws b = (None, b') \<Longrightarrow>
   wrote (writes_text ws) b b' \<and> jb_is_step_empty b' = jb_is_step_empty b \<and>
   jb_row_value_count b' = jb_row_value_count b \<and> jb_step_row_count b' = jb_step_row_count b"
  by (drule json_writes_ok) (simp add: wrote_def)

lemma json_AddRowValue:
  assumes "compact_json lib" "json_feed lib display (AddRowValue v) b = Inr b'"
  shows "wrote ((if jb_row_value_count b = 0 then [] else '','') @ concat (the (json_value lib v))) b b'"
    and "jb_row_value_count b' = jb_row_value_count b + 1" "jb_step_row_count b' = jb_step_row_count b"
    and "jb_is_step_empty b' = jb_is_step_empty b"
proof -
  obtain s b1 where s: "json_value lib v = Some s"
    "json_writes (serialize_array_value lib s (jb_row_value_count b = 0)) b = (None, b1)"
    "b' = b1\<lparr>jb_row_value_count := jb_row_value_count b1 + 1\<rparr>"
    using assms(2) by (auto simp: json_feed_ok json_then_ok split: if_splits option.splits)
  note w = wrote_writes [OF s(2)]
  show "wrote ((if jb_row_value_count b = 0 then [] else '','') @ concat (the (json_value lib v))) b b'"
    using w s(1,3) assms(1) by (simp add: wrote_def serialize_array_value_def compactD [OF assms(1)])
  show "jb_row_value_count b' = jb_row_value_count b + 1" "jb_step_row_count b' = jb_step_row_count b"
    "jb_is_step_empty b' = jb_is_step_empty b"
    using w s(3) by simp_all
qed

lemma json_values:
  assumes "compact_json lib"
  shows "feed_all (json_feed lib display) (map AddRowValue vs) b = Inr b' \<Longrightarrow>
    wrote (joined (jb_row_value_count b = 0) (map (\<lambda>v. concat (the (json_value lib v))) vs)) b b' \<and>
    jb_step_row_count b' = jb_step_row_count b \<and> jb_is_step_empty b' = jb_is_step_empty b"
proof (induction vs arbitrary: b)
  case (Cons v vs)
  obtain b1 where b1: "json_feed lib display (AddRowValue v) b = Inr b1"
    "feed_all (json_feed lib display) (map AddRowValue vs) b1 = Inr b'"
    using Cons.prems by (auto split: sum.splits)
  note v = json_AddRowValue [OF assms b1(1)]
  show ?case
    using Cons.IH [OF b1(2)] v wrote_trans [OF v(1)] by simp
qed (simp add: wrote_Nil)

lemma json_row_events:
  assumes "compact_json lib" "feed_all (json_feed lib display) (row_events vs) b = Inr b'"
  shows "wrote ((if jb_step_row_count b = 0 then [] else '','') @ json_row lib vs) b b' \<and>
    jb_step_row_count b' = jb_step_row_count b + 1 \<and> jb_is_step_empty b' = jb_is_step_empty b"
proof -
  obtain b1 b2 where b1: "json_feed lib display BeginRow b = Inr b1"
    and b2: "feed_all (json_feed lib display) (map AddRowValue vs) b1 = Inr b2"
    and b3: "json_feed lib display FinishRow b2 = Inr b'"
    using assms(2) by (auto simp: row_events_def feed_all_append split: sum.splits)
  have w1: "wrote ((if jb_step_row_count b = 0 then [] else '','') @ ''['') b b1"
    and c1: "jb_row_value_count b1 = 0" "jb_step_row_count b1 = jb_step_row_count b"
      "jb_is_step_empty b1 = jb_is_step_empty b"
    using b1 assms(1)
    by (auto simp: json_feed_ok wrote_def compactD [OF assms(1)] split: if_splits dest!: wrote_writes)
  have w3: "wrote '']'' b2 b'" and c3: "jb_step_row_count b' = jb_step_row_count b2 + 1"
      "jb_is_step_empty b' = jb_is_step_empty b2"
    using b3 assms(1)
    by (auto simp: json_feed_ok wrote_def compactD [OF assms(1)] split: if_splits dest!: wrote_writes)
  note w2 = json_values [OF assms(1) b2]
  show ?thesis
    using wrote_trans [OF w1 wrote_trans [OF conjunct1 [OF w2] w3]] w2 c1 c3
    by (simp add: json_row_def json_array_def)
qed

lemma json_rows:
  assumes "compact_json lib"
  shows "feed_all (json_feed lib display) (concat (map row_events rows)) b = Inr b' \<Longrightarrow>
    wrote (joined (jb_step_row_count b = 0) (map (json_row lib) rows)) b b' \<and>
    jb_is_step_empty b' = jb_is_step_empty b"
proof (induction rows arbitrary: b)
  case (Cons vs rows)
  obtain b1 where b1: "feed_all (json_feed lib display) (row_events vs) b = Inr b1"
    "feed_all (json_feed lib display) (concat (map row_events rows)) b1 = Inr b'"
    using Cons.prems by (auto simp: feed_all_append split: sum.splits)
  note v = json_row_events [OF assms b1(1)]
  show ?case
    using Cons.IH [OF b1(2)] v wrote_trans [OF conjunct1 [OF v]] by simp
qed (simp add: wrote_Nil)

lemma json_BeginStep:
  assumes "compact_json lib" "json_feed lib display BeginStep b = Inr b'"
  defines "sep \<equiv> if jb_step_count b = 0 then [] else '',''"
  shows "json_text b' = json_text b @ sep @ ''{'' @ quoted ''results'' @ '':{''"
    "jb_checkpoint b' = length (json_text b @ sep)" "jb_step_count b' = jb_step_count b"
    "jb_is_step_empty b'" "\<not> jb_is_step_error b'" "jb_total b' = jb_total b + word_length sep + 12"
proof -
  obtain b1 where
    b1: "json_writes (direct (jl_begin_array_value lib (jb_step_count b = 0)))
        (b\<lparr>jb_is_step_empty := True, jb_is_step_error := False\<rparr>) = (None, b1)"
    and b2: "json_writes (direct (jl_begin_object lib) @ serialize_key lib ''results'' True @
        direct (jl_begin_object_value lib) @ direct (jl_begin_object lib))
        (b1\<lparr>jb_checkpoint := length (json_text b1)\<rparr>) = (None, b')"
    using assms(2) by (auto simp: json_feed_ok json_then_ok)
  note w = wrote_writes [OF b1] wrote_writes [OF b2]
  show "json_text b' = json_text b @ sep @ ''{'' @ quoted ''results'' @ '':{''"
    "jb_checkpoint b' = length (json_text b @ sep)" "jb_step_count b' = jb_step_count b"
    "jb_is_step_empty b'" "\<not> jb_is_step_error b'"
    "jb_total b' = jb_total b + word_length sep + 12"
    using w by (simp_all add: wrote_def serialize_key_def compactD [OF assms(1)] sep_def quoted_def)
qed

lemma json_cols:
  assumes "compact_json lib" "json_feed lib display (ColsDescription cols) b = Inr b1"
    "json_feed lib display BeginRows b1 = Inr b'"
  shows "wrote (quoted ''columns'' @ '':'' @ json_array (map (\<lambda>c. concat (jl_str lib (col_name c))) cols) @
      '','' @ quoted ''rows'' @ '':['') b b' \<and> \<not> jb_is_step_empty b' \<and> jb_step_row_count b' = 0"
proof -
  have w1: "wrote (quoted ''columns'' @ '':'' @ json_array (map (\<lambda>c. concat (jl_str lib (col_name c))) cols)) b b1"
    and e1: "\<not> jb_is_step_empty b1"
    using assms(2) writes_array [OF assms(1), of "map (\<lambda>c. jl_str lib (col_name c)) cols"]
    by (auto simp: json_feed_ok wrote_def serialize_key_def compactD [OF assms(1)] comp_def
        split: if_splits dest!: wrote_writes)
  have w2: "wrote ('','' @ quoted ''rows'' @ '':['') b1 b'"
    and e2: "jb_is_step_empty b' = jb_is_step_empty b1" "jb_step_row_count b' = 0"
    using assms(3)
    by (auto simp: json_feed_ok wrote_def serialize_key_def compactD [OF assms(1)] quoted_def
        split: if_splits dest!: wrote_writes)
  show ?thesis using wrote_trans [OF w1 w2] e1 e2 by simp
qed

lemma json_FinishRows:
  assumes "compact_json lib" "json_feed lib display FinishRows b = Inr b'"
  shows "wrote '']'' b b' \<and> jb_is_step_empty b' = jb_is_step_empty b"
  using assms(2) by (auto simp: json_feed_ok wrote_def compactD [OF assms(1)] split: if_splits dest!: wrote_writes)

lemma json_FinishStep:
  assumes "compact_json lib" "json_feed lib display (FinishStep n r) b = Inr b'"
  shows "jb_step_count b' = jb_step_count b + 1"
    and "json_text b' = (if jb_is_step_empty b \<and> \<not> jb_is_step_error b
      then take (jb_checkpoint b) (json_text b) @ ''null''
      else json_text b @ (if jb_is_step_error b then ''}'' else ''}}''))"
    and "jb_total b' = jb_total b + (if jb_is_step_empty b \<and> \<not> jb_is_step_error b then 4
      else if jb_is_step_error b then 1 else 2)"
  using assms(2)
  by (auto simp: json_feed_ok json_then_ok wrote_def compactD [OF assms(1)] json_truncate_def
      split: if_splits dest!: wrote_writes)

lemma json_StepError:
  assumes "compact_json lib" "json_feed lib display (StepError e) b = Inr b'"
  shows "json_text b' = take (jb_checkpoint b) (json_text b) @
      ''{'' @ quoted ''error'' @ '':'' @ concat (jl_str lib (display e))"
    and "jb_is_step_error b'" "jb_step_count b' = jb_step_count b"
  using assms(2)
  by (auto simp: json_feed_ok wrote_def compactD [OF assms(1)] json_truncate_def
      serialize_key_value_def serialize_key_def serialize_value_def split: if_splits dest!: wrote_writes)

lemma json_row_event_wrote:
  "row_event e \<Longrightarrow> json_feed lib display e b = Inr b' \<Longrightarrow> \<exists>s. wrote s b b'"
  by (cases e)
    (auto simp: json_feed_ok json_then_ok wrote_def split: if_splits option.splits dest!: wrote_writes)

lemma json_row_events_wrote:
  "list_all row_event es \<Longrightarrow> feed_all (json_feed lib display) es b = Inr b' \<Longrightarrow> \<exists>s. wrote s b b'"
proof (induction es arbitrary: b)
  case (Cons e es)
  then obtain b1 where b1: "json_feed lib display e b = Inr b1" "feed_all (json_feed lib display) es b1 = Inr b'"
    by (auto split: sum.splits)
  then show ?case
    using json_row_event_wrote [OF _ b1(1)] Cons.IH [OF _ b1(2)] Cons.prems(1) wrote_trans by fastforce
qed (auto intro: wrote_Nil)

text \<open>The bytes the counter keeps although they were cut from the buffer again.\<close>

fun leaked :: "step_run \<Rightarrow> u64" where
  "leaked Skipped = 12"
| "leaked _ = 0"

definition step_written ::
  "json_lib \<Rightarrow> (Error \<Rightarrow> string) \<Rightarrow> step_run \<Rightarrow> JsonHttpPayloadBuilder \<Rightarrow> JsonHttpPayloadBuilder \<Rightarrow> bool" where
  "step_written lib display st b b' \<longleftrightarrow>
     json_text b' = json_text b @ (if jb_step_count b = 0 then [] else '','') @ json_step lib display st \<and>
     jb_step_count b' = jb_step_count b + 1 \<and>
     ((\<forall>es e. st \<noteq> FailedAfter es e) \<longrightarrow>
        jb_total b' - word_length (json_text b') =
        jb_total b - word_length (json_text b) + leaked st)"

lemma json_Ran:
  assumes "compact_json lib"
    "feed_all (json_feed lib display) (step_events (Ran cols rows n r)) b = Inr b'"
  shows "step_written lib display (Ran cols rows n r) b b'"
proof -
  obtain b1 b2 b3 b4 b5 where b1: "json_feed lib display BeginStep b = Inr b1"
    and b2: "json_feed lib display (ColsDescription cols) b1 = Inr b2"
    and b3: "json_feed lib display BeginRows b2 = Inr b3"
    and b4: "feed_all (json_feed lib display) (concat (map row_events rows)) b3 = Inr b4"
    and b5: "json_feed lib display FinishRows b4 = Inr b5"
    and b6: "json_feed lib display (FinishStep n r) b5 = Inr b'"
    using assms(2) by (auto simp: feed_all_append split: sum.splits)
  note s1 = json_BeginStep [OF assms(1) b1]
    and s3 = json_cols [OF assms(1) b2 b3] and s4 = json_rows [OF assms(1) b4]
    and s5 = json_FinishRows [OF assms(1) b5] and s6 = json_FinishStep [OF assms(1) b6]
  have w: "wrote ((quoted ''columns'' @ '':'' @ json_array (map (\<lambda>c. concat (jl_str lib (col_name c))) cols) @
      '','' @ quoted ''rows'' @ '':['') @ joined True (map (json_row lib) rows) @ '']'') b1 b5"
    using wrote_trans [OF conjunct1 [OF s3] wrote_trans [OF _ conjunct1 [OF s5]]] s3 s4 by simp
  have "\<not> jb_is_step_empty b5" "\<not> jb_is_step_error b5" "jb_step_count b5 = jb_step_count b"
    using s3 s4 s5 w s1 by (auto simp: wrote_def)
  then show ?thesis
    using s1 w s6 by (simp add: step_written_def wrote_def json_array_def quoted_def)
qed

lemma json_step_written:
  assumes "compact_json lib" "step_legal st"
    and run: "feed_all (json_feed lib display) (step_events st) b = Inr b'"
  shows "step_written lib display st b b'"
proof (cases st)
  case Skipped
  then obtain b1 where b1: "json_feed lib display BeginStep b = Inr b1"
    and b2: "json_feed lib display (FinishStep 0 None) b1 = Inr b'"
    using run by (auto split: sum.splits)
  show ?thesis
    using Skipped json_BeginStep [OF assms(1) b1] json_FinishStep [OF assms(1) b2]
    by (simp add: step_written_def quoted_def)
next
  case (Ran cols rows n r)
  then show ?thesis using json_Ran [OF assms(1)] run by simp
next
  case (FailedAfter es e)
  then obtain b1 b2 b3 where b1: "json_feed lib display BeginStep b = Inr b1"
    and b2: "feed_all (json_feed lib display) es b1 = Inr b2"
    and b3: "json_feed lib display (StepError e) b2 = Inr b3"
    and b4: "json_feed lib display (FinishStep 0 None) b3 = Inr b'"
    using run by (auto simp: feed_all_append split: sum.splits)
  obtain s where "wrote s b1 b2"
    using json_row_events_wrote [OF _ b2] assms(2) FailedAfter by auto
  then show ?thesis
    using FailedAfter json_BeginStep [OF assms(1) b1] json_StepError [OF assms(1) b3]
      json_FinishStep [OF assms(1) b4]
    by (simp add: step_written_def wrote_def)
qed

lemma json_steps_written:
  assumes "compact_json lib"
  shows "list_all step_legal sts \<Longrightarrow>
    feed_all (json_feed lib display) (concat (map step_events sts)) b = Inr b' \<Longrightarrow>
    json_text b' = json_text b @ joined (jb_step_count b = 0) (map (json_step lib display) sts) \<and>
    ((\<forall>es e. FailedAfter es e \<notin> set sts) \<longrightarrow>
       jb_total b' - word_length (json_text b') =
       jb_total b - word_length (json_text b) + (\<Sum>st\<leftarrow>sts. leaked st))"
proof (induction sts arbitrary: b)
  case (Cons st sts)
  obtain b1 where b1: "feed_all (json_feed lib display) (step_events st) b = Inr b1"
    "feed_all (json_feed lib display) (concat (map step_events sts)) b1 = Inr b'"
    using Cons.prems(2) by (auto simp: feed_all_append split: sum.splits)
  have st: "step_written lib display st b b1"
    using json_step_written [OF assms _ b1(1)] Cons.prems(1) by simp
  have ih: "json_text b' = json_text b1 @ joined False (map (json_step lib display) sts)"
    "(\<forall>es e. FailedAfter es e \<notin> set sts) \<Longrightarrow>
     jb_total b' - word_length (json_text b') =
     jb_total b1 - word_length (json_text b1) + (\<Sum>st\<leftarrow>sts. leaked st)"
    using Cons.IH [OF _ b1(2)] Cons.prems(1) st by (auto simp: step_written_def)
  have "jb_total b' - word_length (json_text b') =
      jb_total b - word_length (json_text b) + (\<Sum>st\<leftarrow>st # sts. leaked st)"
    if "\<forall>es e. FailedAfter es e \<notin> set (st # sts)"
  proof -
    have "jb_total b1 - word_length (json_text b1) = jb_total b - word_length (json_text b) + leaked st"
      using st that by (auto simp: step_written_def)
    then show ?thesis using ih(2) that by auto
  qed
  moreover have "json_text b' = json_text b @ joined (jb_step_count b = 0) (map (json_step lib display) (st # sts))"
    using ih(1) st by (simp add: step_written_def)
  ultimately show ?case by blast
qed simp

lemma json_program_written:
  assumes "compact_json lib" "list_all step_legal sts"
    and run: "feed_all (json_feed lib display) (program_events c sts) b = Inr b'"
  shows "json_text b' = json_response lib display sts"
    and "(\<forall>es e. FailedAfter es e \<notin> set sts) \<Longrightarrow>
      jb_total b' - word_length (json_text b') =
      limit_drop (jb_total b) (jb_buffer b) + (\<Sum>st\<leftarrow>sts. leaked st)"
proof -
  obtain b1 b2 where b1: "json_feed lib display (EvInit c) b = Inr b1"
    and b2: "feed_all (json_feed lib display) (concat (map step_events sts)) b1 = Inr b2"
    and b3: "json_feed lib display Finish b2 = Inr b'"
    using run by (auto simp: program_events_def feed_all_append split: sum.splits)
  have i: "json_text b1 = ''[''" "jb_step_count b1 = 0"
    "jb_total b1 = limit_drop (jb_total b) (jb_buffer b) + 1"
    using b1
    by (auto simp: json_feed_ok Let_def wrote_def compactD [OF assms(1)] json_builder_new_def
        limit_buffer_new_def dest!: wrote_writes)
  have f: "json_text b' = json_text b2 @ '']''" "jb_total b' = jb_total b2 + 1"
    using b3 by (auto simp: json_feed_ok wrote_def compactD [OF assms(1)] dest!: wrote_writes)
  note s = json_steps_written [OF assms(1,2) b2]
  show "json_text b' = json_response lib display sts"
    using i f s by (simp add: json_response_def json_array_def)
  assume "\<forall>es e. FailedAfter es e \<notin> set sts"
  then have "jb_total b2 - word_length (json_text b2) =
      jb_total b1 - word_length (json_text b1) + (\<Sum>st\<leftarrow>sts. leaked st)"
    using s by blast
  then show "jb_total b' - word_length (json_text b') =
      limit_drop (jb_total b) (jb_buffer b) + (\<Sum>st\<leftarrow>sts. leaked st)"
    using i f(2) by (simp add: f(1) algebra_simps)
qed

lemma leaked_sum:
  "(\<Sum>st\<leftarrow>sts. leaked st) = 12 * word_of_nat (length (filter (\<lambda>st. st = Skipped) sts))"
proof (induction sts)
  case (Cons st sts)
  then show ?case by (cases st) (simp_all add: algebra_simps)
qed simp

section \<open>Properties\<close>

text \<open>
  (C36) The streaming builder writes the response: when a run of legal steps
  fits the limits, the text the builder returns is the JSON array of the
  steps' objects, with the columns and rows of each step that ran, the error of each
  step that failed, nothing left of what a failing step wrote before, and null for
  each skipped step.
\<close>

theorem json_builder_writes_response:
  assumes "compact_json lib" "list_all step_legal sts"
    and "feed_all (json_feed lib display) (program_events c sts) b = Inr b'"
  shows "snd (json_into_ret b') = json_response lib display sts"
  using json_program_written(1) [OF assms] by (simp add: json_into_ret_def)

text \<open>
  The counter of response bytes leaks: a run in which no step fails
  leaves the shared counter, after its response has been taken out, 12 bytes higher
  for every skipped step, although the process holds none of these bytes any more.
\<close>

theorem skipped_steps_leak_response_bytes:
  assumes "compact_json lib" "list_all step_legal sts" "\<forall>es e. FailedAfter es e \<notin> set sts"
    and "feed_all (json_feed lib display) (program_events c sts) b = Inr b'" "json_text b = []"
  shows "fst (json_into_ret b') =
    jb_total b + 12 * word_of_nat (length (filter (\<lambda>st. st = Skipped) sts))"
  using json_program_written(2) [OF assms(1,2,4,3)] assms(5)
  by (simp add: json_into_ret_def limit_drop_def leaked_sum)

definition sample_json :: json_lib where
  "sample_json =
     \<lparr> jl_begin_array = [''[''], jl_end_array = ['']''],
       jl_begin_array_value = (\<lambda>first. if first then [] else ['','']), jl_end_array_value = [],
       jl_begin_object = [''{''], jl_end_object = [''}''],
       jl_begin_object_key = (\<lambda>first. if first then [] else ['','']), jl_end_object_key = [],
       jl_begin_object_value = ['':''], jl_end_object_value = [], jl_null = [''null''],
       jl_str = (\<lambda>s. [[CHR 0x22], s, [CHR 0x22]]), jl_i64 = (\<lambda>i. [show_nat (unat i)]), jl_f64 = (\<lambda>x. [''0.5'']),
       jl_base64 = (\<lambda>b. ''AAAA'') \<rparr>"

lemma sample_compact: "compact_json sample_json"
  by (simp add: compact_json_def sample_json_def quoted_def)

definition sample_json_builder :: JsonHttpPayloadBuilder where
  "sample_json_builder = json_builder_new 0 (limit_buffer_new 0 0)"

definition sample_json_steps :: "step_run list" where
  "sample_json_steps = [Ran [] [[RefNull]] 0 None, Skipped]"

lemma sample_json_run:
  "\<exists>b'. feed_all (json_feed sample_json (\<lambda>e. ''error''))
     (program_events \<lparr> qc_max_size = None, qc_max_total_size = None, qc_auto_checkpoint = 0 \<rparr> sample_json_steps)
     sample_json_builder = Inr b'"
  by (simp add: sample_json_steps_def program_events_def row_events_def json_feed_def json_then_def
      sample_json_def sample_json_builder_def json_builder_new_def limit_buffer_new_def limit_drop_def
      limit_write_def direct_def wrapped_def serialize_key_def serialize_value_def
      serialize_key_value_def serialize_array_iter_def serialize_array_value_def json_truncate_def Let_def)

lemma sample_json_steps_legal:
  "list_all step_legal sample_json_steps" "FailedAfter es e \<notin> set sample_json_steps"
  by (simp_all add: sample_json_steps_def)

theorem json_builder_writes_response_witness:
  "\<exists>b'. feed_all (json_feed sample_json (\<lambda>e. ''error''))
       (program_events \<lparr> qc_max_size = None, qc_max_total_size = None, qc_auto_checkpoint = 0 \<rparr> sample_json_steps)
       sample_json_builder = Inr b' \<and>
     snd (json_into_ret b') = ''[{'' @ quoted ''results'' @ '':{'' @ quoted ''columns'' @ '':[],'' @
       quoted ''rows'' @ '':[[null]]}},null]''"
proof -
  obtain b' where run: "feed_all (json_feed sample_json (\<lambda>e. ''error''))
      (program_events \<lparr> qc_max_size = None, qc_max_total_size = None, qc_auto_checkpoint = 0 \<rparr> sample_json_steps)
      sample_json_builder = Inr b'"
    using sample_json_run by blast
  show ?thesis
    using json_builder_writes_response [OF sample_compact sample_json_steps_legal(1) run] run
    by (simp add: json_response_def sample_json_steps_def json_array_def json_row_def sample_json_def quoted_def)
qed

theorem skipped_steps_leak_response_bytes_witness:
  "\<exists>b'. feed_all (json_feed sample_json (\<lambda>e. ''error''))
       (program_events \<lparr> qc_max_size = None, qc_max_total_size = None, qc_auto_checkpoint = 0 \<rparr> sample_json_steps)
       sample_json_builder = Inr b' \<and> fst (json_into_ret b') = 12"
proof -
  obtain b' where run: "feed_all (json_feed sample_json (\<lambda>e. ''error''))
      (program_events \<lparr> qc_max_size = None, qc_max_total_size = None, qc_auto_checkpoint = 0 \<rparr> sample_json_steps)
      sample_json_builder = Inr b'"
    using sample_json_run by blast
  have "fst (json_into_ret b') = jb_total sample_json_builder +
      12 * word_of_nat (length (filter (\<lambda>st. st = Skipped) sample_json_steps))"
    by (rule skipped_steps_leak_response_bytes [OF sample_compact sample_json_steps_legal(1) _ run])
      (simp_all add: sample_json_steps_legal(2) sample_json_builder_def json_builder_new_def limit_buffer_new_def)
  then show ?thesis
    using run by (simp add: sample_json_steps_def sample_json_builder_def json_builder_new_def)
qed

end
