(* ===== verification/HranaStmt.thy ===== *)
theory HranaStmt
  imports ProgramRun JsonBuilder
begin

text \<open>
  The statements and batches of the Hrana protocol (\<^verbatim>\<open>sqld/src/hrana/\<close>): the messages that
  HTTP and WebSockets share (\<^verbatim>\<open>proto.rs\<close>), their errors and codes, the conversion of
  statements, conditions, batches and sequences to programs (\<^verbatim>\<open>stmt.rs\<close>, \<^verbatim>\<open>batch.rs\<close>),
  the builders of results (\<^verbatim>\<open>result_builder.rs\<close>) and of cursor entries
  (\<^verbatim>\<open>cursor.rs\<close>), and the execution on a connection. The text of an error of SQLite stands for the error;
  what kind of error it is, the texts of errors and the printing of floats are arguments.
\<close>

section \<open>Messages and errors\<close>

datatype Version = Hrana1 | Hrana2 | Hrana3

fun version_number :: "Version \<Rightarrow> nat" where
  "version_number Hrana1 = 1"
| "version_number Hrana2 = 2"
| "version_number Hrana3 = 3"

instantiation Version :: linorder
begin

definition less_eq_Version :: "Version \<Rightarrow> Version \<Rightarrow> bool" where
  "less_eq_Version v w \<longleftrightarrow> version_number v \<le> version_number w"

definition less_Version :: "Version \<Rightarrow> Version \<Rightarrow> bool" where
  "less_Version v w \<longleftrightarrow> version_number v < version_number w"

instance
proof
  fix v w :: Version
  show "v \<le> w \<Longrightarrow> w \<le> v \<Longrightarrow> v = w"
    by (cases v; cases w) (simp_all add: less_eq_Version_def)
qed (auto simp: less_eq_Version_def less_Version_def)

end

datatype proto_value =
    PvNone | PvNull | PvInteger i64 | PvFloat f64 | PvText string | PvBlob "byte list"

record proto_stmt =
  pst_sql :: "string option"
  pst_sql_id :: "int option"
  pst_args :: "proto_value list"
  pst_named_args :: "(string \<times> proto_value) list"
  pst_want_rows :: "bool option"

datatype BatchCond =
    BcNone | BcOk u32 | BcError u32 | BcNot BatchCond | BcAnd "BatchCond list" | BcOr "BatchCond list"
  | BcIsAutocommit

record BatchStep =
  bs_condition :: "BatchCond option"
  bs_stmt :: proto_stmt

record proto_error =
  pe_message :: string
  pe_code :: string

record StmtResult =
  sr_cols :: "Column list"
  sr_rows :: "proto_value list list"
  sr_affected_row_count :: u64
  sr_last_insert_rowid :: "i64 option"

record BatchResult =
  br_step_results :: "StmtResult option list"
  br_step_errors :: "proto_error option list"

datatype ProtocolError =
    JsonDeserialize string | ProtobufDecode string | BinaryWebSocketMessage | TextWebSocketMessage
  | RequestBeforeHello | StreamNotFound int | StreamExists int | SqlIdAndSqlGiven | SqlIdOrSqlNotGiven
  | SqlNotFound int | SqlExists int | BatchCondBadStep | CursorAlreadyOpen int | CursorNotFound int
  | CursorExists int | BatonInvalid | BatonReused | BatonStreamClosed | NotSupported string Version
  | ProtocolResponseTooLarge string | NoneBatchCond | NoneValue | NoneClientMsg | NoneRequest
  | NoneStreamRequest

datatype sqlite_code =
    InternalMalfunction | CodePermissionDenied | OperationAborted | DatabaseBusy | DatabaseLocked
  | OutOfMemory | CodeReadOnly | OperationInterrupted | SystemIoFailure | DatabaseCorrupt | CodeNotFound
  | DiskFull | CannotOpen | FileLockingProtocolFailed | SchemaChanged | TooBig | ConstraintViolation
  | TypeMismatch | ApiMisuse | NoLargeFileSupport | AuthorizationForStatementDenied
  | ParameterOutOfRange | NotADatabase | CodeUnknown

datatype rusqlite_kind =
    SqliteFailure sqlite_code string "string option"
  | KindSqlInputError string int
  | OtherRusqlite

datatype StmtError =
    SqlParse string | SqlNoStmt | SqlManyStmts | ArgsInvalid string | ArgsBothPositionalAndNamed
  | TransactionTimeout | TransactionBusy | SqliteError sqlite_code string | SqlInputError string int
  | StmtBlocked "string option" | StmtResponseTooLarge | Proxy string

datatype BatchError = BatchTransactionTimeout | BatchTransactionBusy | BatchResponseTooLarge

fun sqlite_error_code :: "sqlite_code \<Rightarrow> string" where
  "sqlite_error_code InternalMalfunction = ''SQLITE_INTERNAL''"
| "sqlite_error_code CodePermissionDenied = ''SQLITE_PERM''"
| "sqlite_error_code OperationAborted = ''SQLITE_ABORT''"
| "sqlite_error_code DatabaseBusy = ''SQLITE_BUSY''"
| "sqlite_error_code DatabaseLocked = ''SQLITE_LOCKED''"
| "sqlite_error_code OutOfMemory = ''SQLITE_NOMEM''"
| "sqlite_error_code CodeReadOnly = ''SQLITE_READONLY''"
| "sqlite_error_code OperationInterrupted = ''SQLITE_INTERRUPT''"
| "sqlite_error_code SystemIoFailure = ''SQLITE_IOERR''"
| "sqlite_error_code DatabaseCorrupt = ''SQLITE_CORRUPT''"
| "sqlite_error_code CodeNotFound = ''SQLITE_NOTFOUND''"
| "sqlite_error_code DiskFull = ''SQLITE_FULL''"
| "sqlite_error_code CannotOpen = ''SQLITE_CANTOPEN''"
| "sqlite_error_code FileLockingProtocolFailed = ''SQLITE_PROTOCOL''"
| "sqlite_error_code SchemaChanged = ''SQLITE_SCHEMA''"
| "sqlite_error_code TooBig = ''SQLITE_TOOBIG''"
| "sqlite_error_code ConstraintViolation = ''SQLITE_CONSTRAINT''"
| "sqlite_error_code TypeMismatch = ''SQLITE_MISMATCH''"
| "sqlite_error_code ApiMisuse = ''SQLITE_MISUSE''"
| "sqlite_error_code NoLargeFileSupport = ''SQLITE_NOLFS''"
| "sqlite_error_code AuthorizationForStatementDenied = ''SQLITE_AUTH''"
| "sqlite_error_code ParameterOutOfRange = ''SQLITE_RANGE''"
| "sqlite_error_code NotADatabase = ''SQLITE_NOTADB''"
| "sqlite_error_code CodeUnknown = ''SQLITE_UNKNOWN''"

fun stmt_error_code :: "StmtError \<Rightarrow> string" where
  "stmt_error_code (SqlParse _) = ''SQL_PARSE_ERROR''"
| "stmt_error_code SqlNoStmt = ''SQL_NO_STATEMENT''"
| "stmt_error_code SqlManyStmts = ''SQL_MANY_STATEMENTS''"
| "stmt_error_code (ArgsInvalid _) = ''ARGS_INVALID''"
| "stmt_error_code ArgsBothPositionalAndNamed = ''ARGS_BOTH_POSITIONAL_AND_NAMED''"
| "stmt_error_code TransactionTimeout = ''TRANSACTION_TIMEOUT''"
| "stmt_error_code TransactionBusy = ''TRANSACTION_BUSY''"
| "stmt_error_code (SqliteError code _) = sqlite_error_code code"
| "stmt_error_code (SqlInputError _ _) = ''SQL_INPUT_ERROR''"
| "stmt_error_code (StmtBlocked _) = ''BLOCKED''"
| "stmt_error_code StmtResponseTooLarge = ''RESPONSE_TOO_LARGE''"
| "stmt_error_code (Proxy _) = ''PROXY_ERROR''"

fun stmt_error_message :: "StmtError \<Rightarrow> string" where
  "stmt_error_message (SqlParse source) = ''SQL string could not be parsed: '' @ source"
| "stmt_error_message SqlNoStmt = ''SQL string does not contain any statement''"
| "stmt_error_message SqlManyStmts = ''SQL string contains more than one statement''"
| "stmt_error_message (ArgsInvalid source) = ''Arguments do not match SQL parameters: '' @ source"
| "stmt_error_message ArgsBothPositionalAndNamed =
     ''Specifying both positional and named arguments is not supported''"
| "stmt_error_message TransactionTimeout = ''Transaction timed out''"
| "stmt_error_message TransactionBusy = ''Server cannot handle additional transactions''"
| "stmt_error_message (SqliteError _ m) = ''SQLite error: '' @ m"
| "stmt_error_message (SqlInputError m offset) =
     ''SQL input error: '' @ m @ '' (at offset '' @ show_int offset @ '')''"
| "stmt_error_message (StmtBlocked reason) =
     ''Operation was blocked'' @ (case reason of Some m \<Rightarrow> '': '' @ m | None \<Rightarrow> [])"
| "stmt_error_message StmtResponseTooLarge = ''Response is too large''"
| "stmt_error_message (Proxy m) = ''error executing a request on the primary: '' @ m"

fun batch_error_code :: "BatchError \<Rightarrow> string" where
  "batch_error_code BatchTransactionTimeout = ''TRANSACTION_TIMEOUT''"
| "batch_error_code BatchTransactionBusy = ''TRANSACTION_BUSY''"
| "batch_error_code BatchResponseTooLarge = ''RESPONSE_TOO_LARGE''"

fun batch_error_message :: "BatchError \<Rightarrow> string" where
  "batch_error_message BatchTransactionTimeout = ''Transaction timed out''"
| "batch_error_message BatchTransactionBusy = ''Server cannot handle additional transactions''"
| "batch_error_message BatchResponseTooLarge = ''Response is too large''"

definition proto_error_from_stmt_error :: "StmtError \<Rightarrow> proto_error" where
  "proto_error_from_stmt_error e = \<lparr> pe_message = stmt_error_message e, pe_code = stmt_error_code e \<rparr>"

definition proto_error_from_batch_error :: "BatchError \<Rightarrow> proto_error" where
  "proto_error_from_batch_error e = \<lparr> pe_message = batch_error_message e, pe_code = batch_error_code e \<rparr>"

text \<open>An error of the execution as one of a statement; on the left the errors that are none.\<close>

fun stmt_error_from_sqld_error :: "(string \<Rightarrow> rusqlite_kind) \<Rightarrow> Error \<Rightarrow> Error + StmtError" where
  "stmt_error_from_sqld_error kind (LibSqlInvalidQueryParams source) = Inr (ArgsInvalid source)"
| "stmt_error_from_sqld_error kind LibSqlTxTimeout = Inr TransactionTimeout"
| "stmt_error_from_sqld_error kind LibSqlTxBusy = Inr TransactionBusy"
| "stmt_error_from_sqld_error kind (BuilderError (ResponseTooLarge _)) = Inr StmtResponseTooLarge"
| "stmt_error_from_sqld_error kind (Blocked reason) = Inr (StmtBlocked reason)"
| "stmt_error_from_sqld_error kind (RpcQueryError e) = Inr (Proxy (re_message e))"
| "stmt_error_from_sqld_error kind (RusqliteError e) =
     (case kind e of
        SqliteFailure code text (Some m) \<Rightarrow> Inr (SqliteError code m)
      | SqliteFailure code text None \<Rightarrow> Inr (SqliteError code text)
      | KindSqlInputError m offset \<Rightarrow> Inr (SqlInputError m offset)
      | OtherRusqlite \<Rightarrow> Inl (RusqliteError e))"
| "stmt_error_from_sqld_error kind e = Inl e"

fun batch_error_from_sqld_error :: "Error \<Rightarrow> Error + BatchError" where
  "batch_error_from_sqld_error LibSqlTxTimeout = Inr BatchTransactionTimeout"
| "batch_error_from_sqld_error LibSqlTxBusy = Inr BatchTransactionBusy"
| "batch_error_from_sqld_error (BuilderError (ResponseTooLarge _)) = Inr BatchResponseTooLarge"
| "batch_error_from_sqld_error e = Inl e"

text \<open>The errors a request can end with: those of \<^verbatim>\<open>anyhow\<close> that some caller looks into.\<close>

datatype hrana_error =
    HeProtocol ProtocolError | HeStmt StmtError | HeBatch BatchError | HeSqld Error | HeText string

definition catch_stmt_error :: "(string \<Rightarrow> rusqlite_kind) \<Rightarrow> Error \<Rightarrow> hrana_error" where
  "catch_stmt_error kind e =
     (case stmt_error_from_sqld_error kind e of Inr s \<Rightarrow> HeStmt s | Inl e \<Rightarrow> HeSqld e)"

definition catch_batch_error :: "Error \<Rightarrow> hrana_error" where
  "catch_batch_error e =
     (case batch_error_from_sqld_error e of Inr s \<Rightarrow> HeBatch s | Inl e \<Rightarrow> HeSqld e)"

section \<open>From messages to programs\<close>

definition proto_sql_to_sql ::
  "string option \<Rightarrow> int option \<Rightarrow> (int \<rightharpoonup> string) \<Rightarrow> Version \<Rightarrow> ProtocolError + string" where
  "proto_sql_to_sql sql sql_id sqls version =
     (if sql_id \<noteq> None \<and> version < Hrana2 then Inl (NotSupported ''`sql_id`'' Hrana2)
      else (case (sql, sql_id) of
              (Some sql, None) \<Rightarrow> Inr sql
            | (None, Some sql_id) \<Rightarrow>
                (case sqls sql_id of Some sql \<Rightarrow> Inr sql | None \<Rightarrow> Inl (SqlNotFound sql_id))
            | (Some _, Some _) \<Rightarrow> Inl SqlIdAndSqlGiven
            | (None, None) \<Rightarrow> Inl SqlIdOrSqlNotGiven))"

fun proto_value_to_value :: "proto_value \<Rightarrow> ProtocolError + Value" where
  "proto_value_to_value PvNone = Inl NoneValue"
| "proto_value_to_value PvNull = Inr Null"
| "proto_value_to_value (PvInteger v) = Inr (Integer v)"
| "proto_value_to_value (PvFloat v) = Inr (Real v)"
| "proto_value_to_value (PvText v) = Inr (Text v)"
| "proto_value_to_value (PvBlob v) = Inr (Blob v)"

fun proto_value_from_value :: "Value \<Rightarrow> proto_value" where
  "proto_value_from_value Null = PvNull"
| "proto_value_from_value (Integer v) = PvInteger v"
| "proto_value_from_value (Real v) = PvFloat v"
| "proto_value_from_value (Text v) = PvText v"
| "proto_value_from_value (Blob v) = PvBlob v"

fun convert_args :: "proto_value list \<Rightarrow> ProtocolError + Value list" where
  "convert_args [] = Inr []"
| "convert_args (v # vs) =
     (case proto_value_to_value v of
        Inl e \<Rightarrow> Inl e
      | Inr x \<Rightarrow> (case convert_args vs of Inl e \<Rightarrow> Inl e | Inr xs \<Rightarrow> Inr (x # xs)))"

text \<open>Named arguments are collected into a map: a later one replaces an earlier one.\<close>

fun convert_named_args ::
  "(string \<times> proto_value) list \<Rightarrow> (string \<times> Value) list \<Rightarrow> ProtocolError + (string \<times> Value) list" where
  "convert_named_args [] m = Inr m"
| "convert_named_args ((n, v) # vs) m =
     (case proto_value_to_value v of
        Inl e \<Rightarrow> Inl e
      | Inr x \<Rightarrow> convert_named_args vs ((n, x) # filter (\<lambda>e. fst e \<noteq> n) m))"

definition proto_stmt_params :: "proto_stmt \<Rightarrow> hrana_error + Params" where
  "proto_stmt_params st =
     (if pst_named_args st = []
      then (case convert_args (pst_args st) of
              Inl e \<Rightarrow> Inl (HeProtocol e) | Inr vs \<Rightarrow> Inr (Positional vs))
      else if pst_args st = []
      then (case convert_named_args (pst_named_args st) [] of
              Inl e \<Rightarrow> Inl (HeProtocol e) | Inr m \<Rightarrow> Inr (Named m))
      else Inl (HeStmt ArgsBothPositionalAndNamed))"

definition proto_stmt_to_query ::
  "sql_parser \<Rightarrow> proto_stmt \<Rightarrow> (int \<rightharpoonup> string) \<Rightarrow> Version \<Rightarrow> hrana_error + Query" where
  "proto_stmt_to_query p st sqls version =
     (case proto_sql_to_sql (pst_sql st) (pst_sql_id st) sqls version of
        Inl e \<Rightarrow> Inl (HeProtocol e)
      | Inr sql \<Rightarrow>
          (case parse_statements p sql of
             [] \<Rightarrow> Inl (HeStmt SqlNoStmt)
           | Inl e # _ \<Rightarrow> Inl (HeStmt (SqlParse e))
           | Inr _ # _ # _ \<Rightarrow> Inl (HeStmt SqlManyStmts)
           | [Inr stmt] \<Rightarrow>
               (case proto_stmt_params st of
                  Inl e \<Rightarrow> Inl e
                | Inr params \<Rightarrow>
                    Inr \<lparr> q_stmt = stmt, q_params = params,
                          q_want_rows = (case pst_want_rows st of Some w \<Rightarrow> w | None \<Rightarrow> True) \<rparr>)))"

definition try_convert_step :: "nat \<Rightarrow> u32 \<Rightarrow> ProtocolError + nat" where
  "try_convert_step max_step step = (if max_step \<le> unat step then Inl BatchCondBadStep else Inr (unat step))"

fun proto_cond_to_cond :: "BatchCond \<Rightarrow> Version \<Rightarrow> nat \<Rightarrow> ProtocolError + Cond"
and proto_conds_to_conds :: "BatchCond list \<Rightarrow> Version \<Rightarrow> nat \<Rightarrow> ProtocolError + Cond list" where
  "proto_cond_to_cond BcNone version m = Inl NoneBatchCond"
| "proto_cond_to_cond (BcOk step) version m =
     (case try_convert_step m step of Inl e \<Rightarrow> Inl e | Inr s \<Rightarrow> Inr (CondOk s))"
| "proto_cond_to_cond (BcError step) version m =
     (case try_convert_step m step of Inl e \<Rightarrow> Inl e | Inr s \<Rightarrow> Inr (CondErr s))"
| "proto_cond_to_cond (BcNot c) version m =
     (case proto_cond_to_cond c version m of Inl e \<Rightarrow> Inl e | Inr c \<Rightarrow> Inr (CondNot c))"
| "proto_cond_to_cond (BcAnd cs) version m =
     (case proto_conds_to_conds cs version m of Inl e \<Rightarrow> Inl e | Inr cs \<Rightarrow> Inr (CondAnd cs))"
| "proto_cond_to_cond (BcOr cs) version m =
     (case proto_conds_to_conds cs version m of Inl e \<Rightarrow> Inl e | Inr cs \<Rightarrow> Inr (CondOr cs))"
| "proto_cond_to_cond BcIsAutocommit version m =
     (if version < Hrana3 then Inl (NotSupported ''BatchCond of type `is_autocommit`'' Hrana3)
      else Inr CondIsAutocommit)"
| "proto_conds_to_conds [] version m = Inr []"
| "proto_conds_to_conds (c # cs) version m =
     (case proto_cond_to_cond c version m of
        Inl e \<Rightarrow> Inl e
      | Inr c \<Rightarrow>
          (case proto_conds_to_conds cs version m of Inl e \<Rightarrow> Inl e | Inr cs \<Rightarrow> Inr (c # cs)))"

fun batch_steps ::
  "sql_parser \<Rightarrow> nat \<Rightarrow> BatchStep list \<Rightarrow> (int \<rightharpoonup> string) \<Rightarrow> Version \<Rightarrow> hrana_error + Program" where
  "batch_steps p i [] sqls version = Inr []"
| "batch_steps p i (step # steps) sqls version =
     (case proto_stmt_to_query p (bs_stmt step) sqls version of
        Inl e \<Rightarrow> Inl e
      | Inr query \<Rightarrow>
          (case bs_condition step of
             None \<Rightarrow>
               (case batch_steps p (Suc i) steps sqls version of
                  Inl e \<Rightarrow> Inl e | Inr pgm \<Rightarrow> Inr (\<lparr> sp_cond = None, sp_query = query \<rparr> # pgm))
           | Some cond \<Rightarrow>
               (case proto_cond_to_cond cond version i of
                  Inl e \<Rightarrow> Inl (HeProtocol e)
                | Inr cond \<Rightarrow>
                    (case batch_steps p (Suc i) steps sqls version of
                       Inl e \<Rightarrow> Inl e
                     | Inr pgm \<Rightarrow> Inr (\<lparr> sp_cond = Some cond, sp_query = query \<rparr> # pgm)))))"

definition proto_batch_to_program ::
  "sql_parser \<Rightarrow> BatchStep list \<Rightarrow> (int \<rightharpoonup> string) \<Rightarrow> Version \<Rightarrow> hrana_error + Program" where
  "proto_batch_to_program p batch sqls version = batch_steps p 0 batch sqls version"

fun all_statements :: "(string + Statement) list \<Rightarrow> string + Statement list" where
  "all_statements [] = Inr []"
| "all_statements (Inl e # _) = Inl e"
| "all_statements (Inr s # rs) = (case all_statements rs of Inl e \<Rightarrow> Inl e | Inr ss \<Rightarrow> Inr (s # ss))"

definition proto_sequence_to_program :: "sql_parser \<Rightarrow> string \<Rightarrow> hrana_error + Program" where
  "proto_sequence_to_program p sql =
     (case all_statements (parse_statements p sql) of
        Inl e \<Rightarrow> Inl (HeStmt (SqlParse e))
      | Inr stmts \<Rightarrow>
          Inr (make_batch_program
                (map (\<lambda>st. \<lparr> q_stmt = st, q_params = params_empty, q_want_rows = False \<rparr>) stmts)))"

section \<open>The builder of one statement\<close>

fun value_to_proto :: "ValueRef \<Rightarrow> string + proto_value" where
  "value_to_proto RefNull = Inr PvNull"
| "value_to_proto (RefInteger v) = Inr (PvInteger v)"
| "value_to_proto (RefReal v) = Inr (PvFloat v)"
| "value_to_proto (RefText s) =
     (if utf8_valid s then Inr (PvText (string_of_bytes s)) else Inl ''invalid utf-8 sequence'')"
| "value_to_proto (RefBlob d) = Inr (PvBlob d)"

text \<open>The estimate counts the characters of a JSON rendering; the one for floats has a quote too many.\<close>

fun value_json_size :: "(f64 \<Rightarrow> string) \<Rightarrow> ValueRef \<Rightarrow> u64" where
  "value_json_size show_f64 RefNull =
     word_length (''{'' @ quoted ''type'' @ '':'' @ quoted ''null'' @ ''}'')"
| "value_json_size show_f64 (RefInteger i) =
     word_length (''{'' @ quoted ''type'' @ '':'' @ quoted ''integer'' @ '','' @ quoted ''value'' @ '':'' @
       quoted (show_int (sint i)) @ ''}'')"
| "value_json_size show_f64 (RefReal x) =
     word_length (''{'' @ quoted ''type'' @ '':'' @ quoted ''float'' @ '','' @ quoted ''value'' @ '':'' @
       show_f64 x @ [CHR 0x22] @ ''}'')"
| "value_json_size show_f64 (RefText s) =
     (if utf8_valid s
      then word_length (''{'' @ quoted ''type'' @ '':'' @ quoted ''text'' @ '','' @ quoted ''value'' @ '':'' @
             quoted (string_of_bytes s) @ ''}'')
      else 0)"
| "value_json_size show_f64 (RefBlob b) = word_of_nat (length b)"

definition estimate_cols_json_size :: "Column \<Rightarrow> u64" where
  "estimate_cols_json_size c =
     word_length (''{'' @ quoted ''name'' @ '':'' @ quoted (col_name c) @ '','' @ quoted ''decltype'' @ '':'' @
       quoted (case col_decl_ty c of Some d \<Rightarrow> d | None \<Rightarrow> ''null'') @ ''}'')"

text \<open>The builder, and first the counter of response bytes of the process.\<close>

record SingleStatementBuilder =
  sb_total :: u64
  sb_has_step :: bool
  sb_cols :: "Column list"
  sb_rows :: "proto_value list list"
  sb_err :: "Error option"
  sb_affected_row_count :: u64
  sb_last_insert_rowid :: "i64 option"
  sb_current_size :: u64
  sb_max_response_size :: u64
  sb_max_total_response_size :: u64

definition single_default :: "u64 \<Rightarrow> SingleStatementBuilder" where
  "single_default count =
     \<lparr> sb_total = count, sb_has_step = False, sb_cols = [], sb_rows = [], sb_err = None,
       sb_affected_row_count = 0, sb_last_insert_rowid = None, sb_current_size = 0,
       sb_max_response_size = 0, sb_max_total_response_size = 0 \<rparr>"

definition single_drop :: "SingleStatementBuilder \<Rightarrow> u64" where
  "single_drop b = sb_total b - sb_current_size b"

definition inc_current_size ::
  "u64 \<Rightarrow> SingleStatementBuilder \<Rightarrow> QueryResultBuilderError + SingleStatementBuilder" where
  "inc_current_size sz b =
     (if sb_max_response_size b < sb_current_size b + sz
      then Inl (ResponseTooLarge (sb_current_size b + sz))
      else if sb_max_total_response_size b < sb_total b + sz
      then Inl (ResponseTooLarge (sb_total b + sz))
      else Inr (b\<lparr>sb_current_size := sb_current_size b + sz, sb_total := sb_total b + sz\<rparr>))"

definition limit_of :: "u64 option \<Rightarrow> u64" where
  "limit_of n = (case n of Some n \<Rightarrow> n | None \<Rightarrow> - 1)"

fun single_feed :: "(f64 \<Rightarrow> string) \<Rightarrow> (Error \<Rightarrow> string) \<Rightarrow> SingleStatementBuilder feed" where
  "single_feed show_f64 display (EvInit c) b =
     Inr ((single_default (single_drop b))\<lparr>sb_max_response_size := limit_of (qc_max_size c),
            sb_max_total_response_size := limit_of (qc_max_total_size c)\<rparr>)"
| "single_feed show_f64 display BeginStep b =
     (if sb_has_step b then Inl BuilderPanicked else Inr (b\<lparr>sb_has_step := True\<rparr>))"
| "single_feed show_f64 display (FinishStep n r) b =
     Inr (b\<lparr>sb_last_insert_rowid := r, sb_affected_row_count := n\<rparr>)"
| "single_feed show_f64 display (StepError e) b =
     (if sb_err b \<noteq> None then Inl BuilderPanicked
      else Inr (b\<lparr>sb_total := sb_total b - sb_current_size b + word_length (display e),
                  sb_current_size := word_length (display e), sb_err := Some e\<rparr>))"
| "single_feed show_f64 display (ColsDescription cols) b =
     (if sb_err b \<noteq> None \<or> sb_cols b \<noteq> [] then Inl BuilderPanicked
      else inc_current_size (\<Sum>c\<leftarrow>cols. estimate_cols_json_size c) (b\<lparr>sb_cols := cols\<rparr>))"
| "single_feed show_f64 display BeginRows b =
     (if sb_err b \<noteq> None \<or> sb_rows b \<noteq> [] then Inl BuilderPanicked else Inr b)"
| "single_feed show_f64 display BeginRow b =
     (if sb_err b \<noteq> None then Inl BuilderPanicked else Inr (b\<lparr>sb_rows := sb_rows b @ [[]]\<rparr>))"
| "single_feed show_f64 display (AddRowValue v) b =
     (if sb_err b \<noteq> None then Inl BuilderPanicked
      else
        (let sz = value_json_size show_f64 v
         in if sb_max_response_size b < sb_current_size b + sz
            then Inl (ResponseTooLarge (sb_max_response_size b))
            else
              (case inc_current_size sz b of
                 Inl e \<Rightarrow> Inl e
               | Inr b \<Rightarrow>
                   (case value_to_proto v of
                      Inl e \<Rightarrow> Inl (BuilderInternal e)
                    | Inr x \<Rightarrow>
                        if sb_rows b = [] then Inl BuilderPanicked
                        else Inr (b\<lparr>sb_rows := butlast (sb_rows b) @ [last (sb_rows b) @ [x]]\<rparr>)))))"
| "single_feed show_f64 display FinishRow b = (if sb_err b \<noteq> None then Inl BuilderPanicked else Inr b)"
| "single_feed show_f64 display FinishRows b = (if sb_err b \<noteq> None then Inl BuilderPanicked else Inr b)"
| "single_feed show_f64 display Finish b = Inr b"

text \<open>Taking the result out drops the builder: the counter afterwards, and the result.\<close>

definition single_into_ret :: "SingleStatementBuilder \<Rightarrow> u64 \<times> (Error + StmtResult)" where
  "single_into_ret b =
     (single_drop b,
      case sb_err b of
        Some e \<Rightarrow> Inl e
      | None \<Rightarrow> Inr \<lparr> sr_cols = sb_cols b, sr_rows = sb_rows b,
          sr_affected_row_count = sb_affected_row_count b,
          sr_last_insert_rowid = sb_last_insert_rowid b \<rparr>)"

section \<open>The builder of a batch\<close>

record HranaBatchProtoBuilder =
  hb_step_results :: "StmtResult option list"
  hb_step_errors :: "proto_error option list"
  hb_stmt_builder :: SingleStatementBuilder
  hb_current_size :: u64
  hb_max_response_size :: u64
  hb_step_empty :: bool

definition hrana_batch_default :: "u64 \<Rightarrow> HranaBatchProtoBuilder" where
  "hrana_batch_default count =
     \<lparr> hb_step_results = [], hb_step_errors = [], hb_stmt_builder = single_default count,
       hb_current_size = 0, hb_max_response_size = 0, hb_step_empty = False \<rparr>"

definition with_stmt ::
  "SingleStatementBuilder feed \<Rightarrow> event \<Rightarrow> HranaBatchProtoBuilder
     \<Rightarrow> QueryResultBuilderError + HranaBatchProtoBuilder" where
  "with_stmt feed e b =
     (case feed e (hb_stmt_builder b) of
        Inl err \<Rightarrow> Inl err | Inr s \<Rightarrow> Inr (b\<lparr>hb_stmt_builder := s\<rparr>))"

definition hrana_finish_step ::
  "(string \<Rightarrow> rusqlite_kind) \<Rightarrow> (Error \<Rightarrow> string) \<Rightarrow> HranaBatchProtoBuilder
     \<Rightarrow> QueryResultBuilderError + HranaBatchProtoBuilder" where
  "hrana_finish_step kind display b =
     (let previous = hb_stmt_builder b;
          current_size = hb_current_size b + sb_current_size previous;
          (count, ret) = single_into_ret previous;
          b = b\<lparr>hb_current_size := current_size,
                hb_stmt_builder := (single_default count)\<lparr>
                  sb_max_response_size := hb_max_response_size b - current_size,
                  sb_max_total_response_size := sb_max_total_response_size previous\<rparr>\<rparr>
      in case ret of
           Inr res \<Rightarrow>
             Inr (b\<lparr>hb_step_results := hb_step_results b @ [if hb_step_empty b then None else Some res],
                    hb_step_errors := hb_step_errors b @ [None]\<rparr>)
         | Inl e \<Rightarrow>
             (case stmt_error_from_sqld_error kind e of
                Inl e \<Rightarrow> Inl (BuilderInternal (display e))
              | Inr s \<Rightarrow>
                  Inr (b\<lparr>hb_step_results := hb_step_results b @ [None],
                         hb_step_errors := hb_step_errors b @ [Some (proto_error_from_stmt_error s)]\<rparr>)))"

fun hrana_feed ::
  "(string \<Rightarrow> rusqlite_kind) \<Rightarrow> (f64 \<Rightarrow> string) \<Rightarrow> (Error \<Rightarrow> string) \<Rightarrow> HranaBatchProtoBuilder feed" where
  "hrana_feed kind show_f64 display (EvInit c) b =
     with_stmt (single_feed show_f64 display) (EvInit c)
       ((hrana_batch_default (single_drop (hb_stmt_builder b)))\<lparr>
          hb_max_response_size := limit_of (qc_max_size c)\<rparr>)"
| "hrana_feed kind show_f64 display BeginStep b =
     with_stmt (single_feed show_f64 display) BeginStep (b\<lparr>hb_step_empty := True\<rparr>)"
| "hrana_feed kind show_f64 display (FinishStep n r) b =
     (case with_stmt (single_feed show_f64 display) (FinishStep n r) b of
        Inl e \<Rightarrow> Inl e
      | Inr b \<Rightarrow> hrana_finish_step kind display b)"
| "hrana_feed kind show_f64 display (ColsDescription cols) b =
     with_stmt (single_feed show_f64 display) (ColsDescription cols) (b\<lparr>hb_step_empty := False\<rparr>)"
| "hrana_feed kind show_f64 display FinishRows b = Inr b"
| "hrana_feed kind show_f64 display Finish b = Inr b"
| "hrana_feed kind show_f64 display e b = with_stmt (single_feed show_f64 display) e b"

definition hrana_into_ret :: "HranaBatchProtoBuilder \<Rightarrow> u64 \<times> BatchResult" where
  "hrana_into_ret b =
     (single_drop (hb_stmt_builder b),
      \<lparr> br_step_results = hb_step_results b, br_step_errors = hb_step_errors b \<rparr>)"

section \<open>Execution on a connection\<close>

text \<open>What the builders need of other code: the kinds and texts of errors and the printing of floats.\<close>

record hrana_lib =
  hl_kind :: "string \<Rightarrow> rusqlite_kind"
  hl_show_f64 :: "f64 \<Rightarrow> string"
  hl_display :: "Error \<Rightarrow> string"

abbreviation (input) lib_single_feed :: "hrana_lib \<Rightarrow> SingleStatementBuilder feed" where
  "lib_single_feed lib \<equiv> single_feed (hl_show_f64 lib) (hl_display lib)"

abbreviation (input) lib_hrana_feed :: "hrana_lib \<Rightarrow> HranaBatchProtoBuilder feed" where
  "lib_hrana_feed lib \<equiv> hrana_feed (hl_kind lib) (hl_show_f64 lib) (hl_display lib)"

definition execute_stmt ::
  "'c sqlite \<Rightarrow> hrana_lib \<Rightarrow> nat \<Rightarrow> u64 \<Rightarrow> Authenticated \<Rightarrow> Query \<Rightarrow> 'c Connection
     \<Rightarrow> (hrana_error + StmtResult) \<times> 'c Connection" where
  "execute_stmt sq lib now held auth query c =
     (case execute_batch sq (lib_single_feed lib) now [query] auth c (single_default held) of
        (Inl e, c) \<Rightarrow> (Inl (catch_stmt_error (hl_kind lib) e), c)
      | (Inr (b, _), c) \<Rightarrow>
          (case snd (single_into_ret b) of
             Inl e \<Rightarrow> (Inl (catch_stmt_error (hl_kind lib) e), c)
           | Inr res \<Rightarrow> (Inr res, c)))"

record DescribeResult =
  ds_params :: "string option list"
  ds_cols :: "Column list"
  ds_is_explain :: bool
  ds_is_readonly :: bool

definition proto_describe_result_from_describe_response :: "DescribeResponse \<Rightarrow> DescribeResult" where
  "proto_describe_result_from_describe_response response =
     \<lparr> ds_params = dr_params response, ds_cols = dr_cols response,
       ds_is_explain = dr_is_explain response, ds_is_readonly = dr_is_readonly response \<rparr>"

definition describe_stmt ::
  "'c sqlite \<Rightarrow> hrana_lib \<Rightarrow> nat \<Rightarrow> Authenticated \<Rightarrow> string \<Rightarrow> 'c Connection
     \<Rightarrow> (hrana_error + DescribeResult) \<times> 'c Connection" where
  "describe_stmt sq lib now auth sql c =
     (case libsql_describe sq now sql auth c of
        (Inl e, c) \<Rightarrow> (Inl (catch_stmt_error (hl_kind lib) e), c)
      | (Inr response, c) \<Rightarrow> (Inr (proto_describe_result_from_describe_response response), c))"

definition hrana_execute_batch ::
  "'c sqlite \<Rightarrow> hrana_lib \<Rightarrow> nat \<Rightarrow> u64 \<Rightarrow> Authenticated \<Rightarrow> Program \<Rightarrow> 'c Connection
     \<Rightarrow> (hrana_error + BatchResult) \<times> 'c Connection" where
  "hrana_execute_batch sq lib now held auth pgm c =
     (case libsql_execute_program sq (lib_hrana_feed lib) now pgm auth c (hrana_batch_default held) of
        (Inl e, c) \<Rightarrow> (Inl (catch_batch_error e), c)
      | (Inr (b, _), c) \<Rightarrow> (Inr (snd (hrana_into_ret b)), c))"

fun sequence_result :: "(string \<Rightarrow> rusqlite_kind) \<Rightarrow> StepResult list \<Rightarrow> hrana_error + unit" where
  "sequence_result kind [] = Inr ()"
| "sequence_result kind (StepOk # rs) = sequence_result kind rs"
| "sequence_result kind (StepErr e # rs) = Inl (catch_stmt_error kind e)"
| "sequence_result kind (StepSkipped # rs) = Inl (HeText ''Statement in sequence was not executed'')"

definition execute_sequence ::
  "'c sqlite \<Rightarrow> hrana_lib \<Rightarrow> nat \<Rightarrow> Authenticated \<Rightarrow> Program \<Rightarrow> 'c Connection
     \<Rightarrow> (hrana_error + unit) \<times> 'c Connection" where
  "execute_sequence sq lib now auth pgm c =
     (case libsql_execute_program sq step_results_feed now pgm auth c step_results_new of
        (Inl e, c) \<Rightarrow> (Inl (catch_batch_error e), c)
      | (Inr (b, _), c) \<Rightarrow> (sequence_result (hl_kind lib) (sr_step_results b), c))"

section \<open>Cursors\<close>

datatype CursorEntry =
    CeNone
  | CeStepBegin u32 "Column list"
  | CeStepEnd u64 "i64 option"
  | CeStepError u32 proto_error
  | CeRow "proto_value list"
  | CeError proto_error

record SizedEntry =
  se_entry :: CursorEntry
  se_size :: u64

text \<open>The builder of a cursor, and the entries it has sent; a send to a closed channel is ignored.\<close>

record CursorResultBuilder =
  cu_entries :: "(hrana_error + SizedEntry) list"
  cu_step_i :: u32
  cu_emitted_begin :: bool
  cu_emitted_error :: bool
  cu_row :: "proto_value list"
  cu_row_size :: u64

definition cursor_builder_new :: CursorResultBuilder where
  "cursor_builder_new =
     \<lparr> cu_entries = [], cu_step_i = 0, cu_emitted_begin = False, cu_emitted_error = False, cu_row = [],
       cu_row_size = 0 \<rparr>"

definition emit_entry :: "hrana_error + SizedEntry \<Rightarrow> CursorResultBuilder \<Rightarrow> CursorResultBuilder" where
  "emit_entry e b = b\<lparr>cu_entries := cu_entries b @ [e]\<rparr>"

definition cursor_open :: "CursorResultBuilder \<Rightarrow> bool" where
  "cursor_open b \<longleftrightarrow> cu_emitted_begin b \<and> \<not> cu_emitted_error b"

fun cursor_feed :: "hrana_lib \<Rightarrow> CursorResultBuilder feed" where
  "cursor_feed lib (FinishStep n r) b =
     (let b = (if cursor_open b then emit_entry (Inr \<lparr> se_entry = CeStepEnd n r, se_size = 100 \<rparr>) b else b)
      in Inr (b\<lparr>cu_step_i := cu_step_i b + 1, cu_emitted_begin := False, cu_emitted_error := False,
                cu_row := [], cu_row_size := 0\<rparr>))"
| "cursor_feed lib (StepError e) b =
     (case stmt_error_from_sqld_error (hl_kind lib) e of
        Inr s \<Rightarrow>
          if cu_emitted_error b then Inr b
          else Inr ((emit_entry (Inr \<lparr> se_entry = CeStepError (cu_step_i b) (proto_error_from_stmt_error s),
                                       se_size = 100 \<rparr>) b)\<lparr>cu_emitted_error := True\<rparr>)
      | Inl e \<Rightarrow> Inr (emit_entry (Inl (HeSqld e)) b))"
| "cursor_feed lib (ColsDescription cols) b =
     (if cu_emitted_begin b then Inl BuilderPanicked
      else if cu_emitted_error b then Inr b
      else Inr ((emit_entry (Inr \<lparr> se_entry = CeStepBegin (cu_step_i b) cols,
                                   se_size = (\<Sum>c\<leftarrow>cols. estimate_cols_json_size c) \<rparr>) b)
                  \<lparr>cu_emitted_begin := True\<rparr>))"
| "cursor_feed lib BeginRow b = (if cu_row b \<noteq> [] then Inl BuilderPanicked else Inr b)"
| "cursor_feed lib (AddRowValue v) b =
     (if cursor_open b
      then (case value_to_proto v of
              Inl e \<Rightarrow> Inl (BuilderInternal e)
            | Inr x \<Rightarrow> Inr (b\<lparr>cu_row_size := cu_row_size b + value_json_size (hl_show_f64 lib) v,
                              cu_row := cu_row b @ [x]\<rparr>))
      else Inr b)"
| "cursor_feed lib FinishRow b =
     Inr ((if cursor_open b then emit_entry (Inr \<lparr> se_entry = CeRow (cu_row b), se_size = cu_row_size b \<rparr>) b
           else b)\<lparr>cu_row := [], cu_row_size := 0\<rparr>)"
| "cursor_feed lib FinishRows b = (if cu_row b \<noteq> [] then Inl BuilderPanicked else Inr b)"
| "cursor_feed lib _ b = Inr b"

text \<open>
  The cursor's task: all entries it sends, or the last one when the run was cut
  short, after what the builder had sent by then.
\<close>

definition run_cursor ::
  "'c sqlite \<Rightarrow> hrana_lib \<Rightarrow> nat \<Rightarrow> Authenticated \<Rightarrow> Program \<Rightarrow> 'c Connection
     \<Rightarrow> ((hrana_error + SizedEntry) + (hrana_error + SizedEntry) list) \<times> 'c Connection" where
  "run_cursor sq lib now auth pgm c =
     (case libsql_execute_program sq (cursor_feed lib) now pgm auth c cursor_builder_new of
        (Inr (b, _), c) \<Rightarrow> (Inr (cu_entries b), c)
      | (Inl e, c) \<Rightarrow>
          (Inl (case batch_error_from_sqld_error e of
                  Inr be \<Rightarrow> Inr \<lparr> se_entry = CeError (proto_error_from_batch_error be), se_size = 0 \<rparr>
                | Inl e \<Rightarrow> Inl (HeSqld e)), c))"

end
