(* ===== verification/HranaBatch.thy ===== *)
theory HranaBatch
  imports HranaStmt
begin

text \<open>
  What Hrana answers to statements, batches, sequences and cursors: the programs of
  batches only look back, the batch builder keeps the contract of result builders, and the
  results are those of the steps that ran.
\<close>

section \<open>Programs of batches only look back\<close>

lemma proto_cond_below:
  "proto_cond_to_cond c version m = Inr d \<Longrightarrow> cond_below m d"
  "proto_conds_to_conds cs version m = Inr ds \<Longrightarrow> \<forall>d\<in>set ds. cond_below m d"
proof (induction c version m and cs version m arbitrary: d and ds
    rule: proto_cond_to_cond_proto_conds_to_conds.induct)
qed (auto simp: try_convert_step_def split: sum.splits if_splits)

lemma batch_steps_below:
  "batch_steps p i steps sqls version = Inr pgm \<Longrightarrow>
   length pgm = length steps \<and>
   (\<forall>k<length pgm. \<forall>c. sp_cond (pgm ! k) = Some c \<longrightarrow> cond_below (i + k) c)"
proof (induction steps arbitrary: i pgm)
  case (Cons step steps)
  then obtain s pgm' where s: "pgm = s # pgm'" "batch_steps p (Suc i) steps sqls version = Inr pgm'"
    "\<forall>c. sp_cond s = Some c \<longrightarrow> cond_below i c"
    by (auto split: sum.splits option.splits dest: proto_cond_below(1))
  with Cons.IH [OF s(2)] show ?case
    by (auto simp: nth_Cons split: nat.splits)
qed simp

lemma batch_program_backward:
  "proto_batch_to_program p batch sqls version = Inr pgm \<Longrightarrow> conds_backward pgm \<and> length pgm = length batch"
  using batch_steps_below [of p 0 batch sqls version pgm]
  by (auto simp: proto_batch_to_program_def conds_backward_def split: option.splits)

lemma batch_program_conds_backward: "conds_backward (make_batch_program batch)"
  by (auto simp: conds_backward_def make_batch_program_def nth_enumerate_eq)

section \<open>The contract of the batch builder\<close>

definition single_inv :: "FsmState \<Rightarrow> SingleStatementBuilder \<Rightarrow> bool" where
  "single_inv s b \<longleftrightarrow>
     (s \<noteq> FsStepError \<longrightarrow> sb_err b = None) \<and>
     (s \<in> {FsInit, FsFinish, FsFinishStep} \<longrightarrow> \<not> sb_has_step b) \<and>
     (s \<in> {FsInit, FsFinish, FsFinishStep, FsBeginStep} \<longrightarrow> sb_cols b = []) \<and>
     (s \<in> {FsInit, FsFinish, FsFinishStep, FsBeginStep, FsColsDescription, FsBeginRows} \<longrightarrow> sb_rows b = []) \<and>
     (s \<in> {FsBeginRow, FsAddRowValue} \<longrightarrow> sb_rows b \<noteq> [])"

definition hrana_inv :: "FsmState \<Rightarrow> HranaBatchProtoBuilder \<Rightarrow> bool" where
  "hrana_inv s b \<longleftrightarrow> single_inv s (hb_stmt_builder b)"

lemma inc_current_size_ok:
  "inc_current_size n b = Inr b' \<Longrightarrow>
   b' = b\<lparr>sb_current_size := sb_current_size b + n, sb_total := sb_total b + n\<rparr>"
  by (simp add: inc_current_size_def split: if_splits)

lemma inc_current_size_keeps:
  "inc_current_size n b = Inr b' \<Longrightarrow>
   sb_err b' = sb_err b \<and> sb_rows b' = sb_rows b \<and> sb_cols b' = sb_cols b \<and> sb_has_step b' = sb_has_step b \<and>
   single_drop b' = single_drop b"
  by (drule inc_current_size_ok) (simp add: single_drop_def)

lemma inc_current_size_no_panic: "inc_current_size n b \<noteq> Inl BuilderPanicked"
  by (simp add: inc_current_size_def)

text \<open>The statement builder keeps the contract within one step.\<close>

fun within_step :: "event \<Rightarrow> bool" where
  "within_step (FinishStep _ _) = False"
| "within_step (EvInit _) = False"
| "within_step Finish = False"
| "within_step _ = True"

lemma single_AddRowValue:
  "single_feed show_f64 display (AddRowValue v) b = Inr b' \<longleftrightarrow>
   sb_err b = None \<and> sb_rows b \<noteq> [] \<and>
   (\<exists>x b1. value_to_proto v = Inr x \<and> inc_current_size (value_json_size show_f64 v) b = Inr b1 \<and>
      b' = b1\<lparr>sb_rows := butlast (sb_rows b1) @ [last (sb_rows b1) @ [x]]\<rparr>)"
  by (auto simp: Let_def inc_current_size_def split: sum.splits)

lemma single_no_panic:
  assumes "single_inv s b" "fsm_allowed s (fsm_target e)"
  shows "single_feed show_f64 display e b \<noteq> Inl BuilderPanicked"
proof (cases e)
  case (ColsDescription cols)
  then show ?thesis using assms by (simp add: single_inv_def inc_current_size_def)
next
  case (AddRowValue v)
  then have "sb_err b = None" "sb_rows b \<noteq> []" using assms by (auto simp: single_inv_def)
  then show ?thesis using AddRowValue by (simp add: Let_def inc_current_size_def split: sum.splits)
qed (use assms in \<open>auto simp: single_inv_def\<close>)

lemma single_keeps_inv:
  assumes "single_inv s b" "fsm_allowed s (fsm_target e)" "within_step e"
    and "single_feed show_f64 display e b = Inr b'"
  shows "single_inv (fsm_target e) b'"
proof (cases e)
  case (ColsDescription cols)
  then have b: "sb_err b = None" "sb_rows b = []" using assms(1,2) by (auto simp: single_inv_def)
  then have "\<exists>n. inc_current_size n (b\<lparr>sb_cols := cols\<rparr>) = Inr b'"
    using assms(4) ColsDescription by (auto split: if_splits)
  then have "sb_err b' = sb_err b \<and> sb_rows b' = sb_rows b" using inc_current_size_keeps by fastforce
  then show ?thesis using b ColsDescription by (simp add: single_inv_def)
next
  case (AddRowValue v)
  then obtain b1 x where "inc_current_size (value_json_size show_f64 v) b = Inr b1" "sb_err b = None"
    "b' = b1\<lparr>sb_rows := butlast (sb_rows b1) @ [last (sb_rows b1) @ [x]]\<rparr>"
    using assms(4) unfolding AddRowValue single_AddRowValue by blast
  moreover from this have "sb_err b1 = sb_err b" using inc_current_size_keeps by blast
  ultimately show ?thesis using AddRowValue by (simp add: single_inv_def)
next
  case (StepError err)
  then show ?thesis by (simp add: single_inv_def)
next
  case BeginStep
  then have "s = FsInit \<or> s = FsFinishStep" using assms(2) by simp
  then have "sb_err b = None" "sb_cols b = []" "sb_rows b = []" using assms(1) by (auto simp: single_inv_def)
  moreover have "b' = b\<lparr>sb_has_step := True\<rparr>" using assms(4) BeginStep by (simp split: if_splits)
  ultimately show ?thesis using BeginStep by (simp add: single_inv_def)
next
  case BeginRow
  then have "sb_err b = None" "b' = b\<lparr>sb_rows := sb_rows b @ [[]]\<rparr>"
    using assms(4) by (simp_all split: if_splits)
  then show ?thesis using BeginRow by (simp add: single_inv_def)
next
  case BeginRows
  then have "sb_err b = None" "sb_rows b = []" "b' = b" using assms(4) by (simp_all split: if_splits)
  then show ?thesis using BeginRows by (simp add: single_inv_def)
next
  case FinishRow
  then have "sb_err b = None" "b' = b" using assms(4) by (simp_all split: if_splits)
  then show ?thesis using FinishRow by (simp add: single_inv_def)
next
  case FinishRows
  then have "sb_err b = None" "b' = b" using assms(4) by (simp_all split: if_splits)
  then show ?thesis using FinishRows by (simp add: single_inv_def)
qed (use assms(3) in simp_all)

lemma with_stmt_no_panic:
  assumes "single_inv s (hb_stmt_builder b)" "fsm_allowed s (fsm_target e)"
  shows "with_stmt (single_feed show_f64 display) e b \<noteq> Inl BuilderPanicked"
  using single_no_panic [OF assms, of show_f64 display] by (auto simp: with_stmt_def split: sum.splits)

lemma with_stmt_inv:
  assumes "single_inv s (hb_stmt_builder b)" "fsm_allowed s (fsm_target e)" "within_step e"
    and "with_stmt (single_feed show_f64 display) e b = Inr b'"
  shows "single_inv (fsm_target e) (hb_stmt_builder b')"
proof -
  obtain s where "single_feed show_f64 display e (hb_stmt_builder b) = Inr s" "b' = b\<lparr>hb_stmt_builder := s\<rparr>"
    using assms(4) by (auto simp: with_stmt_def split: sum.splits)
  then show ?thesis using single_keeps_inv [OF assms(1-3)] by simp
qed

lemma hrana_finish_step_no_panic: "hrana_finish_step kind display b \<noteq> Inl BuilderPanicked"
  by (simp add: hrana_finish_step_def Let_def split: sum.splits prod.splits)

lemma hrana_finish_step_fresh:
  assumes "hrana_finish_step kind display b = Inr b'"
  shows "single_inv FsFinishStep (hb_stmt_builder b')"
proof -
  obtain t m n where "hb_stmt_builder b' =
      (single_default t)\<lparr>sb_max_response_size := m, sb_max_total_response_size := n\<rparr>"
    using assms by (fastforce simp: hrana_finish_step_def Let_def split: sum.splits prod.splits)
  then show ?thesis by (simp add: single_inv_def single_default_def)
qed

lemma hrana_feed_no_panic:
  assumes "hrana_inv s b" "fsm_allowed s (fsm_target e)"
  shows "hrana_feed kind show_f64 display e b \<noteq> Inl BuilderPanicked"
proof (cases e)
  case (EvInit c)
  then show ?thesis by (simp add: with_stmt_def)
next
  case (FinishStep n r)
  then show ?thesis
    using hrana_finish_step_no_panic [of kind display] by (simp add: with_stmt_def)
next
  case BeginStep
  then show ?thesis
    using with_stmt_no_panic [of s "b\<lparr>hb_step_empty := True\<rparr>" e] assms by (simp add: hrana_inv_def)
next
  case (ColsDescription cols)
  then show ?thesis
    using with_stmt_no_panic [of s "b\<lparr>hb_step_empty := False\<rparr>" e] assms by (simp add: hrana_inv_def)
qed (use with_stmt_no_panic [of s b e] assms in \<open>simp_all add: hrana_inv_def\<close>)

lemma hrana_feed_inv:
  assumes "hrana_inv s b" "fsm_allowed s (fsm_target e)"
    and "hrana_feed kind show_f64 display e b = Inr b'"
  shows "hrana_inv (fsm_target e) b'"
proof (cases e)
  case (EvInit c)
  then show ?thesis using assms(3) [symmetric]
    by (simp add: with_stmt_def hrana_inv_def single_inv_def single_default_def)
next
  case (FinishStep n r)
  then show ?thesis
    using assms(3) hrana_finish_step_fresh by (auto simp: with_stmt_def hrana_inv_def)
next
  case BeginStep
  then show ?thesis
    using with_stmt_inv [of s "b\<lparr>hb_step_empty := True\<rparr>" e] assms by (simp add: hrana_inv_def)
next
  case (ColsDescription cols)
  then show ?thesis
    using with_stmt_inv [of s "b\<lparr>hb_step_empty := False\<rparr>" e] assms by (simp add: hrana_inv_def)
next
  case FinishRows
  then show ?thesis using assms by (auto simp: hrana_inv_def single_inv_def)
next
  case Finish
  then show ?thesis using assms by (auto simp: hrana_inv_def single_inv_def)
qed (use with_stmt_inv [of s b e] assms in \<open>simp_all add: hrana_inv_def\<close>)

interpretation hrana_batch: query_result_builder "hrana_feed kind show_f64 display" hrana_inv
  using hrana_feed_no_panic hrana_feed_inv by unfold_locales blast+

lemma hrana_default_inv: "hrana_inv FsInit (hrana_batch_default held)"
  by (simp add: hrana_inv_def single_inv_def hrana_batch_default_def single_default_def)

section \<open>Results of steps\<close>

definition proto_row :: "ValueRef list \<Rightarrow> proto_value list" where
  "proto_row vs = map (\<lambda>v. projr (value_to_proto v)) vs"

text \<open>What the protocol says of a step: a result when it ran, an error when it failed, neither when it was skipped.\<close>

fun step_stmt_result :: "step_run \<Rightarrow> StmtResult option" where
  "step_stmt_result (Ran cols rows n r) =
     Some \<lparr> sr_cols = cols, sr_rows = map proto_row rows, sr_affected_row_count = n,
            sr_last_insert_rowid = r \<rparr>"
| "step_stmt_result _ = None"

fun step_proto_error :: "(string \<Rightarrow> rusqlite_kind) \<Rightarrow> step_run \<Rightarrow> proto_error option" where
  "step_proto_error kind (FailedAfter es e) =
     Some (proto_error_from_stmt_error (projr (stmt_error_from_sqld_error kind e)))"
| "step_proto_error kind _ = None"

definition single_same :: "SingleStatementBuilder \<Rightarrow> SingleStatementBuilder \<Rightarrow> bool" where
  "single_same b b' \<longleftrightarrow> sb_cols b' = sb_cols b \<and> sb_err b' = sb_err b \<and> single_drop b' = single_drop b"

lemma single_same_trans: "single_same a b \<Longrightarrow> single_same b c \<Longrightarrow> single_same a c"
  by (simp add: single_same_def)

lemma single_value:
  assumes "single_feed show_f64 display (AddRowValue v) b = Inr b'" "sb_rows b = rs @ [r]"
  shows "sb_rows b' = rs @ [r @ proto_row [v]] \<and> single_same b b'"
proof -
  obtain x b1 where x: "value_to_proto v = Inr x" "inc_current_size (value_json_size show_f64 v) b = Inr b1"
    "b' = b1\<lparr>sb_rows := butlast (sb_rows b1) @ [last (sb_rows b1) @ [x]]\<rparr>"
    using assms(1) unfolding single_AddRowValue by blast
  then show ?thesis using inc_current_size_keeps [OF x(2)] assms(2)
    by (simp add: proto_row_def single_same_def single_drop_def)
qed

lemma single_values:
  "feed_all (single_feed show_f64 display) (map AddRowValue vs) b = Inr b' \<Longrightarrow> sb_rows b = rs @ [r] \<Longrightarrow>
   sb_rows b' = rs @ [r @ proto_row vs] \<and> single_same b b'"
proof (induction vs arbitrary: b r)
  case Nil
  then show ?case by (simp add: proto_row_def single_same_def)
next
  case (Cons v vs)
  obtain b1 where b1: "single_feed show_f64 display (AddRowValue v) b = Inr b1"
    "feed_all (single_feed show_f64 display) (map AddRowValue vs) b1 = Inr b'"
    using Cons.prems(1) by (auto simp del: single_feed.simps split: sum.splits)
  note v = single_value [OF b1(1) Cons.prems(2)]
  from Cons.IH [OF b1(2), of "r @ proto_row [v]"] v show ?case
    using single_same_trans by (auto simp: proto_row_def)
qed

lemma single_row:
  assumes "feed_all (single_feed show_f64 display) (row_events vs) b = Inr b'"
  shows "sb_rows b' = sb_rows b @ [proto_row vs] \<and> single_same b b'"
proof -
  let ?b = "b\<lparr>sb_rows := sb_rows b @ [[]]\<rparr>"
  have "feed_all (single_feed show_f64 display) (map AddRowValue vs) ?b = Inr b'"
    using assms
    by (auto simp: row_events_def feed_all_append split: sum.splits if_splits simp del: single_feed.simps(8))
  from single_values [OF this, of "sb_rows b" "[]"] show ?thesis
    by (simp add: single_same_def single_drop_def)
qed

lemma single_rows:
  "feed_all (single_feed show_f64 display) (concat (map row_events rows)) b = Inr b' \<Longrightarrow>
   sb_rows b' = sb_rows b @ map proto_row rows \<and> single_same b b'"
proof (induction rows arbitrary: b)
  case Nil
  then show ?case by (simp add: single_same_def)
next
  case (Cons vs rows)
  obtain b1 where b1: "feed_all (single_feed show_f64 display) (row_events vs) b = Inr b1"
    "feed_all (single_feed show_f64 display) (concat (map row_events rows)) b1 = Inr b'"
    using Cons.prems by (auto simp: feed_all_append split: sum.splits)
  from single_row [OF b1(1)] Cons.IH [OF b1(2)] show ?case using single_same_trans by auto
qed

lemma single_cols:
  assumes "single_feed show_f64 display (ColsDescription cols) b = Inr b'"
  shows "sb_cols b' = cols \<and> sb_err b' = sb_err b \<and> sb_rows b' = sb_rows b \<and> single_drop b' = single_drop b"
proof -
  obtain n where "inc_current_size n (b\<lparr>sb_cols := cols\<rparr>) = Inr b'"
    using assms by (auto split: if_splits)
  from inc_current_size_keeps [OF this] show ?thesis by (simp add: single_drop_def)
qed

text \<open>Within a step the batch builder hands the calls on.\<close>

fun handed_on :: "event \<Rightarrow> bool" where
  "handed_on (AddRowValue _) = True"
| "handed_on BeginRow = True"
| "handed_on FinishRow = True"
| "handed_on BeginRows = True"
| "handed_on (StepError _) = True"
| "handed_on _ = False"

lemma hrana_handed_on:
  "handed_on e \<Longrightarrow> hrana_feed kind show_f64 display e b = with_stmt (single_feed show_f64 display) e b"
  by (cases e) simp_all

lemma hrana_hands_on:
  "list_all handed_on es \<Longrightarrow>
   feed_all (hrana_feed kind show_f64 display) es b =
     (case feed_all (single_feed show_f64 display) es (hb_stmt_builder b) of
        Inl e \<Rightarrow> Inl e | Inr s \<Rightarrow> Inr (b\<lparr>hb_stmt_builder := s\<rparr>))"
proof (induction es arbitrary: b)
  case (Cons e es)
  have "hrana_feed kind show_f64 display e b = with_stmt (single_feed show_f64 display) e b"
    using Cons.prems hrana_handed_on by simp
  then show ?case
    using Cons.IH [of "b\<lparr>hb_stmt_builder := _\<rparr>"] Cons.prems
    by (simp add: with_stmt_def del: single_feed.simps hrana_feed.simps split: sum.splits)
qed simp

lemma rows_handed_on: "list_all handed_on (concat (map row_events rows))"
  by (auto simp: list_all_iff row_events_def)

lemma hrana_row_event:
  assumes "row_event e" "hrana_feed kind show_f64 display e b = Inr b'"
  shows "hb_step_results b' = hb_step_results b \<and> hb_step_errors b' = hb_step_errors b \<and>
    single_drop (hb_stmt_builder b') = single_drop (hb_stmt_builder b)"
proof -
  have inc: "inc_current_size n s = Inr s' \<Longrightarrow> single_drop s' = single_drop s" for n s s'
    using inc_current_size_keeps by blast
  have "single_feed show_f64 display e s = Inr s' \<Longrightarrow> single_drop s' = single_drop s" for s s'
  proof (cases e)
    case (AddRowValue v)
    then show "single_feed show_f64 display e s = Inr s' \<Longrightarrow> single_drop s' = single_drop s"
      unfolding AddRowValue single_AddRowValue by (auto dest!: inc simp: single_drop_def)
  next
    case (ColsDescription cols)
    then show "single_feed show_f64 display e s = Inr s' \<Longrightarrow> single_drop s' = single_drop s"
      using single_cols by blast
  qed (use assms(1) in \<open>auto simp: single_drop_def split: if_splits\<close>)
  then have "with_stmt (single_feed show_f64 display) e b = Inr b' \<Longrightarrow>
      hb_step_results b' = hb_step_results b \<and> hb_step_errors b' = hb_step_errors b \<and>
      single_drop (hb_stmt_builder b') = single_drop (hb_stmt_builder b)" for b b'
    by (auto simp: with_stmt_def split: sum.splits)
  from this [of "b\<lparr>hb_step_empty := False\<rparr>" b'] this [of b b'] show ?thesis
    using assms by (cases e) auto
qed

lemma hrana_row_events:
  "list_all row_event es \<Longrightarrow> feed_all (hrana_feed kind show_f64 display) es b = Inr b' \<Longrightarrow>
   hb_step_results b' = hb_step_results b \<and> hb_step_errors b' = hb_step_errors b \<and>
   single_drop (hb_stmt_builder b') = single_drop (hb_stmt_builder b)"
proof (induction es arbitrary: b)
  case (Cons e es)
  obtain b1 where b1: "hrana_feed kind show_f64 display e b = Inr b1"
    "feed_all (hrana_feed kind show_f64 display) es b1 = Inr b'"
    using Cons.prems(2) by (auto simp del: hrana_feed.simps split: sum.splits)
  from hrana_row_event [OF _ b1(1)] Cons.IH [OF _ b1(2)] show ?case using Cons.prems(1) by simp
qed simp

lemma hrana_FinishStep:
  assumes "hrana_feed kind show_f64 display (FinishStep n r) b = Inr b'"
  defines "s \<equiv> hb_stmt_builder b"
  shows "hb_step_results b' = hb_step_results b @
      [if sb_err s = None \<and> \<not> hb_step_empty b
       then Some \<lparr> sr_cols = sb_cols s, sr_rows = sb_rows s, sr_affected_row_count = n, sr_last_insert_rowid = r \<rparr>
       else None] \<and>
    hb_step_errors b' = hb_step_errors b @
      [map_option (\<lambda>e. proto_error_from_stmt_error (projr (stmt_error_from_sqld_error kind e))) (sb_err s)] \<and>
    single_drop (hb_stmt_builder b') = single_drop s \<and> single_inv FsFinishStep (hb_stmt_builder b')"
proof -
  let ?b = "b\<lparr>hb_stmt_builder := s\<lparr>sb_last_insert_rowid := r, sb_affected_row_count := n\<rparr>\<rparr>"
  have fin: "hrana_finish_step kind display ?b = Inr b'"
    using assms(1) by (simp add: with_stmt_def s_def)
  show ?thesis
  proof (cases "sb_err s")
    case None
    then show ?thesis
      using fin hrana_finish_step_fresh [OF fin]
      by (auto simp: hrana_finish_step_def single_into_ret_def Let_def single_drop_def single_default_def)
  next
    case (Some e)
    then obtain se where "stmt_error_from_sqld_error kind e = Inr se"
      using fin by (auto simp: hrana_finish_step_def single_into_ret_def Let_def split: sum.splits)
    then show ?thesis
      using fin Some hrana_finish_step_fresh [OF fin]
      by (auto simp: hrana_finish_step_def single_into_ret_def Let_def single_drop_def single_default_def)
  qed
qed

definition step_recorded ::
  "(string \<Rightarrow> rusqlite_kind) \<Rightarrow> HranaBatchProtoBuilder \<Rightarrow> step_run list \<Rightarrow> HranaBatchProtoBuilder \<Rightarrow> bool" where
  "step_recorded kind b sts b' \<longleftrightarrow>
     hb_step_results b' = hb_step_results b @ map step_stmt_result sts \<and>
     hb_step_errors b' = hb_step_errors b @ map (step_proto_error kind) sts \<and>
     single_drop (hb_stmt_builder b') = single_drop (hb_stmt_builder b)"

lemma freshD:
  "single_inv FsFinishStep s \<Longrightarrow> sb_err s = None \<and> sb_cols s = [] \<and> sb_rows s = [] \<and> \<not> sb_has_step s"
  by (simp add: single_inv_def)

lemma hrana_BeginStep:
  assumes "single_inv FsFinishStep (hb_stmt_builder b)"
  shows "hrana_feed kind show_f64 display BeginStep b =
    Inr (b\<lparr>hb_step_empty := True, hb_stmt_builder := (hb_stmt_builder b)\<lparr>sb_has_step := True\<rparr>\<rparr>)"
  using freshD [OF assms] by (simp add: with_stmt_def)

lemma hrana_cols:
  assumes "hrana_feed kind show_f64 display (ColsDescription cols) b = Inr b'"
  shows "\<exists>s. b' = b\<lparr>hb_step_empty := False, hb_stmt_builder := s\<rparr> \<and>
    sb_cols s = cols \<and> sb_err s = sb_err (hb_stmt_builder b) \<and> sb_rows s = sb_rows (hb_stmt_builder b) \<and>
    single_drop s = single_drop (hb_stmt_builder b)"
proof -
  obtain s where "single_feed show_f64 display (ColsDescription cols) (hb_stmt_builder b) = Inr s"
    "b' = b\<lparr>hb_step_empty := False, hb_stmt_builder := s\<rparr>"
    using assms by (auto simp: with_stmt_def simp del: single_feed.simps split: sum.splits)
  then show ?thesis using single_cols by blast
qed

lemma hrana_rows:
  assumes "feed_all (hrana_feed kind show_f64 display) (BeginRows # concat (map row_events rows) @ [FinishRows]) b = Inr b'"
  shows "\<exists>s. b' = b\<lparr>hb_stmt_builder := s\<rparr> \<and> sb_rows s = sb_rows (hb_stmt_builder b) @ map proto_row rows \<and>
    single_same (hb_stmt_builder b) s"
proof -
  obtain b1 where b1: "hrana_feed kind show_f64 display BeginRows b = Inr b1"
    "feed_all (hrana_feed kind show_f64 display) (concat (map row_events rows)) b1 = Inr b'"
    using assms by (auto simp: feed_all_append simp del: hrana_feed.simps(1-4) hrana_feed.simps(7-11) split: sum.splits)
  have "b1 = b" using b1(1) by (auto simp: with_stmt_def split: if_splits)
  then obtain s where "feed_all (single_feed show_f64 display) (concat (map row_events rows)) (hb_stmt_builder b) = Inr s"
    "b' = b\<lparr>hb_stmt_builder := s\<rparr>"
    using b1(2) by (auto simp: hrana_hands_on [OF rows_handed_on] split: sum.splits)
  then show ?thesis using single_rows by blast
qed

lemma hrana_Ran:
  assumes "single_inv FsFinishStep (hb_stmt_builder b)"
    and "feed_all (hrana_feed kind show_f64 display) (step_events (Ran cols rows n r)) b = Inr b'"
  shows "step_recorded kind b [Ran cols rows n r] b' \<and> single_inv FsFinishStep (hb_stmt_builder b')"
proof -
  let ?feed = "hrana_feed kind show_f64 display"
  let ?b = "b\<lparr>hb_step_empty := True, hb_stmt_builder := (hb_stmt_builder b)\<lparr>sb_has_step := True\<rparr>\<rparr>"
  have events: "step_events (Ran cols rows n r) =
      [BeginStep, ColsDescription cols] @ (BeginRows # concat (map row_events rows) @ [FinishRows]) @ [FinishStep n r]"
    by simp
  have "feed_all ?feed ([ColsDescription cols] @ (BeginRows # concat (map row_events rows) @ [FinishRows]) @
      [FinishStep n r]) ?b = Inr b'"
    using assms(2) hrana_BeginStep [OF assms(1), of kind show_f64 display] unfolding events
    by (simp del: hrana_feed.simps)
  then obtain b1 b2 where
    b1: "?feed (ColsDescription cols) ?b = Inr b1"
    and b2: "feed_all ?feed (BeginRows # concat (map row_events rows) @ [FinishRows]) b1 = Inr b2"
    and fin: "?feed (FinishStep n r) b2 = Inr b'"
    unfolding feed_all_append by (auto simp del: hrana_feed.simps split: sum.splits)
  obtain s1 where s1: "b1 = ?b\<lparr>hb_step_empty := False, hb_stmt_builder := s1\<rparr>" "sb_cols s1 = cols" "sb_err s1 = None"
    "sb_rows s1 = []" "single_drop s1 = single_drop (hb_stmt_builder b)"
    using hrana_cols [OF b1] freshD [OF assms(1)] by (auto simp: single_drop_def)
  obtain s2 where "b2 = b1\<lparr>hb_stmt_builder := s2\<rparr>" "sb_rows s2 = map proto_row rows" "single_same s1 s2"
    using hrana_rows [OF b2] s1(1,4) by auto
  then show ?thesis
    using hrana_FinishStep [OF fin] s1 by (simp add: step_recorded_def single_same_def)
qed

lemma hrana_Failed:
  assumes "single_inv FsFinishStep (hb_stmt_builder b)" "list_all row_event es"
    and "feed_all (hrana_feed kind show_f64 display) (step_events (FailedAfter es e)) b = Inr b'"
  shows "step_recorded kind b [FailedAfter es e] b' \<and> single_inv FsFinishStep (hb_stmt_builder b')"
proof -
  let ?feed = "hrana_feed kind show_f64 display"
  let ?b = "b\<lparr>hb_step_empty := True, hb_stmt_builder := (hb_stmt_builder b)\<lparr>sb_has_step := True\<rparr>\<rparr>"
  obtain b1 b2 where b1: "feed_all ?feed es ?b = Inr b1" and b2: "?feed (StepError e) b1 = Inr b2"
    and fin: "?feed (FinishStep 0 None) b2 = Inr b'"
    using assms(3) hrana_BeginStep [OF assms(1), of kind show_f64 display]
    by (auto simp: feed_all_append simp del: hrana_feed.simps split: sum.splits)
  have "hb_step_results b2 = hb_step_results b1 \<and> hb_step_errors b2 = hb_step_errors b1 \<and>
      sb_err (hb_stmt_builder b2) = Some e \<and> single_drop (hb_stmt_builder b2) = single_drop (hb_stmt_builder b1)"
    using b2 by (auto simp: with_stmt_def single_drop_def split: if_splits)
  then show ?thesis
    using hrana_FinishStep [OF fin] hrana_row_events [OF assms(2) b1]
    by (simp add: step_recorded_def single_drop_def)
qed

lemma hrana_step:
  assumes "single_inv FsFinishStep (hb_stmt_builder b)" "step_legal st"
    and run: "feed_all (hrana_feed kind show_f64 display) (step_events st) b = Inr b'"
  shows "step_recorded kind b [st] b' \<and> single_inv FsFinishStep (hb_stmt_builder b')"
proof (cases st)
  case Skipped
  let ?b = "b\<lparr>hb_step_empty := True, hb_stmt_builder := (hb_stmt_builder b)\<lparr>sb_has_step := True\<rparr>\<rparr>"
  have "hrana_feed kind show_f64 display (FinishStep 0 None) ?b = Inr b'"
    using run hrana_BeginStep [OF assms(1), of kind show_f64 display] Skipped
    by (auto simp del: hrana_feed.simps split: sum.splits)
  from hrana_FinishStep [OF this] show ?thesis
    using Skipped freshD [OF assms(1)] by (simp add: step_recorded_def single_drop_def)
next
  case (Ran cols rows n r)
  then show ?thesis using hrana_Ran [OF assms(1)] run by blast
next
  case (FailedAfter es e)
  then show ?thesis using hrana_Failed [OF assms(1)] run assms(2) by auto
qed

lemma hrana_steps:
  "single_inv FsFinishStep (hb_stmt_builder b) \<Longrightarrow> list_all step_legal sts \<Longrightarrow>
   feed_all (hrana_feed kind show_f64 display) (concat (map step_events sts)) b = Inr b' \<Longrightarrow>
   step_recorded kind b sts b'"
proof (induction sts arbitrary: b)
  case Nil
  then show ?case by (simp add: step_recorded_def)
next
  case (Cons st sts)
  obtain b1 where b1: "feed_all (hrana_feed kind show_f64 display) (step_events st) b = Inr b1"
    "feed_all (hrana_feed kind show_f64 display) (concat (map step_events sts)) b1 = Inr b'"
    using Cons.prems(3) by (auto simp: feed_all_append split: sum.splits)
  from hrana_step [OF Cons.prems(1) _ b1(1)] Cons.IH [OF _ _ b1(2)] show ?case
    using Cons.prems(2) by (auto simp: step_recorded_def)
qed

lemma hrana_program:
  assumes "list_all step_legal sts"
    and "feed_all (hrana_feed kind show_f64 display) (program_events cfg sts) (hrana_batch_default held) = Inr b'"
  shows "hrana_into_ret b' =
    (held, \<lparr> br_step_results = map step_stmt_result sts, br_step_errors = map (step_proto_error kind) sts \<rparr>)"
proof -
  obtain b where b: "hrana_feed kind show_f64 display (EvInit cfg) (hrana_batch_default held) = Inr b"
    "feed_all (hrana_feed kind show_f64 display) (concat (map step_events sts)) b = Inr b'"
    using assms(2)
    by (auto simp: program_events_def feed_all_append simp del: hrana_feed.simps(1-5) hrana_feed.simps(7-11)
        split: sum.splits)
  have "single_inv FsFinishStep (hb_stmt_builder b) \<and> hb_step_results b = [] \<and> hb_step_errors b = [] \<and>
      single_drop (hb_stmt_builder b) = held"
    using b(1) by (auto simp: with_stmt_def single_inv_def single_default_def hrana_batch_default_def single_drop_def)
  then show ?thesis
    using hrana_steps [OF _ assms(1) b(2)] by (simp add: step_recorded_def hrana_into_ret_def)
qed

section \<open>Entries of cursors\<close>

text \<open>The entries a row event leads to, after the values \<^verbatim>\<open>row\<close> of an unfinished row.\<close>

fun row_entries :: "u32 \<Rightarrow> ValueRef list \<Rightarrow> event list \<Rightarrow> CursorEntry list" where
  "row_entries i row [] = []"
| "row_entries i row (ColsDescription cols # es) = CeStepBegin i cols # row_entries i row es"
| "row_entries i row (AddRowValue v # es) = row_entries i (row @ [v]) es"
| "row_entries i row (FinishRow # es) = CeRow (proto_row row) # row_entries i [] es"
| "row_entries i row (_ # es) = row_entries i row es"

definition failure_entries ::
  "(string \<Rightarrow> rusqlite_kind) \<Rightarrow> u32 \<Rightarrow> Error \<Rightarrow> bool \<Rightarrow> (hrana_error + CursorEntry) list" where
  "failure_entries kind i e begun =
     (case stmt_error_from_sqld_error kind e of
        Inr s \<Rightarrow> [Inr (CeStepError i (proto_error_from_stmt_error s))]
      | Inl e \<Rightarrow> Inl (HeSqld e) # (if begun then [Inr (CeStepEnd 0 None)] else []))"

fun step_entries :: "(string \<Rightarrow> rusqlite_kind) \<Rightarrow> u32 \<Rightarrow> step_run \<Rightarrow> (hrana_error + CursorEntry) list" where
  "step_entries kind i Skipped = []"
| "step_entries kind i (Ran cols rows n r) =
     map Inr (CeStepBegin i cols # map (\<lambda>row. CeRow (proto_row row)) rows @ [CeStepEnd n r])"
| "step_entries kind i (FailedAfter es e) =
     map Inr (row_entries i [] es) @ failure_entries kind i e (es \<noteq> [])"

definition program_entries :: "(string \<Rightarrow> rusqlite_kind) \<Rightarrow> step_run list \<Rightarrow> (hrana_error + CursorEntry) list" where
  "program_entries kind sts = concat (map (\<lambda>(i, st). step_entries kind (word_of_nat i) st) (enumerate 0 sts))"

definition entries_sent :: "CursorResultBuilder \<Rightarrow> (hrana_error + CursorEntry) list \<Rightarrow> bool" where
  "entries_sent b es \<longleftrightarrow> map (map_sum id se_entry) (cu_entries b) = es"

definition at_step :: "u32 \<Rightarrow> bool \<Rightarrow> ValueRef list \<Rightarrow> (hrana_error + CursorEntry) list \<Rightarrow> CursorResultBuilder \<Rightarrow> bool" where
  "at_step i begun row es b \<longleftrightarrow>
     cu_step_i b = i \<and> cu_emitted_begin b = begun \<and> \<not> cu_emitted_error b \<and> cu_row b = proto_row row \<and>
     entries_sent b es"

lemma cursor_row_events:
  "list_all row_event evs \<Longrightarrow> list_all (\<lambda>e. \<forall>cols. e \<noteq> ColsDescription cols) evs \<Longrightarrow>
   at_step i True row es b \<Longrightarrow> feed_all (cursor_feed lib) evs b = Inr b' \<Longrightarrow>
   \<exists>row'. at_step i True row' (es @ map Inr (row_entries i row evs)) b'"
proof (induction evs arbitrary: row es b)
  case Nil
  then show ?case by auto
next
  case (Cons e evs)
  obtain b1 where b1: "cursor_feed lib e b = Inr b1" "feed_all (cursor_feed lib) evs b1 = Inr b'"
    using Cons.prems(4) by (auto simp del: cursor_feed.simps split: sum.splits)
  have opened: "cursor_open b" using Cons.prems(3) by (simp add: at_step_def cursor_open_def)
  note IH = Cons.IH [OF _ _ _ b1(2)]
  show ?case
  proof (cases e)
    case (AddRowValue v)
    then obtain x where "value_to_proto v = Inr x" "cu_row b1 = cu_row b @ [x]" "cu_entries b1 = cu_entries b"
      "cu_step_i b1 = cu_step_i b" "cu_emitted_begin b1 = cu_emitted_begin b" "cu_emitted_error b1 = cu_emitted_error b"
      using b1(1) opened by (auto split: sum.splits)
    then have "at_step i True (row @ [v]) es b1"
      using Cons.prems(3) by (simp add: at_step_def proto_row_def entries_sent_def)
    with IH Cons.prems(1,2) AddRowValue show ?thesis by simp
  next
    case FinishRow
    then have "b1 = (emit_entry (Inr \<lparr> se_entry = CeRow (cu_row b), se_size = cu_row_size b \<rparr>) b)\<lparr>cu_row := [], cu_row_size := 0\<rparr>"
      using b1(1) opened by simp
    then have "at_step i True [] (es @ [Inr (CeRow (proto_row row))]) b1"
      using Cons.prems(3) by (simp add: at_step_def proto_row_def entries_sent_def emit_entry_def)
    with IH [of "[]" "es @ [Inr (CeRow (proto_row row))]"] Cons.prems(1,2) FinishRow show ?thesis by simp
  qed (use b1(1) IH [of row es] Cons.prems in \<open>auto split: if_splits\<close>)
qed

lemma fsm_one_cols:
  "list_all row_event es \<Longrightarrow> fsm_run s es \<noteq> None \<Longrightarrow> s \<noteq> FsBeginStep \<Longrightarrow>
   list_all (\<lambda>e. \<forall>cols. e \<noteq> ColsDescription cols) es"
proof (induction es arbitrary: s)
  case (Cons e es)
  have "fsm_target e \<noteq> FsBeginStep" using Cons.prems(1) by (cases e) simp_all
  moreover have "e \<noteq> ColsDescription cols" for cols using Cons.prems(2,3) by (auto split: if_splits)
  ultimately show ?case using Cons by (auto split: if_splits)
qed simp

lemma cursor_step_events:
  assumes "list_all row_event evs" "fsm_run FsBeginStep evs \<noteq> None" "at_step i False [] es b"
    and "feed_all (cursor_feed lib) evs b = Inr b'"
  shows "\<exists>row. at_step i (evs \<noteq> []) row (es @ map Inr (row_entries i [] evs)) b'"
proof (cases evs)
  case Nil
  then show ?thesis using assms(3,4) by auto
next
  case (Cons e evs')
  obtain cols where e: "e = ColsDescription cols"
    using assms(1,2) Cons by (cases e) (auto split: if_splits)
  obtain b1 where b1: "cursor_feed lib e b = Inr b1" "feed_all (cursor_feed lib) evs' b1 = Inr b'"
    using assms(4) Cons by (auto simp del: cursor_feed.simps split: sum.splits)
  have "at_step i True [] (es @ [Inr (CeStepBegin i cols)]) b1"
    using b1(1) assms(3) e by (auto simp: at_step_def entries_sent_def emit_entry_def)
  from cursor_row_events [OF _ _ this b1(2)] show ?thesis
    using assms(1,2) Cons e fsm_one_cols [of evs' FsColsDescription] by auto
qed

lemma row_entries_values:
  "row_entries i row (map AddRowValue vs @ FinishRow # es) = CeRow (proto_row (row @ vs)) # row_entries i [] es"
  by (induction vs arbitrary: row) simp_all

lemma row_entries_rows:
  "row_entries i [] (concat (map row_events rows) @ es) =
   map (\<lambda>row. CeRow (proto_row row)) rows @ row_entries i [] es"
  by (induction rows) (simp_all add: row_events_def row_entries_values)

lemma ran_row_events:
  "list_all row_event (ColsDescription cols # BeginRows # concat (map row_events rows) @ [FinishRows]) \<and>
   fsm_run FsBeginStep (ColsDescription cols # BeginRows # concat (map row_events rows) @ [FinishRows]) \<noteq> None"
proof -
  obtain s' where "s' \<in> {FsBeginRows, FsFinishRow}"
    "fsm_run FsBeginRows (concat (map row_events rows)) = Some s'"
    using fsm_rows [of FsBeginRows rows] by auto
  then show ?thesis by (auto simp: list_all_iff row_events_def fsm_run_append)
qed

lemma cursor_FinishStep:
  assumes "at_step i begun row es b"
  shows "\<exists>b'. cursor_feed lib (FinishStep n r) b = Inr b' \<and>
    at_step (i + 1) False [] (es @ (if begun then [Inr (CeStepEnd n r)] else [])) b'"
  using assms
  by (auto simp: at_step_def cursor_open_def Let_def entries_sent_def emit_entry_def proto_row_def)

lemma cursor_StepError:
  assumes "at_step i begun row es b" "cursor_feed lib (StepError e) b = Inr b1"
    and fin: "cursor_feed lib (FinishStep 0 None) b1 = Inr b'"
  shows "at_step (i + 1) False [] (es @ failure_entries (hl_kind lib) i e begun) b'"
proof (cases "stmt_error_from_sqld_error (hl_kind lib) e")
  case (Inl e')
  then have "b1 = emit_entry (Inl (HeSqld e')) b" using assms(2) by simp
  then have "at_step i begun row (es @ [Inl (HeSqld e')]) b1"
    using assms(1) by (simp add: at_step_def emit_entry_def entries_sent_def)
  from cursor_FinishStep [OF this, of lib 0 None] fin show ?thesis
    by (auto simp: failure_entries_def Inl simp del: cursor_feed.simps)
next
  case (Inr s)
  then show ?thesis
    using assms(1,2) fin [symmetric]
    by (auto simp: failure_entries_def at_step_def cursor_open_def Let_def entries_sent_def emit_entry_def proto_row_def)
qed

lemma cursor_step:
  assumes "at_step i False [] es b" "step_legal st"
    and run: "feed_all (cursor_feed lib) (step_events st) b = Inr b'"
  shows "at_step (i + 1) False [] (es @ step_entries (hl_kind lib) i st) b'"
proof (cases st)
  case Skipped
  then show ?thesis
    using cursor_FinishStep [OF assms(1), of lib 0 None] run by (auto split: sum.splits simp del: cursor_feed.simps(1))
next
  case (Ran cols rows n r)
  define evs where "evs = ColsDescription cols # BeginRows # concat (map row_events rows) @ [FinishRows]"
  have "step_events st = BeginStep # evs @ [FinishStep n r]" using Ran by (simp add: evs_def)
  then obtain b1 where b1: "feed_all (cursor_feed lib) evs b = Inr b1" "cursor_feed lib (FinishStep n r) b1 = Inr b'"
    using run by (auto simp: feed_all_append split: sum.splits simp del: cursor_feed.simps(1))
  have "list_all row_event evs" "fsm_run FsBeginStep evs \<noteq> None" "evs \<noteq> []"
    using ran_row_events [of cols rows] unfolding evs_def by blast+
  then obtain row where "at_step i True row (es @ map Inr (row_entries i [] evs)) b1"
    using cursor_step_events [OF _ _ assms(1) b1(1)] by auto
  from cursor_FinishStep [OF this, of lib n r] show ?thesis
    using b1(2) Ran by (auto simp: evs_def row_entries_rows simp del: cursor_feed.simps)
next
  case (FailedAfter evs e)
  obtain b1 b2 where b1: "feed_all (cursor_feed lib) evs b = Inr b1" "cursor_feed lib (StepError e) b1 = Inr b2"
    "cursor_feed lib (FinishStep 0 None) b2 = Inr b'"
    using run FailedAfter by (auto simp: feed_all_append split: sum.splits simp del: cursor_feed.simps(1,2))
  obtain row where row: "at_step i (evs \<noteq> []) row (es @ map Inr (row_entries i [] evs)) b1"
    using cursor_step_events [OF _ _ assms(1) b1(1)] assms(2) FailedAfter by auto
  show ?thesis
    using cursor_StepError [OF row b1(2,3)] FailedAfter by simp
qed

lemma cursor_steps:
  "at_step (word_of_nat k) False [] es b \<Longrightarrow> list_all step_legal sts \<Longrightarrow>
   feed_all (cursor_feed lib) (concat (map step_events sts)) b = Inr b' \<Longrightarrow>
   entries_sent b' (es @ concat (map (\<lambda>(i, st). step_entries (hl_kind lib) (word_of_nat i) st) (enumerate k sts)))"
proof (induction sts arbitrary: k es b)
  case Nil
  then show ?case by (simp add: at_step_def)
next
  case (Cons st sts)
  obtain b1 where b1: "feed_all (cursor_feed lib) (step_events st) b = Inr b1"
    "feed_all (cursor_feed lib) (concat (map step_events sts)) b1 = Inr b'"
    using Cons.prems(3) by (auto simp: feed_all_append split: sum.splits)
  have "at_step (word_of_nat k + 1) False [] (es @ step_entries (hl_kind lib) (word_of_nat k) st) b1"
    using cursor_step [OF Cons.prems(1) _ b1(1)] Cons.prems(2) by simp
  then have "at_step (word_of_nat (Suc k)) False [] (es @ step_entries (hl_kind lib) (word_of_nat k) st) b1"
    by (simp add: add.commute)
  from Cons.IH [OF this _ b1(2)] show ?case using Cons.prems(2) by simp
qed

lemma cursor_program:
  assumes "list_all step_legal sts"
    and "feed_all (cursor_feed lib) (program_events cfg sts) cursor_builder_new = Inr b'"
  shows "entries_sent b' (program_entries (hl_kind lib) sts)"
proof -
  have "at_step (word_of_nat 0) False [] [] cursor_builder_new"
    by (simp add: at_step_def cursor_builder_new_def entries_sent_def proto_row_def)
  moreover have "feed_all (cursor_feed lib) (concat (map step_events sts)) cursor_builder_new = Inr b'"
    using assms(2) by (auto simp: program_events_def feed_all_append split: sum.splits)
  ultimately show ?thesis using cursor_steps [OF _ assms(1)] by (fastforce simp: program_entries_def)
qed

section \<open>Properties\<close>

lemma execute_ok_steps:
  assumes "libsql_execute_program sq feed now pgm auth c b = (Inr (b', st), c')"
  obtains sts cfg where "steps_match sq pgm [] sts" "list_all step_legal sts" "length sts = length pgm"
    "feed_all feed (program_events cfg sts) b = Inr b'"
proof -
  have "connection_run sq feed now pgm (wait_request sq now c) b = (Inr b', c')"
    using libsql_execute_ok [OF assms] by blast
  from connection_run_cases [OF this, of FsFinish] obtain sts where
    "steps_match sq pgm [] sts" "feed_all feed (program_events (cn_builder_config (wait_request sq now c)) sts) b = Inr b'"
    by auto
  then show thesis using that by (auto simp: steps_match_def)
qed


definition hrana_sample_lib :: hrana_lib where
  "hrana_sample_lib =
     \<lparr> hl_kind = (\<lambda>m. SqliteFailure CodeUnknown m (Some m)), hl_show_f64 = (\<lambda>_. ''0''), hl_display = (\<lambda>_. ''error'') \<rparr>"

definition hrana_sample_parser :: sql_parser where
  "hrana_sample_parser =
     \<lparr> sp_run = (\<lambda>s. [(Inr (CmdStmt (if s = ''BAD'' then StmtCommit else StmtSelect)), False)]),
       sp_to_string = (\<lambda>c. if c = CmdStmt StmtCommit then ''BAD'' else ''SELECT'') \<rparr>"

definition hrana_sample_stmt :: "string \<Rightarrow> proto_stmt" where
  "hrana_sample_stmt sql =
     \<lparr> pst_sql = Some sql, pst_sql_id = None, pst_args = [], pst_named_args = [], pst_want_rows = None \<rparr>"

text \<open>A batch whose second step fails, so that the third is skipped and the fourth runs.\<close>

definition hrana_sample_batch :: "BatchStep list" where
  "hrana_sample_batch =
     [\<lparr> bs_condition = None, bs_stmt = hrana_sample_stmt ''SELECT'' \<rparr>,
      \<lparr> bs_condition = Some (BcOk 0), bs_stmt = hrana_sample_stmt ''BAD'' \<rparr>,
      \<lparr> bs_condition = Some (BcOk 1), bs_stmt = hrana_sample_stmt ''SELECT'' \<rparr>,
      \<lparr> bs_condition = Some (BcAnd [BcError 1, BcIsAutocommit]), bs_stmt = hrana_sample_stmt ''SELECT'' \<rparr>]"

definition hrana_sample_program :: Program where
  "hrana_sample_program =
     [\<lparr> sp_cond = None, sp_query = sample_query Read ''SELECT'' \<rparr>,
      \<lparr> sp_cond = Some (CondOk 0), sp_query = sample_query TxnEnd ''BAD'' \<rparr>,
      \<lparr> sp_cond = Some (CondOk 1), sp_query = sample_query Read ''SELECT'' \<rparr>,
      \<lparr> sp_cond = Some (CondAnd [CondErr 1, CondIsAutocommit]), sp_query = sample_query Read ''SELECT'' \<rparr>]"

lemma hrana_sample_parsed:
  "proto_batch_to_program hrana_sample_parser hrana_sample_batch Map.empty Hrana3 = Inr hrana_sample_program"
  by (simp add: proto_batch_to_program_def hrana_sample_batch_def hrana_sample_program_def
      proto_stmt_to_query_def hrana_sample_stmt_def proto_sql_to_sql_def proto_stmt_params_def parse_statements_def
      hrana_sample_parser_def parse_inner_def sample_query_def params_empty_def try_convert_step_def
      less_Version_def)

lemmas hrana_run_defs =
  hrana_execute_batch_def run_cursor_def execute_sequence_def hrana_sample_program_def hrana_sample_lib_def
  libsql_execute_program_def wait_request_def connection_run_def execute_step_def step_cond_def execute_query_def
  finish_step_def stmt_blocked_def params_bind_def params_empty_def params_len_def get_step_res_def sample_defs
  with_stmt_def hrana_finish_step_def hrana_batch_default_def single_default_def single_drop_def
  single_into_ret_def hrana_into_ret_def inc_current_size_def limit_of_def cursor_builder_new_def emit_entry_def
  cursor_open_def Let_def


lemma sequence_stops:
  "stops_at_failure (map step_outcome sts) \<Longrightarrow>
   if \<forall>x\<in>set sts. step_outcome x = StepOk then sequence_result kind (map step_outcome sts) = Inr ()
   else \<exists>pre es e post. sts = pre @ FailedAfter es e # post \<and> (\<forall>x\<in>set pre. step_outcome x = StepOk) \<and>
     sequence_result kind (map step_outcome sts) = Inl (catch_stmt_error kind e)"
proof (induction sts)
  case (Cons st sts)
  show ?case
  proof (cases st)
    case (Ran cols rows n r)
    then have IH: "if \<forall>x\<in>set sts. step_outcome x = StepOk then sequence_result kind (map step_outcome sts) = Inr ()
       else \<exists>pre es e post. sts = pre @ FailedAfter es e # post \<and> (\<forall>x\<in>set pre. step_outcome x = StepOk) \<and>
         sequence_result kind (map step_outcome sts) = Inl (catch_stmt_error kind e)"
      using Cons by simp
    show ?thesis
    proof (cases "\<forall>x\<in>set sts. step_outcome x = StepOk")
      case True
      then show ?thesis using IH Ran by simp
    next
      case False
      then obtain pre es e post where "sts = pre @ FailedAfter es e # post" "\<forall>x\<in>set pre. step_outcome x = StepOk"
        "sequence_result kind (map step_outcome sts) = Inl (catch_stmt_error kind e)"
        using IH unfolding if_not_P [OF False] by blast
      then show ?thesis using Ran False by (auto intro!: exI [of _ "st # pre"])
    qed
  next
    case (FailedAfter es e)
    then have bad: "\<not> (\<forall>x\<in>set (st # sts). step_outcome x = StepOk)" by simp
    show ?thesis
      unfolding if_not_P [OF bad]
      by (rule exI [of _ "[]"], rule exI [of _ es], rule exI [of _ e], rule exI [of _ sts]) (simp add: FailedAfter)
  qed (use Cons in simp)
qed simp


definition hrana_sequence_parser :: sql_parser where
  "hrana_sequence_parser = hrana_sample_parser\<lparr>
     sp_run := (\<lambda>s. [(Inr (CmdStmt StmtSelect), True), (Inr (CmdStmt StmtCommit), True), (Inr (CmdStmt StmtSelect), False)])\<rparr>"


lemma cursor_entries_of_steps:
  assumes "run_cursor sq lib now auth pgm c = (Inr entries, c')"
  shows "\<exists>sts. steps_match sq pgm [] sts \<and>
    map (map_sum id se_entry) entries = program_entries (hl_kind lib) sts"
proof -
  obtain b st where exec: "libsql_execute_program sq (cursor_feed lib) now pgm auth c cursor_builder_new = (Inr (b, st), c')"
    and entries: "entries = cu_entries b"
    using assms by (auto simp: run_cursor_def split: prod.splits sum.splits)
  obtain sts cfg where "steps_match sq pgm [] sts" "list_all step_legal sts" "length sts = length pgm"
    "feed_all (cursor_feed lib) (program_events cfg sts) cursor_builder_new = Inr b"
    using exec by (rule execute_ok_steps)
  then show ?thesis using cursor_program [of sts lib cfg b] entries by (auto simp: entries_sent_def)
qed

text \<open>
  A cursor streams what a batch would answer: when the run of a cursor is not cut
  short, the entries it sends are, step after step and with the numbers of the
  steps, the columns, each row and the end of a step that ran, what was read of a
  step that failed and its error, and nothing of a step that was skipped. An error
  that the protocol has no code for is followed by the end of its step, if that had begun.
\<close>

theorem cursor_streams_steps:
  assumes "run_cursor sq lib now auth pgm c = (Inr entries, c')"
  shows "\<exists>sts. steps_match sq pgm [] sts \<and>
    map (map_sum id se_entry) entries = program_entries (hl_kind lib) sts"
  using assms by (rule cursor_entries_of_steps)

theorem cursor_streams_steps_witness:
  "\<exists>entries c' sts. run_cursor sample_sqlite hrana_sample_lib 0 (Authorized ReadOnly) hrana_sample_program sample_connection =
       (Inr entries, c') \<and>
     steps_match sample_sqlite hrana_sample_program [] sts \<and>
     map (map_sum id se_entry) entries = program_entries (hl_kind hrana_sample_lib) sts \<and>
     map (map_sum id se_entry) entries =
       [Inr (CeStepBegin 0 []), Inr (CeStepEnd 0 None),
        Inr (CeStepError 1 \<lparr> pe_message = ''SQLite error: syntax error'', pe_code = ''SQLITE_UNKNOWN'' \<rparr>),
        Inr (CeStepBegin 3 []), Inr (CeStepEnd 0 None)]"
proof -
  have "\<exists>entries c'. run_cursor sample_sqlite hrana_sample_lib 0 (Authorized ReadOnly) hrana_sample_program sample_connection =
      (Inr entries, c') \<and>
    map (map_sum id se_entry) entries =
       [Inr (CeStepBegin 0 []), Inr (CeStepEnd 0 None),
        Inr (CeStepError 1 \<lparr> pe_message = ''SQLite error: syntax error'', pe_code = ''SQLITE_UNKNOWN'' \<rparr>),
        Inr (CeStepBegin 3 []), Inr (CeStepEnd 0 None)]"
    by (simp add: hrana_run_defs proto_error_from_stmt_error_def)
  then obtain entries c' where
    run: "run_cursor sample_sqlite hrana_sample_lib 0 (Authorized ReadOnly) hrana_sample_program sample_connection =
      (Inr entries, c')"
    and entries: "map (map_sum id se_entry) entries =
       [Inr (CeStepBegin 0 []), Inr (CeStepEnd 0 None),
        Inr (CeStepError 1 \<lparr> pe_message = ''SQLite error: syntax error'', pe_code = ''SQLITE_UNKNOWN'' \<rparr>),
        Inr (CeStepBegin 3 []), Inr (CeStepEnd 0 None)]"
    by (elim exE conjE) (rule that)
  from cursor_streams_steps [OF run] run entries show ?thesis by (metis (no_types))
qed

text \<open>
  An error text longer than what is left of the response lifts the limit: the subtraction
  wraps around in a release build, and the rest of the batch is unlimited.
\<close>

lemma error_text_lifts_limit:
  "\<exists>b. feed_all (hrana_feed (\<lambda>m. SqliteFailure CodeUnknown m (Some m)) show_f64 (\<lambda>_. ''error''))
      [EvInit \<lparr> qc_max_size = Some 3, qc_max_total_size = None, qc_auto_checkpoint = 0 \<rparr>,
       BeginStep, StepError (RusqliteError ''x''), FinishStep 0 None] (hrana_batch_default 0) = Inr b \<and>
     sb_max_response_size (hb_stmt_builder b) = - 2"
  by (simp add: with_stmt_def hrana_finish_step_def hrana_batch_default_def single_default_def single_drop_def
      single_into_ret_def limit_of_def Let_def)

end
