(* ===== verification/HranaStream.thy ===== *)
theory HranaStream
  imports HranaStmt ExecuteBuilder
begin

text \<open>
  The streams of Hrana over HTTP (\<^verbatim>\<open>sqld/src/hrana/http/stream.rs\<close>): the batons that
  name a stream and the place in its sequence of requests, the table of streams that the server
  keeps behind a lock, with the guards that requests hold, and the expiration of idle
  streams. Instants count nanoseconds. The MAC, the base64 codec, the
  priority queue and the random numbers are arguments.
\<close>

section \<open>Batons\<close>

record baton_lib =
  bl_mac :: "byte list \<Rightarrow> byte list \<Rightarrow> byte list"
  bl_encode :: "byte list \<Rightarrow> string"
  bl_decode :: "string \<Rightarrow> byte list option"

definition be_bytes :: "u64 \<Rightarrow> byte list" where
  "be_bytes w = rev (word_bytes 8 w)"

definition from_be_bytes :: "byte list \<Rightarrow> u64" where
  "from_be_bytes bs = bytes_word (rev bs)"

definition encode_baton :: "baton_lib \<Rightarrow> byte list \<Rightarrow> u64 \<Rightarrow> u64 \<Rightarrow> string" where
  "encode_baton lib key stream_id baton_seq =
     (let payload = be_bytes stream_id @ be_bytes baton_seq;
          mac = bl_mac lib key payload
      in bl_encode lib (payload @ mac))"

definition decode_baton :: "baton_lib \<Rightarrow> byte list \<Rightarrow> string \<Rightarrow> ProtocolError + u64 \<times> u64" where
  "decode_baton lib key baton_str =
     (case bl_decode lib baton_str of
        None \<Rightarrow> Inl BatonInvalid
      | Some baton_data \<Rightarrow>
          if length baton_data \<noteq> 48 then Inl BatonInvalid
          else
            (let payload = byte_slice 0 16 baton_data;
                 received_mac = byte_slice 16 32 baton_data
             in if received_mac \<noteq> bl_mac lib key payload then Inl BatonInvalid
                else Inr (from_be_bytes (byte_slice 0 8 payload), from_be_bytes (byte_slice 8 8 payload))))"

text \<open>What is documented of the libraries: HMAC-SHA256 has 32 bytes, and base64 decodes what it encoded.\<close>

definition baton_codec :: "baton_lib \<Rightarrow> bool" where
  "baton_codec lib \<longleftrightarrow>
     (\<forall>key payload. length (bl_mac lib key payload) = 32) \<and> (\<forall>d. bl_decode lib (bl_encode lib d) = Some d)"

section \<open>The table of streams\<close>

type_synonym instant = nat

record 'q pqueue =
  pq_new :: 'q
  pq_push :: "u64 \<Rightarrow> instant \<Rightarrow> 'q \<Rightarrow> 'q"
  pq_remove :: "u64 \<Rightarrow> 'q \<Rightarrow> 'q"
  pq_peek :: "'q \<Rightarrow> (u64 \<times> instant) option"
  pq_pop :: "'q \<Rightarrow> 'q"

text \<open>The documented behaviour of the queue: it holds one instant for each item and shows an earliest one.\<close>

definition priority_queue :: "'q pqueue \<Rightarrow> ('q \<Rightarrow> u64 \<rightharpoonup> instant) \<Rightarrow> bool" where
  "priority_queue pq items \<longleftrightarrow>
     items (pq_new pq) = Map.empty \<and>
     (\<forall>i t q. items (pq_push pq i t q) = (items q)(i \<mapsto> t)) \<and>
     (\<forall>i q. items (pq_remove pq i q) = (items q)(i := None)) \<and>
     (\<forall>q. finite (dom (items q))) \<and>
     (\<forall>q. case pq_peek pq q of
            None \<Rightarrow> items q = Map.empty \<and> items (pq_pop pq q) = Map.empty
          | Some (i, t) \<Rightarrow> items q i = Some t \<and> (\<forall>j u. items q j = Some u \<longrightarrow> t \<le> u) \<and>
              items (pq_pop pq q) = (items q)(i := None))"

record 'd Stream =
  sm_db :: "'d option"
  sm_sqls :: "(int \<times> string) list"
  sm_stream_id :: u64
  sm_baton_seq :: u64

datatype 'd Handle = Available "'d Stream" | Acquired | Expired

record ('q, 'd) ServerStreamState =
  ss_handles :: "u64 \<rightharpoonup> 'd Handle"
  ss_expire_queue :: 'q
  ss_cleanup_queue :: "(u64 \<times> instant) list"
  ss_expire_deadline :: instant
  ss_expire_waker :: bool
  ss_woken :: bool
  ss_expire_round_base :: instant

definition stream_state_new :: "'q pqueue \<Rightarrow> instant \<Rightarrow> ('q, 'd) ServerStreamState" where
  "stream_state_new pq now =
     \<lparr> ss_handles = Map.empty, ss_expire_queue = pq_new pq, ss_cleanup_queue = [], ss_expire_deadline = now,
       ss_expire_waker = False, ss_woken = False, ss_expire_round_base = now \<rparr>"

definition NANOS :: nat where "NANOS = 1000000000"
definition EXPIRATION :: nat where "EXPIRATION = 10 * NANOS"
definition CLEANUP :: nat where "CLEANUP = 300 * NANOS"

definition roundup_instant :: "('q, 'd) ServerStreamState \<Rightarrow> instant \<Rightarrow> instant" where
  "roundup_instant st t = ss_expire_round_base st + ((t - ss_expire_round_base st) div NANOS + 1) * NANOS"

definition mark_expire :: "'q pqueue \<Rightarrow> instant \<Rightarrow> u64 \<Rightarrow> ('q, 'd) ServerStreamState \<Rightarrow> ('q, 'd) ServerStreamState" where
  "mark_expire pq now stream_id st =
     (let expire_at = roundup_instant st (now + EXPIRATION);
          st = (if expire_at < ss_expire_deadline st \<and> ss_expire_waker st
                then st\<lparr>ss_expire_waker := False, ss_woken := True\<rparr> else st)
      in st\<lparr>ss_expire_queue := pq_push pq stream_id expire_at (ss_expire_queue st)\<rparr>)"

definition unmark_expire :: "'q pqueue \<Rightarrow> u64 \<Rightarrow> ('q, 'd) ServerStreamState \<Rightarrow> ('q, 'd) ServerStreamState" where
  "unmark_expire pq stream_id st = st\<lparr>ss_expire_queue := pq_remove pq stream_id (ss_expire_queue st)\<rparr>"

datatype stream_error = SeProtocol ProtocolError | SeExpired | SeCreate Error | SePanic

text \<open>The first ten random numbers, until one is free.\<close>

fun gen_stream_id :: "nat \<Rightarrow> u64 list \<Rightarrow> ('q, 'd) ServerStreamState \<Rightarrow> u64 option" where
  "gen_stream_id 0 rs st = None"
| "gen_stream_id (Suc n) [] st = None"
| "gen_stream_id (Suc n) (r # rs) st = (if ss_handles st r = None then Some r else gen_stream_id n rs st)"

text \<open>
  Acquiring a stream: the result is the stream of the guard. \<^verbatim>\<open>made\<close> is what the
  connection maker returns, \<^verbatim>\<open>rs\<close> and \<^verbatim>\<open>seq\<close> are random.
\<close>

definition acquire ::
  "'q pqueue \<Rightarrow> baton_lib \<Rightarrow> byte list \<Rightarrow> Error + 'd \<Rightarrow> u64 list \<Rightarrow> u64 \<Rightarrow> string option
     \<Rightarrow> ('q, 'd) ServerStreamState \<Rightarrow> (stream_error + 'd Stream) \<times> ('q, 'd) ServerStreamState" where
  "acquire pq lib key made rs seq baton st =
     (case baton of
        Some baton \<Rightarrow>
          (case decode_baton lib key baton of
             Inl e \<Rightarrow> (Inl (SeProtocol e), st)
           | Inr (stream_id, baton_seq) \<Rightarrow>
               (case ss_handles st stream_id of
                  None \<Rightarrow> (Inl (SeProtocol BatonInvalid), st)
                | Some Acquired \<Rightarrow> (Inl (SeProtocol BatonReused), st)
                | Some Expired \<Rightarrow> (Inl SeExpired, st)
                | Some (Available stream) \<Rightarrow>
                    if sm_baton_seq stream \<noteq> baton_seq then (Inl (SeProtocol BatonReused), st)
                    else
                      (let st = st\<lparr>ss_handles := (ss_handles st)(stream_id \<mapsto> Acquired)\<rparr>;
                           stream = stream\<lparr>sm_baton_seq := sm_baton_seq stream + 1\<rparr>
                       in (Inr stream, unmark_expire pq (sm_stream_id stream) st))))
      | None \<Rightarrow>
          (case made of
             Inl e \<Rightarrow> (Inl (SeCreate e), st)
           | Inr db \<Rightarrow>
               (case gen_stream_id 10 rs st of
                  None \<Rightarrow> (Inl SePanic, st)
                | Some stream_id \<Rightarrow>
                    (Inr \<lparr> sm_db = Some db, sm_sqls = [], sm_stream_id = stream_id, sm_baton_seq = seq \<rparr>,
                     st\<lparr>ss_handles := (ss_handles st)(stream_id \<mapsto> Acquired)\<rparr>))))"

definition get_db :: "'d Stream \<Rightarrow> ProtocolError + 'd" where
  "get_db stream = (case sm_db stream of Some db \<Rightarrow> Inr db | None \<Rightarrow> Inl BatonStreamClosed)"

definition close_db :: "'d Stream \<Rightarrow> 'd Stream" where
  "close_db stream = stream\<lparr>sm_db := None\<rparr>"

text \<open>Dropping the guard of a stream; None is a panic.\<close>

definition drop_guard ::
  "'q pqueue \<Rightarrow> instant \<Rightarrow> bool \<Rightarrow> 'd Stream \<Rightarrow> ('q, 'd) ServerStreamState \<Rightarrow> ('q, 'd) ServerStreamState option" where
  "drop_guard pq now rel stream st =
     (let stream_id = sm_stream_id stream
      in case ss_handles st stream_id of
           Some Acquired \<Rightarrow>
             Some (if rel
                   then mark_expire pq now stream_id
                          (st\<lparr>ss_handles := (ss_handles st)(stream_id \<mapsto> Available stream)\<rparr>)
                   else st\<lparr>ss_handles := (ss_handles st)(stream_id := None)\<rparr>)
         | _ \<Rightarrow> None)"

definition release ::
  "'q pqueue \<Rightarrow> baton_lib \<Rightarrow> byte list \<Rightarrow> instant \<Rightarrow> 'd Stream \<Rightarrow> ('q, 'd) ServerStreamState
     \<Rightarrow> string option \<times> ('q, 'd) ServerStreamState option" where
  "release pq lib key now stream st =
     (if sm_db stream \<noteq> None
      then (Some (encode_baton lib key (sm_stream_id stream) (sm_baton_seq stream)), drop_guard pq now True stream st)
      else (None, drop_guard pq now False stream st))"

text \<open>
  The first loop of the expiration ends only when the queue says so: None is a
  loop that does not return. The result is the state and the instant to wake up at.
\<close>

partial_function (option) expire_loop ::
  "'q pqueue \<Rightarrow> instant \<Rightarrow> ('q, 'd) ServerStreamState \<Rightarrow> (('q, 'd) ServerStreamState \<times> instant) option" where
  "expire_loop pq now st =
     (case pq_peek pq (ss_expire_queue st) of
        None \<Rightarrow> Some (st, now + 60 * NANOS)
      | Some (stream_id, expire_at) \<Rightarrow>
          if now < expire_at then Some (st, expire_at)
          else
            (let st = st\<lparr>ss_expire_queue := pq_pop pq (ss_expire_queue st)\<rparr>
             in case ss_handles st stream_id of
                  Some (Available _) \<Rightarrow>
                    expire_loop pq now
                      (st\<lparr>ss_handles := (ss_handles st)(stream_id \<mapsto> Expired),
                          ss_cleanup_queue := ss_cleanup_queue st @ [(stream_id, roundup_instant st (now + CLEANUP))]\<rparr>)
                | _ \<Rightarrow> expire_loop pq now st))"

text \<open>The second loop; None is a failed assertion.\<close>

fun cleanup_loop ::
  "instant \<Rightarrow> (u64 \<times> instant) list \<Rightarrow> (u64 \<rightharpoonup> 'd Handle) \<Rightarrow> ((u64 \<times> instant) list \<times> (u64 \<rightharpoonup> 'd Handle)) option" where
  "cleanup_loop now [] handles = Some ([], handles)"
| "cleanup_loop now ((stream_id, cleanup_at) # queue) handles =
     (if cleanup_at \<le> now
      then (case handles stream_id of
              Some Expired \<Rightarrow> cleanup_loop now queue (handles(stream_id := None))
            | _ \<Rightarrow> None)
      else Some ((stream_id, cleanup_at) # queue, handles))"

datatype 'st pumped = Pumped 'st | PumpPanic

definition pump_expire ::
  "'q pqueue \<Rightarrow> instant \<Rightarrow> ('q, 'd) ServerStreamState \<Rightarrow> ('q, 'd) ServerStreamState pumped option" where
  "pump_expire pq now st =
     (case expire_loop pq now st of
        None \<Rightarrow> None
      | Some (st, wakeup_at) \<Rightarrow>
          (case cleanup_loop now (ss_cleanup_queue st) (ss_handles st) of
             None \<Rightarrow> Some PumpPanic
           | Some (queue, handles) \<Rightarrow>
               Some (Pumped (st\<lparr>ss_handles := handles, ss_cleanup_queue := queue, ss_expire_deadline := wakeup_at,
                                ss_expire_waker := True, ss_woken := False\<rparr>))))"

fun stream_error_code :: "stream_error \<Rightarrow> string option" where
  "stream_error_code SeExpired = Some ''STREAM_EXPIRED''"
| "stream_error_code _ = None"

section \<open>Requests, guards and expiration together\<close>

text \<open>
  The table with the streams of the guards that are held by requests; for the
  statements of properties also the batons that were accepted and the streams
  that were opened. The steps are those that the lock makes atomic: requests open or resume a
  stream, work with it, and release or drop its guard, in any interleaving with each
  other and with the expiration.
\<close>

record ('q, 'd) stream_sys =
  sy_state :: "('q, 'd) ServerStreamState"
  sy_guards :: "'d Stream list"
  sy_accepted :: "(u64 \<times> u64) list"
  sy_opened :: "(u64 \<times> u64) list"

datatype stream_event = StreamOpen | StreamResume string | StreamWork | StreamFinish bool | StreamPump instant

inductive stream_step ::
  "'q pqueue \<Rightarrow> baton_lib \<Rightarrow> byte list \<Rightarrow> ('q, 'd) stream_sys \<Rightarrow> stream_event \<Rightarrow> ('q, 'd) stream_sys \<Rightarrow> bool"
  for pq lib key where
  step_open:
    "acquire pq lib key made rs seq None (sy_state s) = (Inr stream, st') \<Longrightarrow>
     stream_step pq lib key s StreamOpen
       (s\<lparr>sy_state := st', sy_guards := stream # sy_guards s,
          sy_opened := (sm_stream_id stream, sm_baton_seq stream) # sy_opened s\<rparr>)"
| step_resume:
    "decode_baton lib key baton = Inr (i, n) \<Longrightarrow>
     acquire pq lib key made rs seq (Some baton) (sy_state s) = (Inr stream, st') \<Longrightarrow>
     stream_step pq lib key s (StreamResume baton)
       (s\<lparr>sy_state := st', sy_guards := stream # sy_guards s, sy_accepted := (i, n) # sy_accepted s\<rparr>)"
| step_work:
    "sy_guards s = gs @ stream # gs' \<Longrightarrow> sm_stream_id stream' = sm_stream_id stream \<Longrightarrow>
     sm_baton_seq stream' = sm_baton_seq stream \<Longrightarrow>
     stream_step pq lib key s StreamWork (s\<lparr>sy_guards := gs @ stream' # gs'\<rparr>)"
| step_finish:
    "sy_guards s = gs @ stream # gs' \<Longrightarrow> ss_expire_round_base (sy_state s) \<le> now \<Longrightarrow>
     (rel \<longrightarrow> sm_db stream \<noteq> None) \<Longrightarrow> drop_guard pq now rel stream (sy_state s) = Some st' \<Longrightarrow>
     stream_step pq lib key s (StreamFinish rel) (s\<lparr>sy_state := st', sy_guards := gs @ gs'\<rparr>)"
| step_pump:
    "ss_expire_round_base (sy_state s) \<le> now \<Longrightarrow> pump_expire pq now (sy_state s) = Some (Pumped st') \<Longrightarrow>
     stream_step pq lib key s (StreamPump now) (s\<lparr>sy_state := st'\<rparr>)"

inductive_cases stream_stepE [consumes 1, case_names step_open step_resume step_work step_finish step_pump]:
  "stream_step pq lib key s e s'"

definition stream_init :: "'q pqueue \<Rightarrow> ('q, 'd) stream_sys \<Rightarrow> bool" where
  "stream_init pq s \<longleftrightarrow>
     (\<exists>now. s = \<lparr> sy_state = stream_state_new pq now, sy_guards = [], sy_accepted = [], sy_opened = [] \<rparr>)"

text \<open>The invariant of the table: which streams are held, waiting, queued for expiration and for cleanup.\<close>

definition table_inv ::
  "('q \<Rightarrow> u64 \<rightharpoonup> instant) \<Rightarrow> u64 set \<Rightarrow> ('q, 'd) ServerStreamState \<Rightarrow> bool" where
  "table_inv items held st \<longleftrightarrow>
     {i. ss_handles st i = Some Acquired} = held \<and>
     (\<forall>i m. ss_handles st i = Some (Available m) \<longrightarrow> sm_stream_id m = i \<and> sm_db m \<noteq> None) \<and>
     dom (items (ss_expire_queue st)) = {i. \<exists>m. ss_handles st i = Some (Available m)} \<and>
     distinct (map fst (ss_cleanup_queue st)) \<and>
     fst ` set (ss_cleanup_queue st) = {i. ss_handles st i = Some Expired}"

definition sys_inv :: "('q \<Rightarrow> u64 \<rightharpoonup> instant) \<Rightarrow> ('q, 'd) stream_sys \<Rightarrow> bool" where
  "sys_inv items s \<longleftrightarrow>
     distinct (map sm_stream_id (sy_guards s)) \<and>
     table_inv items (sm_stream_id ` set (sy_guards s)) (sy_state s)"

lemma sys_invD:
  assumes "sys_inv items s"
  shows "ss_handles (sy_state s) i = Some (Available m) \<Longrightarrow> sm_stream_id m = i"
    and "g \<in> set (sy_guards s) \<Longrightarrow> ss_handles (sy_state s) (sm_stream_id g) = Some Acquired"
proof -
  have held: "{i. ss_handles (sy_state s) i = Some Acquired} = sm_stream_id ` set (sy_guards s)"
    and avail: "\<And>i m. ss_handles (sy_state s) i = Some (Available m) \<Longrightarrow> sm_stream_id m = i"
    using assms by (simp_all add: sys_inv_def table_inv_def)
  show "ss_handles (sy_state s) i = Some (Available m) \<Longrightarrow> sm_stream_id m = i" by (rule avail)
  show "g \<in> set (sy_guards s) \<Longrightarrow> ss_handles (sy_state s) (sm_stream_id g) = Some Acquired"
    using held by (metis (mono_tags, lifting) image_eqI mem_Collect_eq)
qed

lemma priority_queueD:
  assumes "priority_queue pq items"
  shows "items (pq_new pq) = Map.empty" "items (pq_push pq i t q) = (items q)(i \<mapsto> t)"
    "items (pq_remove pq i q) = (items q)(i := None)" "finite (dom (items q))"
    "pq_peek pq q = None \<Longrightarrow> items q = Map.empty"
    "pq_peek pq q = Some (i, t) \<Longrightarrow> items q i = Some t"
    "pq_peek pq q = Some (i, t) \<Longrightarrow> items q j = Some u \<Longrightarrow> t \<le> u"
    "pq_peek pq q = Some (i, t) \<Longrightarrow> items (pq_pop pq q) = (items q)(i := None)"
proof -
  have peek: "case pq_peek pq q of
      None \<Rightarrow> items q = Map.empty \<and> items (pq_pop pq q) = Map.empty
    | Some (i, t) \<Rightarrow> items q i = Some t \<and> (\<forall>j u. items q j = Some u \<longrightarrow> t \<le> u) \<and>
        items (pq_pop pq q) = (items q)(i := None)"
    using assms unfolding priority_queue_def by blast
  show "pq_peek pq q = None \<Longrightarrow> items q = Map.empty" using peek by simp
  show "pq_peek pq q = Some (i, t) \<Longrightarrow> items q i = Some t" using peek by simp
  show "pq_peek pq q = Some (i, t) \<Longrightarrow> items q j = Some u \<Longrightarrow> t \<le> u" using peek by simp
  show "pq_peek pq q = Some (i, t) \<Longrightarrow> items (pq_pop pq q) = (items q)(i := None)" using peek by simp
qed (use assms in \<open>unfold priority_queue_def, blast+\<close>)

lemma gen_stream_id_free: "gen_stream_id n rs st = Some i \<Longrightarrow> ss_handles st i = None"
  by (induction n rs st rule: gen_stream_id.induct) (auto split: if_splits)

lemma acquire_new:
  assumes "acquire pq lib key made rs seq None st = (Inr stream, st')"
  obtains db where "made = Inr db" "ss_handles st (sm_stream_id stream) = None" "sm_db stream = Some db" "sm_sqls stream = []"
    "sm_baton_seq stream = seq" "st' = st\<lparr>ss_handles := (ss_handles st)(sm_stream_id stream \<mapsto> Acquired)\<rparr>"
  using assms by (auto simp: acquire_def dest: gen_stream_id_free split: sum.splits option.splits)

lemma acquire_baton:
  assumes "acquire pq lib key made rs seq (Some baton) st = (Inr stream, st')"
  obtains i m where "decode_baton lib key baton = Inr (i, sm_baton_seq m)" "ss_handles st i = Some (Available m)"
    "stream = m\<lparr>sm_baton_seq := sm_baton_seq m + 1\<rparr>"
    "st' = unmark_expire pq (sm_stream_id m) (st\<lparr>ss_handles := (ss_handles st)(i \<mapsto> Acquired)\<rparr>)"
  using assms
  by (auto simp: acquire_def Let_def split: sum.splits option.splits prod.splits Handle.splits if_splits)

lemma table_inv_new:
  assumes "acquire pq lib key made rs seq None st = (Inr stream, st')" "table_inv items held st"
  shows "table_inv items (insert (sm_stream_id stream) held) st' \<and> sm_stream_id stream \<notin> held"
  using assms(1)
proof (cases rule: acquire_new)
  case (1 db)
  then show ?thesis using assms(2) unfolding table_inv_def by (auto simp: fun_upd_def)
qed

lemma table_inv_resume:
  assumes "priority_queue pq items" "acquire pq lib key made rs seq (Some baton) st = (Inr stream, st')"
    and "table_inv items held st"
  shows "table_inv items (insert (sm_stream_id stream) held) st' \<and> sm_stream_id stream \<notin> held"
  using assms(2)
proof (cases rule: acquire_baton)
  case (1 i m)
  have m: "sm_stream_id m = i" "i \<notin> held" using assms(3) 1(2) by (auto simp: table_inv_def)
  then show ?thesis
    using assms(3) 1 unfolding table_inv_def unmark_expire_def
    by (auto simp: priority_queueD(3) [OF assms(1)])
qed

lemma mark_expire_simps [simp]:
  "ss_handles (mark_expire pq now i st) = ss_handles st"
  "ss_cleanup_queue (mark_expire pq now i st) = ss_cleanup_queue st"
  "ss_expire_round_base (mark_expire pq now i st) = ss_expire_round_base st"
  "ss_expire_deadline (mark_expire pq now i st) = ss_expire_deadline st"
  "ss_expire_queue (mark_expire pq now i st) =
     pq_push pq i (roundup_instant st (now + EXPIRATION)) (ss_expire_queue st)"
  by (simp_all add: mark_expire_def Let_def roundup_instant_def)

lemma table_inv_drop:
  assumes "priority_queue pq items" "table_inv items held st" "sm_stream_id stream \<in> held"
    and "rel \<longrightarrow> sm_db stream \<noteq> None"
  shows "\<exists>st'. drop_guard pq now rel stream st = Some st' \<and> table_inv items (held - {sm_stream_id stream}) st'"
proof -
  have acquired: "ss_handles st (sm_stream_id stream) = Some Acquired"
    using assms(2,3) by (auto simp: table_inv_def)
  show ?thesis
  proof (cases rel)
    case True
    let ?st = "mark_expire pq now (sm_stream_id stream)
      (st\<lparr>ss_handles := (ss_handles st)(sm_stream_id stream \<mapsto> Available stream)\<rparr>)"
    have "drop_guard pq now rel stream st = Some ?st"
      using acquired True by (simp add: drop_guard_def Let_def)
    moreover have "table_inv items (held - {sm_stream_id stream}) ?st"
      using assms(2,4) acquired True unfolding table_inv_def
      by (auto simp: priority_queueD(2) [OF assms(1)] split: if_splits)
    ultimately show ?thesis by blast
  next
    case False
    then have "drop_guard pq now rel stream st =
        Some (st\<lparr>ss_handles := (ss_handles st)(sm_stream_id stream := None)\<rparr>)"
      using acquired by (simp add: drop_guard_def Let_def)
    then show ?thesis
      using assms(2) acquired unfolding table_inv_def by (auto split: if_splits)
  qed
qed

lemma table_inv_expired:
  assumes "priority_queue pq items" "table_inv items held st" "pq_peek pq (ss_expire_queue st) = Some (i, t)"
  shows "\<exists>m. ss_handles st i = Some (Available m)"
    "table_inv items held (st\<lparr>ss_expire_queue := pq_pop pq (ss_expire_queue st),
       ss_handles := (ss_handles st)(i \<mapsto> Expired), ss_cleanup_queue := ss_cleanup_queue st @ [(i, u)]\<rparr>)"
proof -
  have items: "items (ss_expire_queue st) i = Some t"
    "items (pq_pop pq (ss_expire_queue st)) = (items (ss_expire_queue st))(i := None)"
    using priority_queueD(6,8) [OF assms(1,3)] by auto
  then show avail: "\<exists>m. ss_handles st i = Some (Available m)"
    using assms(2) unfolding table_inv_def by blast
  then have "i \<notin> fst ` set (ss_cleanup_queue st)" using assms(2) by (auto simp: table_inv_def)
  then show "table_inv items held (st\<lparr>ss_expire_queue := pq_pop pq (ss_expire_queue st),
       ss_handles := (ss_handles st)(i \<mapsto> Expired), ss_cleanup_queue := ss_cleanup_queue st @ [(i, u)]\<rparr>)"
    using assms(2) avail items unfolding table_inv_def by auto
qed

lemma expire_loop_returns:
  assumes "priority_queue pq items" "table_inv items held st"
  shows "\<exists>st' w. expire_loop pq now st = Some (st', w) \<and> table_inv items held st' \<and>
    ss_expire_round_base st' = ss_expire_round_base st \<and>
    (\<forall>i m. ss_handles st' i = Some (Available m) \<longrightarrow> ss_handles st i = Some (Available m)) \<and>
    (\<forall>j u. items (ss_expire_queue st') j = Some u \<longrightarrow> items (ss_expire_queue st) j = Some u \<and> now < u \<and> w \<le> u)"
  using assms(2)
proof (induction "card (dom (items (ss_expire_queue st)))" arbitrary: st rule: less_induct)
  case less
  note pq = priority_queueD [OF assms(1)]
  show ?case
  proof (cases "pq_peek pq (ss_expire_queue st)")
    case None
    then show ?thesis
      using less.prems pq(5) [OF None] by (simp add: expire_loop.simps [of pq now st])
  next
    case (Some e)
    obtain i t where e: "pq_peek pq (ss_expire_queue st) = Some (i, t)" using Some by (cases e) auto
    show ?thesis
    proof (cases "now < t")
      case True
      then show ?thesis
        using less.prems e pq(7) [OF e] by (fastforce simp: expire_loop.simps [of pq now st])
    next
      case False
      obtain m where m: "ss_handles st i = Some (Available m)"
        using table_inv_expired(1) [OF assms(1) less.prems e] by blast
      let ?u = "roundup_instant (st\<lparr>ss_expire_queue := pq_pop pq (ss_expire_queue st)\<rparr>) (now + CLEANUP)"
      let ?st = "st\<lparr>ss_expire_queue := pq_pop pq (ss_expire_queue st), ss_handles := (ss_handles st)(i \<mapsto> Expired),
        ss_cleanup_queue := ss_cleanup_queue st @ [(i, ?u)]\<rparr>"
      have "expire_loop pq now st = expire_loop pq now ?st"
        using e False m by (subst expire_loop.simps) (simp add: Let_def)
      moreover have "card (dom (items (ss_expire_queue ?st))) < card (dom (items (ss_expire_queue st)))"
        using pq(6,8) [OF e] pq(4) by (auto intro!: psubset_card_mono)
      moreover have "table_inv items held ?st"
        using table_inv_expired(2) [OF assms(1) less.prems e, of ?u] .
      ultimately obtain st' w where st': "expire_loop pq now st = Some (st', w)" "table_inv items held st'"
        "ss_expire_round_base st' = ss_expire_round_base ?st"
        "\<And>i m. ss_handles st' i = Some (Available m) \<Longrightarrow> ss_handles ?st i = Some (Available m)"
        "\<And>j u. items (ss_expire_queue st') j = Some u \<Longrightarrow> items (ss_expire_queue ?st) j = Some u \<and> now < u \<and> w \<le> u"
        using less.hyps [of ?st] by auto
      have "ss_handles st j = Some (Available n)" if "ss_handles st' j = Some (Available n)" for j n
        using st'(4) [OF that] by (cases "j = i") simp_all
      moreover have "items (ss_expire_queue st) j = Some u \<and> now < u \<and> w \<le> u"
        if "items (ss_expire_queue st') j = Some u" for j u
        using st'(5) [OF that] pq(8) [OF e] by (simp split: if_splits)
      ultimately show ?thesis using st'(1-3) by simp
    qed
  qed
qed

lemma cleanup_loop_returns:
  "distinct (map fst queue) \<Longrightarrow> fst ` set queue = {i. handles i = Some Expired} \<Longrightarrow>
   \<exists>queue' handles'. cleanup_loop now queue handles = Some (queue', handles') \<and> distinct (map fst queue') \<and>
     fst ` set queue' = {i. handles' i = Some Expired} \<and>
     (\<forall>i. handles i \<noteq> Some Expired \<longrightarrow> handles' i = handles i) \<and>
     (\<forall>i. handles i = Some Expired \<longrightarrow> handles' i \<in> {None, Some Expired})"
proof (induction now queue handles rule: cleanup_loop.induct)
  case (2 now i t queue handles)
  have i: "handles i = Some Expired" using 2(3) by auto
  show ?case
  proof (cases "t \<le> now")
    case True
    define h where "h = handles(i := None)"
    have "fst ` set queue = {j. h j = Some Expired}" "distinct (map fst queue)"
      using 2(2,3) by (auto simp: h_def split: if_splits)
    with 2(1) [OF True i refl] obtain queue' handles' where
      "cleanup_loop now queue h = Some (queue', handles')" "distinct (map fst queue')"
      "fst ` set queue' = {j. handles' j = Some Expired}"
      and old: "\<And>j. h j \<noteq> Some Expired \<Longrightarrow> handles' j = h j"
        "\<And>j. h j = Some Expired \<Longrightarrow> handles' j \<in> {None, Some Expired}"
      unfolding h_def [symmetric] by blast
    moreover have "handles' i = None" using old(1) [of i] by (simp add: h_def)
    moreover have "handles j \<noteq> Some Expired \<Longrightarrow> handles' j = handles j" for j
      using old(1) [of j] i by (cases "j = i") (auto simp: h_def)
    moreover have "handles j = Some Expired \<Longrightarrow> handles' j \<in> {None, Some Expired}" for j
      using old(2) [of j] calculation(4) by (cases "j = i") (auto simp: h_def)
    ultimately show ?thesis using i True by (simp add: h_def)
  qed (use 2 i in \<open>intro exI [of _ "(i, t) # queue"] exI [of _ handles], simp\<close>)
qed simp

lemma pump_expire_returns:
  assumes "priority_queue pq items" "table_inv items held st"
  shows "\<exists>st'. pump_expire pq now st = Some (Pumped st') \<and> table_inv items held st' \<and>
    ss_expire_round_base st' = ss_expire_round_base st \<and>
    (\<forall>i m. ss_handles st' i = Some (Available m) \<longrightarrow> ss_handles st i = Some (Available m)) \<and>
    (\<forall>j u. items (ss_expire_queue st') j = Some u \<longrightarrow>
       items (ss_expire_queue st) j = Some u \<and> now < u \<and> ss_expire_deadline st' \<le> u)"
proof -
  obtain st1 w where st1: "expire_loop pq now st = Some (st1, w)" "table_inv items held st1"
    "ss_expire_round_base st1 = ss_expire_round_base st"
    "\<And>i m. ss_handles st1 i = Some (Available m) \<Longrightarrow> ss_handles st i = Some (Available m)"
    "\<And>j u. items (ss_expire_queue st1) j = Some u \<Longrightarrow> items (ss_expire_queue st) j = Some u \<and> now < u \<and> w \<le> u"
    using expire_loop_returns [OF assms] by blast
  have cleanup: "distinct (map fst (ss_cleanup_queue st1))"
    "fst ` set (ss_cleanup_queue st1) = {i. ss_handles st1 i = Some Expired}"
    using st1(2) by (simp_all add: table_inv_def)
  obtain queue handles where loop: "cleanup_loop now (ss_cleanup_queue st1) (ss_handles st1) = Some (queue, handles)"
    and queue: "distinct (map fst queue)" "fst ` set queue = {i. handles i = Some Expired}"
    and old: "\<And>i. ss_handles st1 i \<noteq> Some Expired \<Longrightarrow> handles i = ss_handles st1 i"
      "\<And>i. ss_handles st1 i = Some Expired \<Longrightarrow> handles i \<in> {None, Some Expired}"
    using cleanup_loop_returns [of "ss_cleanup_queue st1" "ss_handles st1" now] cleanup by auto
  have same: "handles i = Some Acquired \<longleftrightarrow> ss_handles st1 i = Some Acquired"
    "handles i = Some (Available m) \<longleftrightarrow> ss_handles st1 i = Some (Available m)" for i m
    using old(1) [of i] old(2) [of i] by (cases "ss_handles st1 i = Some Expired"; auto)+
  let ?st = "st1\<lparr>ss_handles := handles, ss_cleanup_queue := queue, ss_expire_deadline := w,
    ss_expire_waker := True, ss_woken := False\<rparr>"
  have "pump_expire pq now st = Some (Pumped ?st)" using st1(1) loop by (simp add: pump_expire_def)
  moreover have "table_inv items held ?st" using st1(2) queue same unfolding table_inv_def by simp
  ultimately show ?thesis using st1(3-5) same(2) by (intro exI [of _ ?st] conjI) simp_all
qed

lemma pump_removes_due:
  assumes "priority_queue pq items" "table_inv items held st" "items (ss_expire_queue st) i = Some t"
  shows "\<forall>now\<ge>t. \<exists>st'. pump_expire pq now st = Some (Pumped st') \<and> (\<forall>m. ss_handles st' i \<noteq> Some (Available m))"
proof (intro allI impI)
  fix now assume "t \<le> now"
  obtain st' where st': "pump_expire pq now st = Some (Pumped st')" "table_inv items held st'"
    "\<And>j u. items (ss_expire_queue st') j = Some u \<Longrightarrow> items (ss_expire_queue st) j = Some u \<and> now < u"
    using pump_expire_returns [OF assms(1,2), of now] by blast
  have "items (ss_expire_queue st') i = None"
    using st'(3) [of i] assms(3) \<open>t \<le> now\<close> by (cases "items (ss_expire_queue st') i") fastforce+
  then have "\<forall>m. ss_handles st' i \<noteq> Some (Available m)"
    using st'(2) unfolding table_inv_def by blast
  then show "\<exists>st'. pump_expire pq now st = Some (Pumped st') \<and> (\<forall>m. ss_handles st' i \<noteq> Some (Available m))"
    using st'(1) by blast
qed

lemma sys_inv_step:
  assumes "priority_queue pq items" "sys_inv items s" "stream_step pq lib key s e s'"
  shows "sys_inv items s'"
  using assms(3)
proof (cases rule: stream_stepE)
  case (step_open made rs seq stream st')
  then show ?thesis using table_inv_new [OF step_open(3)] assms(2) by (auto simp: sys_inv_def)
next
  case (step_resume baton i n made rs seq stream st')
  then show ?thesis using table_inv_resume [OF assms(1) step_resume(4)] assms(2) by (auto simp: sys_inv_def)
next
  case (step_work gs stream gs' stream')
  then show ?thesis using assms(2) by (auto simp: sys_inv_def)
next
  case (step_finish gs stream gs' now rel st')
  have guards: "sm_stream_id ` set (sy_guards s) - {sm_stream_id stream} = sm_stream_id ` set (gs @ gs')"
    using assms(2) step_finish(3) by (simp add: sys_inv_def image_Un insert_Diff_if)
  obtain st'' where "drop_guard pq now rel stream (sy_state s) = Some st''"
    "table_inv items (sm_stream_id ` set (sy_guards s) - {sm_stream_id stream}) st''"
    using table_inv_drop [OF assms(1), of "sm_stream_id ` set (sy_guards s)" "sy_state s" stream rel now]
      assms(2) step_finish(3,5) by (auto simp: sys_inv_def)
  then show ?thesis
    using step_finish assms(2) unfolding guards by (auto simp: sys_inv_def)
next
  case (step_pump now st')
  then show ?thesis
    using pump_expire_returns [OF assms(1), of "sm_stream_id ` set (sy_guards s)" "sy_state s" now] assms(2)
    by (auto simp: sys_inv_def)
qed

text \<open>Every stream that waits is queued, and the expiration task will look at it in time.\<close>

definition timely :: "('q \<Rightarrow> u64 \<rightharpoonup> instant) \<Rightarrow> ('q, 'd) ServerStreamState \<Rightarrow> bool" where
  "timely items st \<longleftrightarrow>
     (\<forall>i t. items (ss_expire_queue st) i = Some t \<longrightarrow> ss_woken st \<or> ss_expire_deadline st \<le> t) \<and>
     (ss_expire_waker st \<or> ss_woken st \<or> ss_expire_deadline st \<le> ss_expire_round_base st)"

lemma roundup_after: "ss_expire_round_base st \<le> t \<Longrightarrow> t < roundup_instant st t"
proof -
  assume base: "ss_expire_round_base st \<le> t"
  have "t - ss_expire_round_base st < ((t - ss_expire_round_base st) div NANOS + 1) * NANOS"
    using dividend_less_times_div [of NANOS "t - ss_expire_round_base st"]
    by (simp add: NANOS_def algebra_simps)
  then show ?thesis using base by (simp add: roundup_instant_def)
qed

lemma timely_mark:
  assumes "priority_queue pq items" "timely items st" "ss_expire_round_base st \<le> now"
  shows "timely items (mark_expire pq now i st)"
proof -
  have "ss_expire_round_base st < roundup_instant st (now + EXPIRATION)"
    using roundup_after [of st "now + EXPIRATION"] assms(3) by simp
  then show ?thesis
    using assms(2) unfolding timely_def mark_expire_def Let_def
    by (auto simp: priority_queueD(2) [OF assms(1)])
qed

lemma timely_step:
  assumes "priority_queue pq items" "sys_inv items s" "timely items (sy_state s)" "stream_step pq lib key s e s'"
  shows "timely items (sy_state s')"
  using assms(4)
proof (cases rule: stream_stepE)
  case (step_open made rs seq stream st')
  from step_open(3) show ?thesis
    by (cases rule: acquire_new) (use assms(3) step_open(2) in \<open>simp add: timely_def\<close>)
next
  case (step_resume baton i n made rs seq stream st')
  from step_resume(4) show ?thesis
    by (cases rule: acquire_baton)
      (use assms(3) step_resume(2) in \<open>auto simp: timely_def unmark_expire_def priority_queueD(3) [OF assms(1)]\<close>)
next
  case (step_work gs stream gs' stream')
  then show ?thesis using assms(3) by simp
next
  case (step_finish gs stream gs' now rel st')
  have *: "timely items (sy_state s\<lparr>ss_handles := h\<rparr>)" for h
    using assms(3) by (simp add: timely_def)
  show ?thesis
    using step_finish * timely_mark [OF assms(1) *]
    by (auto simp: drop_guard_def Let_def split: option.splits Handle.splits if_splits)
next
  case (step_pump now st')
  obtain st'' where "pump_expire pq now (sy_state s) = Some (Pumped st'')"
    "\<And>j u. items (ss_expire_queue st'') j = Some u \<Longrightarrow> now < u \<and> ss_expire_deadline st'' \<le> u"
    using pump_expire_returns [OF assms(1), of "sm_stream_id ` set (sy_guards s)" "sy_state s" now] assms(2)
    by (auto simp: sys_inv_def)
  moreover have "ss_expire_waker st'"
    using step_pump(4) by (auto simp: pump_expire_def split: option.splits prod.splits)
  ultimately show ?thesis using step_pump by (auto simp: timely_def)
qed

text \<open>How often a stream was resumed, which streams are alive, and what the batons are then.\<close>

definition resumed :: "('q, 'd) stream_sys \<Rightarrow> u64 \<Rightarrow> nat" where
  "resumed s i = length (filter (\<lambda>a. fst a = i) (sy_accepted s))"

definition alive :: "('q, 'd) stream_sys \<Rightarrow> 'd Stream \<Rightarrow> bool" where
  "alive s m \<longleftrightarrow> m \<in> set (sy_guards s) \<or> ss_handles (sy_state s) (sm_stream_id m) = Some (Available m)"

definition baton_inv :: "('q, 'd) stream_sys \<Rightarrow> bool" where
  "baton_inv s \<longleftrightarrow>
     (\<forall>i n. (i, n) \<in> set (sy_accepted s) \<longrightarrow>
        (\<exists>n0 k. (i, n0) \<in> set (sy_opened s) \<and> n = n0 + word_of_nat k \<and> k < resumed s i)) \<and>
     (\<forall>m. alive s m \<longrightarrow>
        (\<exists>n0. (sm_stream_id m, n0) \<in> set (sy_opened s) \<and> sm_baton_seq m = n0 + word_of_nat (resumed s (sm_stream_id m)))) \<and>
     (length (sy_accepted s) \<le> 2 ^ 64 \<longrightarrow> distinct (sy_accepted s))"

lemma baton_accepted:
  "baton_inv s \<Longrightarrow> (i, n) \<in> set (sy_accepted s) \<Longrightarrow>
   \<exists>n0 k. (i, n0) \<in> set (sy_opened s) \<and> n = n0 + word_of_nat k \<and> k < resumed s i"
  unfolding baton_inv_def by blast

lemma baton_alive:
  "baton_inv s \<Longrightarrow> alive s m \<Longrightarrow>
   \<exists>n0. (sm_stream_id m, n0) \<in> set (sy_opened s) \<and> sm_baton_seq m = n0 + word_of_nat (resumed s (sm_stream_id m))"
  unfolding baton_inv_def by blast

lemma resumed_le: "resumed s i \<le> length (sy_accepted s)"
  by (simp add: resumed_def)

lemma word_of_nat_inj64:
  "(word_of_nat j :: u64) = word_of_nat k \<Longrightarrow> j < 2 ^ 64 \<Longrightarrow> k < 2 ^ 64 \<Longrightarrow> j = k"
  by (drule arg_cong [where f = unat]) (simp add: unat_of_nat)

lemma baton_inv_open:
  assumes "sys_inv items s" "baton_inv s" "acquire pq lib key made rs seq None (sy_state s) = (Inr stream, st')"
    and "sm_stream_id stream \<notin> fst ` set (sy_opened s)"
  shows "baton_inv (s\<lparr>sy_state := st', sy_guards := stream # sy_guards s,
      sy_opened := (sm_stream_id stream, sm_baton_seq stream) # sy_opened s\<rparr>)"
    (is "baton_inv ?s")
proof -
  let ?i = "sm_stream_id stream"
  have res: "resumed ?s j = resumed s j" for j by (simp add: resumed_def)
  have opened: "j \<in> fst ` set (sy_opened s)" if "(j, n) \<in> set (sy_accepted s)" for j n
    using baton_accepted [OF assms(2) that] by (force intro: rev_image_eqI)
  then have "\<forall>a\<in>set (sy_accepted s). fst a \<noteq> ?i" using assms(4) by auto
  then have zero: "resumed s ?i = 0" by (simp add: resumed_def)
  have alive: "m = stream \<or> alive s m" if "alive ?s m" for m
    using assms(3)
  proof (cases rule: acquire_new)
    case (1 db)
    then show ?thesis using that by (auto simp: alive_def split: if_splits)
  qed
  show ?thesis
    unfolding baton_inv_def res
  proof (intro conjI allI impI)
    fix j n assume "(j, n) \<in> set (sy_accepted ?s)"
    then show "\<exists>n0 k. (j, n0) \<in> set (sy_opened ?s) \<and> n = n0 + word_of_nat k \<and> k < resumed s j"
      using baton_accepted [OF assms(2), of j n] by auto
  next
    fix m assume "alive ?s m"
    from alive [OF this] show "\<exists>n0. (sm_stream_id m, n0) \<in> set (sy_opened ?s) \<and>
        sm_baton_seq m = n0 + word_of_nat (resumed s (sm_stream_id m))"
    proof
      assume "alive s m"
      then show ?thesis using baton_alive [OF assms(2), of m] by auto
    qed (simp add: zero)
  next
    assume "length (sy_accepted ?s) \<le> 2 ^ 64"
    then show "distinct (sy_accepted ?s)" using assms(2) unfolding baton_inv_def by simp
  qed
qed

lemma baton_inv_resume:
  assumes inv: "sys_inv items s" "baton_inv s" and fresh: "distinct (map fst (sy_opened s))"
    and decoded: "decode_baton lib key baton = Inr (i, n)"
    and acq: "acquire pq lib key made rs seq (Some baton) (sy_state s) = (Inr stream, st')"
  shows "baton_inv (s\<lparr>sy_state := st', sy_guards := stream # sy_guards s, sy_accepted := (i, n) # sy_accepted s\<rparr>)"
    (is "baton_inv ?s")
  using acq
proof (cases rule: acquire_baton)
  case (1 i' m)
  have i: "i' = i" "n = sm_baton_seq m" using 1(1) decoded by auto
  have m: "n = sm_baton_seq m" "ss_handles (sy_state s) i = Some (Available m)" "stream = m\<lparr>sm_baton_seq := n + 1\<rparr>"
    using 1(2,3) i by simp_all
  have id: "sm_stream_id m = i"
    using sys_invD(1) [OF inv(1) m(2)] .
  have other: "sm_stream_id g \<noteq> i" if "g \<in> set (sy_guards s)" for g
  proof -
    have "ss_handles (sy_state s) (sm_stream_id g) = Some Acquired"
      using sys_invD(2) [OF inv(1) that] .
    then show ?thesis using m(2) by auto
  qed
  have "alive s m" using m(2) id by (simp add: alive_def)
  then obtain n0 where n0: "(i, n0) \<in> set (sy_opened s)" "n = n0 + word_of_nat (resumed s i)"
    using baton_alive [OF inv(2)] m(1) id by blast
  have res: "resumed ?s j = (if j = i then Suc (resumed s i) else resumed s j)" for j
    by (simp add: resumed_def)
  have alive: "g = stream \<or> alive s g \<and> sm_stream_id g \<noteq> i" if "alive ?s g" for g
    using that other i(1) unfolding alive_def 1(4)
    by (auto simp: unmark_expire_def split: if_splits)
  have new: "(i, n) \<notin> set (sy_accepted s)" if len: "length (sy_accepted s) < 2 ^ 64"
  proof
    assume "(i, n) \<in> set (sy_accepted s)"
    then obtain n1 k where k: "(i, n1) \<in> set (sy_opened s)" "n = n1 + word_of_nat k" "k < resumed s i"
      using baton_accepted [OF inv(2)] by blast
    have "n1 = n0" using fresh n0(1) k(1) eq_key_imp_eq_value by fast
    then have "k = resumed s i"
      using n0(2) k(2,3) len resumed_le [of s i] by (intro word_of_nat_inj64) auto
    then show False using k(3) by simp
  qed
  show ?thesis
    unfolding baton_inv_def
  proof (intro conjI allI impI)
    fix j l assume "(j, l) \<in> set (sy_accepted ?s)"
    then consider "j = i" "l = n" | "(j, l) \<in> set (sy_accepted s)" by auto
    then show "\<exists>n0 k. (j, n0) \<in> set (sy_opened ?s) \<and> l = n0 + word_of_nat k \<and> k < resumed ?s j"
    proof cases
      case 1
      then show ?thesis using n0 unfolding res by auto
    next
      case 2
      then obtain n1 k where "(j, n1) \<in> set (sy_opened s)" "l = n1 + word_of_nat k" "k < resumed s j"
        using baton_accepted [OF inv(2)] by blast
      then show ?thesis unfolding res by (auto intro!: exI [of _ n1] exI [of _ k])
    qed
  next
    fix g assume "alive ?s g"
    from alive [OF this] show "\<exists>n0. (sm_stream_id g, n0) \<in> set (sy_opened ?s) \<and>
        sm_baton_seq g = n0 + word_of_nat (resumed ?s (sm_stream_id g))"
    proof
      assume "g = stream"
      then show ?thesis using n0 m(3) id unfolding res by (auto simp: add.commute add.left_commute)
    next
      assume "alive s g \<and> sm_stream_id g \<noteq> i"
      then show ?thesis using baton_alive [OF inv(2), of g] unfolding res by auto
    qed
  next
    assume "length (sy_accepted ?s) \<le> 2 ^ 64"
    then show "distinct (sy_accepted ?s)" using new inv(2) by (simp add: baton_inv_def)
  qed
qed

lemma baton_inv_same:
  assumes "baton_inv s" "sy_accepted s' = sy_accepted s" "sy_opened s' = sy_opened s"
    and "\<And>m. alive s' m \<Longrightarrow> \<exists>g. alive s g \<and> sm_stream_id g = sm_stream_id m \<and> sm_baton_seq g = sm_baton_seq m"
  shows "baton_inv s'"
proof -
  have res: "resumed s' i = resumed s i" for i using assms(2) by (simp add: resumed_def)
  have "\<exists>n0. (sm_stream_id m, n0) \<in> set (sy_opened s') \<and> sm_baton_seq m = n0 + word_of_nat (resumed s' (sm_stream_id m))"
    if live: "alive s' m" for m
  proof -
    obtain g where "alive s g" "sm_stream_id g = sm_stream_id m" "sm_baton_seq g = sm_baton_seq m"
      using assms(4) [OF live] by blast
    then show ?thesis using baton_alive [OF assms(1), of g] assms(3) by (simp add: res)
  qed
  then show ?thesis using assms(1-3) unfolding baton_inv_def res by simp
qed

lemma alive_finish:
  assumes "sy_guards s = gs @ stream # gs'" "drop_guard pq now rel stream (sy_state s) = Some st'"
    and "alive (s\<lparr>sy_state := st', sy_guards := gs @ gs'\<rparr>) m"
  shows "alive s m"
  using assms
  by (auto simp: alive_def drop_guard_def Let_def split: option.splits Handle.splits if_splits)

lemma baton_inv_step:
  assumes "priority_queue pq items" "sys_inv items s" "distinct (map fst (sy_opened s')) "
    and "distinct (map fst (sy_opened s)) \<Longrightarrow> baton_inv s" "stream_step pq lib key s e s'"
  shows "baton_inv s'"
  using assms(5)
proof (cases rule: stream_stepE)
  case (step_open made rs seq stream st')
  then have "sm_stream_id stream \<notin> fst ` set (sy_opened s)" "distinct (map fst (sy_opened s))"
    using assms(3) by auto
  then show ?thesis using baton_inv_open [OF assms(2) _ step_open(3)] assms(4) step_open(2) by blast
next
  case (step_resume baton i n made rs seq stream st')
  then have "distinct (map fst (sy_opened s))" using assms(3) by simp
  then show ?thesis
    using baton_inv_resume [OF assms(2) _ _ step_resume(3,4)] assms(4) step_resume(2) by blast
next
  case (step_work gs stream gs' stream')
  have "baton_inv s" using assms(3,4) step_work(2) by simp
  then show ?thesis
  proof (rule baton_inv_same)
    fix m assume "alive s' m"
    then have "m = stream' \<or> alive s m" using step_work(2,3) by (auto simp: alive_def)
    moreover have "alive s stream" using step_work(3) by (simp add: alive_def)
    ultimately show "\<exists>g. alive s g \<and> sm_stream_id g = sm_stream_id m \<and> sm_baton_seq g = sm_baton_seq m"
      using step_work(4,5) by metis
  qed (use step_work(2) in simp_all)
next
  case (step_finish gs stream gs' now rel st')
  have "baton_inv s" using assms(3,4) step_finish(2) by simp
  then show ?thesis
    by (rule baton_inv_same) (use step_finish alive_finish [OF step_finish(3,6)] in auto)
next
  case (step_pump now st')
  have "baton_inv s" using assms(3,4) step_pump(2) by simp
  moreover obtain st'' where "pump_expire pq now (sy_state s) = Some (Pumped st'')"
    "\<And>i m. ss_handles st'' i = Some (Available m) \<Longrightarrow> ss_handles (sy_state s) i = Some (Available m)"
    using pump_expire_returns [OF assms(1), of "sm_stream_id ` set (sy_guards s)" "sy_state s" now] assms(2)
    by (auto simp: sys_inv_def)
  ultimately show ?thesis
    by (elim baton_inv_same) (use step_pump in \<open>auto simp: alive_def\<close>)
qed

definition streams_ok :: "'q pqueue \<Rightarrow> ('q \<Rightarrow> u64 \<rightharpoonup> instant) \<Rightarrow> ('q, 'd) stream_sys \<Rightarrow> bool" where
  "streams_ok pq items s \<longleftrightarrow>
     (priority_queue pq items \<longrightarrow>
        sys_inv items s \<and> timely items (sy_state s) \<and> (distinct (map fst (sy_opened s)) \<longrightarrow> baton_inv s))"

lemma streams_ok_init: "stream_init pq s \<Longrightarrow> streams_ok pq items s"
  by (auto simp: stream_init_def streams_ok_def sys_inv_def table_inv_def timely_def baton_inv_def
      stream_state_new_def alive_def priority_queueD(1))

lemma streams_ok_step:
  assumes "streams_ok pq items s" "stream_step pq lib key s e s'"
  shows "streams_ok pq items s'"
  unfolding streams_ok_def
proof (intro impI conjI)
  assume pq: "priority_queue pq items"
  then have s: "sys_inv items s" "timely items (sy_state s)" "distinct (map fst (sy_opened s)) \<Longrightarrow> baton_inv s"
    using assms(1) by (auto simp: streams_ok_def)
  show "sys_inv items s'" by (rule sys_inv_step [OF pq s(1) assms(2)])
  show "timely items (sy_state s')" by (rule timely_step [OF pq s(1,2) assms(2)])
  show "baton_inv s'" if "distinct (map fst (sy_opened s'))"
    by (rule baton_inv_step [OF pq s(1) that s(3) assms(2)])
qed

interpretation hrana_streams: inductive_invariant "stream_init pq" "stream_step pq lib key" "streams_ok pq items"
  using streams_ok_init streams_ok_step by unfold_locales

section \<open>Properties\<close>

lemma be_bytes_simps [simp]: "length (be_bytes w) = 8" "from_be_bytes (be_bytes w) = w"
  by (simp_all add: be_bytes_def from_be_bytes_def bytes_word_u64)

lemma from_be_bytes_inverse: "length bs = 8 \<Longrightarrow> be_bytes (from_be_bytes bs) = bs"
  by (simp add: be_bytes_def from_be_bytes_def word_bytes_bytes_word [of "rev bs" 8])

lemma encoded_baton_decodes: "baton_codec lib \<Longrightarrow> decode_baton lib key (encode_baton lib key i n) = Inr (i, n)"
  by (simp add: baton_codec_def decode_baton_def encode_baton_def byte_slice_def Let_def)

text \<open>
  (C17) Batons: what the server encodes it decodes to the same stream and sequence
  number, and whatever it accepts carries the MAC of exactly this pair, so that only one who
  can compute the MAC makes an acceptable baton. The MAC has 32 bytes and base64 decodes what it encoded.
\<close>

theorem baton_roundtrip:
  assumes "baton_codec lib"
  shows "decode_baton lib key (encode_baton lib key i n) = Inr (i, n) \<and>
    (decode_baton lib key b = Inr (i, n) \<longrightarrow>
       bl_decode lib b = Some (be_bytes i @ be_bytes n @ bl_mac lib key (be_bytes i @ be_bytes n)))"
proof
  show "decode_baton lib key (encode_baton lib key i n) = Inr (i, n)"
    using assms by (rule encoded_baton_decodes)
  show "decode_baton lib key b = Inr (i, n) \<longrightarrow>
    bl_decode lib b = Some (be_bytes i @ be_bytes n @ bl_mac lib key (be_bytes i @ be_bytes n))"
  proof
    assume "decode_baton lib key b = Inr (i, n)"
    then obtain d where d: "bl_decode lib b = Some d" "length d = 48" "take 32 (drop 16 d) = bl_mac lib key (take 16 d)"
      "i = from_be_bytes (take 8 d)" "n = from_be_bytes (take 8 (drop 8 d))"
      by (auto simp: decode_baton_def byte_slice_def Let_def min_def drop_take split: option.splits if_splits)
    have "be_bytes i = take 8 d" "be_bytes n = take 8 (drop 8 d)"
      using d(2,4,5) by (simp_all add: from_be_bytes_inverse)
    then have "be_bytes i @ be_bytes n = take 16 d"
      using take_add [of 8 8 d] by simp
    moreover have "d = take 16 d @ take 32 (drop 16 d)" using d(2) by simp
    ultimately show "bl_decode lib b = Some (be_bytes i @ be_bytes n @ bl_mac lib key (be_bytes i @ be_bytes n))"
      using d(1,3) by (metis append_assoc)
  qed
qed

definition sample_baton_lib :: baton_lib where
  "sample_baton_lib =
     \<lparr> bl_mac = (\<lambda>key payload. replicate 32 0), bl_encode = string_of_bytes,
       bl_decode = (\<lambda>s. Some (bytes_of_string s)) \<rparr>"

lemma sample_baton_codec: "baton_codec sample_baton_lib"
  by (simp add: baton_codec_def sample_baton_lib_def string_bytes_roundtrip)

theorem baton_roundtrip_witness:
  "decode_baton sample_baton_lib [] (encode_baton sample_baton_lib [] 7 5) = Inr (7, 5) \<and>
   bl_decode sample_baton_lib (encode_baton sample_baton_lib [] 7 5) = Some (be_bytes 7 @ be_bytes 5 @ replicate 32 0)"
  using baton_roundtrip [OF sample_baton_codec, of "[]" 7 5 "encode_baton sample_baton_lib [] 7 5"]
  by (simp add: sample_baton_lib_def)

text \<open>A queue of this kind, and a run that opens a stream, releases it and resumes it with its baton.\<close>

fun earliest :: "(u64 \<times> instant) list \<Rightarrow> (u64 \<times> instant) option" where
  "earliest [] = None"
| "earliest (x # xs) =
     (case earliest xs of None \<Rightarrow> Some x | Some y \<Rightarrow> Some (if snd x \<le> snd y then x else y))"

definition current_entries :: "(u64 \<times> instant) list \<Rightarrow> (u64 \<times> instant) list" where
  "current_entries q = map (\<lambda>i. (i, the (map_of q i))) (remdups (map fst q))"

definition list_pqueue :: "(u64 \<times> instant) list pqueue" where
  "list_pqueue =
     \<lparr> pq_new = [], pq_push = (\<lambda>i t q. (i, t) # q), pq_remove = (\<lambda>i q. filter (\<lambda>e. fst e \<noteq> i) q),
       pq_peek = (\<lambda>q. earliest (current_entries q)),
       pq_pop = (\<lambda>q. case earliest (current_entries q) of
                       None \<Rightarrow> q | Some (i, _) \<Rightarrow> filter (\<lambda>e. fst e \<noteq> i) q) \<rparr>"

lemma earliest_None: "earliest xs = None \<longleftrightarrow> xs = []"
  by (cases xs) (auto split: option.splits)

lemma earliest_Some: "earliest xs = Some e \<Longrightarrow> e \<in> set xs \<and> (\<forall>x\<in>set xs. snd e \<le> snd x)"
proof (induction xs arbitrary: e)
  case (Cons x xs)
  then show ?case by (auto simp: earliest_None split: option.splits if_splits)
qed simp

lemma map_of_filter_key: "map_of (filter (\<lambda>e. fst e \<noteq> i) q) = (map_of q)(i := None)"
  by (induction q) auto

lemma current_entries_mem: "(i, t) \<in> set (current_entries q) \<longleftrightarrow> map_of q i = Some t"
proof -
  have "(i, t) \<in> set (current_entries q) \<longleftrightarrow> i \<in> fst ` set q \<and> t = the (map_of q i)"
    unfolding current_entries_def by (auto simp: image_iff)
  also have "\<dots> \<longleftrightarrow> map_of q i = Some t"
    by (cases "map_of q i") (auto simp: map_of_eq_None_iff dest: map_of_SomeD intro: rev_image_eqI)
  finally show ?thesis .
qed

lemma list_priority_queue: "priority_queue list_pqueue map_of"
  unfolding priority_queue_def
proof (intro conjI allI)
  fix q
  show "case pq_peek list_pqueue q of
      None \<Rightarrow> map_of q = Map.empty \<and> map_of (pq_pop list_pqueue q) = Map.empty
    | Some (i, t) \<Rightarrow> map_of q i = Some t \<and> (\<forall>j u. map_of q j = Some u \<longrightarrow> t \<le> u) \<and>
        map_of (pq_pop list_pqueue q) = (map_of q)(i := None)"
  proof (cases "earliest (current_entries q)")
    case None
    then have "q = []" by (simp add: earliest_None current_entries_def)
    then show ?thesis by (simp add: list_pqueue_def current_entries_def)
  next
    case (Some e)
    obtain i t where e: "e = (i, t)" by fastforce
    have "map_of q i = Some t"
      using earliest_Some [OF Some] by (simp add: e current_entries_mem)
    moreover have "t \<le> u" if "map_of q j = Some u" for j u
    proof -
      have "(j, u) \<in> set (current_entries q)" using that by (simp add: current_entries_mem)
      then have "snd e \<le> snd (j, u)" using earliest_Some [OF Some] by blast
      then show ?thesis by (simp add: e)
    qed
    ultimately show ?thesis using Some e by (simp add: list_pqueue_def map_of_filter_key)
  qed
qed (simp_all add: list_pqueue_def map_of_filter_key finite_dom_map_of)

definition sample_stream :: "unit Stream" where
  "sample_stream = \<lparr> sm_db = Some (), sm_sqls = [], sm_stream_id = 7, sm_baton_seq = 5 \<rparr>"

definition sample_streams :: "nat \<Rightarrow> ((u64 \<times> instant) list, unit) stream_sys" where
  "sample_streams n =
     (let st = stream_state_new list_pqueue 0;
          held = st\<lparr>ss_handles := [7 \<mapsto> Acquired]\<rparr>;
          idle = mark_expire list_pqueue 0 7 (st\<lparr>ss_handles := [7 \<mapsto> Available sample_stream]\<rparr>)
      in if n = 0 then \<lparr> sy_state = st, sy_guards = [], sy_accepted = [], sy_opened = [] \<rparr>
         else if n = 1 then \<lparr> sy_state = held, sy_guards = [sample_stream], sy_accepted = [], sy_opened = [(7, 5)] \<rparr>
         else if n = 2 then \<lparr> sy_state = idle, sy_guards = [], sy_accepted = [], sy_opened = [(7, 5)] \<rparr>
         else \<lparr> sy_state = unmark_expire list_pqueue 7 (idle\<lparr>ss_handles := [7 \<mapsto> Acquired]\<rparr>),
                sy_guards = [sample_stream\<lparr>sm_baton_seq := 6\<rparr>], sy_accepted = [(7, 5)], sy_opened = [(7, 5)] \<rparr>)"

lemma sample_decode: "decode_baton sample_baton_lib [] (encode_baton sample_baton_lib [] i n) = Inr (i, n)"
  using sample_baton_codec by (rule encoded_baton_decodes)

lemma sample_streams_reach:
  "reach (stream_init list_pqueue) (stream_step list_pqueue sample_baton_lib []) (sample_streams 1)"
  "reach (stream_init list_pqueue) (stream_step list_pqueue sample_baton_lib []) (sample_streams 2)"
  "reach (stream_init list_pqueue) (stream_step list_pqueue sample_baton_lib []) (sample_streams 3)"
proof -
  have "stream_init list_pqueue (sample_streams 0)"
    by (auto simp: stream_init_def sample_streams_def Let_def)
  then have r0: "reach (stream_init list_pqueue) (stream_step list_pqueue sample_baton_lib []) (sample_streams 0)"
    by (rule reach_init)
  have "acquire list_pqueue sample_baton_lib [] (Inr ()) [7] 5 None (sy_state (sample_streams 0)) =
      (Inr sample_stream, sy_state (sample_streams 1))"
    by (simp add: acquire_def sample_streams_def sample_stream_def stream_state_new_def eval_nat_numeral)
  from step_open [OF this] have "stream_step list_pqueue sample_baton_lib [] (sample_streams 0) StreamOpen (sample_streams 1)"
    by (simp add: sample_streams_def sample_stream_def Let_def)
  with r0 show r1: "reach (stream_init list_pqueue) (stream_step list_pqueue sample_baton_lib []) (sample_streams 1)"
    by (rule reach_step)
  have "drop_guard list_pqueue 0 True sample_stream (sy_state (sample_streams 1)) = Some (sy_state (sample_streams 2))"
    by (simp add: drop_guard_def sample_streams_def sample_stream_def Let_def)
  from step_finish [where s = "sample_streams 1" and gs = "[]" and gs' = "[]", OF _ _ _ this]
  have "stream_step list_pqueue sample_baton_lib [] (sample_streams 1) (StreamFinish True) (sample_streams 2)"
    by (simp add: sample_streams_def sample_stream_def stream_state_new_def Let_def)
  with r1 show r2: "reach (stream_init list_pqueue) (stream_step list_pqueue sample_baton_lib []) (sample_streams 2)"
    by (rule reach_step)
  have "acquire list_pqueue sample_baton_lib [] (Inr ()) [] 0 (Some (encode_baton sample_baton_lib [] 7 5))
      (sy_state (sample_streams 2)) = (Inr (sample_stream\<lparr>sm_baton_seq := 6\<rparr>), sy_state (sample_streams 3))"
    by (simp add: acquire_def sample_decode sample_streams_def sample_stream_def Let_def)
  from step_resume [OF sample_decode this]
  have "stream_step list_pqueue sample_baton_lib [] (sample_streams 2)
      (StreamResume (encode_baton sample_baton_lib [] 7 5)) (sample_streams 3)"
    by (simp add: sample_streams_def sample_stream_def Let_def)
  with r2 show "reach (stream_init list_pqueue) (stream_step list_pqueue sample_baton_lib []) (sample_streams 3)"
    by (rule reach_step)
qed

text \<open>
  (C15) However requests and the expiration interleave, no panic of the stream table is
  reachable and no stream is in two hands: the guard of a request can always be
  dropped, the expiration always comes to an end, without a failed assertion, and acquiring
  never hands out a stream that another request holds. The priority queue shows an earliest entry.
\<close>

theorem stream_table_is_safe:
  assumes "priority_queue pq items" "reach (stream_init pq) (stream_step pq lib key) s"
  shows "(g \<in> set (sy_guards s) \<longrightarrow> drop_guard pq now rel g (sy_state s) \<noteq> None) \<and>
    (\<exists>st'. pump_expire pq now (sy_state s) = Some (Pumped st')) \<and>
    (acquire pq lib key made rs seq baton (sy_state s) = (Inr m, st') \<longrightarrow>
       sm_stream_id m \<notin> sm_stream_id ` set (sy_guards s))"
proof -
  have inv: "sys_inv items s"
    using hrana_streams.reach_inv [OF assms(2), of items] assms(1) by (simp add: streams_ok_def)
  then have table: "table_inv items (sm_stream_id ` set (sy_guards s)) (sy_state s)"
    by (simp add: sys_inv_def)
  have "drop_guard pq now rel g (sy_state s) \<noteq> None" if "g \<in> set (sy_guards s)"
    using sys_invD(2) [OF inv that] by (simp add: drop_guard_def Let_def)
  moreover have "sm_stream_id m \<notin> sm_stream_id ` set (sy_guards s)"
    if "acquire pq lib key made rs seq baton (sy_state s) = (Inr m, st')"
    using that table_inv_new [OF _ table] table_inv_resume [OF assms(1) _ table] by (cases baton) blast+
  ultimately show ?thesis using pump_expire_returns [OF assms(1) table] by blast
qed

theorem stream_table_is_safe_witness:
  "drop_guard list_pqueue 0 False (sample_stream\<lparr>sm_baton_seq := 6\<rparr>) (sy_state (sample_streams 3)) \<noteq> None \<and>
   (\<exists>st'. pump_expire list_pqueue 0 (sy_state (sample_streams 3)) = Some (Pumped st')) \<and>
   (\<exists>m st'. acquire list_pqueue sample_baton_lib [] (Inr ()) [7, 8] 0 None (sy_state (sample_streams 3)) = (Inr m, st') \<and>
      sm_stream_id m \<notin> {7})"
proof -
  have guards: "sy_guards (sample_streams 3) = [sample_stream\<lparr>sm_baton_seq := 6\<rparr>]"
    by (simp add: sample_streams_def Let_def)
  have "\<exists>m st'. acquire list_pqueue sample_baton_lib [] (Inr ()) [7, 8] 0 None (sy_state (sample_streams 3)) = (Inr m, st')"
    by (simp add: acquire_def sample_streams_def unmark_expire_def eval_nat_numeral Let_def)
  then obtain m st' where "acquire list_pqueue sample_baton_lib [] (Inr ()) [7, 8] 0 None (sy_state (sample_streams 3)) = (Inr m, st')"
    by blast
  then show ?thesis
    using stream_table_is_safe [OF list_priority_queue sample_streams_reach(3),
        of "sample_stream\<lparr>sm_baton_seq := 6\<rparr>" 0 False "Inr ()" "[7, 8]" 0 None m st']
    by (auto simp: guards sample_stream_def)
qed

text \<open>
  (C10) Batons are single use: as long as no stream id is drawn twice, no baton is
  accepted twice, in whatever order requests come, end, fail and expire, up to the
  wrap-around of the 64-bit sequence number.
\<close>

theorem batons_are_single_use:
  assumes "priority_queue pq items" "reach (stream_init pq) (stream_step pq lib key) s"
    and "distinct (map fst (sy_opened s))" "length (sy_accepted s) \<le> 2 ^ 64"
  shows "distinct (sy_accepted s)"
  using hrana_streams.reach_inv [OF assms(2), of items] assms(1,3,4)
  by (simp add: streams_ok_def baton_inv_def)

theorem batons_are_single_use_witness:
  "sy_accepted (sample_streams 3) = [(7, 5)] \<and> distinct (sy_accepted (sample_streams 3)) \<and>
   fst (acquire list_pqueue sample_baton_lib [] (Inr ()) [] 0 (Some (encode_baton sample_baton_lib [] 7 5))
     (sy_state (sample_streams 3))) = Inl (SeProtocol BatonReused)"
proof -
  have "distinct (sy_accepted (sample_streams 3))"
    by (rule batons_are_single_use [OF list_priority_queue sample_streams_reach(3)])
      (simp_all add: sample_streams_def Let_def)
  then show ?thesis
    by (simp add: acquire_def sample_decode sample_streams_def unmark_expire_def Let_def)
qed

text \<open>
  (C16) Idle streams expire: a stream that waits for its next request has an
  expiration instant, the expiration task has been woken up or sleeps no longer
  than until then, and when it runs at or after this instant the stream is no longer available.
\<close>

theorem idle_streams_expire:
  assumes "priority_queue pq items" "reach (stream_init pq) (stream_step pq lib key) s"
    and "ss_handles (sy_state s) i = Some (Available m)"
  shows "\<exists>t. items (ss_expire_queue (sy_state s)) i = Some t \<and>
    (ss_woken (sy_state s) \<or> ss_expire_deadline (sy_state s) \<le> t) \<and>
    (\<forall>now\<ge>t. \<exists>st'. pump_expire pq now (sy_state s) = Some (Pumped st') \<and>
       (\<forall>m'. ss_handles st' i \<noteq> Some (Available m')))"
proof -
  have inv: "sys_inv items s" "timely items (sy_state s)"
    using hrana_streams.reach_inv [OF assms(2), of items] assms(1) by (simp_all add: streams_ok_def)
  then have table: "table_inv items (sm_stream_id ` set (sy_guards s)) (sy_state s)"
    by (simp add: sys_inv_def)
  then obtain t where t: "items (ss_expire_queue (sy_state s)) i = Some t"
    using assms(3) unfolding table_inv_def by blast
  then show ?thesis using inv(2) pump_removes_due [OF assms(1) table t] by (auto simp: timely_def)
qed

theorem idle_streams_expire_witness:
  "ss_handles (sy_state (sample_streams 2)) 7 = Some (Available sample_stream) \<and>
   map_of (ss_expire_queue (sy_state (sample_streams 2))) 7 = Some (11 * NANOS) \<and>
   ss_expire_deadline (sy_state (sample_streams 2)) \<le> 11 * NANOS \<and>
   (\<exists>st'. pump_expire list_pqueue (12 * NANOS) (sy_state (sample_streams 2)) = Some (Pumped st') \<and>
      (\<forall>m. ss_handles st' 7 \<noteq> Some (Available m)))"
proof -
  have idle: "ss_handles (sy_state (sample_streams 2)) 7 = Some (Available sample_stream)"
    by (simp add: sample_streams_def Let_def)
  have t: "map_of (ss_expire_queue (sy_state (sample_streams 2))) 7 = Some (11 * NANOS)"
    by (simp add: sample_streams_def Let_def list_pqueue_def roundup_instant_def stream_state_new_def EXPIRATION_def
        NANOS_def)
  have "ss_expire_deadline (sy_state (sample_streams 2)) = 0"
    by (simp add: sample_streams_def Let_def stream_state_new_def)
  then show ?thesis
    using idle_streams_expire [OF list_priority_queue sample_streams_reach(2) idle] t idle by auto
qed

end
