(* ===== verification/HranaHttp.thy ===== *)
theory HranaHttp
  imports HranaBatch HranaStream
begin

text \<open>
  Hrana over HTTP (\<^verbatim>\<open>sqld/src/hrana/http/\<close>): the requests of a stream
  (\<^verbatim>\<open>request.rs\<close>), the pipeline and cursor endpoints and the responses to errors (\<^verbatim>\<open>mod.rs\<close>), over
  the streams of \<^verbatim>\<open>HranaStream\<close>. Decoded bodies and the bytes of encoded responses are arguments; the
  other requests may do anything to the table of streams while a request runs.
\<close>

section \<open>Requests\<close>

datatype StreamRequest =
    SrqNone | SrqClose | SrqExecute proto_stmt | SrqBatch "BatchStep list"
  | SrqSequence "string option" "int option" | SrqDescribe "string option" "int option"
  | SrqStoreSql int string | SrqCloseSql int | SrqGetAutocommit

datatype StreamResponse =
    SrpClose | SrpExecute StmtResult | SrpBatch BatchResult | SrpSequence | SrpDescribe DescribeResult
  | SrpStoreSql | SrpCloseSql | SrpGetAutocommit bool

datatype StreamResult = StreamResultNone | StreamResultOk StreamResponse | StreamResultError proto_error

datatype StreamResponseError = SqlTooMany nat | ResponseStmt StmtError | ResponseBatch BatchError

fun stream_response_error_code :: "StreamResponseError \<Rightarrow> string" where
  "stream_response_error_code (SqlTooMany n) = ''SQL_STORE_TOO_MANY''"
| "stream_response_error_code (ResponseStmt e) = stmt_error_code e"
| "stream_response_error_code (ResponseBatch e) = batch_error_code e"

fun stream_response_error_message :: "StreamResponseError \<Rightarrow> string" where
  "stream_response_error_message (SqlTooMany n) =
     ''The server already stores '' @ show_int (int n) @ '' SQL texts, it cannot store more''"
| "stream_response_error_message (ResponseStmt e) = stmt_error_message e"
| "stream_response_error_message (ResponseBatch e) = batch_error_message e"

datatype request_error = RequestResponse StreamResponseError | RequestOther hrana_error

fun request_catch_stmt_error :: "request_error \<Rightarrow> request_error" where
  "request_catch_stmt_error (RequestOther (HeStmt e)) = RequestResponse (ResponseStmt e)"
| "request_catch_stmt_error e = e"

fun request_catch_batch_error :: "request_error \<Rightarrow> request_error" where
  "request_catch_batch_error (RequestOther (HeBatch e)) = RequestResponse (ResponseBatch e)"
| "request_catch_batch_error e = e"

definition MAX_SQL_COUNT :: nat where "MAX_SQL_COUNT = 50"

text \<open>What is needed to execute on a connection: SQLite, the parser, the texts, the counter of response bytes.\<close>

record 'c hrana_env =
  he_sqlite :: "'c sqlite"
  he_parser :: sql_parser
  he_lib :: hrana_lib
  he_held :: u64

type_synonym 'c conn_stream = "'c Connection Stream"

text \<open>Running \<^verbatim>\<open>f\<close> on the connection of the stream, and the response made of its result.\<close>

definition on_db ::
  "'c conn_stream \<Rightarrow> ('c Connection \<Rightarrow> (request_error + 'r) \<times> 'c Connection)
     \<Rightarrow> (request_error + 'r) \<times> 'c conn_stream" where
  "on_db stream f =
     (case get_db stream of
        Inl e \<Rightarrow> (Inl (RequestOther (HeProtocol e)), stream)
      | Inr db \<Rightarrow> (case f db of (r, db) \<Rightarrow> (r, stream\<lparr>sm_db := Some db\<rparr>)))"

definition answer :: "(hrana_error \<Rightarrow> request_error) \<Rightarrow> ('a \<Rightarrow> 'r) \<Rightarrow> (hrana_error + 'a) \<times> 'c \<Rightarrow> (request_error + 'r) \<times> 'c" where
  "answer f g r = (case r of (Inl e, c) \<Rightarrow> (Inl (f e), c) | (Inr x, c) \<Rightarrow> (Inr (g x), c))"

definition stmt_caught :: "hrana_error \<Rightarrow> request_error" where
  "stmt_caught e = request_catch_stmt_error (RequestOther e)"

definition batch_caught :: "hrana_error \<Rightarrow> request_error" where
  "batch_caught e = request_catch_batch_error (RequestOther e)"

definition both_caught :: "hrana_error \<Rightarrow> request_error" where
  "both_caught e = request_catch_batch_error (request_catch_stmt_error (RequestOther e))"

fun try_handle ::
  "'c hrana_env \<Rightarrow> nat \<Rightarrow> Authenticated \<Rightarrow> Version \<Rightarrow> StreamRequest \<Rightarrow> 'c conn_stream
     \<Rightarrow> (request_error + StreamResponse) \<times> 'c conn_stream" where
  "try_handle env now auth version SrqNone stream = (Inl (RequestOther (HeProtocol NoneStreamRequest)), stream)"
| "try_handle env now auth version SrqClose stream = (Inr SrpClose, close_db stream)"
| "try_handle env now auth version (SrqExecute stmt) stream =
     on_db stream (\<lambda>db.
       case proto_stmt_to_query (he_parser env) stmt (map_of (sm_sqls stream)) version of
         Inl e \<Rightarrow> (Inl (stmt_caught e), db)
       | Inr query \<Rightarrow>
           answer stmt_caught SrpExecute (execute_stmt (he_sqlite env) (he_lib env) now (he_held env) auth query db))"
| "try_handle env now auth version (SrqBatch batch) stream =
     on_db stream (\<lambda>db.
       case proto_batch_to_program (he_parser env) batch (map_of (sm_sqls stream)) version of
         Inl e \<Rightarrow> (Inl (RequestOther e), db)
       | Inr pgm \<Rightarrow>
           answer batch_caught SrpBatch (hrana_execute_batch (he_sqlite env) (he_lib env) now (he_held env) auth pgm db))"
| "try_handle env now auth version (SrqSequence sql sql_id) stream =
     on_db stream (\<lambda>db.
       case proto_sql_to_sql sql sql_id (map_of (sm_sqls stream)) version of
         Inl e \<Rightarrow> (Inl (RequestOther (HeProtocol e)), db)
       | Inr sql \<Rightarrow>
           (case proto_sequence_to_program (he_parser env) sql of
              Inl e \<Rightarrow> (Inl (stmt_caught e), db)
            | Inr pgm \<Rightarrow> answer both_caught (\<lambda>_. SrpSequence) (execute_sequence (he_sqlite env) (he_lib env) now auth pgm db)))"
| "try_handle env now auth version (SrqDescribe sql sql_id) stream =
     on_db stream (\<lambda>db.
       case proto_sql_to_sql sql sql_id (map_of (sm_sqls stream)) version of
         Inl e \<Rightarrow> (Inl (RequestOther (HeProtocol e)), db)
       | Inr sql \<Rightarrow> answer stmt_caught SrpDescribe (describe_stmt (he_sqlite env) (he_lib env) now auth sql db))"
| "try_handle env now auth version (SrqStoreSql sql_id sql) stream =
     (if map_of (sm_sqls stream) sql_id \<noteq> None then (Inl (RequestOther (HeProtocol (SqlExists sql_id))), stream)
      else if MAX_SQL_COUNT \<le> length (sm_sqls stream)
      then (Inl (RequestResponse (SqlTooMany (length (sm_sqls stream)))), stream)
      else (Inr SrpStoreSql, stream\<lparr>sm_sqls := (sql_id, sql) # sm_sqls stream\<rparr>))"
| "try_handle env now auth version (SrqCloseSql sql_id) stream =
     (Inr SrpCloseSql, stream\<lparr>sm_sqls := filter (\<lambda>e. fst e \<noteq> sql_id) (sm_sqls stream)\<rparr>)"
| "try_handle env now auth version SrqGetAutocommit stream =
     (if version < Hrana3
      then (Inl (RequestOther (HeProtocol (NotSupported ''The `get_autocommit` request'' Hrana3))), stream)
      else on_db stream (\<lambda>db.
        answer RequestOther SrpGetAutocommit
          (case libsql_is_autocommit (he_sqlite env) now db of
             (Inl e, db) \<Rightarrow> (Inl (HeSqld e), db) | (Inr b, db) \<Rightarrow> (Inr b, db))))"

definition stream_handle ::
  "'c hrana_env \<Rightarrow> nat \<Rightarrow> Authenticated \<Rightarrow> Version \<Rightarrow> StreamRequest \<Rightarrow> 'c conn_stream
     \<Rightarrow> (hrana_error + StreamResult) \<times> 'c conn_stream" where
  "stream_handle env now auth version request stream =
     (case try_handle env now auth version request stream of
        (Inr response, stream) \<Rightarrow> (Inr (StreamResultOk response), stream)
      | (Inl (RequestResponse e), stream) \<Rightarrow>
          (Inr (StreamResultError
             \<lparr> pe_message = stream_response_error_message e, pe_code = stream_response_error_code e \<rparr>), stream)
      | (Inl (RequestOther e), stream) \<Rightarrow> (Inl e, stream))"

section \<open>Endpoints\<close>

record PipelineReqBody =
  pq_baton :: "string option"
  pq_requests :: "StreamRequest list"

record PipelineRespBody =
  pp_baton :: "string option"
  pp_base_url :: "string option"
  pp_results :: "StreamResult list"

record CursorReqBody =
  cq_baton :: "string option"
  cq_batch :: "BatchStep list"

record CursorRespBody =
  cp_baton :: "string option"
  cp_base_url :: "string option"

record Server =
  sv_self_url :: "string option"
  sv_baton_key :: "byte list"

text \<open>The requests of a pipeline, each at its instant, until one ends the stream.\<close>

fun run_requests ::
  "'c hrana_env \<Rightarrow> (nat \<Rightarrow> nat) \<Rightarrow> Authenticated \<Rightarrow> Version \<Rightarrow> StreamRequest list \<Rightarrow> 'c conn_stream
     \<Rightarrow> (hrana_error + StreamResult list) \<times> 'c conn_stream" where
  "run_requests env clock auth version [] stream = (Inr [], stream)"
| "run_requests env clock auth version (r # rs) stream =
     (case stream_handle env (clock 0) auth version r stream of
        (Inl e, stream) \<Rightarrow> (Inl e, stream)
      | (Inr x, stream) \<Rightarrow>
          (case run_requests env (\<lambda>n. clock (Suc n)) auth version rs stream of
             (Inl e, stream) \<Rightarrow> (Inl e, stream)
           | (Inr xs, stream) \<Rightarrow> (Inr (x # xs), stream)))"

datatype endpoint_error = EpStream stream_error | EpHrana hrana_error

text \<open>The random choices of a request for a new stream, the connection made for it, and the instant of its end.\<close>

record 'c request_ctx =
  rc_made :: "Error + 'c Connection"
  rc_ids :: "u64 list"
  rc_seq :: u64
  rc_clock :: "nat \<Rightarrow> nat"
  rc_end :: instant

type_synonym ('q, 'c) table = "('q, 'c Connection) ServerStreamState"

text \<open>
  Between acquiring the stream and dropping its guard the lock is free:
  \<^verbatim>\<open>meanwhile\<close> is what other requests and the expiration do to the table.
\<close>

definition handle_pipeline ::
  "'q pqueue \<Rightarrow> baton_lib \<Rightarrow> Server \<Rightarrow> 'c hrana_env \<Rightarrow> 'c request_ctx \<Rightarrow> Authenticated \<Rightarrow> Version
     \<Rightarrow> (('q, 'c) table \<Rightarrow> ('q, 'c) table) \<Rightarrow> PipelineReqBody \<Rightarrow> ('q, 'c) table
     \<Rightarrow> (endpoint_error + PipelineRespBody) \<times> ('q, 'c) table option" where
  "handle_pipeline pq lib server env ctx auth version meanwhile body st =
     (case acquire pq lib (sv_baton_key server) (rc_made ctx) (rc_ids ctx) (rc_seq ctx) (pq_baton body) st of
        (Inl e, st) \<Rightarrow> (Inl (EpStream e), Some st)
      | (Inr stream, st) \<Rightarrow>
          (case run_requests env (rc_clock ctx) auth version (pq_requests body) stream of
             (Inl e, stream) \<Rightarrow> (Inl (EpHrana e), drop_guard pq (rc_end ctx) False stream (meanwhile st))
           | (Inr results, stream) \<Rightarrow>
               (case release pq lib (sv_baton_key server) (rc_end ctx) stream (meanwhile st) of
                  (baton, st) \<Rightarrow>
                    (Inr \<lparr> pp_baton = baton, pp_base_url = sv_self_url server, pp_results = results \<rparr>, st))))"

text \<open>
  The cursor endpoint hands the connection and the program to the task of the
  cursor and releases the stream at once.
\<close>

definition handle_cursor ::
  "'q pqueue \<Rightarrow> baton_lib \<Rightarrow> Server \<Rightarrow> 'c hrana_env \<Rightarrow> 'c request_ctx \<Rightarrow> Version
     \<Rightarrow> (('q, 'c) table \<Rightarrow> ('q, 'c) table) \<Rightarrow> CursorReqBody \<Rightarrow> ('q, 'c) table
     \<Rightarrow> (endpoint_error + CursorRespBody \<times> 'c Connection \<times> Program) \<times> ('q, 'c) table option" where
  "handle_cursor pq lib server env ctx version meanwhile body st =
     (case acquire pq lib (sv_baton_key server) (rc_made ctx) (rc_ids ctx) (rc_seq ctx) (cq_baton body) st of
        (Inl e, st) \<Rightarrow> (Inl (EpStream e), Some st)
      | (Inr stream, st) \<Rightarrow>
          (case get_db stream of
             Inl e \<Rightarrow> (Inl (EpHrana (HeProtocol e)), drop_guard pq (rc_end ctx) False stream (meanwhile st))
           | Inr db \<Rightarrow>
               (case proto_batch_to_program (he_parser env) (cq_batch body) (map_of (sm_sqls stream)) version of
                  Inl e \<Rightarrow> (Inl (EpHrana e), drop_guard pq (rc_end ctx) False stream (meanwhile st))
                | Inr pgm \<Rightarrow>
                    (case release pq lib (sv_baton_key server) (rc_end ctx) stream (meanwhile st) of
                       (baton, st) \<Rightarrow>
                         (Inr (\<lparr> cp_baton = baton, cp_base_url = sv_self_url server \<rparr>, db, pgm), st)))))"

text \<open>The chunks of the response of a cursor: first the baton, then the entries.\<close>

datatype cursor_chunk = ChunkResp CursorRespBody | ChunkEntry CursorEntry

fun entry_chunks :: "(hrana_error + SizedEntry) list \<Rightarrow> (hrana_error + cursor_chunk) list" where
  "entry_chunks [] = []"
| "entry_chunks (Inl e # es) = Inl e # entry_chunks es"
| "entry_chunks (Inr e # es) = Inr (ChunkEntry (se_entry e)) # entry_chunks es"

definition cursor_stream :: "CursorRespBody \<Rightarrow> (hrana_error + SizedEntry) list \<Rightarrow> (hrana_error + cursor_chunk) list" where
  "cursor_stream resp es = Inr (ChunkResp resp) # entry_chunks es"

section \<open>Responses to errors\<close>

fun show_version :: "Version \<Rightarrow> string" where
  "show_version Hrana1 = ''hrana1''"
| "show_version Hrana2 = ''hrana2''"
| "show_version Hrana3 = ''hrana3''"

fun protocol_error_message :: "ProtocolError \<Rightarrow> string" where
  "protocol_error_message (JsonDeserialize e) = ''Cannot deserialize client message from JSON: '' @ e"
| "protocol_error_message (ProtobufDecode e) = ''Could not decode client message from Protobuf: '' @ e"
| "protocol_error_message BinaryWebSocketMessage =
     ''Received a binary WebSocket message, which is not supported in this encoding''"
| "protocol_error_message TextWebSocketMessage =
     ''Received a text WebSocket message, which is not supported in this encoding''"
| "protocol_error_message RequestBeforeHello = ''Received a request before hello message''"
| "protocol_error_message (StreamNotFound i) = ''Stream '' @ show_int i @ '' not found''"
| "protocol_error_message (StreamExists i) = ''Stream '' @ show_int i @ '' already exists''"
| "protocol_error_message SqlIdAndSqlGiven = ''Either `sql` or `sql_id` are required, but not both''"
| "protocol_error_message SqlIdOrSqlNotGiven = ''Either `sql` or `sql_id` are required''"
| "protocol_error_message (SqlNotFound i) = ''SQL text '' @ show_int i @ '' not found''"
| "protocol_error_message (SqlExists i) = ''SQL text '' @ show_int i @ '' already exists''"
| "protocol_error_message BatchCondBadStep = ''Invalid reference to step in a batch condition''"
| "protocol_error_message (CursorAlreadyOpen i) = ''Stream '' @ show_int i @ '' already has an open cursor''"
| "protocol_error_message (CursorNotFound i) = ''Cursor '' @ show_int i @ '' not found''"
| "protocol_error_message (CursorExists i) = ''Cursor '' @ show_int i @ '' already exists''"
| "protocol_error_message BatonInvalid = ''Received an invalid baton''"
| "protocol_error_message BatonReused = ''Received a baton that has already been used''"
| "protocol_error_message BatonStreamClosed = ''Stream for this baton was closed''"
| "protocol_error_message (NotSupported what v) =
     what @ '' is only supported in protocol version '' @ show_version v @ '' and higher''"
| "protocol_error_message (ProtocolResponseTooLarge m) = m"
| "protocol_error_message NoneBatchCond = ''BatchCond type not recognized''"
| "protocol_error_message NoneValue = ''Value type not recognized''"
| "protocol_error_message NoneClientMsg = ''ClientMsg type not recognized''"
| "protocol_error_message NoneRequest = ''Request type not recognized''"
| "protocol_error_message NoneStreamRequest = ''StreamRequest type not recognized''"

datatype 'b http_reply = ReplyBody nat 'b | ReplyError nat proto_error | ReplyText nat string

definition protocol_error_response :: "ProtocolError \<Rightarrow> 'b http_reply" where
  "protocol_error_response e = ReplyText 400 (protocol_error_message e)"

definition stream_error_response :: "'b http_reply" where
  "stream_error_response =
     ReplyError 500 \<lparr> pe_message = ''The stream has expired due to inactivity'', pe_code = ''STREAM_EXPIRED'' \<rparr>"

text \<open>Errors of the protocol and of streams are answered; the others are passed on.\<close>

fun error_reply :: "endpoint_error \<Rightarrow> endpoint_error + 'b http_reply" where
  "error_reply (EpStream SeExpired) = Inr stream_error_response"
| "error_reply (EpStream (SeProtocol e)) = Inr (protocol_error_response e)"
| "error_reply (EpHrana (HeProtocol e)) = Inr (protocol_error_response e)"
| "error_reply e = Inl e"

definition server_reply :: "endpoint_error + 'b \<Rightarrow> endpoint_error + 'b http_reply" where
  "server_reply r = (case r of Inr body \<Rightarrow> Inr (ReplyBody 200 body) | Inl e \<Rightarrow> error_reply e)"

section \<open>Properties\<close>

lemma on_db_keeps: "on_db stream f = (r, stream') \<Longrightarrow> sm_sqls stream' = sm_sqls stream \<and>
    sm_stream_id stream' = sm_stream_id stream \<and> sm_baton_seq stream' = sm_baton_seq stream"
  by (auto simp: on_db_def split: sum.splits prod.splits)

lemma try_handle_keeps:
  assumes "try_handle env now auth version request stream = (r, stream')"
  shows "sm_stream_id stream' = sm_stream_id stream \<and> sm_baton_seq stream' = sm_baton_seq stream \<and>
    (length (sm_sqls stream) \<le> MAX_SQL_COUNT \<longrightarrow> length (sm_sqls stream') \<le> MAX_SQL_COUNT)"
proof (cases request)
  case (SrqStoreSql i sql)
  then show ?thesis using assms by (auto split: if_splits)
next
  case (SrqCloseSql i)
  then have "stream' = stream\<lparr>sm_sqls := filter (\<lambda>e. fst e \<noteq> i) (sm_sqls stream)\<rparr>" using assms by auto
  then show ?thesis by (auto intro: order_trans [OF length_filter_le])
next
  case SrqGetAutocommit
  then show ?thesis using assms by (auto dest: on_db_keeps split: if_splits)
next
  case SrqClose
  then show ?thesis using assms by (auto simp: close_db_def)
qed (use assms in \<open>auto dest: on_db_keeps\<close>)

lemma stream_handle_keeps:
  assumes "stream_handle env now auth version request stream = (r, stream')"
  shows "sm_stream_id stream' = sm_stream_id stream \<and> sm_baton_seq stream' = sm_baton_seq stream \<and>
    (length (sm_sqls stream) \<le> MAX_SQL_COUNT \<longrightarrow> length (sm_sqls stream') \<le> MAX_SQL_COUNT)"
proof -
  obtain x where "try_handle env now auth version request stream = (x, stream')"
    using assms unfolding stream_handle_def by (auto split: prod.splits sum.splits request_error.splits)
  then show ?thesis by (rule try_handle_keeps)
qed

lemma run_requests_keeps:
  "run_requests env clock auth version rs stream = (r, stream') \<Longrightarrow>
   sm_stream_id stream' = sm_stream_id stream \<and> sm_baton_seq stream' = sm_baton_seq stream \<and>
   (length (sm_sqls stream) \<le> MAX_SQL_COUNT \<longrightarrow> length (sm_sqls stream') \<le> MAX_SQL_COUNT) \<and>
   (\<forall>xs. r = Inr xs \<longrightarrow> length xs = length rs)"
proof (induction rs arbitrary: clock stream r stream')
  case (Cons q rs)
  obtain x stream1 where x: "stream_handle env (clock 0) auth version q stream = (x, stream1)" by fastforce
  note first = stream_handle_keeps [OF x]
  show ?case
  proof (cases x)
    case (Inl e)
    then show ?thesis using Cons.prems x first by auto
  next
    case (Inr a)
    obtain y stream2 where y: "run_requests env (\<lambda>n. clock (Suc n)) auth version rs stream1 = (y, stream2)"
      by fastforce
    then have "stream' = stream2" "\<forall>xs. r = Inr xs \<longrightarrow> (\<exists>ys. y = Inr ys \<and> xs = a # ys)"
      using Cons.prems x Inr by (auto split: sum.splits)
    then show ?thesis using Cons.IH [OF y] first by auto
  qed
qed simp

lemma released_stream:
  assumes "baton_codec lib" "drop_guard pq now True stream st = Some st'"
  shows "fst (acquire pq lib key made rs seq
      (Some (encode_baton lib key (sm_stream_id stream) (sm_baton_seq stream))) st') =
    Inr (stream\<lparr>sm_baton_seq := sm_baton_seq stream + 1\<rparr>)"
proof -
  have "decode_baton lib key (encode_baton lib key (sm_stream_id stream) (sm_baton_seq stream)) =
      Inr (sm_stream_id stream, sm_baton_seq stream)"
    using assms(1) by (rule encoded_baton_decodes)
  moreover have "ss_handles st' (sm_stream_id stream) = Some (Available stream)"
    using assms(2) by (auto simp: drop_guard_def Let_def split: option.splits Handle.splits)
  ultimately show ?thesis by (simp add: acquire_def Let_def)
qed

text \<open>
  (C13) A pipeline request, from the table of streams back to it: every request of the body
  is answered, in order, on the connection and with the stored SQL texts of the stream that the baton names (or of a new
  one); the answer has no baton exactly when the stream was closed; and the baton
  it has resumes this very stream, with its connection, transaction and texts as the pipeline left
  them. A stream never stores more than 50 texts.
\<close>

theorem pipeline_continues_stream:
  assumes "baton_codec lib"
    and "handle_pipeline pq lib server env ctx auth version meanwhile body st = (Inr resp, Some st')"
  shows "\<exists>before after.
    fst (acquire pq lib (sv_baton_key server) (rc_made ctx) (rc_ids ctx) (rc_seq ctx) (pq_baton body) st) = Inr before \<and>
    run_requests env (rc_clock ctx) auth version (pq_requests body) before = (Inr (pp_results resp), after) \<and>
    length (pp_results resp) = length (pq_requests body) \<and>
    (length (sm_sqls before) \<le> MAX_SQL_COUNT \<longrightarrow> length (sm_sqls after) \<le> MAX_SQL_COUNT) \<and>
    (pp_baton resp = None \<longleftrightarrow> sm_db after = None) \<and>
    (\<forall>baton. pp_baton resp = Some baton \<longrightarrow>
       fst (acquire pq lib (sv_baton_key server) made rs seq (Some baton) st') =
         Inr (after\<lparr>sm_baton_seq := sm_baton_seq before + 1\<rparr>))"
proof -
  obtain before st1 where acq: "acquire pq lib (sv_baton_key server) (rc_made ctx) (rc_ids ctx) (rc_seq ctx)
      (pq_baton body) st = (Inr before, st1)"
    using assms(2) by (auto simp: handle_pipeline_def split: prod.splits sum.splits)
  obtain after where run: "run_requests env (rc_clock ctx) auth version (pq_requests body) before =
      (Inr (pp_results resp), after)"
    and rel: "release pq lib (sv_baton_key server) (rc_end ctx) after (meanwhile st1) = (pp_baton resp, Some st')"
    using assms(2) acq by (auto simp: handle_pipeline_def split: prod.splits sum.splits)
  note keeps = run_requests_keeps [OF run]
  have "pp_baton resp = None \<longleftrightarrow> sm_db after = None" using rel by (cases "sm_db after") (auto simp: release_def dest: sym)
  moreover have "fst (acquire pq lib (sv_baton_key server) made rs seq (Some baton) st') =
      Inr (after\<lparr>sm_baton_seq := sm_baton_seq before + 1\<rparr>)" if baton: "pp_baton resp = Some baton" for baton
  proof -
    have "baton = encode_baton lib (sv_baton_key server) (sm_stream_id after) (sm_baton_seq after)"
      "drop_guard pq (rc_end ctx) True after (meanwhile st1) = Some st'"
      using rel baton by (auto simp: release_def split: if_splits)
    then have "fst (acquire pq lib (sv_baton_key server) made rs seq (Some baton) st') =
        Inr (after\<lparr>sm_baton_seq := sm_baton_seq after + 1\<rparr>)"
      using released_stream [OF assms(1)] by blast
    then show ?thesis using keeps by simp
  qed
  ultimately show ?thesis using acq run keeps by (intro exI [of _ before] exI [of _ after]) auto
qed

definition sample_server :: Server where
  "sample_server = \<lparr> sv_self_url = None, sv_baton_key = [] \<rparr>"

definition sample_hrana_env :: "(bool \<times> nat) hrana_env" where
  "sample_hrana_env =
     \<lparr> he_sqlite = sample_sqlite, he_parser = hrana_sample_parser, he_lib = hrana_sample_lib, he_held = 0 \<rparr>"

definition sample_request_ctx :: "(bool \<times> nat) request_ctx" where
  "sample_request_ctx =
     \<lparr> rc_made = Inr sample_connection, rc_ids = [7], rc_seq = 5, rc_clock = (\<lambda>_. 0), rc_end = 0 \<rparr>"

definition sample_pipeline :: PipelineReqBody where
  "sample_pipeline =
     \<lparr> pq_baton = None,
       pq_requests = [SrqStoreSql 1 ''SELECT'',
         SrqExecute \<lparr> pst_sql = None, pst_sql_id = Some 1, pst_args = [], pst_named_args = [], pst_want_rows = None \<rparr>,
         SrqExecute (hrana_sample_stmt ''BAD''), SrqGetAutocommit] \<rparr>"

lemma sample_pipeline_run:
  "\<exists>resp st'. handle_pipeline list_pqueue sample_baton_lib sample_server sample_hrana_env sample_request_ctx
       (Authorized ReadOnly) Hrana3 id sample_pipeline (stream_state_new list_pqueue 0) = (Inr resp, Some st') \<and>
     pp_baton resp = Some (encode_baton sample_baton_lib [] 7 5) \<and>
     (\<exists>res. pp_results resp =
        [StreamResultOk SrpStoreSql, StreamResultOk (SrpExecute res),
         StreamResultError \<lparr> pe_message = ''SQLite error: syntax error'', pe_code = ''SQLITE_UNKNOWN'' \<rparr>,
         StreamResultOk (SrpGetAutocommit True)])"
  by (simp add: handle_pipeline_def sample_pipeline_def sample_request_ctx_def sample_hrana_env_def sample_server_def
      acquire_def stream_state_new_def eval_nat_numeral stream_handle_def on_db_def get_db_def MAX_SQL_COUNT_def
      answer_def stmt_caught_def execute_stmt_def execute_batch_def make_batch_program_def hrana_sample_parser_def
      proto_stmt_to_query_def proto_sql_to_sql_def proto_stmt_params_def parse_statements_def parse_inner_def
      hrana_sample_stmt_def less_Version_def libsql_is_autocommit_def catch_stmt_error_def release_def drop_guard_def
      hrana_run_defs)

theorem pipeline_continues_stream_witness:
  "\<exists>resp st' after. handle_pipeline list_pqueue sample_baton_lib sample_server sample_hrana_env sample_request_ctx
       (Authorized ReadOnly) Hrana3 id sample_pipeline (stream_state_new list_pqueue 0) = (Inr resp, Some st') \<and>
     length (pp_results resp) = 4 \<and> sm_db after \<noteq> None \<and>
     fst (acquire list_pqueue sample_baton_lib [] (Inr sample_connection) [] 0
       (Some (encode_baton sample_baton_lib [] 7 5)) st') = Inr (after\<lparr>sm_baton_seq := 6\<rparr>)"
proof -
  obtain resp st' where run: "handle_pipeline list_pqueue sample_baton_lib sample_server sample_hrana_env sample_request_ctx
      (Authorized ReadOnly) Hrana3 id sample_pipeline (stream_state_new list_pqueue 0) = (Inr resp, Some st')"
    and resp: "pp_baton resp = Some (encode_baton sample_baton_lib [] 7 5)" "length (pp_results resp) = 4"
    using sample_pipeline_run by auto
  obtain before after where
    "fst (acquire list_pqueue sample_baton_lib [] (Inr sample_connection) [7] 5 None
       (stream_state_new list_pqueue 0 :: (_, (bool \<times> nat) Connection) ServerStreamState)) = Inr before"
    "sm_db after \<noteq> None"
    "fst (acquire list_pqueue sample_baton_lib [] (Inr sample_connection) [] 0
       (Some (encode_baton sample_baton_lib [] 7 5)) st') = Inr (after\<lparr>sm_baton_seq := sm_baton_seq before + 1\<rparr>)"
    using pipeline_continues_stream [OF sample_baton_codec run, of "Inr sample_connection" "[]" 0] resp(1)
    by (auto simp: sample_server_def sample_request_ctx_def sample_pipeline_def)
  moreover from this(1) have "sm_baton_seq before = 5"
    by (auto simp: acquire_def stream_state_new_def eval_nat_numeral)
  ultimately show ?thesis using run resp(2) by auto
qed

text \<open>The type of response that each type of request has.\<close>

fun response_of :: "StreamRequest \<Rightarrow> StreamResponse \<Rightarrow> bool" where
  "response_of SrqClose SrpClose = True"
| "response_of (SrqExecute stmt) (SrpExecute res) = True"
| "response_of (SrqBatch batch) (SrpBatch res) = True"
| "response_of (SrqSequence sql sql_id) SrpSequence = True"
| "response_of (SrqDescribe sql sql_id) (SrpDescribe res) = True"
| "response_of (SrqStoreSql sql_id sql) SrpStoreSql = True"
| "response_of (SrqCloseSql sql_id) SrpCloseSql = True"
| "response_of SrqGetAutocommit (SrpGetAutocommit b) = True"
| "response_of _ _ = False"

fun result_of :: "StreamRequest \<Rightarrow> StreamResult \<Rightarrow> bool" where
  "result_of request (StreamResultOk response) = response_of request response"
| "result_of request (StreamResultError e) = (request \<noteq> SrqNone)"
| "result_of request StreamResultNone = False"

lemma on_db_response:
  assumes "on_db stream f = (Inr response, stream')"
  shows "\<exists>db db'. f db = (Inr response, db')"
  using assms by (auto simp: on_db_def split: sum.splits prod.splits)

lemma answer_response: "answer f g r = (Inr response, c) \<Longrightarrow> \<exists>x. response = g x"
  by (auto simp: answer_def split: prod.splits sum.splits)

lemma try_handle_typed:
  assumes "try_handle env now auth version request stream = (Inr response, stream')"
  shows "response_of request response"
  using assms by (cases request) (auto dest!: on_db_response answer_response split: if_splits sum.splits)

lemma run_requests_typed:
  assumes "run_requests env clock auth version requests stream = (Inr results, stream')"
  shows "list_all2 result_of requests results"
  using assms
proof (induction requests arbitrary: clock stream results)
  case (Cons request requests)
  obtain result stream1 where handled: "stream_handle env (clock 0) auth version request stream = (Inr result, stream1)"
    using Cons.prems by (auto split: prod.splits sum.splits)
  then have "result_of request result"
    by (cases "request = SrqNone")
      (auto simp: stream_handle_def dest: try_handle_typed split: prod.splits sum.splits request_error.splits)
  then show ?case using Cons handled by (auto split: prod.splits sum.splits)
qed simp

text \<open>
  Responses are typed (C18): the results of a pipeline correspond to its requests one by one, each a
  response of the type of its request or an error with a message and a code.
\<close>

theorem pipeline_responses_are_typed:
  assumes "handle_pipeline pq lib server env ctx auth version meanwhile body st = (Inr resp, st')"
  shows "list_all2 result_of (pq_requests body) (pp_results resp)"
  using assms by (auto simp: handle_pipeline_def dest!: run_requests_typed split: prod.splits sum.splits)

theorem pipeline_responses_are_typed_witness:
  "\<exists>resp. fst (handle_pipeline list_pqueue sample_baton_lib sample_server sample_hrana_env sample_request_ctx
       (Authorized ReadOnly) Hrana3 id sample_pipeline (stream_state_new list_pqueue 0)) = Inr resp \<and>
     list_all2 result_of (pq_requests sample_pipeline) (pp_results resp) \<and> length (pp_results resp) = 4"
proof -
  obtain resp st' where run: "handle_pipeline list_pqueue sample_baton_lib sample_server sample_hrana_env sample_request_ctx
      (Authorized ReadOnly) Hrana3 id sample_pipeline (stream_state_new list_pqueue 0) = (Inr resp, Some st')"
    and "length (pp_results resp) = 4"
    using sample_pipeline_run by auto
  with pipeline_responses_are_typed [OF run] show ?thesis by auto
qed

end
