(* ===== verification/HttpApi.thy ===== *)
theory HttpApi
  imports ProgramRun JsonBuilder ExecuteBuilder
begin

text \<open>
  The HTTP query endpoint: \<^verbatim>\<open>sqld/src/http/types.rs\<close> (the request body),
  \<^verbatim>\<open>http/mod.rs\<close> (parsing of the statements, \<^verbatim>\<open>handle_query\<close>, conversion of values to JSON) and
  \<^verbatim>\<open>http/db_factory.rs\<close> (the namespace of a request). The JSON reader is an
  argument: the model starts from its values, in which a number is an unsigned or a
  signed integer or a float, as it hands them out.
\<close>

section \<open>The request\<close>

datatype jval =
    JvNull | JvBool bool | JvU64 u64 | JvI64 i64 | JvF64 f64 | JvString string
  | JvArray "jval list" | JvObject "(string \<times> jval) list"

record QueryObject =
  qo_q :: string
  qo_params :: Params

text \<open>A value of a parameter; the decoding of base64 is an argument.\<close>

fun value_deserialize :: "(string \<Rightarrow> byte list option) \<Rightarrow> jval \<Rightarrow> string + Value" where
  "value_deserialize b64 JvNull = Inr Null"
| "value_deserialize b64 (JvBool v) = Inr (Integer (if v then 1 else 0))"
| "value_deserialize b64 (JvU64 v) = Inr (Integer v)"
| "value_deserialize b64 (JvI64 v) = Inr (Integer v)"
| "value_deserialize b64 (JvF64 v) = Inr (Real v)"
| "value_deserialize b64 (JvString v) = Inr (Text v)"
| "value_deserialize b64 (JvArray vs) = Inl ''invalid type: sequence, expected a valid SQLite value''"
| "value_deserialize b64 (JvObject es) =
     (case es of
        [] \<Rightarrow> Inl ''missing field `blob`''
      | (k, JvString v) # rest \<Rightarrow>
          if k = ''base64''
          then (case b64 v of
                  None \<Rightarrow> Inl ''invalid value''
                | Some d \<Rightarrow> if rest = [] then Inr (Blob d) else Inl ''trailing characters'')
          else Inl (''unknown field `'' @ k @ ''`, expected `blob`'')
      | _ \<Rightarrow> Inl ''invalid type, expected a borrowed string'')"

fun params_seq :: "(string \<Rightarrow> byte list option) \<Rightarrow> jval list \<Rightarrow> string + Value list" where
  "params_seq b64 [] = Inr []"
| "params_seq b64 (v # vs) =
     (case value_deserialize b64 v of
        Inl e \<Rightarrow> Inl e
      | Inr x \<Rightarrow> (case params_seq b64 vs of Inl e \<Rightarrow> Inl e | Inr xs \<Rightarrow> Inr (x # xs)))"

fun params_map ::
  "(string \<Rightarrow> byte list option) \<Rightarrow> (string \<times> jval) list \<Rightarrow> (string \<times> Value) list
     \<Rightarrow> string + (string \<times> Value) list" where
  "params_map b64 [] m = Inr m"
| "params_map b64 ((k, v) # es) m =
     (case value_deserialize b64 v of
        Inl e \<Rightarrow> Inl e
      | Inr x \<Rightarrow> params_map b64 es ((k, x) # filter (\<lambda>e. fst e \<noteq> k) m))"

fun params_deserialize :: "(string \<Rightarrow> byte list option) \<Rightarrow> jval \<Rightarrow> string + Params" where
  "params_deserialize b64 (JvArray vs) =
     (case params_seq b64 vs of Inl e \<Rightarrow> Inl e | Inr xs \<Rightarrow> Inr (Positional xs))"
| "params_deserialize b64 (JvObject es) =
     (case params_map b64 es [] of Inl e \<Rightarrow> Inl e | Inr m \<Rightarrow> Inr (Named m))"
| "params_deserialize b64 _ = Inl ''invalid type, expected an array or a map of parameters''"

text \<open>The fields of a query object, in the order they come.\<close>

fun query_fields ::
  "(string \<Rightarrow> byte list option) \<Rightarrow> (string \<times> jval) list \<Rightarrow> string option \<Rightarrow> Params option
     \<Rightarrow> string + string option \<times> Params option" where
  "query_fields b64 [] q params = Inr (q, params)"
| "query_fields b64 ((k, v) # es) q params =
     (if k = ''q''
      then if q = None
           then (case v of
                   JvString s \<Rightarrow> query_fields b64 es (Some s) params
                 | _ \<Rightarrow> Inl ''invalid type, expected a string'')
           else Inl ''duplicate field `q`''
      else if k = ''params''
      then if params = None
           then (case params_deserialize b64 v of
                   Inl e \<Rightarrow> Inl e
                 | Inr ps \<Rightarrow> query_fields b64 es q (Some ps))
           else Inl ''duplicate field `params`''
      else Inl (''unknown field `'' @ k @ ''`, expected `q` or `params`''))"

fun query_object_deserialize :: "(string \<Rightarrow> byte list option) \<Rightarrow> jval \<Rightarrow> string + QueryObject" where
  "query_object_deserialize b64 (JvString s) = Inr \<lparr> qo_q = s, qo_params = params_empty \<rparr>"
| "query_object_deserialize b64 (JvObject es) =
     (case query_fields b64 es None None of
        Inl e \<Rightarrow> Inl e
      | Inr (None, _) \<Rightarrow> Inl ''missing field `q`''
      | Inr (Some q, params) \<Rightarrow>
          Inr \<lparr> qo_q = q, qo_params = (case params of Some ps \<Rightarrow> ps | None \<Rightarrow> params_empty) \<rparr>)"
| "query_object_deserialize b64 _ = Inl ''invalid type, expected a string or an object''"

section \<open>Values as JSON\<close>

definition f64_finite :: "f64 \<Rightarrow> bool" where
  "f64_finite x \<longleftrightarrow> (unat x div 2 ^ 52) mod 2 ^ 11 \<noteq> 2 ^ 11 - 1"

text \<open>A number built from an integer is unsigned unless it is negative.\<close>

definition json_number :: "i64 \<Rightarrow> jval" where
  "json_number i = (if 0 \<le> sint i then JvU64 i else JvI64 i)"

fun value_to_json :: "(byte list \<Rightarrow> string) \<Rightarrow> (f64 \<Rightarrow> string) \<Rightarrow> Value \<Rightarrow> Error + jval" where
  "value_to_json b64 show_f64 Null = Inr JvNull"
| "value_to_json b64 show_f64 (Integer i) = Inr (json_number i)"
| "value_to_json b64 show_f64 (Real x) =
     (if f64_finite x then Inr (JvF64 x)
      else Inl (DbValueError (''Cannot to convert database value `'' @ show_f64 x @ ''` to a JSON number'')))"
| "value_to_json b64 show_f64 (Text s) = Inr (JvString s)"
| "value_to_json b64 show_f64 (Blob d) = Inr (JvObject [(''base64'', JvString (b64 d))])"

section \<open>The namespace of a request\<close>

definition split_namespace :: "string \<Rightarrow> Error + string" where
  "split_namespace host =
     (case split_once (CHR ''.'') host of
        None \<Rightarrow> Inl (InvalidHost ''host header should be in the format <namespace>.<...>'')
      | Some (ns, _) \<Rightarrow> Inr ns)"

text \<open>The host header is bytes.\<close>

definition namespace_from_headers :: "byte list option \<Rightarrow> bool \<Rightarrow> bool \<Rightarrow> Error + string" where
  "namespace_from_headers host disable_default_namespace disable_namespaces =
     (if disable_namespaces then Inr ''default''
      else (case host of
              None \<Rightarrow> Inl (InvalidHost ''missing host header'')
            | Some h \<Rightarrow>
                if \<not> utf8_valid h then Inl (InvalidHost ''host header is not valid UTF-8'')
                else (case split_namespace (string_of_bytes h) of
                        Inr ns \<Rightarrow> Inr ns
                      | Inl e \<Rightarrow> if \<not> disable_default_namespace then Inr ''default'' else Inl e)))"

section \<open>The handler\<close>

definition MORE_THAN_ONE_COMMAND :: string where
  "MORE_THAN_ONE_COMMAND =
     ''found more than one command in a single statement string. '' @
     ''It is allowed to issue only one command per string.''"

definition parse_query :: "sql_parser \<Rightarrow> QueryObject \<Rightarrow> Error + Query" where
  "parse_query p query =
     (case parse_statements p (qo_q query) of
        [] \<Rightarrow> Inr \<lparr> q_stmt = empty_statement, q_params = qo_params query, q_want_rows = True \<rparr>
      | Inl e # _ \<Rightarrow> Inl (ErrAnyhow e)
      | [Inr stmt] \<Rightarrow> Inr \<lparr> q_stmt = stmt, q_params = qo_params query, q_want_rows = True \<rparr>
      | Inr _ # _ # _ \<Rightarrow> Inl (FailedToParse MORE_THAN_ONE_COMMAND))"

fun parse_each :: "sql_parser \<Rightarrow> QueryObject list \<Rightarrow> Error + Query list" where
  "parse_each p [] = Inr []"
| "parse_each p (q # qs) =
     (case parse_query p q of
        Inl e \<Rightarrow> Inl e
      | Inr x \<Rightarrow> (case parse_each p qs of Inl e \<Rightarrow> Inl e | Inr xs \<Rightarrow> Inr (x # xs)))"

definition parse_queries :: "sql_parser \<Rightarrow> QueryObject list \<Rightarrow> Error + Query list" where
  "parse_queries p queries =
     (case parse_each p queries of
        Inl e \<Rightarrow> Inl e
      | Inr out \<Rightarrow>
          (case predict_final_state InitState (map q_stmt out) of
             Txn \<Rightarrow> Inl (QueryError ''interactive transaction not allowed in HTTP queries'')
           | _ \<Rightarrow> Inr out))"

text \<open>
  The result is an error, or the counter of response bytes and the body;
  \<^const>\<open>None\<close> is a panic. The connection is the one the handler makes, None when it made none.
\<close>

definition handle_query ::
  "'c sqlite \<Rightarrow> sql_parser \<Rightarrow> json_lib \<Rightarrow> (Error \<Rightarrow> string) \<Rightarrow> nat \<Rightarrow> u64 \<Rightarrow> Authenticated
     \<Rightarrow> Error + 'c Connection \<Rightarrow> QueryObject list
     \<Rightarrow> (Error + u64 \<times> string) option \<times> 'c Connection option" where
  "handle_query sq p lib display now held auth made statements =
     (case parse_queries p statements of
        Inl e \<Rightarrow> (Some (Inl e), None)
      | Inr batch \<Rightarrow>
          (case made of
             Inl e \<Rightarrow> (Some (Inl e), None)
           | Inr db \<Rightarrow>
               (case execute_batch_or_rollback sq p (json_feed lib display) now batch auth db
                       (json_builder_new held (limit_buffer_new 0 0)) of
                  (None, db) \<Rightarrow> (None, Some db)
                | (Some (Inl e), db) \<Rightarrow> (Some (Inl e), Some db)
                | (Some (Inr (b, _)), db) \<Rightarrow> (Some (Inr (json_into_ret b)), Some db))))"

section \<open>The builder behind the limit of steps\<close>

text \<open>The calls inside a step.\<close>

fun inner_event :: "event \<Rightarrow> bool" where
  "inner_event (EvInit _) = False"
| "inner_event (FinishStep _ _) = False"
| "inner_event Finish = False"
| "inner_event _ = True"

lemma step_events_split:
  assumes "step_legal st"
  obtains es n r where "step_events st = es @ [FinishStep n r]" "list_all inner_event es"
proof -
  have row: "row_event e \<Longrightarrow> inner_event e" for e by (cases e) simp_all
  show thesis
  proof (cases st)
    case Skipped
    then show ?thesis using that [of "[BeginStep]" 0 None] by simp
  next
    case (Ran cols rows n r)
    then show ?thesis
      using that [of "[BeginStep, ColsDescription cols, BeginRows] @ concat (map row_events rows) @ [FinishRows]" n r]
      by (auto simp: list_all_iff row_events_def)
  next
    case (FailedAfter es e)
    then show ?thesis
      using that [of "BeginStep # es @ [StepError e]" 0 None] assms row by (auto simp: list_all_iff)
  qed
qed

lemma take_event_below:
  "inner_event e \<Longrightarrow> tk_count t < tk_limit t \<Longrightarrow> take_feed feed e t = take_inner feed e t"
  by (cases e) simp_all

lemma take_event_above:
  "inner_event e \<Longrightarrow> \<not> tk_count t < tk_limit t \<Longrightarrow> take_feed feed e t = Inr t"
  by (cases e) simp_all

lemma take_inner_events:
  assumes "list_all inner_event es" "tk_count t < tk_limit t" "feed_all (take_feed feed) es t = Inr t'"
  shows "feed_all feed es (tk_inner t) = Inr (tk_inner t') \<and> tk_count t' = tk_count t \<and>
    tk_limit t' = tk_limit t"
  using assms
proof (induction es arbitrary: t)
  case (Cons e es)
  obtain b where b: "feed e (tk_inner t) = Inr b" "feed_all (take_feed feed) es (t\<lparr>tk_inner := b\<rparr>) = Inr t'"
    using Cons.prems take_event_below [of e t feed]
    by (auto simp: take_inner_def split: sum.splits)
  then show ?case using Cons.IH [OF _ _ b(2)] Cons.prems(1,2) by simp
qed simp

lemma take_step_below:
  assumes "step_legal st" "tk_count t < tk_limit t" "feed_all (take_feed feed) (step_events st) t = Inr t'"
  shows "feed_all feed (step_events st) (tk_inner t) = Inr (tk_inner t') \<and> tk_count t' = tk_count t + 1 \<and>
    tk_limit t' = tk_limit t"
proof -
  obtain es n r where es: "step_events st = es @ [FinishStep n r]" "list_all inner_event es"
    using step_events_split [OF assms(1)] .
  obtain t1 where t1: "feed_all (take_feed feed) es t = Inr t1" "take_feed feed (FinishStep n r) t1 = Inr t'"
    using assms(3) es(1) by (auto simp: feed_all_append split: sum.splits)
  from take_inner_events [OF es(2) assms(2) t1(1)] show ?thesis
    using t1(2) es(1) assms(2)
    by (auto simp: feed_all_append take_inner_def split: sum.splits if_splits)
qed

lemma take_steps_below:
  "list_all step_legal sts \<Longrightarrow> tk_count t + length sts = tk_limit t \<Longrightarrow>
   feed_all (take_feed feed) (concat (map step_events sts)) t = Inr t' \<Longrightarrow>
   feed_all feed (concat (map step_events sts)) (tk_inner t) = Inr (tk_inner t') \<and>
   tk_count t' = tk_limit t'"
proof (induction sts arbitrary: t)
  case (Cons st sts)
  obtain t1 where t1: "feed_all (take_feed feed) (step_events st) t = Inr t1"
    "feed_all (take_feed feed) (concat (map step_events sts)) t1 = Inr t'"
    using Cons.prems(3) by (auto simp: feed_all_append split: sum.splits)
  from take_step_below [OF _ _ t1(1)] show ?case
    using Cons.IH [OF _ _ t1(2)] Cons.prems(1,2) by (simp add: feed_all_append)
qed simp

lemma take_steps_above:
  "list_all step_legal sts \<Longrightarrow> \<not> tk_count t < tk_limit t \<Longrightarrow>
   feed_all (take_feed feed) (concat (map step_events sts)) t = Inr t"
proof (induction sts)
  case (Cons st sts)
  obtain es n r where es: "step_events st = es @ [FinishStep n r]" "list_all inner_event es"
    using Cons.prems(1) by (auto elim: step_events_split)
  have "feed_all (take_feed feed) es t = Inr t"
    using es(2) Cons.prems(2) by (induction es) (simp_all add: take_event_above)
  then show ?case using Cons es(1) by (simp add: feed_all_append)
qed simp

lemma take_program:
  assumes "list_all step_legal (sts @ rest)" "length sts = n"
    and run: "feed_all (take_feed feed) (program_events c (sts @ rest)) (take_new n b) = Inr t"
  shows "feed_all feed (program_events c sts) b = Inr (tk_inner t)"
proof -
  obtain b1 where b1: "feed (EvInit c) b = Inr b1"
    "feed_all (take_feed feed) (concat (map step_events (sts @ rest)) @ [Finish]) (take_new n b1) = Inr t"
    using run by (auto simp: program_events_def take_new_def take_inner_def split: sum.splits)
  obtain t1 where t1: "feed_all (take_feed feed) (concat (map step_events sts)) (take_new n b1) = Inr t1"
    "feed_all (take_feed feed) (concat (map step_events rest) @ [Finish]) t1 = Inr t"
    using b1(2) by (auto simp: feed_all_append split: sum.splits)
  have below: "feed_all feed (concat (map step_events sts)) b1 = Inr (tk_inner t1)" "tk_count t1 = tk_limit t1"
    using take_steps_below [OF _ _ t1(1)] assms(1,2) by (simp_all add: take_new_def)
  have "take_feed feed Finish t1 = Inr t"
    using t1(2) take_steps_above [of rest t1 feed] assms(1) below(2)
    by (auto simp: feed_all_append split: sum.splits)
  then show ?thesis
    using b1(1) below(1) by (auto simp: program_events_def feed_all_append take_inner_def split: sum.splits)
qed

section \<open>Properties\<close>

lemma parse_each_length: "parse_each p qs = Inr out \<Longrightarrow> length out = length qs"
  by (induction qs arbitrary: out) (auto split: sum.splits)

lemma parse_queries_final:
  "parse_queries p qs = Inr out \<Longrightarrow>
   parse_each p qs = Inr out \<and> predict_final_state InitState (map q_stmt out) \<noteq> Txn"
  by (auto simp: parse_queries_def split: sum.splits State.splits)

lemma handle_query_ok:
  assumes "handle_query sq p lib display now held auth (Inr c) stmts = (Some (Inr res), Some c')"
  obtains batch b st where "parse_queries p stmts = Inr batch" "res = json_into_ret b"
    "execute_batch_or_rollback sq p (json_feed lib display) now batch auth c
       (json_builder_new held (limit_buffer_new 0 0)) = (Some (Inr (b, st)), c')"
  using assms by (auto simp: handle_query_def split: sum.splits option.splits prod.splits)


definition sample_http_parser :: sql_parser where
  "sample_http_parser =
     \<lparr> sp_run = (\<lambda>s. [(Inr (CmdStmt (if s = ''BEGIN'' then StmtBegin
                           else if s = ''COMMIT'' then StmtCommit else StmtRollback)), False)]),
       sp_to_string = (\<lambda>c. if c = CmdStmt StmtBegin then ''BEGIN''
                          else if c = CmdStmt StmtCommit then ''COMMIT'' else ''ROLLBACK'') \<rparr>"

definition sample_statements :: "QueryObject list" where
  "sample_statements = map (\<lambda>s. \<lparr> qo_q = s, qo_params = params_empty \<rparr>) [''BEGIN'', ''BEGIN'', ''COMMIT'']"

definition sample_batch :: "Query list" where
  "sample_batch = [sample_query TxnBegin ''BEGIN'', sample_query TxnBegin ''BEGIN'', sample_query TxnEnd ''COMMIT'']"

lemma sample_parsed: "parse_queries sample_http_parser sample_statements = Inr sample_batch"
  by (simp add: sample_statements_def sample_batch_def parse_queries_def parse_query_def parse_statements_def
      sample_http_parser_def parse_inner_def sample_query_def predict_final_state_def)

lemma sample_rollback:
  "rollback_query sample_http_parser = Some \<lparr> q_stmt = q_stmt (sample_query TxnEnd ''ROLLBACK''),
     q_params = params_empty, q_want_rows = False \<rparr>"
  by (simp add: rollback_query_def parse_statements_def sample_http_parser_def parse_inner_def sample_query_def)

lemma sample_http_run:
  "\<exists>b st c'. execute_batch_or_rollback sample_sqlite sample_http_parser (json_feed sample_json (\<lambda>e. ''error'')) 0
     sample_batch (Authorized FullAccess) sample_connection (json_builder_new 0 (limit_buffer_new 0 0)) =
     (Some (Inr (b, st)), c')"
  by (simp add: sample_batch_def execute_batch_or_rollback_def sample_rollback rollback_program_def
      take_new_def take_inner_def make_batch_program_def libsql_execute_program_def wait_request_def
      connection_run_def execute_step_def step_cond_def execute_query_def finish_step_def stmt_blocked_def
      params_bind_def params_empty_def params_len_def get_step_res_def sample_defs
      json_feed_def json_then_def sample_json_def json_builder_new_def limit_buffer_new_def limit_drop_def
      limit_write_def direct_def wrapped_def serialize_key_def serialize_value_def serialize_key_value_def
      serialize_array_iter_def serialize_array_value_def json_truncate_def Let_def)




text \<open>An engine that answers every statement with one row of one text.\<close>

definition text_sqlite :: "byte list \<Rightarrow> (bool \<times> nat) sqlite" where
  "text_sqlite t = sample_sqlite\<lparr>
     sq_prepare := (\<lambda>c sql. Inr (sample_prepared\<lparr>pr_cols := [\<lparr> col_name = ''x'', col_decl_ty = None \<rparr>]\<rparr>)),
     sq_rows := (\<lambda>c sql vals. [Inr [RefText t]])\<rparr>"

definition select_parser :: sql_parser where
  "select_parser =
     \<lparr> sp_run = (\<lambda>s. [(Inr (CmdStmt (if s = ''ROLLBACK'' then StmtRollback else StmtSelect)), False)]),
       sp_to_string = (\<lambda>c. if c = CmdStmt StmtRollback then ''ROLLBACK'' else ''SELECT'') \<rparr>"

text \<open>
  A text value that is not UTF-8 panics the HTTP builder: SQLite hands
  out such texts, for instance for \<^verbatim>\<open>SELECT CAST(x'ff' AS TEXT)\<close>, and the query endpoint then fails an assertion
  instead of answering, whatever the limits.
\<close>

theorem http_panics_on_invalid_text:
  "fst (handle_query (text_sqlite [255]) select_parser sample_json (\<lambda>e. ''error'') 0 0 (Authorized ReadOnly)
     (Inr sample_connection) [\<lparr> qo_q = ''SELECT'', qo_params = params_empty \<rparr>]) =
   Some (Inl (BuilderError BuilderPanicked))"
  by (simp add: handle_query_def parse_queries_def parse_query_def parse_statements_def select_parser_def
      parse_inner_def predict_final_state_def rollback_query_def text_sqlite_def utf8_valid.simps
      execute_batch_or_rollback_def rollback_program_def
      take_new_def take_inner_def make_batch_program_def libsql_execute_program_def wait_request_def
      connection_run_def execute_step_def step_cond_def execute_query_def finish_step_def stmt_blocked_def
      params_bind_def params_empty_def params_len_def get_step_res_def sample_defs
      json_feed_def json_then_def sample_json_def json_builder_new_def limit_buffer_new_def limit_drop_def
      limit_write_def direct_def wrapped_def serialize_key_def serialize_value_def serialize_key_value_def
      serialize_array_iter_def serialize_array_value_def json_truncate_def Let_def)

end
