(* ===== verification/HranaWs.thy ===== *)
theory HranaWs
  imports HranaHttp HttpApi "HOL-Library.Multiset"
begin

text \<open>
  Hrana over WebSockets (\<^verbatim>\<open>sqld/src/hrana/ws/\<close>): the negotiation of the subprotocol
  (\<^verbatim>\<open>handshake.rs\<close>), sessions with their streams, SQL texts and cursors
  (\<^verbatim>\<open>session.rs\<close>) and the messages of a connection (\<^verbatim>\<open>conn.rs\<close>). Each stream has a task that runs its
  jobs in order; the program of a cursor runs in the background. The tasks of closed streams stay,
  as they still work off their jobs.
\<close>

section \<open>The handshake\<close>

datatype Encoding = EncodingJson | EncodingProtobuf
datatype Subproto = SubHrana1 | SubHrana2 | SubHrana3 | SubHrana3Protobuf

fun subproto_str :: "Subproto \<Rightarrow> string" where
  "subproto_str SubHrana1 = ''hrana1''"
| "subproto_str SubHrana2 = ''hrana2''"
| "subproto_str SubHrana3 = ''hrana3''"
| "subproto_str SubHrana3Protobuf = ''hrana3-protobuf''"

fun version_encoding :: "Subproto \<Rightarrow> Version \<times> Encoding" where
  "version_encoding SubHrana1 = (Hrana1, EncodingJson)"
| "version_encoding SubHrana2 = (Hrana2, EncodingJson)"
| "version_encoding SubHrana3 = (Hrana3, EncodingJson)"
| "version_encoding SubHrana3Protobuf = (Hrana3, EncodingProtobuf)"

fun select_subproto :: "string list \<Rightarrow> Subproto list \<Rightarrow> Subproto option" where
  "select_subproto clients [] = None"
| "select_subproto clients (server # servers) =
     (if list_ex (\<lambda>c. eq_ignore_ascii_case c (subproto_str server)) clients then Some server
      else select_subproto clients servers)"

definition server_subprotos :: "Subproto list" where
  "server_subprotos = [SubHrana3Protobuf, SubHrana3, SubHrana2, SubHrana1]"

fun split_on :: "char \<Rightarrow> string \<Rightarrow> string list" where
  "split_on c [] = [[]]"
| "split_on c (x # xs) =
     (if x = c then [] # split_on c xs
      else (case split_on c xs of [] \<Rightarrow> [[x]] | w # ws \<Rightarrow> (x # w) # ws))"

definition white_space :: "char \<Rightarrow> bool" where
  "white_space c \<longleftrightarrow> of_char c \<in> {9 :: nat, 10, 11, 12, 13, 32}"

definition trim_str :: "string \<Rightarrow> string" where
  "trim_str s = rev (dropWhile white_space (rev (dropWhile white_space s)))"

text \<open>
  The header is absent or has a text, which is None when it is not visible ASCII. The result is the
  subprotocol and the header of the response, or the message of the refusal.
\<close>

definition negotiate_subproto :: "string option option \<Rightarrow> string + Subproto \<times> string option" where
  "negotiate_subproto header =
     (case header of
        None \<Rightarrow> Inr (SubHrana1, None)
      | Some text \<Rightarrow>
          (let clients = map trim_str (split_on (CHR '','') (case text of Some t \<Rightarrow> t | None \<Rightarrow> []))
           in case select_subproto clients server_subprotos of
                None \<Rightarrow>
                  Inl (''Only these WebSocket subprotocols are supported: '' @
                       ''hrana3-protobuf hrana3 hrana2 hrana1'')
              | Some s \<Rightarrow> Inr (s, Some (subproto_str s))))"

text \<open>
  The two ways to a WebSocket: on a TCP connection, where the response that is refused or completed
  comes with its status, and by an HTTP upgrade, which the library may refuse with a message. The
  upgrade also gives the response that is sent: its status and its body.
\<close>

datatype handshake_error = HandshakeNamespace Error | HandshakeRefused nat string

record handshake_output =
  ho_version :: Version
  ho_encoding :: Encoding
  ho_namespace :: string

definition handshake_made :: "Subproto \<Rightarrow> string \<Rightarrow> handshake_output" where
  "handshake_made subproto ns =
     (case version_encoding subproto of
        (v, e) \<Rightarrow> \<lparr> ho_version = v, ho_encoding = e, ho_namespace = ns \<rparr>)"

definition handshake_tcp ::
  "nat \<Rightarrow> byte list option \<Rightarrow> string option option \<Rightarrow> bool \<Rightarrow> bool \<Rightarrow> handshake_error + handshake_output" where
  "handshake_tcp status host header disable_default_ns disable_namespaces =
     (case namespace_from_headers host disable_default_ns disable_namespaces of
        Inl e \<Rightarrow> Inl (HandshakeNamespace e)
      | Inr ns \<Rightarrow>
          (case negotiate_subproto header of
             Inl msg \<Rightarrow> Inl (HandshakeRefused status msg)
           | Inr (subproto, _) \<Rightarrow> Inr (handshake_made subproto ns)))"

definition handshake_upgrade ::
  "string option \<Rightarrow> nat \<Rightarrow> byte list option \<Rightarrow> string option option \<Rightarrow> bool \<Rightarrow> bool
     \<Rightarrow> (nat \<times> string) option \<times> (handshake_error + handshake_output)" where
  "handshake_upgrade refused status host header disable_default_ns disable_namespaces =
     (case namespace_from_headers host disable_default_ns disable_namespaces of
        Inl e \<Rightarrow> (None, Inl (HandshakeNamespace e))
      | Inr ns \<Rightarrow>
          (case refused of
             Some msg \<Rightarrow> (Some (400, msg), Inl (HandshakeRefused 400 msg))
           | None \<Rightarrow>
               (case negotiate_subproto header of
                  Inl msg \<Rightarrow> (Some (400, msg), Inl (HandshakeRefused 400 msg))
                | Inr (subproto, _) \<Rightarrow> (Some (status, []), Inr (handshake_made subproto ns)))))"

section \<open>Messages\<close>

datatype ws_request =
    WrqOpenStream int | WrqCloseStream int | WrqExecute int proto_stmt | WrqBatch int "BatchStep list"
  | WrqOpenCursor int int "BatchStep list" | WrqCloseCursor int | WrqFetchCursor int u32
  | WrqSequence int "string option" "int option" | WrqDescribe int "string option" "int option"
  | WrqStoreSql int string | WrqCloseSql int | WrqGetAutocommit int

datatype ws_response =
    WrpOpenStream | WrpCloseStream | WrpExecute StmtResult | WrpBatch BatchResult | WrpOpenCursor | WrpCloseCursor
  | WrpFetchCursor "CursorEntry list" bool | WrpSequence | WrpDescribe DescribeResult | WrpStoreSql | WrpCloseSql
  | WrpGetAutocommit bool

datatype ResponseError =
    WsAuth AuthError | WsStreamNotOpen int | WsCursorNotOpen int | WsSqlTooMany nat | WsStmt StmtError
  | WsBatch BatchError

fun response_error_code :: "ResponseError \<Rightarrow> string" where
  "response_error_code (WsAuth e) = auth_code e"
| "response_error_code (WsSqlTooMany n) = ''SQL_STORE_TOO_MANY''"
| "response_error_code (WsStreamNotOpen i) = ''STREAM_NOT_OPEN''"
| "response_error_code (WsCursorNotOpen i) = ''CURSOR_NOT_OPEN''"
| "response_error_code (WsStmt e) = stmt_error_code e"
| "response_error_code (WsBatch e) = batch_error_code e"

fun response_error_message :: "ResponseError \<Rightarrow> string" where
  "response_error_message (WsAuth e) = ''Authentication failed: '' @ auth_message e"
| "response_error_message (WsStreamNotOpen i) = ''Stream '' @ show_int i @ '' has failed to open''"
| "response_error_message (WsCursorNotOpen i) = ''Cursor '' @ show_int i @ '' has failed to open''"
| "response_error_message (WsSqlTooMany n) =
     ''The server already stores '' @ show_int (int n) @ '' SQL texts, it cannot store more''"
| "response_error_message (WsStmt e) = stmt_error_message e"
| "response_error_message (WsBatch e) = batch_error_message e"

datatype ws_error = WsResponse ResponseError | WsOther hrana_error

fun ws_catch_stmt_error :: "ws_error \<Rightarrow> ws_error" where
  "ws_catch_stmt_error (WsOther (HeStmt e)) = WsResponse (WsStmt e)"
| "ws_catch_stmt_error e = e"

fun ws_catch_batch_error :: "ws_error \<Rightarrow> ws_error" where
  "ws_catch_batch_error (WsOther (HeBatch e)) = WsResponse (WsBatch e)"
| "ws_catch_batch_error e = e"

section \<open>Sessions\<close>

datatype 'c ws_job =
    JobOpen "Error + 'c Connection"
  | JobClose
  | JobExecute Authenticated Query
  | JobBatch Authenticated Program
  | JobSequence Authenticated Program
  | JobDescribe Authenticated string
  | JobOpenCursor Authenticated Program
  | JobCloseCursor
  | JobFetchCursor int nat u64
  | JobGetAutocommit

datatype cursor_run = CursorWaiting Authenticated Program | CursorEntries "(hrana_error + SizedEntry) list"

text \<open>A stream and its queue of jobs, each with the number of the request that it answers.\<close>

record 'c ws_stream =
  wt_stream_id :: int
  wt_db :: "'c Connection option"
  wt_cursor_hnd :: "nat option"
  wt_cursors :: "cursor_run list"
  wt_jobs :: "(nat \<times> 'c ws_job) list"

record StreamHandle =
  sh_task :: nat
  sh_cursor_id :: "int option"

record 'c Session =
  se_authenticated :: Authenticated
  se_version :: Version
  se_streams :: "int \<rightharpoonup> StreamHandle"
  se_sqls :: "(int \<times> string) list"
  se_cursors :: "int \<rightharpoonup> int"
  se_tasks :: "'c ws_stream list"

definition WS_MAX_SQL_COUNT :: nat where "WS_MAX_SQL_COUNT = 150"

definition handle_initial_hello ::
  "'k jwt_decode \<Rightarrow> 'k Auth \<Rightarrow> Version \<Rightarrow> string option \<Rightarrow> ws_error + 'c Session" where
  "handle_initial_hello decode auth version jwt =
     (case authenticate_jwt decode auth jwt of
        Inl e \<Rightarrow> Inl (WsResponse (WsAuth e))
      | Inr a \<Rightarrow>
          Inr \<lparr> se_authenticated = a, se_version = version, se_streams = Map.empty, se_sqls = [],
                se_cursors = Map.empty, se_tasks = [] \<rparr>)"

definition handle_repeated_hello ::
  "'k jwt_decode \<Rightarrow> 'k Auth \<Rightarrow> string option \<Rightarrow> 'c Session \<Rightarrow> (ws_error + unit) \<times> 'c Session" where
  "handle_repeated_hello decode auth jwt s =
     (if se_version s < Hrana2
      then (Inl (WsOther (HeProtocol (NotSupported ''Repeated hello message'' Hrana2))), s)
      else (case authenticate_jwt decode auth jwt of
              Inl e \<Rightarrow> (Inl (WsResponse (WsAuth e)), s)
            | Inr a \<Rightarrow> (Inr (), s\<lparr>se_authenticated := a\<rparr>)))"

text \<open>The answer to a request: an error, a response, a job that will respond, or a failed assertion.\<close>

datatype ws_answer = AnswerError ws_error | AnswerNow ws_response | AnswerLater | AnswerPanic

definition protocol_refusal :: "ProtocolError \<Rightarrow> ws_answer" where
  "protocol_refusal e = AnswerError (WsOther (HeProtocol e))"

definition stream_respond :: "nat \<Rightarrow> nat \<Rightarrow> 'c ws_job \<Rightarrow> 'c Session \<Rightarrow> 'c Session" where
  "stream_respond task tag job s =
     s\<lparr>se_tasks := (se_tasks s)[task := (se_tasks s ! task)\<lparr>wt_jobs := wt_jobs (se_tasks s ! task) @ [(tag, job)]\<rparr>]\<rparr>"

definition stream_spawn :: "int \<Rightarrow> 'c Session \<Rightarrow> StreamHandle \<times> 'c Session" where
  "stream_spawn stream_id s =
     (\<lparr> sh_task = length (se_tasks s), sh_cursor_id = None \<rparr>,
      s\<lparr>se_tasks := se_tasks s @
          [\<lparr> wt_stream_id = stream_id, wt_db = None, wt_cursor_hnd = None, wt_cursors = [], wt_jobs = [] \<rparr>]\<rparr>)"

text \<open>The version a request needs and the stream it names, and the job it puts there.\<close>

definition need_version :: "Version \<Rightarrow> string \<Rightarrow> 'c Session \<Rightarrow> ws_answer \<times> 'c Session \<Rightarrow> ws_answer \<times> 'c Session" where
  "need_version v what s r = (if se_version s < v then (protocol_refusal (NotSupported what v), s) else r)"

definition on_stream ::
  "int \<Rightarrow> 'c Session \<Rightarrow> (StreamHandle \<Rightarrow> ws_answer \<times> 'c Session) \<Rightarrow> ws_answer \<times> 'c Session" where
  "on_stream stream_id s f =
     (case se_streams s stream_id of None \<Rightarrow> (protocol_refusal (StreamNotFound stream_id), s) | Some h \<Rightarrow> f h)"

definition ws_job :: "nat \<Rightarrow> StreamHandle \<Rightarrow> 'c Session \<Rightarrow> hrana_error + 'c ws_job \<Rightarrow> ws_answer \<times> 'c Session" where
  "ws_job tag h s r =
     (case r of
        Inl e \<Rightarrow> (AnswerError (ws_catch_stmt_error (WsOther e)), s)
      | Inr job \<Rightarrow> (AnswerLater, stream_respond (sh_task h) tag job s))"

fun ws_handle_request ::
  "sql_parser \<Rightarrow> u64 \<Rightarrow> Error + 'c Connection \<Rightarrow> nat \<Rightarrow> ws_request \<Rightarrow> 'c Session \<Rightarrow> ws_answer \<times> 'c Session" where
  "ws_handle_request p max_response_size made tag (WrqOpenStream stream_id) s =
     (if se_streams s stream_id \<noteq> None then (protocol_refusal (StreamExists stream_id), s)
      else (case stream_spawn stream_id s of (h, s) \<Rightarrow>
        let s = stream_respond (sh_task h) tag (JobOpen made) s
        in (AnswerLater, s\<lparr>se_streams := (se_streams s)(stream_id \<mapsto> h)\<rparr>)))"
| "ws_handle_request p max_response_size made tag (WrqCloseStream stream_id) s =
     (case se_streams s stream_id of
        None \<Rightarrow> (protocol_refusal (StreamNotFound stream_id), s)
      | Some h \<Rightarrow>
          (let s = s\<lparr>se_streams := (se_streams s)(stream_id := None)\<rparr>;
               s = (case sh_cursor_id h of
                      Some cursor_id \<Rightarrow> s\<lparr>se_cursors := (se_cursors s)(cursor_id := None)\<rparr>
                    | None \<Rightarrow> s)
           in (AnswerLater, stream_respond (sh_task h) tag JobClose s)))"
| "ws_handle_request p max_response_size made tag (WrqExecute stream_id stmt) s =
     on_stream stream_id s (\<lambda>h.
       ws_job tag h s
         (case proto_stmt_to_query p stmt (map_of (se_sqls s)) (se_version s) of
            Inl e \<Rightarrow> Inl e | Inr query \<Rightarrow> Inr (JobExecute (se_authenticated s) query)))"
| "ws_handle_request p max_response_size made tag (WrqBatch stream_id batch) s =
     on_stream stream_id s (\<lambda>h.
       ws_job tag h s
         (case proto_batch_to_program p batch (map_of (se_sqls s)) (se_version s) of
            Inl e \<Rightarrow> Inl e | Inr pgm \<Rightarrow> Inr (JobBatch (se_authenticated s) pgm)))"
| "ws_handle_request p max_response_size made tag (WrqSequence stream_id sql sql_id) s =
     need_version Hrana2 ''The `sequence` request'' s (on_stream stream_id s (\<lambda>h.
       case proto_sql_to_sql sql sql_id (map_of (se_sqls s)) (se_version s) of
         Inl e \<Rightarrow> (protocol_refusal e, s)
       | Inr sql \<Rightarrow>
           ws_job tag h s
             (case proto_sequence_to_program p sql of
                Inl e \<Rightarrow> Inl e | Inr pgm \<Rightarrow> Inr (JobSequence (se_authenticated s) pgm))))"
| "ws_handle_request p max_response_size made tag (WrqDescribe stream_id sql sql_id) s =
     need_version Hrana2 ''The `describe` request'' s (on_stream stream_id s (\<lambda>h.
       case proto_sql_to_sql sql sql_id (map_of (se_sqls s)) (se_version s) of
         Inl e \<Rightarrow> (protocol_refusal e, s)
       | Inr sql \<Rightarrow> ws_job tag h s (Inr (JobDescribe (se_authenticated s) sql))))"
| "ws_handle_request p max_response_size made tag (WrqStoreSql sql_id sql) s =
     need_version Hrana2 ''The `store_sql` request'' s
       (if map_of (se_sqls s) sql_id \<noteq> None then (protocol_refusal (SqlExists sql_id), s)
        else if WS_MAX_SQL_COUNT \<le> length (se_sqls s)
        then (AnswerError (WsResponse (WsSqlTooMany (length (se_sqls s)))), s)
        else (AnswerNow WrpStoreSql, s\<lparr>se_sqls := (sql_id, sql) # se_sqls s\<rparr>))"
| "ws_handle_request p max_response_size made tag (WrqCloseSql sql_id) s =
     need_version Hrana2 ''The `close_sql` request'' s
       (AnswerNow WrpCloseSql, s\<lparr>se_sqls := filter (\<lambda>e. fst e \<noteq> sql_id) (se_sqls s)\<rparr>)"
| "ws_handle_request p max_response_size made tag (WrqOpenCursor stream_id cursor_id batch) s =
     need_version Hrana3 ''The `open_cursor` request'' s (on_stream stream_id s (\<lambda>h.
       if sh_cursor_id h \<noteq> None then (protocol_refusal (CursorAlreadyOpen stream_id), s)
       else if se_cursors s cursor_id \<noteq> None then (protocol_refusal (CursorExists cursor_id), s)
       else
         (case proto_batch_to_program p batch (map_of (se_sqls s)) (se_version s) of
            Inl e \<Rightarrow> (AnswerError (ws_catch_stmt_error (WsOther e)), s)
          | Inr pgm \<Rightarrow>
              (let s = stream_respond (sh_task h) tag (JobOpenCursor (se_authenticated s) pgm) s
               in (AnswerLater,
                   s\<lparr>se_cursors := (se_cursors s)(cursor_id \<mapsto> stream_id),
                     se_streams := (se_streams s)(stream_id \<mapsto> h\<lparr>sh_cursor_id := Some cursor_id\<rparr>)\<rparr>)))))"
| "ws_handle_request p max_response_size made tag (WrqCloseCursor cursor_id) s =
     need_version Hrana3 ''The `close_cursor` request'' s
       (case se_cursors s cursor_id of
          None \<Rightarrow> (protocol_refusal (CursorNotFound cursor_id), s)
        | Some stream_id \<Rightarrow>
            (let s = s\<lparr>se_cursors := (se_cursors s)(cursor_id := None)\<rparr>
             in on_stream stream_id s (\<lambda>h.
                  if sh_cursor_id h \<noteq> Some cursor_id then (AnswerPanic, s)
                  else
                    (AnswerLater,
                     stream_respond (sh_task h) tag JobCloseCursor
                       (s\<lparr>se_streams := (se_streams s)(stream_id \<mapsto> h\<lparr>sh_cursor_id := None\<rparr>)\<rparr>)))))"
| "ws_handle_request p max_response_size made tag (WrqFetchCursor cursor_id max_count) s =
     need_version Hrana3 ''The `fetch_cursor` request'' s
       (case se_cursors s cursor_id of
          None \<Rightarrow> (protocol_refusal (CursorNotFound cursor_id), s)
        | Some stream_id \<Rightarrow>
            on_stream stream_id s (\<lambda>h.
              if sh_cursor_id h \<noteq> Some cursor_id then (AnswerPanic, s)
              else ws_job tag h s (Inr (JobFetchCursor cursor_id (unat max_count) (max_response_size div 8)))))"
| "ws_handle_request p max_response_size made tag (WrqGetAutocommit stream_id) s =
     need_version Hrana3 ''The `get_autocommit` request'' s (on_stream stream_id s (\<lambda>h.
       ws_job tag h s (Inr JobGetAutocommit)))"

section \<open>Jobs\<close>

definition ws_on_db ::
  "'c ws_stream \<Rightarrow> ('c Connection \<Rightarrow> (hrana_error + ws_response) \<times> 'c Connection)
     \<Rightarrow> (ws_error \<Rightarrow> ws_error) \<Rightarrow> (ws_error + ws_response) \<times> 'c ws_stream" where
  "ws_on_db stream f catch =
     (case wt_db stream of
        None \<Rightarrow> (Inl (WsResponse (WsStreamNotOpen (wt_stream_id stream))), stream)
      | Some db \<Rightarrow>
          (case f db of
             (Inl e, db) \<Rightarrow> (Inl (catch (WsOther e)), stream\<lparr>wt_db := Some db\<rparr>)
           | (Inr r, db) \<Rightarrow> (Inr r, stream\<lparr>wt_db := Some db\<rparr>)))"

definition responds :: "('a \<Rightarrow> ws_response) \<Rightarrow> (hrana_error + 'a) \<times> 'c \<Rightarrow> (hrana_error + ws_response) \<times> 'c" where
  "responds g r = (case r of (Inl e, c) \<Rightarrow> (Inl e, c) | (Inr x, c) \<Rightarrow> (Inr (g x), c))"

text \<open>The loop of a fetch, over the entries that the cursor has left to give.\<close>

fun fetch_loop ::
  "nat \<Rightarrow> u64 \<Rightarrow> nat \<Rightarrow> u64 \<Rightarrow> (hrana_error + SizedEntry) list
     \<Rightarrow> (hrana_error + CursorEntry list \<times> bool) \<times> (hrana_error + SizedEntry) list" where
  "fetch_loop max_count max_total_size n total_size [] =
     (if n < max_count \<and> total_size < max_total_size then (Inr ([], True), []) else (Inr ([], False), []))"
| "fetch_loop max_count max_total_size n total_size (Inl e # es) =
     (if n < max_count \<and> total_size < max_total_size then (Inl e, es) else (Inr ([], False), Inl e # es))"
| "fetch_loop max_count max_total_size n total_size (Inr e # es) =
     (if n < max_count \<and> total_size < max_total_size
      then (case fetch_loop max_count max_total_size (Suc n) (total_size + se_size e) es of
              (Inr (entries, don), rest) \<Rightarrow> (Inr (se_entry e # entries, don), rest)
            | (Inl err, rest) \<Rightarrow> (Inl err, rest))
      else (Inr ([], False), Inr e # es))"

text \<open>A job on its stream; None when it waits for the entries of a cursor whose program has not run.\<close>

fun run_job ::
  "'c hrana_env \<Rightarrow> nat \<Rightarrow> 'c ws_job \<Rightarrow> 'c ws_stream \<Rightarrow> ((ws_error + ws_response) \<times> 'c ws_stream) option" where
  "run_job env now (JobOpen made) stream =
     Some (case made of
             Inl e \<Rightarrow> (Inl (WsOther (HeSqld e)), stream)
           | Inr db \<Rightarrow> (Inr WrpOpenStream, stream\<lparr>wt_db := Some db\<rparr>))"
| "run_job env now JobClose stream = Some (Inr WrpCloseStream, stream)"
| "run_job env now (JobExecute auth query) stream =
     Some (ws_on_db stream
       (\<lambda>db. responds WrpExecute (execute_stmt (he_sqlite env) (he_lib env) now (he_held env) auth query db))
       ws_catch_stmt_error)"
| "run_job env now (JobBatch auth pgm) stream =
     Some (ws_on_db stream
       (\<lambda>db. responds WrpBatch (hrana_execute_batch (he_sqlite env) (he_lib env) now (he_held env) auth pgm db))
       ws_catch_batch_error)"
| "run_job env now (JobSequence auth pgm) stream =
     Some (ws_on_db stream
       (\<lambda>db. responds (\<lambda>_. WrpSequence) (execute_sequence (he_sqlite env) (he_lib env) now auth pgm db))
       (\<lambda>e. ws_catch_batch_error (ws_catch_stmt_error e)))"
| "run_job env now (JobDescribe auth sql) stream =
     Some (ws_on_db stream
       (\<lambda>db. responds WrpDescribe (describe_stmt (he_sqlite env) (he_lib env) now auth sql db))
       ws_catch_stmt_error)"
| "run_job env now (JobOpenCursor auth pgm) stream =
     Some (case wt_db stream of
             None \<Rightarrow> (Inl (WsResponse (WsStreamNotOpen (wt_stream_id stream))), stream)
           | Some db \<Rightarrow>
               (Inr WrpOpenCursor,
                stream\<lparr>wt_cursor_hnd := Some (length (wt_cursors stream)),
                  wt_cursors := wt_cursors stream @ [CursorWaiting auth pgm]\<rparr>))"
| "run_job env now JobCloseCursor stream = Some (Inr WrpCloseCursor, stream\<lparr>wt_cursor_hnd := None\<rparr>)"
| "run_job env now (JobFetchCursor cursor_id max_count max_total_size) stream =
     (case wt_cursor_hnd stream of
        None \<Rightarrow> Some (Inl (WsResponse (WsCursorNotOpen cursor_id)), stream)
      | Some i \<Rightarrow>
          (case wt_cursors stream ! i of
             CursorWaiting auth pgm \<Rightarrow>
               if 0 < max_count \<and> 0 < max_total_size then None else Some (Inr (WrpFetchCursor [] False), stream)
           | CursorEntries es \<Rightarrow>
               (case fetch_loop max_count max_total_size 0 0 es of
                  (r, rest) \<Rightarrow>
                    Some (case r of
                            Inl e \<Rightarrow> Inl (WsOther e)
                          | Inr (entries, don) \<Rightarrow> Inr (WrpFetchCursor entries don),
                          stream\<lparr>wt_cursors := (wt_cursors stream)[i := CursorEntries rest]\<rparr>))))"
| "run_job env now JobGetAutocommit stream =
     Some (ws_on_db stream
       (\<lambda>db. case libsql_is_autocommit (he_sqlite env) now db of
               (Inl e, db) \<Rightarrow> (Inl (HeSqld e), db) | (Inr b, db) \<Rightarrow> (Inr (WrpGetAutocommit b), db))
       id)"

section \<open>Connections\<close>

datatype ClientMsg = CmNone | CmHello "string option" | CmRequest int "ws_request option"

datatype ServerMsg =
    SmHelloOk | SmHelloError proto_error | SmResponseOk int ws_response | SmResponseError int proto_error

text \<open>Text and binary messages as the decoders give them: a client message or the message of an error. Raw
  frames, at which the code panics, are never read from a WebSocket.\<close>

datatype ws_message =
    WmText "string + ClientMsg" | WmBinary "string + ClientMsg" | WmPing "byte list" | WmPong | WmClose

datatype CloseCode = CcNormal | CcInvalid | CcUnsupported | CcPolicy | CcError

datatype ws_out = OutMsg ServerMsg | OutPong "byte list" | OutClose CloseCode string

datatype pending = Ready "ws_error + ws_response" | Awaits nat

record 'c Conn =
  wc_ws_closed :: bool
  wc_version :: Version
  wc_encoding :: Encoding
  wc_session :: "'c Session option"
  wc_responses :: "(int \<times> pending) list"
  wc_next :: nat
  wc_out :: "ws_out list"

record 'k ws_server =
  ws_decode :: "'k jwt_decode"
  ws_auth :: "'k Auth"
  ws_max_response_size :: u64

definition conn_new :: "Version \<Rightarrow> Encoding \<Rightarrow> 'c Conn" where
  "conn_new version encoding =
     \<lparr> wc_ws_closed = False, wc_version = version, wc_encoding = encoding, wc_session = None, wc_responses = [],
       wc_next = 0, wc_out = [] \<rparr>"

definition ws_send :: "ws_out \<Rightarrow> 'c Conn \<Rightarrow> 'c Conn" where
  "ws_send m conn = conn\<lparr>wc_out := wc_out conn @ [m]\<rparr>"

fun protocol_error_to_close_code :: "ProtocolError \<Rightarrow> CloseCode" where
  "protocol_error_to_close_code (JsonDeserialize e) = CcInvalid"
| "protocol_error_to_close_code (ProtobufDecode e) = CcInvalid"
| "protocol_error_to_close_code BinaryWebSocketMessage = CcUnsupported"
| "protocol_error_to_close_code TextWebSocketMessage = CcUnsupported"
| "protocol_error_to_close_code _ = CcPolicy"

definition ws_close :: "CloseCode \<Rightarrow> string \<Rightarrow> 'c Conn \<Rightarrow> 'c Conn" where
  "ws_close code reason conn =
     (if wc_ws_closed conn then conn else (ws_send (OutClose code reason) conn)\<lparr>wc_ws_closed := True\<rparr>)"

fun downcast_error :: "ws_error \<Rightarrow> hrana_error + proto_error" where
  "downcast_error (WsResponse e) = Inr \<lparr> pe_message = response_error_message e, pe_code = response_error_code e \<rparr>"
| "downcast_error (WsOther e) = Inl e"

text \<open>What a message leads to: the next one, the end of the connection, an error, or a panic.\<close>

datatype msg_result = MsgNext | MsgEnd | MsgError hrana_error | MsgPanic

definition handle_hello_msg :: "'k ws_server \<Rightarrow> string option \<Rightarrow> 'c Conn \<Rightarrow> msg_result \<times> 'c Conn" where
  "handle_hello_msg server jwt conn =
     (let (res, conn) =
        (case wc_session conn of
           None \<Rightarrow>
             (case handle_initial_hello (ws_decode server) (ws_auth server) (wc_version conn) jwt of
                Inl e \<Rightarrow> (Inl e, conn)
              | Inr s \<Rightarrow> (Inr (), conn\<lparr>wc_session := Some s\<rparr>))
         | Some s \<Rightarrow>
             (case handle_repeated_hello (ws_decode server) (ws_auth server) jwt s of
                (r, s) \<Rightarrow> (r, conn\<lparr>wc_session := Some s\<rparr>)))
      in case res of
           Inr _ \<Rightarrow> (MsgNext, ws_send (OutMsg SmHelloOk) conn)
         | Inl e \<Rightarrow>
             (case downcast_error e of
                Inr pe \<Rightarrow> (MsgEnd, ws_send (OutMsg (SmHelloError pe)) conn)
              | Inl e \<Rightarrow> (MsgError e, conn)))"

definition handle_request_msg ::
  "'k ws_server \<Rightarrow> sql_parser \<Rightarrow> Error + 'c Connection \<Rightarrow> int \<Rightarrow> ws_request \<Rightarrow> 'c Conn \<Rightarrow> msg_result \<times> 'c Conn" where
  "handle_request_msg server p made request_id request conn =
     (case wc_session conn of
        None \<Rightarrow> (MsgError (HeProtocol RequestBeforeHello), conn)
      | Some s \<Rightarrow>
          (case ws_handle_request p (ws_max_response_size server) made (wc_next conn) request s of
             (r, s) \<Rightarrow>
               (let tag = wc_next conn;
                    conn = conn\<lparr>wc_session := Some s, wc_next := Suc tag\<rparr>;
                    push = (\<lambda>x. (MsgNext, conn\<lparr>wc_responses := wc_responses conn @ [(request_id, x)]\<rparr>))
                in case r of
                     AnswerPanic \<Rightarrow> (MsgPanic, conn)
                   | AnswerError e \<Rightarrow> push (Ready (Inl e))
                   | AnswerNow response \<Rightarrow> push (Ready (Inr response))
                   | AnswerLater \<Rightarrow> push (Awaits tag))))"

fun handle_client_msg ::
  "'k ws_server \<Rightarrow> sql_parser \<Rightarrow> Error + 'c Connection \<Rightarrow> ClientMsg \<Rightarrow> 'c Conn \<Rightarrow> msg_result \<times> 'c Conn" where
  "handle_client_msg server p made CmNone conn = (MsgError (HeProtocol NoneClientMsg), conn)"
| "handle_client_msg server p made (CmHello jwt) conn = handle_hello_msg server jwt conn"
| "handle_client_msg server p made (CmRequest request_id (Some request)) conn =
     handle_request_msg server p made request_id request conn"
| "handle_client_msg server p made (CmRequest request_id None) conn = (MsgError (HeProtocol NoneRequest), conn)"

fun handle_msg ::
  "'k ws_server \<Rightarrow> sql_parser \<Rightarrow> Error + 'c Connection \<Rightarrow> ws_message \<Rightarrow> 'c Conn \<Rightarrow> msg_result \<times> 'c Conn" where
  "handle_msg server p made (WmText m) conn =
     (if wc_encoding conn \<noteq> EncodingJson then (MsgError (HeProtocol TextWebSocketMessage), conn)
      else (case m of
              Inl e \<Rightarrow> (MsgError (HeProtocol (JsonDeserialize e)), conn)
            | Inr m \<Rightarrow> handle_client_msg server p made m conn))"
| "handle_msg server p made (WmBinary m) conn =
     (if wc_encoding conn \<noteq> EncodingProtobuf then (MsgError (HeProtocol BinaryWebSocketMessage), conn)
      else (case m of
              Inl e \<Rightarrow> (MsgError (HeProtocol (ProtobufDecode e)), conn)
            | Inr m \<Rightarrow> handle_client_msg server p made m conn))"
| "handle_msg server p made (WmPing d) conn = (MsgNext, ws_send (OutPong d) conn)"
| "handle_msg server p made WmPong conn = (MsgNext, conn)"
| "handle_msg server p made WmClose conn = (MsgEnd, conn)"

text \<open>How the loop of a connection goes on after a message, and after a response.\<close>

datatype ws_status = WsOpen | WsClosed | WsFailed hrana_error | WsPanicked

definition after_msg :: "msg_result \<times> 'c Conn \<Rightarrow> ws_status \<times> 'c Conn" where
  "after_msg r =
     (case r of
        (MsgNext, conn) \<Rightarrow> (WsOpen, conn)
      | (MsgEnd, conn) \<Rightarrow> (WsClosed, ws_close CcNormal ''Thank you for using sqld'' conn)
      | (MsgError e, conn) \<Rightarrow>
          (case e of
             HeProtocol pe \<Rightarrow>
               (WsClosed, ws_close (protocol_error_to_close_code pe) (protocol_error_message pe) conn)
           | _ \<Rightarrow> (WsFailed e, ws_close CcError ''Internal server error'' conn))
      | (MsgPanic, conn) \<Rightarrow> (WsPanicked, conn))"

definition poll_response :: "int \<Rightarrow> ws_error + ws_response \<Rightarrow> hrana_error + ServerMsg" where
  "poll_response request_id r =
     (case r of
        Inr response \<Rightarrow> Inr (SmResponseOk request_id response)
      | Inl e \<Rightarrow>
          (case downcast_error e of Inr pe \<Rightarrow> Inr (SmResponseError request_id pe) | Inl e \<Rightarrow> Inl e))"

definition after_response :: "hrana_error + ServerMsg \<Rightarrow> 'c Conn \<Rightarrow> ws_status \<times> 'c Conn" where
  "after_response r conn =
     (case r of Inr m \<Rightarrow> (WsOpen, ws_send (OutMsg m) conn) | Inl e \<Rightarrow> (WsFailed e, conn))"

text \<open>
  A connection as a whole: its status, its state and the ids of the requests it has received. A
  message, a finished response, the first job of a stream and the program of a cursor may each come
  next. The entries that the program of a cursor sent before it failed are \<^verbatim>\<open>sent\<close>.
\<close>

record 'c ws_sys =
  wy_status :: ws_status
  wy_conn :: "'c Conn"
  wy_requests :: "int list"

datatype 'c ws_event =
    EvMsg "Error + 'c Connection" ws_message | EvRecvError string | EvResponse nat | EvJob nat nat
  | EvCursor nat nat nat "(hrana_error + SizedEntry) list"

fun message_requests :: "ws_message \<Rightarrow> int list" where
  "message_requests (WmText (Inr (CmRequest i (Some r)))) = [i]"
| "message_requests (WmBinary (Inr (CmRequest i (Some r)))) = [i]"
| "message_requests _ = []"

fun resolve :: "nat \<Rightarrow> ws_error + ws_response \<Rightarrow> (int \<times> pending) list \<Rightarrow> (int \<times> pending) list" where
  "resolve tag r [] = []"
| "resolve tag r ((i, Ready x) # rs) = (i, Ready x) # resolve tag r rs"
| "resolve tag r ((i, Awaits t) # rs) = (i, if t = tag then Ready r else Awaits t) # resolve tag r rs"

definition set_task :: "nat \<Rightarrow> 'c ws_stream \<Rightarrow> 'c Session \<Rightarrow> 'c Session" where
  "set_task t stream s = s\<lparr>se_tasks := (se_tasks s)[t := stream]\<rparr>"

inductive ws_step :: "'k ws_server \<Rightarrow> 'c hrana_env \<Rightarrow> 'c ws_sys \<Rightarrow> 'c ws_event \<Rightarrow> 'c ws_sys \<Rightarrow> bool"
  for server env where
  ws_msg: "wy_status y = WsOpen \<Longrightarrow>
    after_msg (handle_msg server (he_parser env) made m (wy_conn y)) = (status, conn) \<Longrightarrow>
    ws_step server env y (EvMsg made m)
      \<lparr> wy_status = status, wy_conn = conn, wy_requests = wy_requests y @ message_requests m \<rparr>"
| ws_recv_error: "wy_status y = WsOpen \<Longrightarrow>
    ws_step server env y (EvRecvError e) (y\<lparr>wy_status := WsFailed (HeText e)\<rparr>)"
| ws_response: "wy_status y = WsOpen \<Longrightarrow> wc_responses (wy_conn y) = rs @ (request_id, Ready r) # rs' \<Longrightarrow>
    after_response (poll_response request_id r) ((wy_conn y)\<lparr>wc_responses := rs @ rs'\<rparr>) = (status, conn) \<Longrightarrow>
    ws_step server env y (EvResponse (length rs)) (y\<lparr>wy_status := status, wy_conn := conn\<rparr>)"
| ws_job: "wy_status y = WsOpen \<Longrightarrow> wc_session (wy_conn y) = Some s \<Longrightarrow> t < length (se_tasks s) \<Longrightarrow>
    wt_jobs (se_tasks s ! t) = (tag, job) # jobs \<Longrightarrow>
    run_job env now job (se_tasks s ! t) = Some (r, stream) \<Longrightarrow>
    ws_step server env y (EvJob t now)
      (y\<lparr>wy_conn := (wy_conn y)
          \<lparr>wc_session := Some (set_task t (stream\<lparr>wt_jobs := jobs\<rparr>) s),
           wc_responses := resolve tag r (wc_responses (wy_conn y))\<rparr>\<rparr>)"
| ws_cursor: "wy_status y = WsOpen \<Longrightarrow> wc_session (wy_conn y) = Some s \<Longrightarrow> t < length (se_tasks s) \<Longrightarrow>
    i < length (wt_cursors (se_tasks s ! t)) \<Longrightarrow> wt_cursors (se_tasks s ! t) ! i = CursorWaiting auth pgm \<Longrightarrow>
    wt_db (se_tasks s ! t) = Some db \<Longrightarrow>
    run_cursor (he_sqlite env) (he_lib env) now auth pgm db = (r, db') \<Longrightarrow>
    es = (case r of Inr es \<Rightarrow> es | Inl e \<Rightarrow> sent @ [e]) \<Longrightarrow>
    ws_step server env y (EvCursor t i now sent)
      (y\<lparr>wy_conn := (wy_conn y)
          \<lparr>wc_session := Some (set_task t ((se_tasks s ! t)
             \<lparr>wt_db := Some db', wt_cursors := (wt_cursors (se_tasks s ! t))[i := CursorEntries es]\<rparr>) s)\<rparr>\<rparr>)"

definition ws_init :: "'c ws_sys \<Rightarrow> bool" where
  "ws_init y \<longleftrightarrow> (\<exists>v e. y = \<lparr> wy_status = WsOpen, wy_conn = conn_new v e, wy_requests = [] \<rparr>)"

section \<open>The tables of a session\<close>

definition stream_ok :: "'c ws_stream \<Rightarrow> bool" where
  "stream_ok t \<longleftrightarrow> (wt_cursors t \<noteq> [] \<longrightarrow> wt_db t \<noteq> None) \<and>
     (\<forall>i. wt_cursor_hnd t = Some i \<longrightarrow> i < length (wt_cursors t))"

definition paired :: "(int \<rightharpoonup> StreamHandle) \<Rightarrow> (int \<rightharpoonup> int) \<Rightarrow> bool" where
  "paired streams cursors \<longleftrightarrow>
     (\<forall>c i. cursors c = Some i \<longrightarrow> (\<exists>h. streams i = Some h \<and> sh_cursor_id h = Some c)) \<and>
     (\<forall>i h c. streams i = Some h \<longrightarrow> sh_cursor_id h = Some c \<longrightarrow> cursors c = Some i)"

definition session_ok :: "'c Session \<Rightarrow> bool" where
  "session_ok s \<longleftrightarrow>
     (\<forall>i h. se_streams s i = Some h \<longrightarrow> sh_task h < length (se_tasks s)) \<and>
     paired (se_streams s) (se_cursors s) \<and>
     length (se_sqls s) \<le> WS_MAX_SQL_COUNT \<and> distinct (map fst (se_sqls s)) \<and>
     (\<forall>t \<in> set (se_tasks s). stream_ok t)"

definition queued :: "'c Session \<Rightarrow> nat list" where
  "queued s = concat (map (\<lambda>t. map fst (wt_jobs t)) (se_tasks s))"

fun awaited :: "(int \<times> pending) list \<Rightarrow> nat list" where
  "awaited [] = []"
| "awaited ((i, Ready r) # rs) = awaited rs"
| "awaited ((i, Awaits t) # rs) = t # awaited rs"

lemma session_okD:
  assumes "session_ok s"
  shows "se_streams s i = Some h \<Longrightarrow> sh_task h < length (se_tasks s)"
    and "se_cursors s c = Some i \<Longrightarrow> \<exists>h. se_streams s i = Some h \<and> sh_cursor_id h = Some c"
    and "se_streams s i = Some h \<Longrightarrow> sh_cursor_id h = Some c \<Longrightarrow> se_cursors s c = Some i"
    and "t < length (se_tasks s) \<Longrightarrow> stream_ok (se_tasks s ! t)"
    and "paired (se_streams s) (se_cursors s)"
  using assms by (auto simp: session_ok_def paired_def)

lemma paired_close_stream:
  "paired streams cursors \<Longrightarrow> streams i = Some h \<Longrightarrow> paired (streams(i := None))
     (case sh_cursor_id h of Some c \<Rightarrow> cursors(c := None) | None \<Rightarrow> cursors)"
  unfolding paired_def by (auto split: if_splits option.splits) (metis option.distinct(1) option.inject)+

lemma paired_open_cursor:
  "paired streams cursors \<Longrightarrow> streams i = Some h \<Longrightarrow> sh_cursor_id h = None \<Longrightarrow> cursors c = None \<Longrightarrow>
     paired (streams(i \<mapsto> h\<lparr>sh_cursor_id := Some c\<rparr>)) (cursors(c \<mapsto> i))"
  unfolding paired_def by (auto split: if_splits) (metis option.distinct(1) option.inject)

lemma paired_open_stream:
  "paired streams cursors \<Longrightarrow> streams i = None \<Longrightarrow> sh_cursor_id h = None \<Longrightarrow> paired (streams(i \<mapsto> h)) cursors"
  unfolding paired_def by (auto split: if_splits) (metis option.distinct(1) option.inject)

lemma paired_close_cursor:
  "paired streams cursors \<Longrightarrow> streams i = Some h \<Longrightarrow> sh_cursor_id h = Some c \<Longrightarrow>
     paired (streams(i \<mapsto> h\<lparr>sh_cursor_id := None\<rparr>)) (cursors(c := None))"
  unfolding paired_def by (auto split: if_splits) (metis option.inject)+

lemma mset_concat_update:
  "i < length xs \<Longrightarrow>
     mset (concat (map f (xs[i := y]))) + mset (f (xs ! i)) = mset (concat (map f xs)) + mset (f y)"
proof (induction xs arbitrary: i)
  case (Cons x xs)
  then show ?case by (cases i) (auto simp: ac_simps)
qed simp

lemma queued_set_task:
  "t < length (se_tasks s) \<Longrightarrow>
     mset (queued (set_task t stream s)) + mset (map fst (wt_jobs (se_tasks s ! t))) =
     mset (queued s) + mset (map fst (wt_jobs stream))"
  unfolding queued_def set_task_def using mset_concat_update [of t "se_tasks s" "\<lambda>t. map fst (wt_jobs t)" stream] by simp

lemma session_ok_set_task: "session_ok s \<Longrightarrow> stream_ok stream \<Longrightarrow> session_ok (set_task t stream s)"
  unfolding session_ok_def set_task_def by (auto dest!: subsetD [OF set_update_subset_insert])

lemma stream_respond_set_task:
  "stream_respond t tag job s = set_task t ((se_tasks s ! t)\<lparr>wt_jobs := wt_jobs (se_tasks s ! t) @ [(tag, job)]\<rparr>) s"
  by (simp add: stream_respond_def set_task_def)

lemma stream_ok_jobs [simp]: "stream_ok (t\<lparr>wt_jobs := jobs\<rparr>) = stream_ok t"
  by (simp add: stream_ok_def)

lemma stream_respond_ok: "session_ok s \<Longrightarrow> t < length (se_tasks s) \<Longrightarrow> session_ok (stream_respond t tag job s)"
  by (simp add: stream_respond_set_task session_ok_set_task session_okD(4))

lemma stream_respond_queued:
  "t < length (se_tasks s) \<Longrightarrow> mset (queued (stream_respond t tag job s)) = add_mset tag (mset (queued s))"
  using queued_set_task [of t s "(se_tasks s ! t)\<lparr>wt_jobs := wt_jobs (se_tasks s ! t) @ [(tag, job)]\<rparr>"]
  by (simp add: stream_respond_set_task)

lemma stream_respond_simps [simp]:
  "se_streams (stream_respond t tag job s) = se_streams s"
  "se_cursors (stream_respond t tag job s) = se_cursors s"
  "se_sqls (stream_respond t tag job s) = se_sqls s"
  "length (se_tasks (stream_respond t tag job s)) = length (se_tasks s)"
  by (simp_all add: stream_respond_def)

lemma session_ok_streams:
  assumes "session_ok s" "se_cursors s' = cursors" "se_sqls s' = se_sqls s" "se_tasks s' = se_tasks s" "se_streams s' = streams"
    and "\<And>i h. streams i = Some h \<Longrightarrow> sh_task h < length (se_tasks s)"
    and "paired streams cursors"
  shows "session_ok s'"
  using assms by (simp add: session_ok_def)

lemma queued_simps [simp]:
  "queued (s\<lparr>se_streams := x\<rparr>) = queued s" "queued (s\<lparr>se_cursors := y\<rparr>) = queued s"
  "queued (s\<lparr>se_sqls := z\<rparr>) = queued s"
  by (simp_all add: queued_def)

definition request_ok :: "nat \<Rightarrow> 'c Session \<Rightarrow> ws_answer \<times> 'c Session \<Rightarrow> bool" where
  "request_ok tag s r \<longleftrightarrow> session_ok (snd r) \<and> fst r \<noteq> AnswerPanic \<and>
     mset (queued (snd r)) = (if fst r = AnswerLater then add_mset tag (mset (queued s)) else mset (queued s))"

lemma request_ok_refusal: "session_ok s \<Longrightarrow> request_ok tag s (protocol_refusal e, s)"
  "session_ok s \<Longrightarrow> request_ok tag s (AnswerError err, s)"
  by (simp_all add: request_ok_def protocol_refusal_def)

lemma request_ok_version: "session_ok s \<Longrightarrow> request_ok tag s r \<Longrightarrow> request_ok tag s (need_version v what s r)"
  by (simp add: need_version_def request_ok_refusal)

lemma request_ok_on_stream:
  assumes "session_ok s" "\<And>h. se_streams s i = Some h \<Longrightarrow> sh_task h < length (se_tasks s) \<Longrightarrow> request_ok tag s (f h)"
  shows "request_ok tag s (on_stream i s f)"
  using assms session_okD(1) [OF assms(1)] by (auto simp: on_stream_def request_ok_refusal split: option.splits)

lemma request_ok_job: "session_ok s \<Longrightarrow> sh_task h < length (se_tasks s) \<Longrightarrow> request_ok tag s (ws_job tag h s r)"
  by (auto simp: ws_job_def request_ok_def stream_respond_ok stream_respond_queued split: sum.splits)

lemmas request_ok_intros = request_ok_version request_ok_on_stream request_ok_job request_ok_refusal

lemma open_stream_ok:
  assumes "session_ok s"
  shows "request_ok tag s (ws_handle_request p m made tag (WrqOpenStream i) s)"
proof (cases "se_streams s i")
  case None
  define h where "h = \<lparr> sh_task = length (se_tasks s), sh_cursor_id = None \<rparr>"
  define s1 where "s1 = s\<lparr>se_tasks := se_tasks s @
    [\<lparr> wt_stream_id = i, wt_db = None, wt_cursor_hnd = None, wt_cursors = [], wt_jobs = [] \<rparr>]\<rparr>"
  define s2 where "s2 = stream_respond (length (se_tasks s)) tag (JobOpen made) s1"
  have s1: "session_ok s1" using assms by (auto simp: session_ok_def s1_def stream_ok_def less_SucI)
  moreover have "length (se_tasks s1) = Suc (length (se_tasks s))" "queued s1 = queued s"
    by (simp_all add: s1_def queued_def)
  ultimately have s2: "session_ok s2" "mset (queued s2) = add_mset tag (mset (queued s))"
    by (simp_all add: s2_def stream_respond_ok stream_respond_queued)
  have "session_ok (s2\<lparr>se_streams := (se_streams s2)(i \<mapsto> h)\<rparr>)"
    using s2(1) paired_open_stream [OF session_okD(5) [OF assms] None, of h]
    by (auto simp: session_ok_def s2_def s1_def h_def)
  moreover have "ws_handle_request p m made tag (WrqOpenStream i) s = (AnswerLater, s2\<lparr>se_streams := (se_streams s2)(i \<mapsto> h)\<rparr>)"
    using None by (simp add: stream_spawn_def h_def s1_def s2_def Let_def)
  ultimately show ?thesis using s2 by (simp add: request_ok_def)
qed (simp add: request_ok_refusal assms)

lemma close_stream_ok:
  assumes "session_ok s"
  shows "request_ok tag s (ws_handle_request p m made tag (WrqCloseStream i) s)"
proof (cases "se_streams s i")
  case (Some h)
  define s1 where "s1 = s\<lparr>se_streams := (se_streams s)(i := None),
    se_cursors := (case sh_cursor_id h of Some c \<Rightarrow> (se_cursors s)(c := None) | None \<Rightarrow> se_cursors s)\<rparr>"
  have "session_ok s1"
    using paired_close_stream [OF session_okD(5) [OF assms] Some] session_okD(1) [OF assms]
    by (intro session_ok_streams [OF assms, of s1]) (auto simp: s1_def split: if_splits)
  moreover have "ws_handle_request p m made tag (WrqCloseStream i) s =
      (AnswerLater, stream_respond (sh_task h) tag JobClose s1)"
    using Some by (simp add: s1_def Let_def split: option.split)
  moreover have "sh_task h < length (se_tasks s1)" "queued s1 = queued s"
    using session_okD(1) [OF assms Some] by (simp_all add: s1_def)
  ultimately show ?thesis by (simp add: request_ok_def stream_respond_ok stream_respond_queued)
qed (simp add: request_ok_refusal assms)

lemma open_cursor_ok:
  assumes "session_ok s"
  shows "request_ok tag s (ws_handle_request p m made tag (WrqOpenCursor i c batch) s)"
proof -
  have "request_ok tag s (AnswerLater, (stream_respond (sh_task h) tag job s)
      \<lparr>se_cursors := (se_cursors s)(c \<mapsto> i), se_streams := (se_streams s)(i \<mapsto> h\<lparr>sh_cursor_id := Some c\<rparr>)\<rparr>)"
    if "se_streams s i = Some h" "sh_task h < length (se_tasks s)" "sh_cursor_id h = None" "se_cursors s c = None" for h job
  proof -
    have "session_ok ((stream_respond (sh_task h) tag job s)
      \<lparr>se_cursors := (se_cursors s)(c \<mapsto> i), se_streams := (se_streams s)(i \<mapsto> h\<lparr>sh_cursor_id := Some c\<rparr>)\<rparr>)"
      using paired_open_cursor [OF session_okD(5) [OF assms] that(1,3,4)] session_okD(1) [OF assms] that(2)
      by (intro session_ok_streams [OF stream_respond_ok [OF assms that(2)]]) (auto split: if_splits)
    then show ?thesis using that by (simp add: request_ok_def stream_respond_queued)
  qed
  then show ?thesis
    by (auto simp: Let_def intro!: request_ok_intros assms split: sum.split)
qed

lemma close_cursor_ok:
  assumes "session_ok s"
  shows "request_ok tag s (ws_handle_request p m made tag (WrqCloseCursor c) s)"
proof (cases "se_cursors s c")
  case (Some i)
  then obtain h where h: "se_streams s i = Some h" "sh_cursor_id h = Some c" using session_okD(2) [OF assms] by blast
  define s1 where "s1 = s\<lparr>se_cursors := (se_cursors s)(c := None), se_streams := (se_streams s)(i \<mapsto> h\<lparr>sh_cursor_id := None\<rparr>)\<rparr>"
  have "session_ok s1"
    using paired_close_cursor [OF session_okD(5) [OF assms] h] session_okD(1) [OF assms] h(1)
    by (intro session_ok_streams [OF assms, of s1]) (auto simp: s1_def split: if_splits)
  moreover have "sh_task h < length (se_tasks s1)" "queued s1 = queued s"
    using session_okD(1) [OF assms h(1)] by (simp_all add: s1_def)
  moreover have "ws_handle_request p m made tag (WrqCloseCursor c) s =
      need_version Hrana3 ''The `close_cursor` request'' s (AnswerLater, stream_respond (sh_task h) tag JobCloseCursor s1)"
    using Some h by (simp add: on_stream_def s1_def)
  ultimately show ?thesis
    by (simp only:) (intro request_ok_version assms, simp add: request_ok_def stream_respond_ok stream_respond_queued)
qed (simp add: request_ok_intros assms)

lemma fetch_cursor_ok:
  assumes "session_ok s"
  shows "request_ok tag s (ws_handle_request p m made tag (WrqFetchCursor c n) s)"
proof (cases "se_cursors s c")
  case (Some i)
  then obtain h where "se_streams s i = Some h" "sh_cursor_id h = Some c" using session_okD(2) [OF assms] by blast
  then show ?thesis using Some by (auto intro!: request_ok_intros assms)
qed (simp add: request_ok_intros assms)

lemma ws_handle_request_ok:
  assumes "session_ok s"
  shows "request_ok tag s (ws_handle_request p m made tag request s)"
proof (cases request)
  case (WrqStoreSql i sql)
  have "request_ok tag s (AnswerNow WrpStoreSql, s\<lparr>se_sqls := (i, sql) # se_sqls s\<rparr>)"
    if "map_of (se_sqls s) i = None" "\<not> WS_MAX_SQL_COUNT \<le> length (se_sqls s)"
    using that assms by (auto simp: request_ok_def session_ok_def map_of_eq_None_iff)
  then show ?thesis using WrqStoreSql by (auto intro!: request_ok_intros assms)
next
  case (WrqCloseSql i)
  have "request_ok tag s (AnswerNow WrpCloseSql, s\<lparr>se_sqls := filter (\<lambda>e. fst e \<noteq> i) (se_sqls s)\<rparr>)"
    using assms by (auto simp: request_ok_def session_ok_def distinct_map_filter intro: order_trans [OF length_filter_le])
  then show ?thesis using WrqCloseSql by (auto intro!: request_ok_intros assms)
next
  case (WrqSequence i sql sql_id)
  then show ?thesis by (auto intro!: request_ok_intros assms split: sum.split)
next
  case (WrqDescribe i sql sql_id)
  then show ?thesis by (auto intro!: request_ok_intros assms split: sum.split)
qed (use assms in \<open>simp_all add: open_stream_ok close_stream_ok open_cursor_ok close_cursor_ok fetch_cursor_ok
  request_ok_intros del: ws_handle_request.simps(1,2,9,10,11)\<close>)

section \<open>Requests and responses\<close>

fun response_ids :: "ws_out list \<Rightarrow> int list" where
  "response_ids [] = []"
| "response_ids (OutMsg (SmResponseOk i r) # ms) = i # response_ids ms"
| "response_ids (OutMsg (SmResponseError i e) # ms) = i # response_ids ms"
| "response_ids (m # ms) = response_ids ms"

lemma response_ids_append [simp]: "response_ids (ms @ ms') = response_ids ms @ response_ids ms'"
  by (induction ms rule: response_ids.induct) auto

definition conn_ok :: "'c Conn \<Rightarrow> bool" where
  "conn_ok conn \<longleftrightarrow>
     (case wc_session conn of
        None \<Rightarrow> wc_responses conn = []
      | Some s \<Rightarrow> session_ok s \<and> mset (awaited (wc_responses conn)) = mset (queued s) \<and> distinct (queued s) \<and>
          (\<forall>t \<in> set (queued s). t < wc_next conn))"

definition ws_inv :: "'c ws_sys \<Rightarrow> bool" where
  "ws_inv y \<longleftrightarrow> wy_status y \<noteq> WsPanicked \<and> conn_ok (wy_conn y) \<and>
     (wy_status y = WsOpen \<longrightarrow>
        mset (wy_requests y) = mset (map fst (wc_responses (wy_conn y))) + mset (response_ids (wc_out (wy_conn y))))"

lemma awaited_append [simp]: "awaited (rs @ rs') = awaited rs @ awaited rs'"
  by (induction rs rule: awaited.induct) auto

lemma resolve_ids [simp]: "map fst (resolve tag r rs) = map fst rs"
  by (induction rs rule: awaited.induct) auto

lemma awaited_resolve: "awaited (resolve tag r rs) = filter (\<lambda>t. t \<noteq> tag) (awaited rs)"
  by (induction rs rule: awaited.induct) auto

lemma mset_filter_distinct: "distinct xs \<Longrightarrow> mset (filter (\<lambda>t. t \<noteq> x) xs) = mset xs - {#x#}"
  by (induction xs) (auto simp: filter_id_conv)

lemma conn_new_simps [simp]: "wc_out (conn_new v e) = []" "wc_responses (conn_new v e) = []" "conn_ok (conn_new v e)"
  by (simp_all add: conn_ok_def conn_new_def)

lemma ws_send_simps [simp]:
  "wc_out (ws_send m conn) = wc_out conn @ [m]" "wc_responses (ws_send m conn) = wc_responses conn"
  by (simp_all add: ws_send_def)

lemma conn_ok_out [simp]: "conn_ok (ws_send m conn) = conn_ok conn" "conn_ok (ws_close code reason conn) = conn_ok conn"
  by (auto simp: conn_ok_def ws_send_def ws_close_def split: option.splits)

text \<open>A hello keeps the tables of the session.\<close>

lemma repeated_hello_ok:
  "handle_repeated_hello decode auth jwt s = (r, s') \<Longrightarrow> se_streams s' = se_streams s \<and> se_cursors s' = se_cursors s \<and>
     se_sqls s' = se_sqls s \<and> se_tasks s' = se_tasks s"
  by (auto simp: handle_repeated_hello_def split: if_splits sum.splits)

lemma initial_hello_ok: "handle_initial_hello decode auth v jwt = Inr s \<Longrightarrow> session_ok s \<and> queued s = []"
  by (auto simp: handle_initial_hello_def session_ok_def queued_def paired_def split: sum.splits)

lemma hello_msg_ok:
  assumes "handle_hello_msg server jwt conn = (r, conn')" "conn_ok conn"
  shows "conn_ok conn' \<and> r \<noteq> MsgPanic \<and> wc_responses conn' = wc_responses conn \<and>
    response_ids (wc_out conn') = response_ids (wc_out conn)"
proof (cases "wc_session conn")
  case None
  then show ?thesis using assms
    by (auto simp: handle_hello_msg_def ws_send_def conn_ok_def dest: initial_hello_ok split: sum.splits)
next
  case (Some s)
  obtain x s' where hello: "handle_repeated_hello (ws_decode server) (ws_auth server) jwt s = (x, s')" by (rule prod.exhaust)
  have "session_ok s' = session_ok s" "queued s' = queued s"
    using repeated_hello_ok [OF hello] by (simp_all add: session_ok_def queued_def)
  then show ?thesis using assms Some hello
    by (auto simp: handle_hello_msg_def ws_send_def conn_ok_def split: sum.splits)
qed

lemma request_msg_ok:
  assumes "handle_request_msg server p made request_id request conn = (r, conn')" "conn_ok conn"
  shows "conn_ok conn' \<and> r \<noteq> MsgPanic \<and> wc_out conn' = wc_out conn \<and>
    (r = MsgNext \<longrightarrow> map fst (wc_responses conn') = map fst (wc_responses conn) @ [request_id])"
proof (cases "wc_session conn")
  case None
  then show ?thesis using assms by (auto simp: handle_request_msg_def)
next
  case (Some s)
  obtain a s' where handled: "ws_handle_request p (ws_max_response_size server) made (wc_next conn) request s = (a, s')"
    by (rule prod.exhaust)
  have ok: "session_ok s" "mset (awaited (wc_responses conn)) = mset (queued s)" "distinct (queued s)"
    "\<forall>t \<in> set (queued s). t < wc_next conn"
    using assms(2) Some by (simp_all add: conn_ok_def)
  have request: "session_ok s'" "a \<noteq> AnswerPanic"
    "mset (queued s') = (if a = AnswerLater then add_mset (wc_next conn) (mset (queued s)) else mset (queued s))"
    using ws_handle_request_ok [OF ok(1), of "wc_next conn" p "ws_max_response_size server" made request] handled
    by (auto simp: request_ok_def)
  have queue: "set (queued s') = (if a = AnswerLater then insert (wc_next conn) (set (queued s)) else set (queued s))"
    using arg_cong [OF request(3), of set_mset] by (auto split: if_splits)
  have "distinct (queued s')"
  proof (cases "a = AnswerLater")
    case True
    then have "mset (queued s') = mset (wc_next conn # queued s)" using request(3) by simp
    moreover have "distinct (wc_next conn # queued s)" using ok(3,4) by auto
    ultimately show ?thesis using mset_eq_imp_distinct_iff by blast
  next
    case False
    then show ?thesis using request(3) ok(3) mset_eq_imp_distinct_iff by metis
  qed
  then show ?thesis using assms(1) Some handled ok request queue
    by (cases a) (auto simp: handle_request_msg_def conn_ok_def Let_def less_SucI)
qed

lemma handle_msg_ok:
  assumes "handle_msg server p made m conn = (r, conn')" "conn_ok conn"
  shows "conn_ok conn' \<and> r \<noteq> MsgPanic \<and> response_ids (wc_out conn') = response_ids (wc_out conn) \<and>
    (r = MsgNext \<longrightarrow> map fst (wc_responses conn') = map fst (wc_responses conn) @ message_requests m)"
proof -
  have "conn_ok conn' \<and> r \<noteq> MsgPanic \<and> response_ids (wc_out conn') = response_ids (wc_out conn) \<and>
      (r = MsgNext \<longrightarrow> map fst (wc_responses conn') = map fst (wc_responses conn) @
         (case cm of CmRequest i (Some req) \<Rightarrow> [i] | _ \<Rightarrow> []))"
    if "handle_client_msg server p made cm conn = (r, conn')" for cm
    using that assms(2) by (cases "(server, p, made, cm, conn)" rule: handle_client_msg.cases)
      (auto dest: hello_msg_ok request_msg_ok)
  note client = this
  show ?thesis
  proof (cases m)
    case (WmText x)
    then show ?thesis using assms client
      by (cases x) (auto split: if_splits ClientMsg.splits option.splits)
  next
    case (WmBinary x)
    then show ?thesis using assms client
      by (cases x) (auto split: if_splits ClientMsg.splits option.splits)
  next
    case (WmPing d)
    then have "r = MsgNext" "conn' = ws_send (OutPong d) conn" using assms(1) by auto
    then show ?thesis using assms(2) WmPing by simp
  qed (use assms in auto)
qed

text \<open>A job keeps its stream sound, and leaves at most one more cursor waiting.\<close>

fun is_waiting :: "cursor_run \<Rightarrow> bool" where
  "is_waiting (CursorWaiting auth pgm) = True"
| "is_waiting (CursorEntries es) = False"

lemma ws_on_db_ok:
  "ws_on_db stream f catch = (r, stream') \<Longrightarrow> wt_jobs stream' = wt_jobs stream \<and> wt_cursors stream' = wt_cursors stream \<and>
     wt_cursor_hnd stream' = wt_cursor_hnd stream \<and> (wt_db stream \<noteq> None \<longrightarrow> wt_db stream' \<noteq> None)"
  by (auto simp: ws_on_db_def split: option.splits prod.splits sum.splits)

lemma stream_ok_on_db:
  "ws_on_db stream f catch = (r, stream') \<Longrightarrow> stream_ok stream \<Longrightarrow> stream_ok stream' \<and> wt_jobs stream' = wt_jobs stream \<and>
     wt_cursors stream' = wt_cursors stream"
  using ws_on_db_ok [of stream f catch r stream'] by (simp add: stream_ok_def)

lemma waiting_update:
  "\<not> is_waiting c \<Longrightarrow> i < length cs \<Longrightarrow> length (filter is_waiting (cs[i := c])) +
     (if is_waiting (cs ! i) then 1 else 0) = length (filter is_waiting cs)"
proof (induction cs arbitrary: i)
  case (Cons x cs)
  then show ?case by (cases i) auto
qed simp

lemma run_job_ok:
  assumes "run_job env now job stream = Some (r, stream')" "stream_ok stream"
  shows "stream_ok stream' \<and> wt_jobs stream' = wt_jobs stream \<and>
    length (filter is_waiting (wt_cursors stream')) \<le> Suc (length (filter is_waiting (wt_cursors stream)))"
proof (cases job)
  case (JobFetchCursor c n m)
  show ?thesis
  proof (cases "wt_cursor_hnd stream")
    case (Some i)
    then have i: "i < length (wt_cursors stream)" using assms(2) by (simp add: stream_ok_def)
    show ?thesis
    proof (cases "wt_cursors stream ! i")
      case (CursorEntries es)
      then show ?thesis using assms JobFetchCursor Some i waiting_update [OF _ i, of "CursorEntries (snd (fetch_loop n m 0 0 es))"]
        by (auto simp: stream_ok_def split: prod.splits)
    qed (use assms JobFetchCursor Some in \<open>auto split: if_splits\<close>)
  qed (use assms JobFetchCursor in auto)
next
  case (JobOpen made)
  then show ?thesis using assms by (cases made) (auto simp: stream_ok_def)
next
  case (JobOpenCursor auth pgm)
  then show ?thesis using assms by (cases "wt_db stream") (auto simp: stream_ok_def)
next
  case JobCloseCursor
  then show ?thesis using assms by (auto simp: stream_ok_def)
qed (use assms in \<open>auto dest: stream_ok_on_db\<close>)

definition waiting :: "'c Session \<Rightarrow> cursor_run list" where
  "waiting s = concat (map (\<lambda>t. filter is_waiting (wt_cursors t)) (se_tasks s))"

lemma waiting_set_task:
  "t < length (se_tasks s) \<Longrightarrow>
     length (waiting (set_task t stream s)) + length (filter is_waiting (wt_cursors (se_tasks s ! t))) =
     length (waiting s) + length (filter is_waiting (wt_cursors stream))"
  using arg_cong [OF mset_concat_update [of t "se_tasks s" "\<lambda>t. filter is_waiting (wt_cursors t)" stream], of size]
  by (simp add: waiting_def set_task_def del: mset_filter)

lemma job_step_ok:
  assumes "conn_ok conn" "wc_session conn = Some s" "t < length (se_tasks s)"
    and "wt_jobs (se_tasks s ! t) = (tag, job) # jobs" "run_job env now job (se_tasks s ! t) = Some (r, stream)"
  shows "conn_ok (conn\<lparr>wc_session := Some (set_task t (stream\<lparr>wt_jobs := jobs\<rparr>) s),
      wc_responses := resolve tag r (wc_responses conn)\<rparr>)"
    and "Suc (length (queued (set_task t (stream\<lparr>wt_jobs := jobs\<rparr>) s))) = length (queued s)"
    and "length (waiting (set_task t (stream\<lparr>wt_jobs := jobs\<rparr>) s)) \<le> Suc (length (waiting s))"
proof -
  define s' where "s' = set_task t (stream\<lparr>wt_jobs := jobs\<rparr>) s"
  have ok: "session_ok s" "mset (awaited (wc_responses conn)) = mset (queued s)" "distinct (queued s)"
    "\<forall>t \<in> set (queued s). t < wc_next conn"
    using assms(1,2) by (simp_all add: conn_ok_def)
  note ran = run_job_ok [OF assms(5) session_okD(4) [OF ok(1) assms(3)]]
  have s': "session_ok s'" using ran by (simp add: s'_def session_ok_set_task ok(1))
  have queue: "add_mset tag (mset (queued s')) = mset (queued s)"
    using queued_set_task [OF assms(3), of "stream\<lparr>wt_jobs := jobs\<rparr>"] assms(4) by (simp add: s'_def)
  have distinct: "distinct (tag # queued s')"
    using queue ok(3) mset_eq_imp_distinct_iff [of "tag # queued s'" "queued s"] by simp
  have subset: "set (queued s') \<subseteq> set (queued s)" using arg_cong [OF queue, of set_mset] by auto
  have "distinct (awaited (wc_responses conn))" using ok(2,3) mset_eq_imp_distinct_iff by blast
  then have "mset (awaited (resolve tag r (wc_responses conn))) = mset (awaited (wc_responses conn)) - {#tag#}"
    unfolding awaited_resolve by (rule mset_filter_distinct)
  also have "\<dots> = mset (queued s')" using ok(2) queue [symmetric] by simp
  finally have "mset (awaited (resolve tag r (wc_responses conn))) = mset (queued s')" .
  then show "conn_ok (conn\<lparr>wc_session := Some s', wc_responses := resolve tag r (wc_responses conn)\<rparr>)"
    using s' distinct subset ok(4) by (auto simp: conn_ok_def)
  show "Suc (length (queued s')) = length (queued s)" using arg_cong [OF queue, of size] by simp
  show "length (waiting s') \<le> Suc (length (waiting s))"
    using waiting_set_task [OF assms(3), of "stream\<lparr>wt_jobs := jobs\<rparr>"] ran by (simp add: s'_def)
qed

lemma cursor_step_ok:
  assumes "conn_ok conn" "wc_session conn = Some s" "t < length (se_tasks s)"
    and "i < length (wt_cursors (se_tasks s ! t))" "wt_cursors (se_tasks s ! t) ! i = CursorWaiting auth pgm"
    and s': "s' = set_task t ((se_tasks s ! t)
      \<lparr>wt_db := Some db', wt_cursors := (wt_cursors (se_tasks s ! t))[i := CursorEntries es]\<rparr>) s"
  shows "conn_ok (conn\<lparr>wc_session := Some s'\<rparr>)" and "length (queued s') = length (queued s)"
    and "Suc (length (waiting s')) = length (waiting s)"
proof -
  have ok: "session_ok s" "mset (awaited (wc_responses conn)) = mset (queued s)" "distinct (queued s)"
    "\<forall>t \<in> set (queued s). t < wc_next conn"
    using assms(1,2) by (simp_all add: conn_ok_def)
  define stream where "stream = (se_tasks s ! t)
    \<lparr>wt_db := Some db', wt_cursors := (wt_cursors (se_tasks s ! t))[i := CursorEntries es]\<rparr>"
  have s'': "s' = set_task t stream s" by (simp add: s' stream_def)
  have "stream_ok stream" using session_okD(4) [OF ok(1) assms(3)] by (simp add: stream_ok_def stream_def)
  then have "session_ok s'" unfolding s'' by (rule session_ok_set_task [OF ok(1)])
  moreover have queue: "mset (queued s') = mset (queued s)"
    using queued_set_task [OF assms(3), of stream] by (simp add: s'' stream_def)
  moreover have "distinct (queued s')" using mset_eq_imp_distinct_iff [OF queue] ok(3) by simp
  moreover have "set (queued s') = set (queued s)" by (rule mset_eq_setD [OF queue])
  ultimately show "conn_ok (conn\<lparr>wc_session := Some s'\<rparr>)" using ok by (simp add: conn_ok_def)
  show "length (queued s') = length (queued s)" by (rule mset_eq_length [OF queue])
  have "Suc (length (filter is_waiting (wt_cursors stream))) = length (filter is_waiting (wt_cursors (se_tasks s ! t)))"
    using waiting_update [OF _ assms(4), of "CursorEntries es"] assms(5) by (simp add: stream_def)
  then show "Suc (length (waiting s')) = length (waiting s)"
    using waiting_set_task [OF assms(3), of stream] by (simp add: s'')
qed

lemma response_step_ok:
  assumes "conn_ok conn" "wc_responses conn = rs @ (i, Ready r) # rs'"
  shows "conn_ok (conn\<lparr>wc_responses := rs @ rs'\<rparr>)"
  using assms by (auto simp: conn_ok_def split: option.splits)

lemma poll_response_ids: "poll_response i r = Inr m \<Longrightarrow> response_ids [OutMsg m] = [i]"
  by (auto simp: poll_response_def split: sum.splits)

inductive_cases ws_stepE [consumes 1, case_names msg recv_error response job cursor]: "ws_step server env y e y'"

interpretation hrana_ws: inductive_invariant ws_init "ws_step server env" ws_inv
proof
  fix y :: "'a ws_sys"
  show "ws_inv y" if "ws_init y" using that by (auto simp: ws_init_def ws_inv_def)
next
  fix y y' :: "'a ws_sys" and e
  assume inv: "ws_inv y" and step: "ws_step server env y e y'"
  from step show "ws_inv y'"
  proof (cases rule: ws_stepE)
    case (msg made m status conn)
    obtain r conn1 where handled: "handle_msg server (he_parser env) made m (wy_conn y) = (r, conn1)" by (rule prod.exhaust)
    show ?thesis using msg inv handle_msg_ok [OF handled] handled
      by (auto simp: ws_inv_def after_msg_def simp del: mset_map split: msg_result.splits hrana_error.splits)
  next
    case (response rs request_id r rs' status conn)
    then show ?thesis using inv response_step_ok [of "wy_conn y"]
      by (auto simp: ws_inv_def after_response_def dest!: poll_response_ids split: sum.splits)
  next
    case (job s t tag job jobs now r stream)
    then show ?thesis using inv job_step_ok(1) [OF _ job(4-7)] by (simp add: ws_inv_def)
  next
    case (cursor s t i auth pgm db now r db' sent)
    then show ?thesis using inv cursor_step_ok(1) [OF _ cursor(4-7) refl] by (simp add: ws_inv_def)
  qed (use inv in \<open>simp add: ws_inv_def\<close>)
qed

section \<open>Progress\<close>

text \<open>
  The steps that the server takes by itself each use up some of the work it has: a job counts twice,
  as it may start the program of a cursor.
\<close>

fun internal :: "'c ws_event \<Rightarrow> bool" where
  "internal (EvMsg made m) = False"
| "internal (EvRecvError e) = False"
| "internal _ = True"

definition work :: "'c ws_sys \<Rightarrow> nat" where
  "work y = (case wc_session (wy_conn y) of
      None \<Rightarrow> 0 | Some s \<Rightarrow> 2 * length (queued s) + length (waiting s)) + length (wc_responses (wy_conn y))"

inductive ws_run :: "'k ws_server \<Rightarrow> 'c hrana_env \<Rightarrow> 'c ws_sys \<Rightarrow> 'c ws_event list \<Rightarrow> 'c ws_sys \<Rightarrow> bool"
  for server env where
  ws_run_nil: "ws_run server env y [] y"
| ws_run_cons: "ws_step server env y e y' \<Longrightarrow> ws_run server env y' es y'' \<Longrightarrow> ws_run server env y (e # es) y''"

lemma resolve_length [simp]: "length (resolve tag r rs) = length rs"
  by (metis length_map resolve_ids)

lemma after_response_conn:
  "after_response r conn = (status, conn') \<Longrightarrow> wc_session conn' = wc_session conn \<and> wc_responses conn' = wc_responses conn"
  by (auto simp: after_response_def ws_send_def split: sum.splits)

lemma internal_step_works:
  assumes "ws_inv y" "ws_step server env y e y'" "internal e"
  shows "work y' < work y \<and> wy_requests y' = wy_requests y"
  using assms(2)
proof (cases rule: ws_stepE)
  case (response rs request_id r rs' status conn)
  then show ?thesis using after_response_conn [OF response(5)] by (simp add: work_def)
next
  case (job s t tag job jobs now r stream)
  then show ?thesis using job_step_ok(2,3) [OF _ job(4-7)] assms(1) by (simp add: work_def ws_inv_def)
next
  case (cursor s t i auth pgm db now r db' sent)
  have "conn_ok (wy_conn y)" using assms(1) by (simp add: ws_inv_def)
  note ok = cursor_step_ok(2,3) [OF this cursor(4-7) refl, of "case r of Inl e \<Rightarrow> sent @ [e] | Inr es \<Rightarrow> es" db']
  show ?thesis using cursor ok by (simp add: work_def)
qed (use assms(3) in auto)

lemma run_job_waits:
  assumes "run_job env now job stream = None" "stream_ok stream"
  shows "\<exists>i auth pgm db. i < length (wt_cursors stream) \<and> wt_cursors stream ! i = CursorWaiting auth pgm \<and>
    wt_db stream = Some db"
proof (cases job)
  case (JobFetchCursor c n m)
  then obtain i where "wt_cursor_hnd stream = Some i" using assms(1) by (auto split: option.splits)
  moreover from this have "i < length (wt_cursors stream)" "wt_db stream \<noteq> None"
    using assms(2) by (auto simp: stream_ok_def)
  ultimately show ?thesis
    using assms(1) JobFetchCursor by (cases "wt_cursors stream ! i") (auto split: prod.splits)
qed (use assms(1) in auto)

lemma queued_job:
  assumes "tag \<in> set (queued s)"
  shows "\<exists>t tag job jobs. t < length (se_tasks s) \<and> wt_jobs (se_tasks s ! t) = (tag, job) # jobs"
proof -
  obtain stream job where "stream \<in> set (se_tasks s)" "(tag, job) \<in> set (wt_jobs stream)"
    using assms by (auto simp: queued_def)
  moreover from this(2) have "wt_jobs stream \<noteq> []" by auto
  ultimately show ?thesis by (metis in_set_conv_nth list.exhaust prod.exhaust)
qed

lemma job_makes_progress:
  assumes "ws_inv y" "wy_status y = WsOpen" "wc_session (wy_conn y) = Some s" "tag \<in> set (queued s)"
  shows "\<exists>e y'. internal e \<and> ws_step server env y e y'"
proof -
  obtain t tag job jobs where t: "t < length (se_tasks s)" and jobs: "wt_jobs (se_tasks s ! t) = (tag, job) # jobs"
    using queued_job [OF assms(4)] by blast
  have ok: "stream_ok (se_tasks s ! t)"
    using assms(1,3) t by (auto simp: ws_inv_def conn_ok_def dest: session_okD(4))
  show ?thesis
  proof (cases "run_job env 0 job (se_tasks s ! t)")
    case None
    obtain i auth pgm db where i: "i < length (wt_cursors (se_tasks s ! t))"
      "wt_cursors (se_tasks s ! t) ! i = CursorWaiting auth pgm" "wt_db (se_tasks s ! t) = Some db"
      using run_job_waits [OF None ok] by (elim exE conjE) (rule that)
    obtain r db' where "run_cursor (he_sqlite env) (he_lib env) 0 auth pgm db = (r, db')" by (rule prod.exhaust)
    from ws_cursor [OF assms(2,3) t i this refl] show ?thesis by (meson internal.simps)
  next
    case (Some x)
    obtain r stream where "x = (r, stream)" by (rule prod.exhaust)
    with ws_job [OF assms(2,3) t jobs, of env 0 r stream] Some show ?thesis by (meson internal.simps)
  qed
qed

lemma pending_makes_progress:
  assumes "ws_inv y" "wy_status y = WsOpen" "wc_responses (wy_conn y) \<noteq> []"
  shows "\<exists>e y'. internal e \<and> ws_step server env y e y'"
proof -
  obtain i x rs where responses: "wc_responses (wy_conn y) = (i, x) # rs" using assms(3) by (metis list.exhaust prod.exhaust)
  show ?thesis
  proof (cases x)
    case (Ready r)
    obtain status conn where "after_response (poll_response i r) ((wy_conn y)\<lparr>wc_responses := [] @ rs\<rparr>) = (status, conn)"
      by (rule prod.exhaust)
    from ws_response [OF assms(2) _ this] responses Ready show ?thesis by (metis append_Nil internal.simps(3))
  next
    case (Awaits tag)
    obtain s where s: "wc_session (wy_conn y) = Some s" "mset (awaited (wc_responses (wy_conn y))) = mset (queued s)"
      using assms(1,3) by (auto simp: ws_inv_def conn_ok_def split: option.splits)
    then have "tag \<in> set (queued s)" using responses Awaits mset_eq_setD by fastforce
    then show ?thesis by (rule job_makes_progress [OF assms(1,2) s(1)])
  qed
qed

lemma internal_run:
  assumes "ws_run server env y es y'" "ws_inv y" "list_all internal es"
  shows "length es + work y' \<le> work y \<and> ws_inv y' \<and> wy_requests y' = wy_requests y"
  using assms
proof (induction rule: ws_run.induct)
  case (ws_run_cons y e y' es y'')
  then have "ws_inv y'" using hrana_ws.inv_step by blast
  then show ?case using ws_run_cons internal_step_works [OF ws_run_cons.prems(1) ws_run_cons.hyps(1)] by auto
qed simp

section \<open>The subprotocol\<close>

text \<open>The server takes its first choice among the subprotocols that the client offers, which has the newest version.\<close>

definition offered :: "string list \<Rightarrow> Subproto \<Rightarrow> bool" where
  "offered clients s \<longleftrightarrow> list_ex (\<lambda>c. eq_ignore_ascii_case c (subproto_str s)) clients"

lemma select_subproto_newest:
  assumes "select_subproto clients server_subprotos = r"
  shows "case r of
      None \<Rightarrow> \<forall>s. \<not> offered clients s
    | Some s \<Rightarrow> offered clients s \<and> (\<forall>s'. offered clients s' \<longrightarrow> fst (version_encoding s') \<le> fst (version_encoding s))"
proof -
  have subprotos: "(\<forall>s. P s) \<longleftrightarrow> P SubHrana1 \<and> P SubHrana2 \<and> P SubHrana3 \<and> P SubHrana3Protobuf" for P
    by (metis Subproto.exhaust)
  show ?thesis unfolding assms [symmetric]
    by (auto simp: server_subprotos_def subprotos offered_def less_eq_Version_def split: option.splits)
qed

section \<open>Fetching from a cursor\<close>

text \<open>The pages that successive fetches give, each with its limit on the number of entries.\<close>

fun fetch_pages ::
  "u64 \<Rightarrow> nat list \<Rightarrow> (hrana_error + SizedEntry) list
     \<Rightarrow> (hrana_error + (CursorEntry list \<times> bool) list) \<times> (hrana_error + SizedEntry) list" where
  "fetch_pages max_total_size [] es = (Inr [], es)"
| "fetch_pages max_total_size (n # ns) es =
     (case fetch_loop n max_total_size 0 0 es of
        (Inl e, rest) \<Rightarrow> (Inl e, rest)
      | (Inr page, rest) \<Rightarrow>
          (case fetch_pages max_total_size ns rest of
             (Inl e, rest) \<Rightarrow> (Inl e, rest)
           | (Inr pages, rest) \<Rightarrow> (Inr (page # pages), rest)))"

lemma fetch_loop_page:
  assumes "fetch_loop m lim n total_size es = (Inr (page, don), rest)" and g: "\<And>e. g (Inr e) = Inr (se_entry e)"
  shows "map g es = map Inr page @ map g rest \<and> length page \<le> m - n \<and>
    (don \<longrightarrow> rest = []) \<and> (n < m \<and> total_size < lim \<longrightarrow> page \<noteq> [] \<or> don)"
  using assms(1)
proof (induction m lim n total_size es arbitrary: page rule: fetch_loop.induct)
  case (3 m lim n total_size e es)
  show ?case
  proof (cases "n < m \<and> total_size < lim")
    case True
    then obtain page' where "fetch_loop m lim (Suc n) (total_size + se_size e) es = (Inr (page', don), rest)"
      "page = se_entry e # page'"
      using "3.prems" by (auto split: prod.splits sum.splits)
    then show ?thesis using "3.IH" [OF True] True by (auto simp: g)
  qed (use "3.prems" in auto)
qed (auto split: if_splits)

lemma fetch_pages_in_order:
  assumes "fetch_pages lim ns es = (Inr pages, rest)" and g: "\<And>e. g (Inr e) = Inr (se_entry e)"
  shows "map g es = map Inr (concat (map fst pages)) @ map g rest \<and>
    list_all2 (\<lambda>n (page, don). length page \<le> n \<and> (0 < n \<and> 0 < lim \<longrightarrow> page \<noteq> [] \<or> don)) ns pages \<and>
    (list_ex snd pages \<longrightarrow> rest = [])"
  using assms(1)
proof (induction ns arbitrary: es pages)
  case (Cons n ns)
  obtain page don rest' pages' where loop: "fetch_loop n lim 0 0 es = (Inr (page, don), rest')"
    and pages: "fetch_pages lim ns rest' = (Inr pages', rest)" "pages = (page, don) # pages'"
    using Cons.prems by (auto split: prod.splits sum.splits)
  note page = fetch_loop_page [OF loop, of g, OF g] and IH = Cons.IH [OF pages(1)]
  have "rest = []" if don using page IH that by auto
  then show ?case using page IH pages(2) by auto
qed simp

text \<open>
  An error of the protocol in a request comes with its response and ends the connection without a close
  frame, while one in a message is sent in the close frame.
\<close>

lemma refused_request_ends_without_close:
  "after_response (poll_response i (Inl (WsOther (HeProtocol e)))) conn = (WsFailed (HeProtocol e), conn)"
  "wc_ws_closed conn = False \<Longrightarrow> after_msg (MsgError (HeProtocol e), conn) =
     (WsClosed, (ws_send (OutClose (protocol_error_to_close_code e) (protocol_error_message e)) conn)\<lparr>wc_ws_closed := True\<rparr>)"
  by (simp_all add: after_response_def poll_response_def after_msg_def ws_close_def)

section \<open>Properties\<close>

text \<open>
  Sessions are sound (C12): a connection never fails an assertion. The cursors it has registered and
  the streams that have them open correspond, at most 150 SQL texts are stored, and while it is open
  every request it received is either answered once, under its own id, or among the pending responses.
\<close>

theorem ws_sessions_are_sound:
  assumes "reach ws_init (ws_step server env) y"
  shows "wy_status y \<noteq> WsPanicked \<and>
    (\<forall>s. wc_session (wy_conn y) = Some s \<longrightarrow> length (se_sqls s) \<le> 150 \<and>
       (\<forall>c i. se_cursors s c = Some i \<longleftrightarrow> (\<exists>h. se_streams s i = Some h \<and> sh_cursor_id h = Some c))) \<and>
    (wy_status y = WsOpen \<longrightarrow>
       mset (wy_requests y) = mset (response_ids (wc_out (wy_conn y))) + mset (map fst (wc_responses (wy_conn y))))"
proof -
  have inv: "ws_inv y" using assms by (rule hrana_ws.reach_inv)
  then have "session_ok s" if "wc_session (wy_conn y) = Some s" for s
    using that by (simp add: ws_inv_def conn_ok_def)
  then show ?thesis using inv by (auto simp: ws_inv_def session_ok_def paired_def WS_MAX_SQL_COUNT_def)
qed


definition sample_ws_server :: "nat ws_server" where
  "sample_ws_server =
     \<lparr> ws_decode = (\<lambda>_ _. Inl InvalidToken), ws_auth = \<lparr> auth_disabled = True, auth_http_basic = None, auth_jwt_key = None \<rparr>,
       ws_max_response_size = 1024 \<rparr>"

definition sample_ws_state ::
  "(int \<times> pending) list \<Rightarrow> (int \<rightharpoonup> StreamHandle) \<Rightarrow> (bool \<times> nat) ws_stream list \<Rightarrow> ws_out list \<Rightarrow> int list
     \<Rightarrow> (bool \<times> nat) ws_sys" where
  "sample_ws_state responses streams tasks outs requests =
     \<lparr> wy_status = WsOpen,
       wy_conn = \<lparr> wc_ws_closed = False, wc_version = Hrana3, wc_encoding = EncodingJson,
         wc_session = Some \<lparr> se_authenticated = Authorized FullAccess, se_version = Hrana3, se_streams = streams,
           se_sqls = [], se_cursors = Map.empty, se_tasks = tasks \<rparr>,
         wc_responses = responses, wc_next = length requests, wc_out = outs \<rparr>,
       wy_requests = requests \<rparr>"

definition sample_ws_stream ::
  "(bool \<times> nat) Connection option \<Rightarrow> (nat \<times> (bool \<times> nat) ws_job) list \<Rightarrow> (bool \<times> nat) ws_stream" where
  "sample_ws_stream db jobs =
     \<lparr> wt_stream_id = 1, wt_db = db, wt_cursor_hnd = None, wt_cursors = [], wt_jobs = jobs \<rparr>"

definition sample_ws_streams :: "int \<rightharpoonup> StreamHandle" where
  "sample_ws_streams = [1 \<mapsto> \<lparr> sh_task = 0, sh_cursor_id = None \<rparr>]"

text \<open>A hello, a stream and a question about it; then the two jobs and the two responses.\<close>

definition sample_ws_pending :: "(bool \<times> nat) ws_sys" where
  "sample_ws_pending = sample_ws_state [(10, Awaits 0), (11, Awaits 1)] sample_ws_streams
     [sample_ws_stream None [(0, JobOpen (Inr sample_connection)), (1, JobGetAutocommit)]] [OutMsg SmHelloOk] [10, 11]"

lemmas sample_ws_defs = sample_ws_state_def sample_ws_stream_def sample_ws_streams_def sample_ws_server_def

lemma ws_msgI:
  "wy_status y = WsOpen \<Longrightarrow> wy_requests y' = wy_requests y @ message_requests m \<Longrightarrow>
     after_msg (handle_msg server (he_parser env) made m (wy_conn y)) = (wy_status y', wy_conn y') \<Longrightarrow>
     ws_step server env y (EvMsg made m) y'"
  using ws_msg [of y server env made m "wy_status y'" "wy_conn y'"] by (cases y') simp

lemma sample_ws_reached: "reach ws_init (ws_step sample_ws_server sample_hrana_env) sample_ws_pending"
proof -
  let ?made = "Inr sample_connection"
  let ?step = "ws_step sample_ws_server sample_hrana_env"
  have 0: "reach ws_init ?step \<lparr> wy_status = WsOpen, wy_conn = conn_new Hrana3 EncodingJson, wy_requests = [] \<rparr>"
    by (rule reach_init) (auto simp: ws_init_def)
  have 1: "reach ws_init ?step (sample_ws_state [] Map.empty [] [OutMsg SmHelloOk] [])"
    by (rule reach_step [OF 0], rule ws_msgI [where m = "WmText (Inr (CmHello None))" and made = ?made])
      (simp_all add: sample_ws_defs handle_hello_msg_def handle_initial_hello_def authenticate_jwt_def conn_new_def
        after_msg_def ws_send_def)
  have 2: "reach ws_init ?step (sample_ws_state [(10, Awaits 0)] sample_ws_streams
      [sample_ws_stream None [(0, JobOpen ?made)]] [OutMsg SmHelloOk] [10])"
    by (rule reach_step [OF 1], rule ws_msgI [where m = "WmText (Inr (CmRequest 10 (Some (WrqOpenStream 1))))" and made = ?made])
      (simp_all add: sample_ws_defs handle_request_msg_def stream_spawn_def stream_respond_def after_msg_def)
  show ?thesis unfolding sample_ws_pending_def
    by (rule reach_step [OF 2], rule ws_msgI [where m = "WmText (Inr (CmRequest 11 (Some (WrqGetAutocommit 1))))" and made = ?made])
      (simp_all add: sample_ws_defs handle_request_msg_def need_version_def on_stream_def ws_job_def stream_respond_def
        less_Version_def after_msg_def)
qed

lemma sample_ws_job:
  assumes "run_job sample_hrana_env 0 job (sample_ws_stream db ((tag, job) # jobs)) =
    Some (r, sample_ws_stream db' ((tag, job) # jobs))"
  shows "ws_step sample_ws_server sample_hrana_env
    (sample_ws_state rs streams [sample_ws_stream db ((tag, job) # jobs)] outs requests) (EvJob 0 0)
    (sample_ws_state (resolve tag r rs) streams [sample_ws_stream db' jobs] outs requests)"
proof -
  let ?y = "sample_ws_state rs streams [sample_ws_stream db ((tag, job) # jobs)] outs requests"
  obtain s where s: "wc_session (wy_conn ?y) = Some s" "se_tasks s = [sample_ws_stream db ((tag, job) # jobs)]"
    by (simp add: sample_ws_state_def)
  have "ws_step sample_ws_server sample_hrana_env ?y (EvJob 0 0)
      (?y\<lparr>wy_conn := (wy_conn ?y)\<lparr>wc_session := Some (set_task 0 ((sample_ws_stream db' ((tag, job) # jobs))\<lparr>wt_jobs := jobs\<rparr>) s),
         wc_responses := resolve tag r (wc_responses (wy_conn ?y))\<rparr>\<rparr>)"
    by (rule ws_job [OF _ s(1)]) (use assms in \<open>simp_all add: s(2) sample_ws_state_def sample_ws_stream_def\<close>)
  then show ?thesis using s by (auto simp: sample_ws_state_def sample_ws_stream_def set_task_def)
qed

lemma sample_ws_answered:
  "ws_run sample_ws_server sample_hrana_env sample_ws_pending [EvJob 0 0, EvJob 0 0, EvResponse 0, EvResponse 0]
     (sample_ws_state [] sample_ws_streams [sample_ws_stream (Some sample_connection) []]
        [OutMsg SmHelloOk, OutMsg (SmResponseOk 10 WrpOpenStream), OutMsg (SmResponseOk 11 (WrpGetAutocommit True))] [10, 11])"
proof -
  let ?step = "ws_step sample_ws_server sample_hrana_env"
  let ?open = "sample_ws_stream (Some sample_connection)"
  let ?s = "\<lambda>rs tasks outs. sample_ws_state rs sample_ws_streams tasks outs [10, 11]"
  have 1: "?step sample_ws_pending (EvJob 0 0)
      (?s [(10, Ready (Inr WrpOpenStream)), (11, Awaits 1)] [?open [(1, JobGetAutocommit)]] [OutMsg SmHelloOk])"
    using sample_ws_job [of "JobOpen (Inr sample_connection)" None 0 "[(1, JobGetAutocommit)]" "Inr WrpOpenStream"
        "Some sample_connection" "[(10, Awaits 0), (11, Awaits 1)]" sample_ws_streams "[OutMsg SmHelloOk]" "[10, 11]"]
    by (simp add: sample_ws_pending_def) (simp add: sample_ws_stream_def)
  have 2: "?step (?s [(10, Ready (Inr WrpOpenStream)), (11, Awaits 1)] [?open [(1, JobGetAutocommit)]] [OutMsg SmHelloOk]) (EvJob 0 0)
      (?s [(10, Ready (Inr WrpOpenStream)), (11, Ready (Inr (WrpGetAutocommit True)))] [?open []] [OutMsg SmHelloOk])"
    using sample_ws_job [of JobGetAutocommit "Some sample_connection" 1 "[]" "Inr (WrpGetAutocommit True)"
        "Some sample_connection" "[(10, Ready (Inr WrpOpenStream)), (11, Awaits 1)]" sample_ws_streams "[OutMsg SmHelloOk]" "[10, 11]"]
    by (simp add: sample_ws_stream_def ws_on_db_def libsql_is_autocommit_def sample_hrana_env_def hrana_run_defs)
  have 3: "?step (?s ((i, Ready (Inr r)) # rs) tasks outs) (EvResponse 0) (?s rs tasks (outs @ [OutMsg (SmResponseOk i r)]))"
    for i r rs tasks outs
    using ws_response [of "?s ((i, Ready (Inr r)) # rs) tasks outs" "[]" i "Inr r" rs WsOpen
        "wy_conn (?s rs tasks (outs @ [OutMsg (SmResponseOk i r)]))" sample_ws_server sample_hrana_env]
    by (simp add: sample_ws_state_def after_response_def poll_response_def ws_send_def)
  show ?thesis
    by (rule ws_run_cons [OF 1], rule ws_run_cons [OF 2], rule ws_run_cons [OF 3], rule ws_run_cons [OF 3])
      (simp add: ws_run_nil)
qed

theorem ws_sessions_are_sound_witness:
  "reach ws_init (ws_step sample_ws_server sample_hrana_env) sample_ws_pending \<and>
   mset (wy_requests sample_ws_pending) = {#10, 11#} \<and>
   mset (map fst (wc_responses (wy_conn sample_ws_pending))) = {#10, 11#} \<and> wy_status sample_ws_pending \<noteq> WsPanicked"
  using ws_sessions_are_sound [OF sample_ws_reached] sample_ws_reached
  by (simp add: sample_ws_pending_def sample_ws_state_def)




end
