(* ===== verification/Dump.thy ===== *)
theory Dump
  imports Errors QueryAnalysis
begin

text \<open>
  The SQL dump of a database (\<^verbatim>\<open>sqld/src/connection/dump/exporter.rs\<close>): quoted names, escaped texts,
  blobs, the rows of a table and the statements around them. What SQLite answers to the queries of the
  dump, its keywords, the Unicode classes of characters and the printing of floats are arguments. The
  lemmas read the printed values back the way SQLite reads them.
\<close>

section \<open>Values\<close>

abbreviation quote_char :: char where "quote_char \<equiv> CHR 0x27"
abbreviation newline :: char where "newline \<equiv> CHR 0x0A"
abbreviation carriage :: char where "carriage \<equiv> CHR 0x0D"

fun contains :: "string \<Rightarrow> string \<Rightarrow> bool" where
  "contains [] needle = (needle = [])"
| "contains (c # cs) needle = (take (length needle) (c # cs) = needle \<or> contains cs needle)"

definition numbered_needle :: "string \<Rightarrow> nat \<Rightarrow> string" where
  "numbered_needle needle1 i = ''('' @ needle1 @ show_nat i @ '')''"

partial_function (option) unused_loop :: "string \<Rightarrow> string \<Rightarrow> nat \<Rightarrow> string option" where
  "unused_loop haystack needle1 i =
     (if \<not> contains haystack (numbered_needle needle1 i) then Some (numbered_needle needle1 i)
      else unused_loop haystack needle1 (Suc i))"

definition find_unused_str :: "string \<Rightarrow> string \<Rightarrow> string \<Rightarrow> string option" where
  "find_unused_str haystack needle1 needle2 =
     (if \<not> contains haystack needle1 then Some needle1
      else if \<not> contains haystack needle2 then Some needle2
      else unused_loop haystack needle1 0)"

definition special :: "char \<Rightarrow> bool" where
  "special c \<longleftrightarrow> c = quote_char \<or> c = newline \<or> c = carriage"

text \<open>The loop over the parts that end with a special character; None where the code unwraps no token.\<close>

function (sequential) escape_loop :: "string option \<Rightarrow> string option \<Rightarrow> string \<Rightarrow> string option" where
  "escape_loop nl cr [] = Some []"
| "escape_loop nl cr s =
     (let start = takeWhile (\<lambda>c. \<not> special c) s
      in case dropWhile (\<lambda>c. \<not> special c) s of
           [] \<Rightarrow> Some start
         | c # remaining \<Rightarrow>
             (case (if c = newline then map_option (\<lambda>t. start @ t) nl
                    else if c = carriage then map_option (\<lambda>t. start @ t) cr
                    else Some (start @ [quote_char, quote_char])) of
                None \<Rightarrow> None
              | Some out \<Rightarrow> map_option (\<lambda>x. out @ x) (escape_loop nl cr remaining)))"
  by pat_completeness auto

termination
proof (relation "measure (\<lambda>(nl, cr, s). length s)")
  fix nl cr :: "string option" and v va start c remaining out
  assume "dropWhile (\<lambda>c. \<not> special c) (v # va) = c # remaining"
  then have "length (c # remaining) \<le> length (v # va)" by (metis length_dropWhile_le)
  then show "((nl, cr, remaining), nl, cr, v # va) \<in> measure (\<lambda>(nl, cr, s). length s)" by simp
qed simp

text \<open>The literal of a text, with the tokens that stand for its newlines and carriage returns.\<close>

definition escaped :: "string \<Rightarrow> string option" where
  "escaped s =
     (if length (takeWhile (\<lambda>c. \<not> special c) s) = length s then Some ([quote_char] @ s @ [quote_char])
      else
        (case (if newline \<in> set s then map_option Some (find_unused_str s [CHR 0x5C, CHR ''n''] (CHR 0x5C # ''012'')) else Some None) of
           None \<Rightarrow> None
         | Some nl \<Rightarrow>
             (case (if carriage \<in> set s then map_option Some (find_unused_str s [CHR 0x5C, CHR ''r''] (CHR 0x5C # ''015'')) else Some None) of
                None \<Rightarrow> None
              | Some cr \<Rightarrow>
                  map_option
                    (\<lambda>body.
                       (if nl \<noteq> None then ''replace('' else []) @ (if cr \<noteq> None then ''replace('' else []) @
                       [quote_char] @ body @ [quote_char] @
                       (case cr of None \<Rightarrow> [] | Some t \<Rightarrow> '','' @ [quote_char] @ t @ [quote_char] @ '',char(13))'') @
                       (case nl of None \<Rightarrow> [] | Some t \<Rightarrow> '','' @ [quote_char] @ t @ [quote_char] @ '',char(10))''))
                    (escape_loop nl cr s))))"

text \<open>The conversion of a float to an unsigned integer: truncated towards 0, saturated, 0 for what is not a number.\<close>

definition f64_as_u64 :: "f64 \<Rightarrow> u64" where
  "f64_as_u64 x =
     (let w = unat x; e = w div 2 ^ 52 mod 2 ^ 11; m = w mod 2 ^ 52
      in if 2 ^ 63 \<le> w then 0
         else if e = 2047 then (if m = 0 then 2 ^ 64 - 1 else 0)
         else (let v = (if e = 0 then m * 2 else (m + 2 ^ 52) * 2 ^ e) div 2 ^ 1075
               in if 2 ^ 64 \<le> v then 2 ^ 64 - 1 else word_of_nat v))"

definition blob_literal :: "byte list \<Rightarrow> string" where
  "blob_literal data =
     ''X'' @ [quote_char] @
     concat (map (\<lambda>b. [''0123456789abcdef'' ! (unat b div 16 mod 16), ''0123456789abcdef'' ! (unat b mod 16)]) data) @
     [quote_char]"

text \<open>
  What the dump needs of other code: the printing of floats, the Unicode classes of characters and
  the keywords of SQLite.
\<close>

record dump_lib =
  dl_show_f64 :: "f64 \<Rightarrow> string"
  dl_alphabetic :: "nat \<Rightarrow> bool"
  dl_alphanumeric :: "nat \<Rightarrow> bool"
  dl_keyword :: "string \<Rightarrow> bool"

datatype dump_error = DumpUtf8 | DumpBail string | DumpSqlite string | DumpPanic

definition write_value_ref :: "dump_lib \<Rightarrow> ValueRef \<Rightarrow> dump_error + string" where
  "write_value_ref lib val =
     (case val of
        RefNull \<Rightarrow> Inr ''NULL''
      | RefInteger i \<Rightarrow> Inr (show_int (sint i))
      | RefReal x \<Rightarrow>
          (let as_u64 = f64_as_u64 x
           in if as_u64 = 0x7ff0000000000000 then Inr ''1e999''
              else if as_u64 = 0xfff0000000000000 then Inr ''-1e999''
              else Inr (dl_show_f64 lib x))
      | RefText s \<Rightarrow>
          if utf8_valid s then (case escaped (string_of_bytes s) of None \<Rightarrow> Inl DumpPanic | Some x \<Rightarrow> Inr x)
          else Inl DumpUtf8
      | RefBlob data \<Rightarrow> Inr (blob_literal data))"

section \<open>Statements\<close>

text \<open>The characters of a valid text as code points.\<close>

fun utf8_chars :: "string \<Rightarrow> nat list" where
  "utf8_chars [] = []"
| "utf8_chars (c # cs) =
     (let b = of_char c; k = (\<lambda>i. of_char (cs ! i) - 0x80)
      in if b < 0x80 then b # utf8_chars cs
         else if b < 0xE0 then ((b - 0xC0) * 64 + k 0) # utf8_chars (drop 1 cs)
         else if b < 0xF0 then ((b - 0xE0) * 4096 + k 0 * 64 + k 1) # utf8_chars (drop 2 cs)
         else ((b - 0xF0) * 262144 + k 0 * 4096 + k 1 * 64 + k 2) # utf8_chars (drop 3 cs))"

definition quoted :: "dump_lib \<Rightarrow> string \<Rightarrow> string" where
  "quoted lib s =
     (case utf8_chars s of
        [] \<Rightarrow> s
      | first # _ \<Rightarrow>
          if \<not> dl_alphabetic lib first \<and> first \<noteq> of_char (CHR ''_'') then [CHR 0x22] @ s @ [CHR 0x22]
          else if list_ex (\<lambda>c. \<not> dl_alphanumeric lib c \<and> c \<noteq> of_char (CHR ''_'')) (utf8_chars s)
          then [CHR 0x22] @ s @ [CHR 0x22]
          else if dl_keyword lib s then [CHR 0x22] @ s @ [CHR 0x22]
          else s)"

text \<open>
  What SQLite answers: the rows of a query, the columns of a table with their types and places in the
  primary key, whether a table has an index for its primary key, and whether a table has a column.
\<close>

type_synonym sql_rows = "(string + ValueRef list) list"

record dump_db =
  dd_setup :: "string + unit"
  dd_query :: "string \<Rightarrow> string + nat \<times> sql_rows"
  dd_table_info :: "string \<Rightarrow> string + (string \<times> ValueRef \<times> nat) list"
  dd_pk_index :: "string \<Rightarrow> string + bool"
  dd_has_column :: "string \<Rightarrow> string \<Rightarrow> bool"

record DumpState =
  ds_writable_schema :: bool
  ds_writer :: string

definition dump_write :: "string \<Rightarrow> DumpState \<Rightarrow> DumpState" where
  "dump_write s st = st\<lparr>ds_writer := ds_writer st @ s\<rparr>"

definition dump_writeln :: "string \<Rightarrow> DumpState \<Rightarrow> DumpState" where
  "dump_writeln s st = dump_write (s @ [newline]) st"

text \<open>The single integer column of the primary key, as the callback over the columns finds it.\<close>

definition integer_primary_key :: "(string \<times> ValueRef \<times> nat) list \<Rightarrow> bool" where
  "integer_primary_key cols =
     snd (fold (\<lambda>(name, ty, pk) (n, b).
            if pk \<noteq> 0 then (Suc n, Suc n = 1 \<and> ty = RefText (bytes_of_string ''INTEGER'')) else (n, b))
          cols (0 :: nat, False))"

definition ROW_ID_NAMES :: "string list" where
  "ROW_ID_NAMES = [''rowid'', ''_row_id_'', ''oid'']"

definition list_table_columns :: "dump_db \<Rightarrow> string \<Rightarrow> dump_error + string option \<times> string list" where
  "list_table_columns db table =
     (case dd_table_info db table of
        Inl e \<Rightarrow> Inl (DumpSqlite e)
      | Inr info \<Rightarrow>
          (let cols = map fst info
           in case (if integer_primary_key info then dd_pk_index db table else Inr False) of
                Inl e \<Rightarrow> Inl (DumpSqlite e)
              | Inr preserve_row_id \<Rightarrow>
                  Inr (if preserve_row_id
                       then find (\<lambda>n. n \<notin> set cols \<and> dd_has_column db table n) ROW_ID_NAMES
                       else None,
                       cols)))"

definition get_ref :: "ValueRef list \<Rightarrow> nat \<Rightarrow> dump_error + ValueRef" where
  "get_ref row i = (if i < length row then Inr (row ! i) else Inl (DumpSqlite ''Invalid column index''))"

text \<open>The values of a row from a position on, each after a comma but the first of all.\<close>

fun write_columns :: "dump_lib \<Rightarrow> bool \<Rightarrow> ValueRef list \<Rightarrow> nat list \<Rightarrow> dump_error + string" where
  "write_columns lib has_row_id row [] = Inr []"
| "write_columns lib has_row_id row (i # is) =
     (case get_ref row i of
        Inl e \<Rightarrow> Inl e
      | Inr v \<Rightarrow>
          (case write_value_ref lib v of
             Inl e \<Rightarrow> Inl e
           | Inr x \<Rightarrow>
               (case write_columns lib has_row_id row is of
                  Inl e \<Rightarrow> Inl e
                | Inr xs \<Rightarrow> Inr ((if i \<noteq> 0 \<or> has_row_id then '','' else []) @ x @ xs))))"

definition write_row :: "dump_lib \<Rightarrow> string \<Rightarrow> bool \<Rightarrow> nat \<Rightarrow> ValueRef list \<Rightarrow> dump_error + string" where
  "write_row lib ins has_row_id ncols row =
     (case (if has_row_id
            then (case get_ref row 0 of Inl e \<Rightarrow> Inl e | Inr v \<Rightarrow> write_value_ref lib v)
            else Inr []) of
        Inl e \<Rightarrow> Inl e
      | Inr x \<Rightarrow>
          (case write_columns lib has_row_id row [(if has_row_id then 1 else 0)..<ncols] of
             Inl e \<Rightarrow> Inl e
           | Inr xs \<Rightarrow> Inr (ins @ x @ xs @ '');'' @ [newline])))"

fun table_rows :: "dump_lib \<Rightarrow> string \<Rightarrow> bool \<Rightarrow> nat \<Rightarrow> sql_rows \<Rightarrow> DumpState \<Rightarrow> (dump_error + unit) \<times> DumpState" where
  "table_rows lib ins has_row_id ncols [] st = (Inr (), st)"
| "table_rows lib ins has_row_id ncols (Inl e # rows) st = (Inl (DumpSqlite e), st)"
| "table_rows lib ins has_row_id ncols (Inr row # rows) st =
     (case write_row lib ins has_row_id ncols row of
        Inl e \<Rightarrow> (Inl e, st)
      | Inr x \<Rightarrow> table_rows lib ins has_row_id ncols rows (dump_write x st))"

definition insert_text :: "dump_lib \<Rightarrow> string \<Rightarrow> string option \<Rightarrow> string list \<Rightarrow> string" where
  "insert_text lib table row_id_col cols =
     ''INSERT INTO '' @ quoted lib table @
     (case row_id_col of
        None \<Rightarrow> []
      | Some r \<Rightarrow> ''('' @ r @ concat (map (\<lambda>c. '','' @ quoted lib c) cols) @ '')'') @
     '' VALUES(''"

definition select_text :: "dump_lib \<Rightarrow> string \<Rightarrow> string option \<Rightarrow> string list \<Rightarrow> string" where
  "select_text lib table row_id_col cols =
     ''SELECT '' @ (case row_id_col of None \<Rightarrow> [] | Some r \<Rightarrow> r @ '','') @
     concat (case cols of [] \<Rightarrow> [] | c # cs \<Rightarrow> c # map (\<lambda>c. '','' @ c) cs) @ '' FROM '' @ quoted lib table"

definition dump_table :: "dump_lib \<Rightarrow> dump_db \<Rightarrow> byte list \<Rightarrow> DumpState \<Rightarrow> (dump_error + unit) \<times> DumpState" where
  "dump_table lib db table st =
     (if \<not> utf8_valid table then (Inl DumpUtf8, st)
      else
        (let table = string_of_bytes table
         in case list_table_columns db table of
              Inl e \<Rightarrow> (Inl e, st)
            | Inr (row_id_col, cols) \<Rightarrow>
                (case dd_query db (select_text lib table row_id_col cols) of
                   Inl e \<Rightarrow> (Inl (DumpSqlite e), st)
                 | Inr (_, rows) \<Rightarrow>
                     table_rows lib (insert_text lib table row_id_col cols) (row_id_col \<noteq> None) (length cols) rows st)))"

definition starts_with :: "byte list \<Rightarrow> string \<Rightarrow> bool" where
  "starts_with bs p \<longleftrightarrow> take (length p) bs = bytes_of_string p"

text \<open>
  A row of the schema. True is the end of the whole query, where the code returns from the loop.
\<close>

definition schema_row :: "dump_lib \<Rightarrow> dump_db \<Rightarrow> ValueRef list \<Rightarrow> DumpState \<Rightarrow> (dump_error + bool) \<times> DumpState" where
  "schema_row lib db row st =
     (case row of
        RefText table # RefText ty # RefText sql # _ \<Rightarrow>
          (let continue = (\<lambda>st.
             if ty = bytes_of_string ''table''
             then (case dump_table lib db table st of (Inl e, st) \<Rightarrow> (Inl e, st) | (Inr _, st) \<Rightarrow> (Inr False, st))
             else (Inr False, st))
           in if table = bytes_of_string ''sqlite_sequence'' then continue (dump_writeln ''DELETE FROM sqlite_sequence;'' st)
              else if starts_with table ''sqlite_stat'' then continue (dump_writeln ''ANALYZE sqlite_schema;'' st)
              else if starts_with table ''sqlite_'' then (Inr True, st)
              else if starts_with sql ''CREATE VIRTUAL TABLE''
              then
                (let st = (if ds_writable_schema st then st
                           else (dump_writeln ''PRAGMA writable_schema=ON;'' st)\<lparr>ds_writable_schema := True\<rparr>)
                 in if \<not> utf8_valid table \<or> \<not> utf8_valid sql then (Inl DumpUtf8, st)
                    else
                      (Inr True,
                       dump_writeln
                         (''INSERT INTO sqlite_schema(type,name,tbl_name,rootpage,sql) VALUES('' @
                          [quote_char] @ ''table'' @ [quote_char] @ '','' @ [quote_char] @ string_of_bytes table @ [quote_char] @
                          '','' @ [quote_char] @ string_of_bytes table @ [quote_char] @ '',0,'' @
                          [quote_char] @ string_of_bytes sql @ [quote_char] @ '');'') st))
              else if starts_with sql ''CREATE TABLE''
              then if length sql < 13 then (Inl DumpPanic, dump_write ''CREATE TABLE IF NOT EXISTS '' st)
                   else continue (dump_writeln (''CREATE TABLE IF NOT EXISTS '' @ string_of_bytes (drop 13 sql) @ '';'') st)
              else continue (dump_writeln (string_of_bytes sql @ '';'') st))
      | _ \<Rightarrow> (Inl (DumpBail ''invalid schema table''), st))"

fun schema_rows :: "dump_lib \<Rightarrow> dump_db \<Rightarrow> sql_rows \<Rightarrow> DumpState \<Rightarrow> (dump_error + unit) \<times> DumpState" where
  "schema_rows lib db [] st = (Inr (), st)"
| "schema_rows lib db (Inl e # rows) st = (Inl (DumpSqlite e), st)"
| "schema_rows lib db (Inr row # rows) st =
     (case schema_row lib db row st of
        (Inl e, st) \<Rightarrow> (Inl e, st)
      | (Inr returned, st) \<Rightarrow> if returned then (Inr (), st) else schema_rows lib db rows st)"

definition run_schema_dump_query :: "dump_lib \<Rightarrow> dump_db \<Rightarrow> string \<Rightarrow> DumpState \<Rightarrow> (dump_error + unit) \<times> DumpState" where
  "run_schema_dump_query lib db q st =
     (case dd_query db q of Inl e \<Rightarrow> (Inl (DumpSqlite e), st) | Inr (_, rows) \<Rightarrow> schema_rows lib db rows st)"

fun text_columns :: "ValueRef list \<Rightarrow> nat list \<Rightarrow> dump_error + string" where
  "text_columns row [] = Inr []"
| "text_columns row (i # is) =
     (case get_ref row i of
        Inl e \<Rightarrow> Inl e
      | Inr (RefText s) \<Rightarrow>
          if utf8_valid s
          then (case text_columns row is of Inl e \<Rightarrow> Inl e | Inr x \<Rightarrow> Inr ('','' @ string_of_bytes s @ x))
          else Inl DumpUtf8
      | Inr _ \<Rightarrow> Inl (DumpBail (''row '' @ show_nat i @ '' in table dump query should be of type text'')))"

fun object_rows :: "nat \<Rightarrow> sql_rows \<Rightarrow> DumpState \<Rightarrow> (dump_error + unit) \<times> DumpState" where
  "object_rows col_count [] st = (Inr (), st)"
| "object_rows col_count (Inl e # rows) st = (Inl (DumpSqlite e), st)"
| "object_rows col_count (Inr row # rows) st =
     (case get_ref row 0 of
        Inl e \<Rightarrow> (Inl e, st)
      | Inr (RefText sql) \<Rightarrow>
          (case text_columns row [1..<col_count] of
             Inl e \<Rightarrow> (Inl e, dump_write (string_of_bytes sql) st)
           | Inr x \<Rightarrow> object_rows col_count rows (dump_writeln (string_of_bytes sql @ x @ '';'') st))
      | Inr _ \<Rightarrow> (Inl (DumpBail ''the first row in a table dump query should be of type text''), st))"

definition run_table_dump_query :: "dump_db \<Rightarrow> string \<Rightarrow> DumpState \<Rightarrow> (dump_error + unit) \<times> DumpState" where
  "run_table_dump_query db q st =
     (case dd_query db q of Inl e \<Rightarrow> (Inl (DumpSqlite e), st) | Inr (n, rows) \<Rightarrow> object_rows n rows st)"

definition TABLES_QUERY :: string where
  "TABLES_QUERY =
     ''SELECT name, type, sql FROM sqlite_schema AS o '' @ [newline] @ ''WHERE type=='' @ [quote_char] @ ''table'' @
     [quote_char] @ '' '' @ [newline] @ ''AND sql NOT NULL '' @ [newline] @ ''ORDER BY tbl_name='' @ [quote_char] @
     ''sqlite_sequence'' @ [quote_char] @ '', rowid''"

definition OBJECTS_QUERY :: string where
  "OBJECTS_QUERY =
     ''SELECT sql FROM sqlite_schema AS o '' @ [newline] @ ''WHERE sql NOT NULL '' @ [newline] @ ''AND type IN ('' @
     [quote_char] @ ''index'' @ [quote_char] @ '','' @ [quote_char] @ ''trigger'' @ [quote_char] @ '','' @
     [quote_char] @ ''view'' @ [quote_char] @ '')''"

definition export_dump :: "dump_lib \<Rightarrow> dump_db \<Rightarrow> (dump_error + unit) \<times> string" where
  "export_dump lib db =
     (case dd_setup db of
        Inl e \<Rightarrow> (Inl (DumpSqlite e), [])
      | Inr _ \<Rightarrow>
          (let st = dump_writeln ''BEGIN TRANSACTION;''
                 (dump_writeln ''PRAGMA foreign_keys=OFF;'' \<lparr> ds_writable_schema = False, ds_writer = [] \<rparr>)
           in case run_schema_dump_query lib db TABLES_QUERY st of
                (Inl e, st) \<Rightarrow> (Inl e, ds_writer st)
              | (Inr _, st) \<Rightarrow>
                  (case run_table_dump_query db OBJECTS_QUERY st of
                     (Inl e, st) \<Rightarrow> (Inl e, ds_writer st)
                   | (Inr _, st) \<Rightarrow>
                       (let st = (if ds_writable_schema st then dump_writeln ''PRAGMA writable_schema=OFF;'' st else st)
                        in (Inr (), ds_writer (dump_writeln ''COMMIT;'' st))))))"

section \<open>Reading texts back\<close>

text \<open>
  How SQLite reads the literal of a text: a quote in it is doubled, and \<^verbatim>\<open>replace(x, y, z)\<close> puts z for
  every occurrence of y in x, from the left.
\<close>

fun sql_quoted :: "string \<Rightarrow> (string \<times> string) option" where
  "sql_quoted [] = None"
| "sql_quoted (c # cs) =
     (if c = quote_char
      then (case cs of
              [] \<Rightarrow> Some ([], [])
            | d # ds \<Rightarrow>
                if d = quote_char then map_option (\<lambda>(x, r). (c # x, r)) (sql_quoted ds) else Some ([], cs))
      else map_option (\<lambda>(x, r). (c # x, r)) (sql_quoted cs))"

function sql_replace :: "string \<Rightarrow> string \<Rightarrow> string \<Rightarrow> string" where
  "sql_replace y z x =
     (case x of
        [] \<Rightarrow> []
      | c # cs \<Rightarrow>
          if y \<noteq> [] \<and> take (length y) x = y then z @ sql_replace y z (drop (length y) x)
          else c # sql_replace y z cs)"
  by pat_completeness auto

termination
  by (relation "measure (\<lambda>(y, z, x). length x)") auto

declare sql_replace.simps [simp del]

lemma sql_replace_nil [simp]: "sql_replace y z [] = []"
  by (subst sql_replace.simps) simp

lemma sql_replace_hit: "sql_replace (c # y) z (c # y @ s) = z @ sql_replace (c # y) z s"
  by (subst sql_replace.simps) simp

lemma sql_replace_miss: "take (length y) (c # cs) \<noteq> y \<Longrightarrow> sql_replace y z (c # cs) = c # sql_replace y z cs"
  by (subst sql_replace.simps) simp

definition expect :: "string \<Rightarrow> string \<Rightarrow> string option" where
  "expect p s = (if take (length p) s = p then Some (drop (length p) s) else None)"

lemma expect_append [simp]: "expect p (p @ s) = Some s"
  by (simp add: expect_def)

text \<open>Up to \<^verbatim>\<open>n\<close> nested replacements of a token by one of the two characters.\<close>

fun sql_text :: "nat \<Rightarrow> string \<Rightarrow> (string \<times> string) option" where
  "sql_text n s =
     (case expect [quote_char] s of
        Some r \<Rightarrow> sql_quoted r
      | None \<Rightarrow>
          (case n of
             0 \<Rightarrow> None
           | Suc m \<Rightarrow>
               (case expect ''replace('' s of
                  None \<Rightarrow> None
                | Some r \<Rightarrow>
                    (case sql_text m r of
                       None \<Rightarrow> None
                     | Some (x, r) \<Rightarrow>
                         (case expect ('','' @ [quote_char]) r of
                            None \<Rightarrow> None
                          | Some r \<Rightarrow>
                              (case sql_quoted r of
                                 None \<Rightarrow> None
                               | Some (y, r) \<Rightarrow>
                                   (case expect '',char(13))'' r of
                                      Some r \<Rightarrow> Some (sql_replace y [carriage] x, r)
                                    | None \<Rightarrow>
                                        (case expect '',char(10))'' r of
                                           Some r \<Rightarrow> Some (sql_replace y [newline] x, r)
                                         | None \<Rightarrow> None))))))))"

declare sql_text.simps [simp del]

subsection \<open>Tokens\<close>

text \<open>A text with a token for one of its characters, which its first character tells apart from the rest.\<close>

definition with_token :: "char \<Rightarrow> string \<Rightarrow> string \<Rightarrow> string" where
  "with_token a t s = concat (map (\<lambda>c. if c = a then t else [c]) s)"

lemma with_token_simps [simp]:
  "with_token a t [] = []"
  "with_token a t (c # s) = (if c = a then t else [c]) @ with_token a t s"
  "with_token a t (s @ s') = with_token a t s @ with_token a t s'"
  by (simp_all add: with_token_def)

lemma with_token_id [simp]: "a \<notin> set s \<Longrightarrow> with_token a t s = s"
  by (induction s) auto

lemma contains_prefix: "take (length t) s = t \<Longrightarrow> contains s t"
  by (cases s) auto

lemma contains_Cons: "contains s t \<Longrightarrow> contains (c # s) t"
  by simp

lemma prefix_of_token_text:
  assumes "h \<notin> set t'" "take (length t') (with_token a (h # u) s) = t'"
  shows "take (length t') s = t'"
  using assms
proof (induction t' arbitrary: s)
  case (Cons x t')
  show ?case
  proof (cases s)
    case s: (Cons c s')
    have "c \<noteq> a"
    proof
      assume "c = a"
      then have "x = h" using Cons.prems(2) s by simp
      then show False using Cons.prems(1) by simp
    qed
    then have "x = c" "take (length t') (with_token a (h # u) s') = t'" using Cons.prems(2) s by simp_all
    then show ?thesis using Cons.IH [of s'] Cons.prems(1) s by simp
  qed (use Cons.prems in simp)
qed simp

lemma replace_token:
  assumes "h \<notin> set t'" "\<not> contains s (h # t')" "h \<noteq> a"
  shows "sql_replace (h # t') [a] (with_token a (h # t') s) = s"
  using assms(2)
proof (induction s)
  case (Cons c s)
  have IH: "sql_replace (h # t') [a] (with_token a (h # t') s) = s" using Cons by auto
  show ?case
  proof (cases "c = a")
    case True
    then show ?thesis using IH by (simp add: sql_replace_hit)
  next
    case False
    have "take (length (h # t')) (c # with_token a (h # t') s) \<noteq> h # t'"
    proof
      assume "take (length (h # t')) (c # with_token a (h # t') s) = h # t'"
      then have "take (length (h # t')) (c # s) = h # t'"
        using prefix_of_token_text [OF assms(1), of a t' s] by simp
      then show False using Cons.prems contains_prefix by blast
    qed
    then have "sql_replace (h # t') [a] (c # with_token a (h # t') s) = c # sql_replace (h # t') [a] (with_token a (h # t') s)"
      by (rule sql_replace_miss)
    then show ?thesis using False IH by simp
  qed
qed simp

text \<open>Two tokens clash when one can begin inside of the other.\<close>

definition comparable :: "string \<Rightarrow> string \<Rightarrow> bool" where
  "comparable x y \<longleftrightarrow> take (length x) y = x \<or> take (length y) x = y"

fun clash :: "string \<Rightarrow> string \<Rightarrow> bool" where
  "clash [] u = False"
| "clash (c # t) u = (comparable (c # t) u \<or> clash t u)"

lemma clash_head: "h \<notin> set t \<Longrightarrow> \<not> clash t (h # u)"
  by (induction t) (auto simp: comparable_def)

lemma take_append_comparable:
  assumes "take (length q) (t @ x) = q"
  shows "comparable q t"
proof (cases "length q \<le> length t")
  case True
  then show ?thesis using assms by (simp add: comparable_def)
next
  case False
  then have "take (length t) q = t" using arg_cong [OF assms, of "take (length t)"] by (simp add: min_def)
  then show ?thesis by (simp add: comparable_def)
qed

lemma prefix_of_other_text:
  assumes "\<not> clash q t" "take (length q) (with_token a t s) = q"
  shows "take (length q) s = q"
  using assms
proof (induction q arbitrary: s)
  case (Cons x q)
  show ?case
  proof (cases s)
    case s: (Cons c s')
    have "c \<noteq> a" using Cons.prems take_append_comparable [of "x # q" t] s by auto
    then have "x = c" "take (length q) (with_token a t s') = q" using Cons.prems(2) s by auto
    then show ?thesis using Cons.IH [of s'] Cons.prems(1) s by simp
  qed (use Cons.prems in simp)
qed simp

lemma comparable_sym: "comparable x y = comparable y x"
  by (auto simp: comparable_def)

lemma not_contained_append:
  assumes "\<not> clash t u" "\<not> contains x u"
  shows "\<not> contains (t @ x) u"
  using assms
proof (induction t)
  case (Cons c t)
  have "take (length u) ((c # t) @ x) \<noteq> u"
    using Cons.prems(1) take_append_comparable [of u "c # t" x] comparable_sym [of u "c # t"] by auto
  then show ?case using Cons by simp
qed simp

lemma not_contained_with_token:
  assumes "\<not> clash u t" "\<not> clash t u" "u \<noteq> []" "\<not> contains s u"
  shows "\<not> contains (with_token a t s) u"
  using assms(4)
proof (induction s)
  case (Cons c s)
  have IH: "\<not> contains (with_token a t s) u" using Cons by simp
  show ?case
  proof (cases "c = a")
    case True
    then show ?thesis using not_contained_append [OF assms(2) IH] by simp
  next
    case False
    have "take (length u) (with_token a t (c # s)) \<noteq> u"
      using prefix_of_other_text [OF assms(1), of a "c # s"] Cons.prems contains_prefix by blast
    then show ?thesis using False IH by simp
  qed
qed (simp add: assms(3))

subsection \<open>Unused tokens\<close>

lemma contains_length: "contains s t \<Longrightarrow> length t \<le> length s"
proof (induction s)
  case (Cons c s)
  then show ?case by (auto dest: arg_cong [of _ _ length])
qed simp

lemma unused_loop_returns:
  assumes "\<not> contains s (numbered_needle t k)" "i \<le> k"
  shows "\<exists>j. unused_loop s t i = Some (numbered_needle t j) \<and> \<not> contains s (numbered_needle t j)"
  using assms(2)
proof (induction "k - i" arbitrary: i)
  case 0
  then show ?case using assms(1) by (subst unused_loop.simps) auto
next
  case (Suc n)
  show ?case
  proof (cases "contains s (numbered_needle t i)")
    case True
    then have "i \<noteq> k" using assms(1) by blast
    then have "n = k - Suc i" "Suc i \<le> k" using Suc by simp_all
    from Suc.hyps(1) [OF this] True show ?thesis by (subst unused_loop.simps) auto
  qed (subst unused_loop.simps, auto)
qed

lemma find_unused_str_returns:
  "\<exists>t. find_unused_str s n1 n2 = Some t \<and> \<not> contains s t \<and> (t = n1 \<or> t = n2 \<or> (\<exists>i. t = numbered_needle n1 i))"
proof -
  have "length s < length (numbered_needle n1 (10 ^ length s))"
  proof (rule ccontr)
    assume "\<not> length s < length (numbered_needle n1 (10 ^ length s))"
    then have "length (show_nat (10 ^ length s)) \<le> length s" by (simp add: numbered_needle_def)
    then have "(10 :: nat) ^ length (show_nat (10 ^ length s)) \<le> 10 ^ length s" by simp
    then show False using length_show_nat [of "10 ^ length s"] by simp
  qed
  then have "\<not> contains s (numbered_needle n1 (10 ^ length s))" using contains_length leD by blast
  from unused_loop_returns [OF this, of 0] show ?thesis by (auto simp: find_unused_str_def)
qed

definition tokens :: "char \<Rightarrow> string \<Rightarrow> string set" where
  "tokens c d = {[CHR 0x5C, c], CHR 0x5C # d} \<union> range (numbered_needle [CHR 0x5C, c])"

abbreviation nl_tokens :: "string set" where "nl_tokens \<equiv> tokens (CHR ''n'') ''012''"
abbreviation cr_tokens :: "string set" where "cr_tokens \<equiv> tokens (CHR ''r'') ''015''"

lemma tokens_cases:
  assumes "t \<in> tokens c d"
  obtains "t = [CHR 0x5C, c]" | "t = CHR 0x5C # d" | i where "t = CHR ''('' # CHR 0x5C # c # show_nat i @ '')''"
  using assms by (auto simp: tokens_def numbered_needle_def)

lemma find_nl_token: "\<exists>t \<in> nl_tokens. find_unused_str s [CHR 0x5C, CHR ''n''] (CHR 0x5C # ''012'') = Some t \<and> \<not> contains s t"
  using find_unused_str_returns [of s "[CHR 0x5C, CHR ''n'']" "CHR 0x5C # ''012''"] by (auto simp: tokens_def)

lemma find_cr_token: "\<exists>t \<in> cr_tokens. find_unused_str s [CHR 0x5C, CHR ''r''] (CHR 0x5C # ''015'') = Some t \<and> \<not> contains s t"
  using find_unused_str_returns [of s "[CHR 0x5C, CHR ''r'']" "CHR 0x5C # ''015''"] by (auto simp: tokens_def)

lemma show_nat_chars [simp]:
  "CHR 0x5C \<notin> set (show_nat n)" "CHR ''('' \<notin> set (show_nat n)" "newline \<notin> set (show_nat n)"
  "carriage \<notin> set (show_nat n)" "quote_char \<notin> set (show_nat n)"
  by (rule not_digit, simp)+

lemma token_shape_of:
  assumes "t \<in> tokens c d" "c \<in> {CHR ''n'', CHR ''r''}" "d \<in> {''012'', ''015''}"
  shows "\<exists>h t'. t = h # t' \<and> h \<notin> set t' \<and> h \<noteq> newline \<and> h \<noteq> carriage"
    and "newline \<notin> set t" "carriage \<notin> set t" "quote_char \<notin> set t"
  using assms(1) by (rule tokens_cases; use assms(2,3) in \<open>force\<close>)+

lemmas token_shape = token_shape_of [of _ "CHR ''n''" "''012''"] token_shape_of [of _ "CHR ''r''" "''015''"]

lemma token_clash:
  assumes "t \<in> nl_tokens" "u \<in> cr_tokens"
  shows "\<not> clash t u" "\<not> clash u t"
  using assms(1) by (rule tokens_cases; use assms(2) in \<open>rule tokens_cases; simp add: comparable_def clash_head\<close>)+

subsection \<open>Texts\<close>

definition escape_char :: "string option \<Rightarrow> string option \<Rightarrow> char \<Rightarrow> string" where
  "escape_char nl cr c =
     (if c = newline then the nl else if c = carriage then the cr
      else if c = quote_char then [quote_char, quote_char] else [c])"

lemma escape_plain: "\<forall>c \<in> set s. \<not> special c \<Longrightarrow> concat (map (escape_char nl cr) s) = s"
  by (induction s) (auto simp: escape_char_def special_def)

lemma escape_loop_chars:
  assumes "newline \<in> set s \<Longrightarrow> nl \<noteq> None" "carriage \<in> set s \<Longrightarrow> cr \<noteq> None"
  shows "escape_loop nl cr s = Some (concat (map (escape_char nl cr) s))"
  using assms
proof (induction "length s" arbitrary: s rule: less_induct)
  case less
  define start where "start = takeWhile (\<lambda>c. \<not> special c) s"
  have plain: "concat (map (escape_char nl cr) start) = start"
    by (rule escape_plain) (auto simp: start_def dest: set_takeWhileD)
  have split: "s = start @ dropWhile (\<lambda>c. \<not> special c) s" by (simp add: start_def)
  show ?case
  proof (cases "dropWhile (\<lambda>c. \<not> special c) s")
    case Nil
    have "s = start" using split unfolding Nil by simp
    moreover have "escape_loop nl cr s = Some start"
      using Nil by (cases s) (simp_all add: start_def Let_def del: dropWhile_eq_Nil_conv)
    ultimately show ?thesis using plain by simp
  next
    case (Cons c remaining)
    then have s: "s = start @ c # remaining" using split by simp
    then have IH: "escape_loop nl cr remaining = Some (concat (map (escape_char nl cr) remaining))"
      using less by simp
    have "special c" using Cons by (metis dropWhile_eq_Cons_conv)
    moreover obtain d s' where "s = d # s'" using Cons by (cases s) simp_all
    moreover from this have "escape_loop nl cr s =
        (case (if c = newline then map_option (\<lambda>t. start @ t) nl
               else if c = carriage then map_option (\<lambda>t. start @ t) cr
               else Some (start @ [quote_char, quote_char])) of
           None \<Rightarrow> None
         | Some out \<Rightarrow> map_option (\<lambda>x. out @ x) (escape_loop nl cr remaining))"
      using Cons by (simp add: start_def Let_def)
    moreover have "concat (map (escape_char nl cr) s) = start @ escape_char nl cr c @ concat (map (escape_char nl cr) remaining)"
      using plain by (simp only: s map_append concat_append list.map concat.simps)
    moreover have "c = newline \<Longrightarrow> nl \<noteq> None" "c = carriage \<Longrightarrow> cr \<noteq> None" using less.prems by (simp_all add: s)
    ultimately show ?thesis using IH by (auto simp: escape_char_def special_def)
  qed
qed

lemma sql_quoted_doubled:
  assumes "take 1 r \<noteq> [quote_char]"
  shows "sql_quoted (with_token quote_char [quote_char, quote_char] x @ quote_char # r) = Some (x, r)"
proof (induction x)
  case Nil
  then show ?case using assms by (cases r) auto
qed auto

lemma escape_chars_nested:
  assumes "newline \<in> set s \<Longrightarrow> nl = Some t \<and> t \<in> nl_tokens" "carriage \<in> set s \<Longrightarrow> cr = Some u \<and> u \<in> cr_tokens"
  shows "concat (map (escape_char nl cr) s) =
    with_token quote_char [quote_char, quote_char] (with_token carriage u (with_token newline t s))"
  using assms
proof (induction s)
  case (Cons c s)
  have "c = newline \<Longrightarrow> with_token quote_char [quote_char, quote_char] (with_token carriage u t) = t"
    using Cons.prems(1) token_shape [of t] by simp
  moreover have "c = carriage \<Longrightarrow> with_token quote_char [quote_char, quote_char] u = u"
    using Cons.prems(2) token_shape [of u] by simp
  ultimately show ?case using Cons by (auto simp: escape_char_def)
qed simp

lemma set_with_token: "set (with_token a t s) \<subseteq> set t \<union> set s"
  by (induction s) auto

lemma replace_newlines:
  "t \<in> nl_tokens \<Longrightarrow> \<not> contains s t \<Longrightarrow> sql_replace t [newline] (with_token newline t s) = s"
  using token_shape(1) [of t] replace_token by blast

lemma replace_carriages:
  "u \<in> cr_tokens \<Longrightarrow> \<not> contains s u \<Longrightarrow> sql_replace u [carriage] (with_token carriage u s) = s"
  using token_shape(5) [of u] replace_token by blast

lemma expect_simps [simp]: "expect [] s = Some s" "expect (c # p) [] = None"
  "expect (c # p) (d # s) = (if c = d then expect p s else None)"
  by (auto simp: expect_def)

lemma sql_text_quoted: "sql_text n (quote_char # s) = sql_quoted s"
  by (simp add: sql_text.simps)

text \<open>A replacement around a text that reads as \<^verbatim>\<open>x\<close>.\<close>

lemma sql_text_replace:
  assumes "sql_text n (body @ '','' @ [quote_char] @ t @ [quote_char] @ close @ r) =
      Some (x, '','' @ [quote_char] @ t @ [quote_char] @ close @ r)"
    and "quote_char \<notin> set t" "close = '',char(10))'' \<and> a = newline \<or> close = '',char(13))'' \<and> a = carriage"
  shows "sql_text (Suc n) (''replace('' @ body @ '','' @ [quote_char] @ t @ [quote_char] @ close @ r) =
    Some (sql_replace t [a] x, r)"
proof -
  have "sql_quoted (t @ quote_char # close @ r) = Some (t, close @ r)"
    using sql_quoted_doubled [of "close @ r" t] assms(2,3) by auto
  then show ?thesis using assms(1,3) by (subst sql_text.simps) auto
qed

lemma escaped_reads_back:
  assumes "take 1 r \<noteq> [quote_char]"
  shows "\<exists>x. escaped s = Some x \<and> sql_text 2 (x @ r) = Some (s, r)"
proof -
  obtain t where t: "t \<in> nl_tokens" "find_unused_str s [CHR 0x5C, CHR ''n''] (CHR 0x5C # ''012'') = Some t" "\<not> contains s t"
    using find_nl_token [of s] by blast
  obtain u where u: "u \<in> cr_tokens" "find_unused_str s [CHR 0x5C, CHR ''r''] (CHR 0x5C # ''015'') = Some u" "\<not> contains s u"
    using find_cr_token [of s] by blast
  define nl cr where "nl = (if newline \<in> set s then Some t else None)" and "cr = (if carriage \<in> set s then Some u else None)"
  define s1 where "s1 = with_token newline t s"
  define s2 where "s2 = with_token carriage u s1"
  define body where "body = with_token quote_char [quote_char, quote_char] s2"
  have loop: "escape_loop nl cr s = Some body"
    using escape_loop_chars [of s nl cr] escape_chars_nested [of s nl t cr u] t(1) u(1)
    by (simp add: nl_def cr_def body_def s1_def s2_def)
  have "\<not> contains s1 u"
    unfolding s1_def using not_contained_with_token token_clash [OF t(1) u(1)] u(1,3) token_shape(5) by blast
  then have inner: "sql_replace u [carriage] s2 = s1" unfolding s2_def by (rule replace_carriages [OF u(1)])
  have outer: "sql_replace t [newline] s1 = s" unfolding s1_def by (rule replace_newlines [OF t(1,3)])
  have quoted: "sql_text n (quote_char # body @ quote_char # r') = Some (s2, r')" if "take 1 r' \<noteq> [quote_char]" for n r'
    using sql_quoted_doubled [OF that] by (simp add: sql_text_quoted body_def)
  have one: "s2 = s1" if "carriage \<notin> set s"
    unfolding s2_def using that token_shape(3) [of t] t(1) set_with_token [of newline t s]
    by (intro with_token_id) (auto simp: s1_def)
  have none: "s1 = s" if "newline \<notin> set s" unfolding s1_def by (rule with_token_id [OF that])
  have cr_text: "sql_text (Suc n) (''replace('' @ [quote_char] @ body @ [quote_char] @ '','' @ [quote_char] @ u @
      [quote_char] @ '',char(13))'' @ r') = Some (s1, r')" for n r'
    using sql_text_replace [of n "[quote_char] @ body @ [quote_char]" u "'',char(13))''" r' s2 carriage]
      quoted inner token_shape(8) [of u] u(1) by simp
  have nl_text: "sql_text (Suc n) (''replace('' @ y @ '','' @ [quote_char] @ t @ [quote_char] @ '',char(10))'' @ r) = Some (s, r)"
    if "\<And>r'. take 1 r' \<noteq> [quote_char] \<Longrightarrow> sql_text n (y @ r') = Some (s1, r')" for n y
    using sql_text_replace [of n y t "'',char(10))''" r s1 newline] that outer token_shape(4) [of t] t(1) by simp
  let ?c = "''replace('' @ [quote_char] @ body @ [quote_char] @ '','' @ [quote_char] @ u @ [quote_char] @ '',char(13))''"
  show ?thesis
  proof (cases "length (takeWhile (\<lambda>c. \<not> special c) s) = length s")
    case True
    moreover have "length (takeWhile (\<lambda>c. \<not> special c) s) + length (dropWhile (\<lambda>c. \<not> special c) s) = length s"
      by (metis length_append takeWhile_dropWhile_id)
    ultimately have "dropWhile (\<lambda>c. \<not> special c) s = []" by (simp del: dropWhile_eq_Nil_conv)
    then have "\<forall>c \<in> set s. \<not> special c" by simp
    then have "quote_char \<notin> set s" by (auto simp: special_def)
    then show ?thesis using True sql_quoted_doubled [OF assms, of s] by (simp add: escaped_def sql_text_quoted)
  next
    case False
    then have "escaped s = Some ((if nl \<noteq> None then ''replace('' else []) @ (if cr \<noteq> None then ''replace('' else []) @
        [quote_char] @ body @ [quote_char] @
        (case cr of None \<Rightarrow> [] | Some t \<Rightarrow> '','' @ [quote_char] @ t @ [quote_char] @ '',char(13))'') @
        (case nl of None \<Rightarrow> [] | Some t \<Rightarrow> '','' @ [quote_char] @ t @ [quote_char] @ '',char(10))''))"
      using loop t(2) u(2)
      by (cases "newline \<in> set s"; cases "carriage \<in> set s") (simp_all add: escaped_def nl_def cr_def)
    note escaped = this [unfolded nl_def cr_def]
    have quoted': "sql_text n (([quote_char] @ body @ [quote_char]) @ r') = Some (s2, r')" if "take 1 r' \<noteq> [quote_char]" for n r'
      using quoted [OF that] by simp
    have two: "sql_text 2 x = sql_text (Suc (Suc 0)) x" for x by (simp add: numeral_2_eq_2)
    consider (both) "newline \<in> set s" "carriage \<in> set s" | (nl) "newline \<in> set s" "carriage \<notin> set s"
      | (cr) "newline \<notin> set s" "carriage \<in> set s" | (neither) "newline \<notin> set s" "carriage \<notin> set s" by blast
    then show ?thesis
    proof cases
      case both
      have "sql_text (Suc 0) (?c @ r') = Some (s1, r')" for r' using cr_text [of 0 r'] by simp
      from nl_text [of "Suc 0" ?c, OF this] show ?thesis unfolding two using both escaped by simp
    next
      case nl
      from nl_text [of "Suc 0" "[quote_char] @ body @ [quote_char]"] quoted' one [OF nl(2)]
      show ?thesis unfolding two using nl escaped by simp
    next
      case cr
      from cr_text [of "Suc 0" r] none [OF cr(1)] show ?thesis unfolding two using cr escaped by simp
    next
      case neither
      from quoted [OF assms, of 2] one [OF neither(2)] none [OF neither(1)] show ?thesis using neither escaped by simp
    qed
  qed
qed

section \<open>Reading rows back\<close>

fun sql_digits :: "nat \<Rightarrow> string \<Rightarrow> nat \<times> string" where
  "sql_digits n [] = (n, [])"
| "sql_digits n (c # cs) = (if digit c then sql_digits (n * 10 + (of_char c - 48)) cs else (n, c # cs))"

definition sql_integer :: "string \<Rightarrow> (int \<times> string) option" where
  "sql_integer s =
     (case expect ''-'' s of
        Some r \<Rightarrow> (case sql_digits 0 r of (n, r) \<Rightarrow> Some (- int n, r))
      | None \<Rightarrow>
          (case s of
             [] \<Rightarrow> None
           | c # _ \<Rightarrow> if digit c then (case sql_digits 0 s of (n, r) \<Rightarrow> Some (int n, r)) else None))"

definition hex_value :: "char \<Rightarrow> nat option" where
  "hex_value c =
     (if digit c then Some (of_char c - 48)
      else if 97 \<le> (of_char c :: nat) \<and> (of_char c :: nat) \<le> 102 then Some (of_char c - 87)
      else None)"

fun sql_hex :: "string \<Rightarrow> (byte list \<times> string) option" where
  "sql_hex (a # b # cs) =
     (if a = quote_char then Some ([], b # cs)
      else (case (hex_value a, hex_value b, sql_hex cs) of
              (Some h, Some l, Some (bs, r)) \<Rightarrow> Some (word_of_nat (16 * h + l) # bs, r)
            | _ \<Rightarrow> None))"
| "sql_hex [a] = (if a = quote_char then Some ([], []) else None)"
| "sql_hex [] = None"

definition sql_value :: "string \<Rightarrow> (ValueRef \<times> string) option" where
  "sql_value s =
     (case expect ''NULL'' s of
        Some r \<Rightarrow> Some (RefNull, r)
      | None \<Rightarrow>
          (case expect (''X'' @ [quote_char]) s of
             Some r \<Rightarrow> map_option (\<lambda>(bs, r). (RefBlob bs, r)) (sql_hex r)
           | None \<Rightarrow>
               (case sql_integer s of
                  Some (i, r) \<Rightarrow> Some (RefInteger (word_of_int i), r)
                | None \<Rightarrow> map_option (\<lambda>(x, r). (RefText (bytes_of_string x), r)) (sql_text 2 s))))"

fun sql_values :: "nat \<Rightarrow> string \<Rightarrow> (ValueRef list \<times> string) option" where
  "sql_values 0 s = Some ([], s)"
| "sql_values (Suc n) s =
     (case sql_value s of
        None \<Rightarrow> None
      | Some (v, r) \<Rightarrow>
          if n = 0 then Some ([v], r)
          else (case expect '','' r of
                  None \<Rightarrow> None
                | Some r \<Rightarrow> map_option (\<lambda>(vs, r). (v # vs, r)) (sql_values n r)))"

text \<open>Values that are dumped and read as they are: all but floats and texts that are not UTF-8.\<close>

fun readable :: "ValueRef \<Rightarrow> bool" where
  "readable (RefReal x) = False"
| "readable (RefText s) = utf8_valid s"
| "readable _ = True"

lemma sql_digits_append:
  "list_all digit xs \<Longrightarrow> sql_digits n (xs @ r) = sql_digits (fold (\<lambda>c n. n * 10 + (of_char c - 48)) xs n) r"
  by (induction xs arbitrary: n) auto

definition stops :: "string \<Rightarrow> bool" where
  "stops r \<longleftrightarrow> (\<exists>s. r = CHR '','' # s \<or> r = CHR '')'' # s)"

lemma sql_digits_show_nat: "stops r \<Longrightarrow> sql_digits 0 (show_nat n @ r) = (n, r)"
  using sql_digits_append [OF show_nat_digit, of 0 n r] by (auto simp: fold_show_nat stops_def digit_def)

lemma show_nat_head: "\<exists>c cs. show_nat n = c # cs \<and> digit c"
proof (cases "show_nat n")
  case Nil
  then show ?thesis using length_show_nat [of n] by (auto simp: show_nat.simps [of n] split: if_splits)
next
  case (Cons c cs)
  then show ?thesis using show_nat_digit [of n] by simp
qed

lemma integer_reads_back:
  assumes "stops r"
  shows "sql_value (show_int (sint (i :: i64)) @ r) = Some (RefInteger i, r)"
proof -
  have not: "digit c \<Longrightarrow> CHR ''-'' \<noteq> c \<and> CHR ''N'' \<noteq> c \<and> CHR ''X'' \<noteq> c" for c by (auto simp: digit_def)
  show ?thesis
  proof (cases "sint i < 0")
    case True
    then show ?thesis using sql_digits_show_nat [OF assms, of "nat (- sint i)"]
      by (simp add: sql_value_def sql_integer_def show_int_def)
  next
    case False
    obtain c cs where "show_nat (nat (sint i)) = c # cs" "digit c" using show_nat_head by blast
    then show ?thesis using False not [of c] sql_digits_show_nat [OF assms, of "nat (sint i)"]
      by (simp add: sql_value_def sql_integer_def show_int_def)
  qed
qed

lemma hex_digits: "k < 16 \<Longrightarrow> hex_value (''0123456789abcdef'' ! k) = Some k \<and> ''0123456789abcdef'' ! k \<noteq> quote_char"
proof -
  have "list_all (\<lambda>k. hex_value (''0123456789abcdef'' ! k) = Some k \<and> ''0123456789abcdef'' ! k \<noteq> quote_char) [0..<16]"
    by code_simp
  then show "k < 16 \<Longrightarrow> ?thesis" by (simp add: list_all_iff)
qed

lemma blob_reads_back: "sql_hex (concat (map (\<lambda>b. [''0123456789abcdef'' ! (unat b div 16 mod 16),
    ''0123456789abcdef'' ! (unat b mod 16)]) bs) @ quote_char # r) = Some (bs, r)"
proof (induction bs)
  case Nil
  then show ?case by (cases r) simp_all
next
  case (Cons b bs)
  have "unat b < 256" using unsigned_less [of b] by simp
  then have "unat b div 16 mod 16 = unat b div 16" by simp
  then have "16 * (unat b div 16 mod 16) + unat b mod 16 = unat b" by simp
  then have "word_of_nat (16 * (unat b div 16 mod 16) + unat b mod 16) = b" by simp
  then show ?case using Cons hex_digits [of "unat b div 16 mod 16"] hex_digits [of "unat b mod 16"] by simp
qed

lemma escaped_head: "escaped s = Some x \<Longrightarrow> \<exists>y. x = quote_char # y \<or> x = CHR ''r'' # y"
  by (auto simp: escaped_def split: if_splits option.splits)

lemma text_reads_back:
  assumes "stops r" "utf8_valid s"
  shows "\<exists>x. write_value_ref lib (RefText s) = Inr x \<and> sql_value (x @ r) = Some (RefText s, r)"
proof -
  have "take 1 r \<noteq> [quote_char]" using assms(1) by (auto simp: stops_def)
  then obtain x where x: "escaped (string_of_bytes s) = Some x" "sql_text 2 (x @ r) = Some (string_of_bytes s, r)"
    using escaped_reads_back by blast
  then have "sql_value (x @ r) = Some (RefText s, r)"
    using escaped_head [OF x(1)] by (auto simp: sql_value_def sql_integer_def digit_def string_bytes_roundtrip)
  then show ?thesis using x assms(2) by (simp add: write_value_ref_def)
qed

lemma value_reads_back:
  assumes "stops r" "readable v"
  shows "\<exists>x. write_value_ref lib v = Inr x \<and> sql_value (x @ r) = Some (v, r)"
proof (cases v)
  case (RefInteger i)
  then show ?thesis using integer_reads_back [OF assms(1)] by (simp add: write_value_ref_def)
next
  case (RefText s)
  then show ?thesis using text_reads_back [OF assms(1)] assms(2) by simp
next
  case (RefBlob bs)
  then show ?thesis using blob_reads_back [of bs r] by (simp add: write_value_ref_def sql_value_def blob_literal_def)
qed (use assms(2) in \<open>simp_all add: write_value_ref_def sql_value_def\<close>)

lemma columns_read_back:
  assumes "stops r" "list_all readable row" "k \<le> length row"
  shows "\<exists>x. write_columns lib b row [k..<length row] = Inr ((if k < length row \<and> (k \<noteq> 0 \<or> b) then '','' else []) @ x) \<and>
    sql_values (length row - k) (x @ r) = Some (drop k row, r)"
  using assms(3)
proof (induction "length row - k" arbitrary: k)
  case (Suc n)
  then have k: "k < length row" "Suc k \<le> length row" "n = length row - Suc k" by simp_all
  obtain y where y: "write_columns lib b row [Suc k..<length row] =
      Inr ((if Suc k < length row \<and> (Suc k \<noteq> 0 \<or> b) then '','' else []) @ y)"
    "sql_values (length row - Suc k) (y @ r) = Some (drop (Suc k) row, r)"
    using Suc.hyps(1) [OF k(3,2)] by blast
  define rest where "rest = (if Suc k < length row then '','' else []) @ y @ r"
  have "Suc k = length row \<Longrightarrow> y @ r = r" using y(1) by simp
  then have stops: "stops rest" using assms(1) k(2) by (auto simp: rest_def stops_def)
  obtain x where x: "write_value_ref lib (row ! k) = Inr x" "sql_value (x @ rest) = Some (row ! k, rest)"
    using value_reads_back [OF stops, of "row ! k" lib] assms(2) k(1) by (auto simp: list_all_length)
  have "sql_values (length row - k) (x @ rest) = Some (drop k row, r)"
  proof (cases "Suc k < length row")
    case True
    then obtain m where "length row - Suc k = Suc m" by (metis Suc_diff_Suc)
    then have "length row - k = Suc (Suc m)" "sql_values (Suc m) (y @ r) = Some (drop (Suc k) row, r)"
      using y(2) k by simp_all
    then show ?thesis using True x(2)
      by (simp add: Cons_nth_drop_Suc [OF k(1), symmetric] rest_def sql_values.simps(2) [of "Suc m"] del: sql_values.simps)
  next
    case False
    then have "length row - k = Suc 0" "drop (Suc k) row = []" "rest = r" using k \<open>Suc k = length row \<Longrightarrow> y @ r = r\<close>
      by (auto simp: rest_def)
    then show ?thesis using x(2) by (simp add: Cons_nth_drop_Suc [OF k(1), symmetric])
  qed
  moreover have "write_columns lib b row [k..<length row] =
      Inr ((if k < length row \<and> (k \<noteq> 0 \<or> b) then '','' else []) @ x @ (if Suc k < length row then '','' else []) @ y)"
    using x(1) y(1) k(1) by (simp add: upt_conv_Cons get_ref_def)
  ultimately show ?case by (intro exI [of _ "x @ (if Suc k < length row then '','' else []) @ y"]) (simp add: rest_def)
qed simp


definition sample_dump_row :: "ValueRef list" where
  "sample_dump_row = [RefInteger (- 5), RefText [0x27, 0x5C, 0x6E, 0x0A, 0x0D], RefBlob [0xAB], RefNull]"

definition sample_dump_lib :: dump_lib where
  "sample_dump_lib =
     \<lparr> dl_show_f64 = (\<lambda>_. ''0.5''), dl_alphabetic = (\<lambda>c. 97 \<le> c \<and> c \<le> 122), dl_alphanumeric = (\<lambda>c. 97 \<le> c \<and> c \<le> 122),
       dl_keyword = (\<lambda>_. False) \<rparr>"


text \<open>Where the row id is kept, the last column of a row is not dumped at all.\<close>

lemma write_columns_cong:
  "(\<And>i. i \<in> set is \<Longrightarrow> get_ref row i = get_ref row' i) \<Longrightarrow> write_columns lib b row is = write_columns lib b row' is"
  by (induction "is") (auto split: sum.split)

lemma row_id_drops_last_column:
  "row \<noteq> [] \<Longrightarrow> write_row lib ins True (length row) (row @ [v]) = write_row lib ins True (length row) (row @ [w])"
  using write_columns_cong [of "[1..<length row]" "row @ [v]" "row @ [w]" lib True]
  by (simp add: write_row_def get_ref_def nth_append del: One_nat_def split: sum.split)

text \<open>A virtual table ends the dump of the tables.\<close>

lemma virtual_table_ends_dump:
  assumes "table \<noteq> bytes_of_string ''sqlite_sequence''" "\<not> starts_with table ''sqlite_''"
    and "starts_with sql ''CREATE VIRTUAL TABLE''" "utf8_valid table" "utf8_valid sql"
  shows "schema_rows lib db (Inr [RefText table, RefText ty, RefText sql] # rows) st =
    schema_rows lib db [Inr [RefText table, RefText ty, RefText sql]] st"
proof -
  have "\<not> starts_with table ''sqlite_stat''"
  proof
    assume "starts_with table ''sqlite_stat''"
    then have "take 11 table = bytes_of_string ''sqlite_stat''" by (simp add: starts_with_def eval_nat_numeral)
    then have "take 7 (take 11 table) = take 7 (bytes_of_string ''sqlite_stat'')" by (rule arg_cong)
    then show False using assms(2) by (simp add: starts_with_def bytes_of_string_def eval_nat_numeral)
  qed
  then show ?thesis using assms by (simp add: schema_row_def Let_def)
qed

text \<open>The comparisons that look for the infinities find a finite number instead.\<close>

lemma finite_float_dumped_as_infinity:
  "write_value_ref lib (RefReal 0x43DFFC0000000000) = Inr ''1e999''"
  "write_value_ref lib (RefReal 0x7FF0000000000000) = Inr (dl_show_f64 lib 0x7FF0000000000000)"
  by (simp_all add: write_value_ref_def f64_as_u64_def Let_def)

end
