(* ===== verification/WalBackup.thy ===== *)
theory WalBackup
  imports Bottomless Decimal
begin

text \<open>
  The WAL files of SQLite as the backup reads them (\<^verbatim>\<open>bottomless/src/wal.rs\<close>), the
  batches of frames it makes of them (\<^verbatim>\<open>bottomless/src/backup.rs\<close>, with the names of
  the batches that \<^verbatim>\<open>replicator.rs\<close> parses) and the reader of a batch
  (\<^verbatim>\<open>bottomless/src/read.rs\<close>). The gzip codec, the display of UUIDs, the clock and
  the outcomes of file operations are arguments. Offsets are natural numbers: they
  are sums and products of 32-bit values that the code computes in 64 bits.
\<close>

datatype backup_error =
    BackupIo
  | BackupPanic
  | WalNotFound
  | NoGeneration
  | OutboxClosed
  | ChecksumMismatch u32 u64 u64
  | WrongBuffer
  | S3Failure
  | KeyMissing
  | PageSizeChanged
  | BadDependency
  | Tombstoned
  | RestoreDepth
  | BadUuid

section \<open>WAL frames\<close>

text \<open>Big-endian integers in byte strings.\<close>

definition be_word :: "byte list \<Rightarrow> 'a::len word" where
  "be_word bs = bytes_word (rev bs)"

definition be_enc :: "nat \<Rightarrow> 'a::len word \<Rightarrow> byte list" where
  "be_enc n w = rev (word_bytes n w)"

definition WAL_FRAME_HEADER_SIZE :: nat where
  "WAL_FRAME_HEADER_SIZE = 24"

definition WAL_HEADER_SIZE :: nat where
  "WAL_HEADER_SIZE = 32"

type_synonym WalFrameHeader = "byte list"

definition fh_pgno :: "WalFrameHeader \<Rightarrow> u32" where
  "fh_pgno h = be_word (byte_slice 0 4 h)"

definition size_after :: "WalFrameHeader \<Rightarrow> u32" where
  "size_after h = be_word (byte_slice 4 4 h)"

definition is_committed :: "WalFrameHeader \<Rightarrow> bool" where
  "is_committed h \<longleftrightarrow> size_after h \<noteq> 0"

definition fh_salt :: "WalFrameHeader \<Rightarrow> u64" where
  "fh_salt h = be_word (byte_slice 8 8 h)"

definition fh_crc :: "WalFrameHeader \<Rightarrow> u64" where
  "fh_crc h = be_word (byte_slice 16 8 h)"

text \<open>
  The checksum reads the memory as 32-bit words of the host, which is little-endian
  here, two at a time; None is the index that is out of bounds when the number of
  words is odd.
\<close>

fun checksum_loop :: "u32 \<Rightarrow> u32 \<Rightarrow> u32 list \<Rightarrow> (u32 \<times> u32) option" where
  "checksum_loop s1 s2 [] = Some (s1, s2)"
| "checksum_loop s1 s2 [w] = None"
| "checksum_loop s1 s2 (w # w' # ws) =
     (let s1 = s1 + w + s2; s2 = s2 + w' + s1 in checksum_loop s1 s2 ws)"

fun host_words :: "byte list \<Rightarrow> u32 list" where
  "host_words (a # b # c # d # bs) = bytes_word [a, b, c, d] # host_words bs"
| "host_words _ = []"

definition checksum_be :: "u64 \<Rightarrow> byte list \<Rightarrow> u64 option" where
  "checksum_be init page =
     (let s1 = ucast (drop_bit 32 init) :: u32; s2 = ucast (and init (ucast (- 1 :: u32))) :: u32
      in case checksum_loop s1 s2 (host_words page) of
           None \<Rightarrow> None
         | Some (s1, s2) \<Rightarrow> Some (or (push_bit 32 (ucast s1)) (ucast s2)))"

definition verify :: "WalFrameHeader \<Rightarrow> u64 \<Rightarrow> byte list \<Rightarrow> backup_error + u64" where
  "verify h init_crc page_data =
     (case checksum_be init_crc (byte_slice 0 8 h) of
        None \<Rightarrow> Inl BackupPanic
      | Some crc \<Rightarrow>
          (case checksum_be crc page_data of
             None \<Rightarrow> Inl BackupPanic
           | Some crc \<Rightarrow>
               (let frame_crc = fh_crc h
                in if crc = frame_crc then Inr crc else Inl (ChecksumMismatch (fh_pgno h) frame_crc crc))))"

section \<open>WAL files\<close>

record WalHeader =
  wh_magic_no :: u32
  wh_version :: u32
  wh_page_size :: u32
  wh_checkpoint_seq_no :: u32
  wh_salt_1 :: u32
  wh_salt_2 :: u32
  wh_crc :: u64

definition wal_header_of :: "byte list \<Rightarrow> WalHeader" where
  "wal_header_of v =
     \<lparr> wh_magic_no = be_word (byte_slice 0 4 v), wh_version = be_word (byte_slice 4 4 v),
       wh_page_size = be_word (byte_slice 8 4 v), wh_checkpoint_seq_no = be_word (byte_slice 12 4 v),
       wh_salt_1 = be_word (byte_slice 16 4 v), wh_salt_2 = be_word (byte_slice 20 4 v),
       wh_crc = be_word (byte_slice 24 8 v) \<rparr>"

text \<open>An open WAL: the header that was read when it was opened and the cursor of the file.\<close>

record WalFileReader =
  wr_header :: WalHeader
  wr_pos :: nat

definition wal_open :: "file_data option \<Rightarrow> backup_error + WalFileReader option" where
  "wal_open f =
     (case f of
        None \<Rightarrow> Inl BackupIo
      | Some f \<Rightarrow>
          if length f < WAL_HEADER_SIZE then Inr None
          else Inr (Some \<lparr> wr_header = wal_header_of (byte_slice 0 WAL_HEADER_SIZE f), wr_pos = WAL_HEADER_SIZE \<rparr>))"

definition wr_page_size :: "WalFileReader \<Rightarrow> u32" where
  "wr_page_size r = wh_page_size (wr_header r)"

definition wr_checksum :: "WalFileReader \<Rightarrow> u64" where
  "wr_checksum r = wh_crc (wr_header r)"

definition frame_size :: "WalFileReader \<Rightarrow> nat" where
  "frame_size r = WAL_FRAME_HEADER_SIZE + unat (wr_page_size r)"

definition frame_offset :: "WalFileReader \<Rightarrow> u32 \<Rightarrow> nat" where
  "frame_offset r frame_no = WAL_HEADER_SIZE + unat (frame_no - 1) * frame_size r"

definition frame_count :: "file_data \<Rightarrow> WalFileReader \<Rightarrow> u32" where
  "frame_count f r =
     (if length f < WAL_HEADER_SIZE then 0 else word_of_nat ((length f - WAL_HEADER_SIZE) div frame_size r))"

definition seek_frame :: "u32 \<Rightarrow> WalFileReader \<Rightarrow> WalFileReader" where
  "seek_frame frame_no r = r\<lparr>wr_pos := frame_offset r frame_no\<rparr>"

text \<open>\<^verbatim>\<open>read_exact\<close> at the cursor; None is the end of the file.\<close>

definition read_exact :: "file_data \<Rightarrow> nat \<Rightarrow> WalFileReader \<Rightarrow> byte list option \<times> WalFileReader" where
  "read_exact f n r =
     (if wr_pos r + n \<le> length f then (Some (byte_slice (wr_pos r) n f), r\<lparr>wr_pos := wr_pos r + n\<rparr>)
      else (None, r\<lparr>wr_pos := max (wr_pos r) (length f)\<rparr>))"

definition read_frame_header :: "file_data \<Rightarrow> WalFileReader \<Rightarrow> WalFrameHeader option \<times> WalFileReader" where
  "read_frame_header f r = read_exact f WAL_FRAME_HEADER_SIZE r"

definition copy_frames :: "file_data \<Rightarrow> nat \<Rightarrow> WalFileReader \<Rightarrow> byte list \<times> WalFileReader" where
  "copy_frames f count r =
     (let out = byte_slice (wr_pos r) (count * frame_size r) f
      in (out, r\<lparr>wr_pos := wr_pos r + length out\<rparr>))"

definition read_frame_range ::
  "file_data \<Rightarrow> nat \<Rightarrow> WalFileReader \<Rightarrow> (backup_error + nat \<times> byte list) \<times> WalFileReader" where
  "read_frame_range f len r =
     (if len mod frame_size r \<noteq> 0 then (Inl WrongBuffer, r)
      else case read_exact f len r of
             (None, r) \<Rightarrow> (Inl BackupIo, r)
           | (Some buf, r) \<Rightarrow> (Inr (len div frame_size r, buf), r))"

definition next_frame ::
  "file_data \<Rightarrow> WalFileReader \<Rightarrow> (backup_error + (WalFrameHeader \<times> byte list) option) \<times> WalFileReader" where
  "next_frame f r =
     (case read_frame_header f r of
        (None, r) \<Rightarrow> (Inr None, r)
      | (Some h, r) \<Rightarrow>
          (case read_exact f (unat (wr_page_size r)) r of
             (None, r) \<Rightarrow> (Inl BackupIo, r)
           | (Some page, r) \<Rightarrow> (Inr (Some (h, page)), r)))"

section \<open>Names of batches\<close>

datatype CompressionKind = NoCompression | Gzip

definition parse_compression :: "string \<Rightarrow> string + CompressionKind" where
  "parse_compression kind =
     (if kind = ''gz'' \<or> kind = ''gzip'' then Inr Gzip
      else if kind = ''raw'' \<or> kind = '''' then Inr NoCompression
      else Inl kind)"

fun show_compression :: "CompressionKind \<Rightarrow> string" where
  "show_compression NoCompression = ''raw''"
| "show_compression Gzip = ''gz''"

fun rfind :: "char \<Rightarrow> string \<Rightarrow> nat option" where
  "rfind c [] = None"
| "rfind c (x # s) =
     (case rfind c s of Some i \<Rightarrow> Some (Suc i) | None \<Rightarrow> if x = c then Some 0 else None)"

text \<open>The batch a key names, if any; Inl is a slice whose end is before its start.\<close>

definition parse_frame_range :: "string \<Rightarrow> backup_error + (u32 \<times> u32 \<times> u64 \<times> CompressionKind) option" where
  "parse_frame_range key =
     (case rfind (CHR ''/'') key of None \<Rightarrow> Inr None | Some frame_delim \<Rightarrow>
      let frame_suffix = drop (frame_delim + 1) key in
      case rfind (CHR ''-'') frame_suffix of None \<Rightarrow> Inr None | Some timestamp_delim \<Rightarrow>
      case rfind (CHR ''-'') (take timestamp_delim frame_suffix) of None \<Rightarrow> Inr None | Some last_frame_delim \<Rightarrow>
      case rfind (CHR ''.'') frame_suffix of None \<Rightarrow> Inr None | Some compression_delim \<Rightarrow>
      case parse_unsigned 32 (take last_frame_delim frame_suffix) of None \<Rightarrow> Inr None | Some first_frame_no \<Rightarrow>
      case parse_unsigned 32 (drop (last_frame_delim + 1) (take timestamp_delim frame_suffix)) of
        None \<Rightarrow> Inr None | Some last_frame_no \<Rightarrow>
      if compression_delim < timestamp_delim + 1 then Inl BackupPanic
      else case parse_unsigned 64 (drop (timestamp_delim + 1) (take compression_delim frame_suffix)) of
        None \<Rightarrow> Inr None | Some timestamp \<Rightarrow>
      case parse_compression (drop (compression_delim + 1) frame_suffix) of
        Inl _ \<Rightarrow> Inr None
      | Inr kind \<Rightarrow> Inr (Some (word_of_nat first_frame_no, word_of_nat last_frame_no, word_of_nat timestamp, kind)))"

definition generation_dir :: "string \<Rightarrow> string \<Rightarrow> string" where
  "generation_dir db_name generation = db_name @ ''-'' @ generation"

definition batch_key :: "string \<Rightarrow> string \<Rightarrow> u32 \<Rightarrow> u32 \<Rightarrow> u64 \<Rightarrow> CompressionKind \<Rightarrow> string" where
  "batch_key db_name generation first final timestamp kind =
     generation_dir db_name generation @ ''/'' @ show_padded 12 (unat first) @ ''-'' @ show_padded 12 (unat final) @
     ''-'' @ show_nat (unat timestamp) @ ''.'' @ show_compression kind"

section \<open>Copying frames into batches\<close>

record WalCopier =
  wc_wal :: "WalFileReader option"
  wc_use_compression :: CompressionKind
  wc_max_frames_per_batch :: nat
  wc_bucket :: string
  wc_db_name :: string
  wc_generation :: "Uuid option"

definition new_copier :: "string \<Rightarrow> string \<Rightarrow> Uuid option \<Rightarrow> nat \<Rightarrow> CompressionKind \<Rightarrow> WalCopier" where
  "new_copier bucket db_name generation max_frames_per_batch use_compression =
     \<lparr> wc_wal = None, wc_use_compression = use_compression, wc_max_frames_per_batch = max_frames_per_batch,
       wc_bucket = bucket, wc_db_name = db_name, wc_generation = generation \<rparr>"

text \<open>
  The environment of a copy: the display of a UUID, the codec, the time at which a
  batch is made, and the outcomes of the file operations and of the sends to the uploader.
\<close>

record copy_env =
  ce_uuid :: "Uuid \<Rightarrow> string"
  ce_gzip :: "byte list \<Rightarrow> byte list"
  ce_now :: "u32 \<Rightarrow> u64"
  ce_mkdir :: bool
  ce_meta_create :: bool
  ce_meta_write :: io
  ce_send_meta :: bool
  ce_create :: "u32 \<Rightarrow> bool"
  ce_copy :: "u32 \<Rightarrow> io"
  ce_send :: "u32 \<Rightarrow> bool"

text \<open>The local files and the names that were sent to the uploader.\<close>

type_synonym local_backup = "(string \<rightharpoonup> byte list) \<times> string list"

text \<open>The elements of a range, in steps.\<close>

definition step_by :: "u32 \<Rightarrow> u32 \<Rightarrow> nat \<Rightarrow> u32 list" where
  "step_by start fin step =
     map (\<lambda>i. word_of_nat (unat start + i * step))
       [0 ..< (if start < fin then (unat fin - unat start + step - 1) div step else 0)]"

definition meta_object :: "WalFileReader \<Rightarrow> byte list" where
  "meta_object wal = be_enc 4 (wr_page_size wal) @ be_enc 8 (wr_checksum wal)"

definition compressed :: "copy_env \<Rightarrow> CompressionKind \<Rightarrow> byte list \<Rightarrow> byte list" where
  "compressed env kind bs = (case kind of NoCompression \<Rightarrow> bs | Gzip \<Rightarrow> ce_gzip env bs)"

definition init_backup ::
  "copy_env \<Rightarrow> WalCopier \<Rightarrow> string \<Rightarrow> WalFileReader \<Rightarrow> local_backup \<Rightarrow> (backup_error + unit) \<times> local_backup" where
  "init_backup env c generation wal b =
     (let (files, outbox) = b;
          dir = wc_bucket c @ ''/'' @ generation_dir (wc_db_name c) generation;
          meta_path = dir @ ''/.meta''
      in if \<not> ce_mkdir env \<or> \<not> ce_meta_create env then (Inl BackupIo, b)
         else case write_all_at (ce_meta_write env) 0 (meta_object wal) [] of (ok, content) \<Rightarrow>
           let files = files(meta_path \<mapsto> content) in
           if \<not> ok then (Inl BackupIo, (files, outbox))
           else if \<not> ce_send_meta env then (Inl OutboxClosed, (files, outbox))
           else (Inr (), (files, outbox @ [generation_dir (wc_db_name c) generation @ ''/.meta''])))"

text \<open>The loop over the batches; the result is the last frame that was copied.\<close>

fun flush_batches ::
  "copy_env \<Rightarrow> file_data \<Rightarrow> WalCopier \<Rightarrow> string \<Rightarrow> u32 \<Rightarrow> u32 list \<Rightarrow> WalFileReader \<Rightarrow> local_backup \<Rightarrow>
   (backup_error + u32) \<times> WalFileReader \<times> local_backup" where
  "flush_batches env f c generation fin [] wal b = (Inr (fin - 1), wal, b)"
| "flush_batches env f c generation fin (start # starts) wal (files, outbox) =
     (let end' = min (start + word_of_nat (wc_max_frames_per_batch c)) fin;
          len = unat (end' - start);
          fdesc = batch_key (wc_db_name c) generation start (end' - 1) (ce_now env start) (wc_use_compression c);
          path = wc_bucket c @ ''/'' @ fdesc
      in if \<not> ce_create env start then (Inl BackupIo, wal, (files, outbox))
         else
           (let wal = seek_frame start wal;
                (bytes, wal) = copy_frames f len wal;
                (ok, content) = write_all_at (ce_copy env start) 0 (compressed env (wc_use_compression c) bytes) [];
                files = files(path \<mapsto> content)
            in if \<not> ok then (Inl BackupIo, wal, (files, outbox))
               else if \<not> ce_send env start then (Inr (end' - 1), wal, (files, outbox))
               else flush_batches env f c generation fin starts wal (files, outbox @ [fdesc])))"

definition flush_range ::
  "copy_env \<Rightarrow> file_data option \<Rightarrow> u32 \<Rightarrow> u32 \<Rightarrow> WalCopier \<Rightarrow> local_backup \<Rightarrow>
   (backup_error + u32) \<times> WalCopier \<times> local_backup" where
  "flush_range env f start fin c b =
     (if \<not> start < fin then (Inr (start - 1), c, b)
      else
        case (if wc_wal c = None then map_sum id (\<lambda>w. c\<lparr>wc_wal := w\<rparr>) (wal_open f) else Inr c) of
          Inl e \<Rightarrow> (Inl e, c, b)
        | Inr c \<Rightarrow>
            (case wc_wal c of
               None \<Rightarrow> (Inl WalNotFound, c, b)
             | Some wal \<Rightarrow>
                 (case wc_generation c of
                    None \<Rightarrow> (Inl NoGeneration, c, b)
                  | Some g \<Rightarrow>
                      (case (if start = 1 then init_backup env c (ce_uuid env g) wal b else (Inr (), b)) of
                         (Inl e, b) \<Rightarrow> (Inl e, c, b)
                       | (Inr _, b) \<Rightarrow>
                           if wc_max_frames_per_batch c = 0 then (Inl BackupPanic, c, b)
                           else
                             (let (r, wal, b) =
                                    flush_batches env (case f of Some f \<Rightarrow> f | None \<Rightarrow> []) c (ce_uuid env g) fin
                                      (step_by start fin (wc_max_frames_per_batch c)) wal b
                              in (r, c\<lparr>wc_wal := Some wal\<rparr>, b))))))"

section \<open>Reading a batch\<close>

text \<open>
  What is left of the body of an object, after decompression, and whether reading
  past its end fails instead of ending the stream.
\<close>

type_synonym byte_stream = "byte list \<times> bool"

record BatchReader =
  br_data :: byte_stream
  br_next_frame_no :: u32

definition new_batch_reader ::
  "(byte_stream \<Rightarrow> byte_stream) \<Rightarrow> u32 \<Rightarrow> byte_stream \<Rightarrow> CompressionKind \<Rightarrow> BatchReader" where
  "new_batch_reader gunzip init_frame_no content kind =
     \<lparr> br_data = (case kind of NoCompression \<Rightarrow> content | Gzip \<Rightarrow> gunzip content), br_next_frame_no = init_frame_no \<rparr>"

definition next_frame_header :: "BatchReader \<Rightarrow> (backup_error + WalFrameHeader option) \<times> BatchReader" where
  "next_frame_header r =
     (case br_data r of (bs, failed) \<Rightarrow>
        if WAL_FRAME_HEADER_SIZE \<le> length bs
        then (Inr (Some (take WAL_FRAME_HEADER_SIZE bs)), r\<lparr>br_data := (drop WAL_FRAME_HEADER_SIZE bs, failed)\<rparr>)
        else (if failed then Inl BackupIo else Inr None, r\<lparr>br_data := ([], failed)\<rparr>))"

definition next_page :: "nat \<Rightarrow> BatchReader \<Rightarrow> (backup_error + byte list) \<times> BatchReader" where
  "next_page page_size r =
     (case br_data r of (bs, failed) \<Rightarrow>
        if page_size \<le> length bs
        then (Inr (take page_size bs),
              r\<lparr>br_data := (drop page_size bs, failed), br_next_frame_no := br_next_frame_no r + 1\<rparr>)
        else (Inl BackupIo, r\<lparr>br_data := ([], failed)\<rparr>))"

section \<open>The names parse back\<close>

lemma rfind_None: "rfind c s = None \<longleftrightarrow> c \<notin> set s"
  by (induction s) (auto split: option.splits)

lemma rfind_append: "c \<notin> set t \<Longrightarrow> rfind c (s @ c # t) = Some (length s)"
  by (induction s) (auto simp: rfind_None split: option.splits)

lemma rfind_Some: "rfind c s = Some i \<Longrightarrow> i < length s \<and> s ! i = c"
  by (induction s arbitrary: i) (auto split: option.splits if_splits)

lemma show_padded_chars:
  "(of_char c :: nat) < 48 \<or> 57 < (of_char c :: nat) \<Longrightarrow> c \<notin> set (show_padded w n)"
  using show_padded_digits [of w n] by (auto simp: list_all_iff digit_def)

text \<open>
  The name of a batch says what it holds: parsing the key under which a batch of
  frames is stored gives its first and last frame, its time and its compression,
  whatever the names of the database and of the generation are.
\<close>

lemma batch_key_parse_back:
  "parse_frame_range (batch_key db_name generation first final timestamp kind) =
     Inr (Some (first, final, timestamp, kind))"
proof -
  define a where "a = show_padded 12 (unat first)"
  define b where "b = show_padded 12 (unat final)"
  define t where "t = show_padded 0 (unat timestamp)"
  define k where "k = show_compression kind"
  define suffix where "suffix = a @ ''-'' @ b @ ''-'' @ t @ ''.'' @ k"
  have key: "batch_key db_name generation first final timestamp kind =
      generation_dir db_name generation @ CHR ''/'' # suffix"
    by (simp add: batch_key_def suffix_def a_def b_def t_def k_def show_padded_0)
  have ab: "c \<notin> set a" "c \<notin> set b" "c \<notin> set t" if "c = CHR ''-'' \<or> c = CHR ''.'' \<or> c = CHR ''/''" for c
    using that by (auto simp: a_def b_def t_def intro!: show_padded_chars)
  have k: "CHR ''-'' \<notin> set k" "CHR ''.'' \<notin> set k" "CHR ''/'' \<notin> set k" "parse_compression k = Inr kind"
    by (cases kind; simp add: k_def parse_compression_def)+
  have r1: "rfind (CHR ''/'') (generation_dir db_name generation @ CHR ''/'' # suffix) =
      Some (length (generation_dir db_name generation))"
    using ab k by (intro rfind_append) (simp add: suffix_def)
  have r2: "rfind (CHR ''-'') suffix = Some (length (a @ ''-'' @ b))"
    using rfind_append [of "CHR ''-''" "t @ ''.'' @ k" "a @ ''-'' @ b"] ab k by (simp add: suffix_def)
  have r3: "rfind (CHR ''-'') (a @ ''-'' @ b) = Some (length a)"
    using rfind_append [of "CHR ''-''" b a] ab by simp
  have r4: "rfind (CHR ''.'') suffix = Some (length (a @ ''-'' @ b @ ''-'' @ t))"
    using rfind_append [of "CHR ''.''" k "a @ ''-'' @ b @ ''-'' @ t"] ab k by (simp add: suffix_def)
  have less: "unat (w :: u32) < 2 ^ 32" "unat (v :: u64) < 2 ^ 64" for w v
    using unsigned_less [of w] unsigned_less [of v] by simp_all
  have p: "parse_unsigned 32 a = Some (unat first)" "parse_unsigned 32 b = Some (unat final)"
    "parse_unsigned 64 t = Some (unat timestamp)"
    by (simp_all only: a_def b_def t_def parse_show_padded less)
  define pre td cd where "pre = a @ ''-'' @ b" and "td = length pre" and "cd = length (pre @ ''-'' @ t)"
  have suffix: "suffix = pre @ CHR ''-'' # t @ CHR ''.'' # k" by (simp add: suffix_def pre_def)
  have s: "take td suffix = pre" "drop (td + 1) (take cd suffix) = t" "drop (cd + 1) suffix = k" "\<not> cd < td + 1"
    by (simp_all add: suffix td_def cd_def)
  have s2: "take (length a) suffix = a" "drop (length a + 1) pre = b" by (simp_all add: suffix_def pre_def)
  have "rfind (CHR ''-'') suffix = Some td" "rfind (CHR ''-'') pre = Some (length a)" "rfind (CHR ''.'') suffix = Some cd"
    using r2 r3 r4 by (simp_all add: td_def cd_def pre_def)
  moreover have "drop (length (generation_dir db_name generation) + 1)
      (generation_dir db_name generation @ CHR ''/'' # suffix) = suffix" by simp
  ultimately show ?thesis
    by (simp only: key parse_frame_range_def r1 s s2 p k(4) Let_def option.case sum.case if_False)
      simp
qed

text \<open>Whatever the key, no slice of the parser is out of bounds.\<close>

lemma digit_not_dot:
  assumes "parse_unsigned bits s = Some n"
  shows "CHR ''.'' \<notin> set s"
proof -
  define ds where "ds = (case s of c # cs \<Rightarrow> if c = CHR ''+'' \<and> cs \<noteq> [] then cs else s | [] \<Rightarrow> [])"
  have "list_all digit ds" using assms by (simp add: parse_unsigned_def ds_def [symmetric] split: if_splits)
  then have "CHR ''.'' \<notin> set ds" by (auto simp: list_all_iff digit_def)
  moreover have "set s \<subseteq> insert (CHR ''+'') (set ds)" by (cases s) (auto simp: ds_def)
  ultimately show ?thesis by auto
qed

lemma parse_frame_range_total: "parse_frame_range key \<noteq> Inl e"
proof -
  have False if d: "rfind (CHR ''-'') s = Some td" "rfind (CHR ''-'') (take td s) = Some ld"
    and dot: "rfind (CHR ''.'') s = Some cd" "cd < td + 1"
    and p: "parse_unsigned 32 (take ld s) = Some a" "parse_unsigned 32 (drop (ld + 1) (take td s)) = Some b"
    for s td ld cd a b
  proof -
    have cd: "cd < length s" "s ! cd = CHR ''.''" using rfind_Some [OF dot(1)] by auto
    have td: "td < length s" "s ! td = CHR ''-''" using rfind_Some [OF d(1)] by auto
    have ld: "ld < td" "s ! ld = CHR ''-''" using rfind_Some [OF d(2)] by auto
    have "cd \<noteq> td" "cd \<noteq> ld" using cd td ld by auto
    then consider "cd < ld" | "ld < cd" "cd < td" using dot(2) by linarith
    then show False
    proof cases
      case 1
      then have "s ! cd \<in> set (take ld s)" using cd by (metis in_set_conv_nth length_take min_less_iff_conj nth_take)
      then show False using digit_not_dot [OF p(1)] cd by simp
    next
      case 2
      have "drop (ld + 1) (take td s) ! (cd - (ld + 1)) = s ! cd" using 2 td by simp
      moreover have "cd - (ld + 1) < length (drop (ld + 1) (take td s))" using 2 td by simp
      ultimately have "s ! cd \<in> set (drop (ld + 1) (take td s))" by (metis nth_mem)
      then show False using digit_not_dot [OF p(2)] cd by simp
    qed
  qed
  then show ?thesis
    by (auto simp: parse_frame_range_def Let_def split: option.splits sum.splits if_splits)
qed

end
