(* ===== verification/Generation.thy ===== *)
theory Generation
  imports WalBackup
begin

unbundle bit_operations_syntax

text \<open>
  The names of generations: UUIDs of version 7 whose timestamp runs backwards, so
  that a listing of the bucket has the newest generation first
  (\<^verbatim>\<open>bottomless/src/uuid_utils.rs\<close> and the generations of
  \<^verbatim>\<open>bottomless/src/replicator.rs\<close>). The UUID library and the random bytes are
  arguments. A timestamp is the seconds and nanoseconds it is made from.
\<close>

type_synonym Timestamp = "u64 \<times> u32"

record uuid_lib =
  ul_from_fields :: "u32 \<Rightarrow> u16 \<Rightarrow> u16 \<Rightarrow> byte list \<Rightarrow> Uuid"
  ul_as_bytes :: "Uuid \<Rightarrow> byte list"

text \<open>The documented layout of a UUID: its fields, each with its most significant byte first.\<close>

definition uuid_layout :: "uuid_lib \<Rightarrow> bool" where
  "uuid_layout lib \<longleftrightarrow>
     (\<forall>d1 d2 d3 d4. length d4 = 8 \<longrightarrow>
        ul_as_bytes lib (ul_from_fields lib d1 d2 d3 d4) = be_enc 4 d1 @ be_enc 2 d2 @ be_enc 2 d3 @ d4)"

definition encode_unix_timestamp_millis :: "uuid_lib \<Rightarrow> u64 \<Rightarrow> byte list \<Rightarrow> Uuid" where
  "encode_unix_timestamp_millis lib millis random_bytes =
     (let millis_high = ucast (drop_bit 16 millis AND 0xFFFFFFFF) :: u32;
          millis_low = ucast (millis AND 0xFFFF) :: u16;
          random_and_version =
            ((ucast (random_bytes ! 1) :: u16) OR (push_bit 8 (ucast (random_bytes ! 0)) AND 0x0FFF)) OR push_bit 12 7;
          d4 = [(random_bytes ! 2 AND 0x3F) OR 0x80, random_bytes ! 3, random_bytes ! 4, random_bytes ! 5,
                random_bytes ! 6, random_bytes ! 7, random_bytes ! 8, random_bytes ! 9]
      in ul_from_fields lib millis_high millis_low random_and_version d4)"

definition saturating_add :: "u64 \<Rightarrow> u64 \<Rightarrow> u64" where
  "saturating_add a b = (if unat a + unat b < 2 ^ 64 then a + b else - 1)"

definition new_v7 :: "uuid_lib \<Rightarrow> byte list \<Rightarrow> Timestamp \<Rightarrow> Uuid" where
  "new_v7 lib random ts =
     (case ts of (secs, nanos) \<Rightarrow>
        let millis = saturating_add (secs * 1000) (ucast nanos div 1000000)
        in encode_unix_timestamp_millis lib millis (take 10 random))"

definition decode_unix_timestamp :: "uuid_lib \<Rightarrow> Uuid \<Rightarrow> Timestamp" where
  "decode_unix_timestamp lib uuid =
     (let bytes = ul_as_bytes lib uuid;
          millis = push_bit 40 (ucast (bytes ! 0)) OR push_bit 32 (ucast (bytes ! 1)) OR
                   push_bit 24 (ucast (bytes ! 2)) OR push_bit 16 (ucast (bytes ! 3)) OR
                   push_bit 8 (ucast (bytes ! 4)) OR (ucast (bytes ! 5) :: u64);
          seconds = millis div 1000;
          nanos = ucast ((millis mod 1000) * 1000000) :: u32
      in (seconds, nanos))"

definition generation_from_timestamp :: "uuid_lib \<Rightarrow> byte list \<Rightarrow> Timestamp \<Rightarrow> Uuid" where
  "generation_from_timestamp lib random ts =
     (case ts of (seconds, nanos) \<Rightarrow> new_v7 lib random (253370761200 - seconds, 999999999 - nanos))"

definition generation_to_timestamp :: "uuid_lib \<Rightarrow> Uuid \<Rightarrow> Timestamp option" where
  "generation_to_timestamp lib generation =
     (case decode_unix_timestamp lib generation of (seconds, nanos) \<Rightarrow>
        Some (253370761200 - seconds, 999999999 - nanos))"

section \<open>The timestamp of a generation\<close>

text \<open>The first six bytes of the UUID are the milliseconds, the most significant byte first.\<close>

lemma be_enc_Suc: "be_enc (Suc n) (w :: 'a::len word) = word_of_nat (unat w div 256 ^ n mod 256) # be_enc n w"
proof -
  have "le_enc (Suc n) x = le_enc n x @ [word_of_nat (x div 256 ^ n mod 256)]" for x
    by (induction n arbitrary: x) (simp_all add: div_mult2_eq mult.commute)
  then show ?thesis by (simp add: be_enc_def word_bytes_def)
qed

lemma be_enc_0: "be_enc 0 w = []"
  by (simp add: be_enc_def word_bytes_def)

lemma be_byte: "(word_of_nat (unat (w :: 'a::len word) div 256 ^ n mod 256) :: byte) = ucast (drop_bit (8 * n) w)"
proof -
  have "(256 :: nat) ^ n = 2 ^ (8 * n)" by (simp add: power_mult)
  then have "unat w div 256 ^ n = unat (drop_bit (8 * n) w)" by (simp only: unat_drop_bit_eq) (simp add: drop_bit_eq_div)
  moreover have "(word_of_nat (x mod 256) :: byte) = word_of_nat x" for x
    by (simp add: word_unat_eq_iff unat_of_nat)
  ultimately show ?thesis by simp
qed

lemma be_enc_4: "be_enc 4 (w :: u32) = [ucast (drop_bit 24 w), ucast (drop_bit 16 w), ucast (drop_bit 8 w), ucast w]"
proof -
  have "be_enc (Suc (Suc (Suc (Suc 0)))) w =
      [ucast (drop_bit 24 w), ucast (drop_bit 16 w), ucast (drop_bit 8 w), ucast w]"
    by (simp only: be_enc_Suc be_enc_0 be_byte) simp
  then show ?thesis by (simp add: eval_nat_numeral)
qed

lemma be_enc_2: "be_enc 2 (w :: u16) = [ucast (drop_bit 8 w), ucast w]"
proof -
  have "be_enc (Suc (Suc 0)) w = [ucast (drop_bit 8 w), ucast w]"
    by (simp only: be_enc_Suc be_enc_0 be_byte) simp
  then show ?thesis by (simp add: eval_nat_numeral)
qed

lemma millis_of_bytes:
  fixes m :: u64
  defines "hi \<equiv> ucast (drop_bit 16 m AND 0xFFFFFFFF) :: u32" and "lo \<equiv> ucast (m AND 0xFFFF) :: u16"
  shows "push_bit 40 (ucast (ucast (drop_bit 24 hi) :: byte)) OR push_bit 32 (ucast (ucast (drop_bit 16 hi) :: byte)) OR
    push_bit 24 (ucast (ucast (drop_bit 8 hi) :: byte)) OR push_bit 16 (ucast (ucast hi :: byte)) OR
    push_bit 8 (ucast (ucast (drop_bit 8 lo) :: byte)) OR ucast (ucast lo :: byte) = take_bit 48 m"
proof -
  have masks: "(0xFFFFFFFF :: u64) = mask 32" "(0xFFFF :: u64) = mask 16" by (simp_all add: mask_eq_exp_minus_1)
  have hi: "bit hi i \<longleftrightarrow> i < 32 \<and> bit m (16 + i)" for i
    by (auto simp: hi_def masks bit_simps)
  have lo: "bit lo i \<longleftrightarrow> i < 16 \<and> bit m i" for i
    by (auto simp: lo_def masks bit_simps)
  have hb: "bit (push_bit (k + 16) (ucast (ucast (drop_bit k hi) :: byte) :: u64)) i \<longleftrightarrow>
      k + 16 \<le> i \<and> i < k + 24 \<and> bit m i" if "k \<le> 24" for k i
    using that by (auto simp: bit_simps hi) 
  have lb: "bit (push_bit k (ucast (ucast (drop_bit k lo) :: byte) :: u64)) i \<longleftrightarrow>
      k \<le> i \<and> i < k + 8 \<and> bit m i" if "k \<le> 8" for k i
    using that by (auto simp: bit_simps lo)
  show ?thesis
  proof (rule bit_word_eqI)
    fix n assume "n < LENGTH(64)"
    show "bit (push_bit 40 (ucast (ucast (drop_bit 24 hi) :: byte) :: u64) OR push_bit 32 (ucast (ucast (drop_bit 16 hi) :: byte)) OR
        push_bit 24 (ucast (ucast (drop_bit 8 hi) :: byte)) OR push_bit 16 (ucast (ucast hi :: byte)) OR
        push_bit 8 (ucast (ucast (drop_bit 8 lo) :: byte)) OR ucast (ucast lo :: byte)) n = bit (take_bit 48 m) n"
    proof -
      note bits = hb [of 24 n, simplified] hb [of 16 n, simplified] hb [of 8 n, simplified] hb [of 0 n, simplified]
        lb [of 8 n, simplified] lb [of 0 n, simplified]
      show ?thesis unfolding bit_or_iff bit_take_bit_iff bits by auto
    qed
  qed
qed

lemma decode_encode:
  assumes "uuid_layout lib"
  shows "decode_unix_timestamp lib (encode_unix_timestamp_millis lib m rnd) =
    (take_bit 48 m div 1000, ucast ((take_bit 48 m mod 1000) * 1000000))"
proof -
  define hi where "hi = (ucast (drop_bit 16 m AND 0xFFFFFFFF) :: u32)"
  define lo where "lo = (ucast (m AND 0xFFFF) :: u16)"
  define d3 where "d3 = (((ucast (rnd ! 1) :: u16) OR (push_bit 8 (ucast (rnd ! 0)) AND 0x0FFF)) OR push_bit 12 7)"
  define d4 where "d4 = [(rnd ! 2 AND 0x3F) OR 0x80, rnd ! 3, rnd ! 4, rnd ! 5, rnd ! 6, rnd ! 7, rnd ! 8, rnd ! 9]"
  have "length d4 = 8" "encode_unix_timestamp_millis lib m rnd = ul_from_fields lib hi lo d3 d4"
    by (simp add: d4_def, simp only: encode_unix_timestamp_millis_def hi_def lo_def d3_def d4_def Let_def)
  then have "ul_as_bytes lib (encode_unix_timestamp_millis lib m rnd) =
      [ucast (drop_bit 24 hi), ucast (drop_bit 16 hi), ucast (drop_bit 8 hi), ucast hi, ucast (drop_bit 8 lo), ucast lo] @
      be_enc 2 d3 @ d4"
    using assms by (simp add: uuid_layout_def be_enc_4 be_enc_2 [of lo])
  then show ?thesis
    using millis_of_bytes [of m] by (simp add: decode_unix_timestamp_def hi_def lo_def Let_def eval_nat_numeral)
qed

text \<open>
  The arithmetic: with seconds up to the origin of the reversed time and
  nanoseconds below a second, nothing wraps and the 48 bits hold the milliseconds.
\<close>

definition reversed_millis :: "nat \<Rightarrow> nat \<Rightarrow> nat" where
  "reversed_millis s n = (253370761200 - s) * 1000 + (999999999 - n) div 1000000"

lemma reversed_millis_bound: "reversed_millis s n < 2 ^ 48"
proof -
  have "(253370761200 - s) * 1000 \<le> 253370761200 * 1000" "(999999999 - n) div 1000000 \<le> 999"
    using div_le_mono [of "999999999 - n" 999999999 1000000] by simp_all
  then show ?thesis unfolding reversed_millis_def by simp
qed

lemma generation_millis:
  fixes s :: u64 and n :: u32
  assumes "unat s \<le> 253370761200" "unat n \<le> 999999999"
  shows "generation_from_timestamp lib rnd (s, n) =
    encode_unix_timestamp_millis lib (word_of_nat (reversed_millis (unat s) (unat n))) (take 10 rnd)"
proof -
  have us: "unat (253370761200 - s) = 253370761200 - unat s"
    using assms(1) by (simp add: unat_sub_ge word_le_nat_alt)
  have un: "unat (999999999 - n) = 999999999 - unat n"
    using assms(2) by (simp add: unat_sub_ge word_le_nat_alt)
  have a: "unat ((253370761200 - s) * 1000) = (253370761200 - unat s) * 1000"
  proof -
    define d where "d = 253370761200 - s"
    have "unat d * 1000 < 2 ^ 64" using us by (simp add: d_def)
    then have "unat (d * 1000) = unat d * 1000" by (simp add: unat_word_ariths)
    then show ?thesis using us by (simp add: d_def)
  qed
  have b: "unat ((ucast (999999999 - n) :: u64) div 1000000) = (999999999 - unat n) div 1000000"
  proof -
    define d where "d = 999999999 - n"
    have "unat (ucast d :: u64) = unat d"
      by (rule unsigned_ucast_eq [THEN trans]) (simp add: take_bit_nat_eq_self_iff less_le_trans [OF unsigned_less])
    then show ?thesis using un by (simp add: unat_div d_def)
  qed
  have "unat ((253370761200 - s) * 1000) + unat ((ucast (999999999 - n) :: u64) div 1000000) =
      reversed_millis (unat s) (unat n)" by (simp only: a b reversed_millis_def)
  moreover have "reversed_millis (unat s) (unat n) < 2 ^ 64"
    using reversed_millis_bound [of "unat s" "unat n"] by simp
  moreover have sum_word: "x + y = word_of_nat (unat x + unat y)" for x y :: u64 by simp
  ultimately have "saturating_add ((253370761200 - s) * 1000) (ucast (999999999 - n) div 1000000) =
      word_of_nat (reversed_millis (unat s) (unat n))"
    using sum_word [of "(253370761200 - s) * 1000" "ucast (999999999 - n) div 1000000"]
    by (simp only: saturating_add_def if_True)
  then show ?thesis by (simp add: generation_from_timestamp_def new_v7_def)
qed


definition sample_uuid_lib :: uuid_lib where
  "sample_uuid_lib =
     \<lparr> ul_from_fields = (\<lambda>d1 d2 d3 d4. be_word (be_enc 4 d1 @ be_enc 2 d2 @ be_enc 2 d3 @ d4)),
       ul_as_bytes = be_enc 16 \<rparr>"

lemma length_be_enc [simp]: "length (be_enc n w) = n"
  by (simp add: be_enc_def)

lemma sample_uuid_layout: "uuid_layout sample_uuid_lib"
proof -
  have "be_enc 16 (be_word bs :: Uuid) = bs" if "length bs = 16" for bs
    using word_bytes_bytes_word [of "rev bs", where 'a = 128] that by (simp add: be_enc_def be_word_def)
  then show ?thesis by (simp add: uuid_layout_def sample_uuid_lib_def)
qed


end
