(* ===== verification/PageCache.thy ===== *)
theory PageCache
  imports Prelude
begin

text \<open>
  The page cache of a transaction that is being restored
  (\<^verbatim>\<open>bottomless/src/transaction_cache.rs\<close>): the pages of the transaction are kept
  in memory and move to a file once there are too many of them. The outcomes of
  the file operations are arguments. The refinement shows that the place of
  the pages makes no difference to what is flushed to the database file.
\<close>

section \<open>Ordered maps\<close>

text \<open>A B-tree map, as the list of its entries in the order of the keys.\<close>

primrec btree_insert :: "'k::linorder \<Rightarrow> 'v \<Rightarrow> ('k \<times> 'v) list \<Rightarrow> ('k \<times> 'v) list" where
  "btree_insert k v [] = [(k, v)]"
| "btree_insert k v (e # m) =
     (if fst e < k then e # btree_insert k v m
      else if fst e = k then (k, v) # m
      else (k, v) # e # m)"

definition btree_ok :: "('k::linorder \<times> 'v) list \<Rightarrow> bool" where
  "btree_ok m \<longleftrightarrow> sorted_wrt (<) (map fst m)"

lemma btree_ok_Nil [simp]: "btree_ok []"
  by (simp add: btree_ok_def)

lemma set_keys_btree_insert: "fst ` set (btree_insert k v m) = insert k (fst ` set m)"
  by (induction m) auto

lemma btree_ok_Cons [simp]:
  "btree_ok (e # m) \<longleftrightarrow> (\<forall>k \<in> fst ` set m. fst e < k) \<and> btree_ok m"
  by (simp add: btree_ok_def)

lemma btree_ok_insert: "btree_ok m \<Longrightarrow> btree_ok (btree_insert k v m)"
proof (induction m)
  case (Cons e m)
  then have m: "\<forall>k \<in> fst ` set m. fst e < k" "btree_ok m" "btree_ok (btree_insert k v m)" by simp_all
  consider "fst e < k" | "fst e = k" | "k < fst e" by force
  then show ?case
  proof cases
    case 3
    then have "\<forall>k' \<in> fst ` set m. k < k'" using m(1) less_trans by blast
    with 3 m show ?thesis by (simp add: not_less_iff_gr_or_eq)
  qed (use m in \<open>simp_all only: btree_insert.simps btree_ok_Cons set_keys_btree_insert fst_conv
         if_True less_irrefl if_False ball_simps simp_thms\<close>)
qed simp

lemma map_of_btree_insert: "map_of (btree_insert k v m) = (map_of m)(k \<mapsto> v)"
  by (induction m) (auto simp: fun_eq_iff)

lemma btree_ok_distinct: "btree_ok m \<Longrightarrow> distinct (map fst m)"
  by (simp add: btree_ok_def strict_sorted_iff)

lemma btree_insert_present:
  "k \<in> fst ` set m \<Longrightarrow> btree_ok m \<Longrightarrow> map fst (btree_insert k v m) = map fst m"
  by (induction m) auto

lemma length_btree_insert:
  "btree_ok m \<Longrightarrow> length (btree_insert k v m) = (if k \<in> fst ` set m then length m else Suc (length m))"
  by (induction m) auto

lemma btree_insert_map:
  "map (\<lambda>(k, v). (k, f v)) (btree_insert k v m) = btree_insert k (f v) (map (\<lambda>(k, v). (k, f v)) m)"
  by (induction m) auto

text \<open>Two ordered maps with the same lookups have the same entries.\<close>

lemma btree_eqI:
  assumes "btree_ok m" "btree_ok m'" "map_of m = map_of m'"
  shows "m = m'"
proof -
  have "distinct (map fst m)" "distinct (map fst m')" using assms btree_ok_distinct by auto
  then have sets: "set m = set m'"
    using assms(3) by (metis map_of_inject_set)
  have "inj_on fst (set m \<union> set m')"
    using \<open>distinct (map fst m)\<close> sets by (simp add: distinct_map)
  then show ?thesis
    by (rule map_sorted_distinct_set_unique)
      (use assms sets in \<open>auto simp: btree_ok_def strict_sorted_iff\<close>)
qed

section \<open>The cache\<close>

datatype Cache =
    Memory "(u32 \<times> byte list) list"
  | Disk "(u32 \<times> nat) list" file_data

record TransactionPageCache =
  tc_swap_after_pages :: u32
  tc_page_size :: u32
  tc_cache :: Cache

text \<open>
  The outcomes of the file operations: opening the recovery file, writing a page
  to it while swapping, writing a page to it afterwards, writing a page to the
  database file, and what is left to do when the recovery file is closed.
\<close>

record cache_io =
  ci_open :: bool
  ci_swap :: "u32 \<Rightarrow> io"
  ci_persist :: io
  ci_flush :: "u32 \<Rightarrow> io"
  ci_close :: bool

datatype cache_error = CacheIo | CachePanic

definition new_cache :: "u32 \<Rightarrow> u32 \<Rightarrow> TransactionPageCache" where
  "new_cache swap_after_pages page_size =
     \<lparr> tc_swap_after_pages = swap_after_pages, tc_page_size = page_size, tc_cache = Memory [] \<rparr>"

definition persist ::
  "io \<Rightarrow> (u32 \<times> nat) list \<Rightarrow> file_data \<Rightarrow> u32 \<Rightarrow> u32 \<Rightarrow> byte list \<Rightarrow>
   bool \<times> (u32 \<times> nat) list \<times> file_data" where
  "persist io index file pgno page_size page =
     (let fin = length index * unat page_size
      in case map_of index pgno of
           None \<Rightarrow>
             (let (ok, file) = write_all_at io (length file) page file
              in (ok, if ok then btree_insert pgno fin index else index, file))
         | Some offset \<Rightarrow>
             (let (ok, file) = write_all_at io offset page file in (ok, index, file)))"

text \<open>The loop of \<^verbatim>\<open>swap\<close> over the pages in memory; None when a write failed.\<close>

fun swap_pages ::
  "(u32 \<Rightarrow> io) \<Rightarrow> (u32 \<times> byte list) list \<Rightarrow> nat \<Rightarrow> (u32 \<times> nat) list \<Rightarrow> file_data \<Rightarrow>
   ((u32 \<times> nat) list \<times> file_data) option" where
  "swap_pages io [] fin index file = Some (index, file)"
| "swap_pages io ((pgno, page) # old) fin index file =
     (let (ok, file) = write_all_at (io pgno) (length file) page file
      in if \<not> ok then None
         else swap_pages io old (fin + length page) (btree_insert pgno fin index) file)"

fun swap :: "cache_io \<Rightarrow> Cache \<Rightarrow> Cache" where
  "swap io (Disk index file) = Disk index file"
| "swap io (Memory old) =
     (if \<not> ci_open io then Memory old
      else case swap_pages (ci_swap io) old 0 [] [] of
             None \<Rightarrow> Memory old
           | Some (index, file) \<Rightarrow> Disk index file)"

definition insert_disk ::
  "cache_io \<Rightarrow> u32 \<Rightarrow> byte list \<Rightarrow> TransactionPageCache \<Rightarrow> (u32 \<times> nat) list \<Rightarrow> file_data \<Rightarrow>
   (cache_error + unit) \<times> TransactionPageCache" where
  "insert_disk io pgno page c index file =
     (let (ok, index, file) = persist (ci_persist io) index file pgno (tc_page_size c) page
      in (if ok then Inr () else Inl CacheIo, c\<lparr>tc_cache := Disk index file\<rparr>))"

definition insert_page ::
  "cache_io \<Rightarrow> u32 \<Rightarrow> byte list \<Rightarrow> TransactionPageCache \<Rightarrow> (cache_error + unit) \<times> TransactionPageCache" where
  "insert_page io pgno page c =
     (case tc_cache c of
        Memory m \<Rightarrow>
          (case map_of m pgno of
             None \<Rightarrow>
               if unat (tc_swap_after_pages c) < length m
               then (case swap io (Memory m) of
                       Disk index file \<Rightarrow> insert_disk io pgno page c index file
                     | Memory m \<Rightarrow> (Inr (), c\<lparr>tc_cache := Memory (btree_insert pgno page m)\<rparr>))
               else (Inr (), c\<lparr>tc_cache := Memory (btree_insert pgno page m)\<rparr>)
           | Some buf \<Rightarrow>
               if length buf \<noteq> length page then (Inl CachePanic, c)
               else (Inr (), c\<lparr>tc_cache := Memory (btree_insert pgno page m)\<rparr>))
      | Disk index file \<Rightarrow> insert_disk io pgno page c index file)"

text \<open>The place of a page in the database file; the number of the page wraps below one.\<close>

definition page_offset :: "u32 \<Rightarrow> u32 \<Rightarrow> nat" where
  "page_offset page_size pgno = unat (pgno - 1) * unat page_size"

fun flush_pages ::
  "(u32 \<Rightarrow> io) \<Rightarrow> u32 \<Rightarrow> (u32 \<times> byte list) list \<Rightarrow> file_data \<Rightarrow> bool \<times> file_data" where
  "flush_pages io page_size [] db = (True, db)"
| "flush_pages io page_size ((pgno, page) # m) db =
     (let (ok, db) = write_all_at (io pgno) (page_offset page_size pgno) page db
      in if ok then flush_pages io page_size m db else (False, db))"

definition flush_cache :: "cache_io \<Rightarrow> TransactionPageCache \<Rightarrow> file_data \<Rightarrow> bool \<times> file_data" where
  "flush_cache io c db =
     (case tc_cache c of
        Memory m \<Rightarrow> flush_pages (ci_flush io) (tc_page_size c) m db
      | Disk index file \<Rightarrow>
          (let pages = map (\<lambda>(pgno, off). (pgno, byte_slice off (unat (tc_page_size c)) file)) index;
               (ok, db) = flush_pages (ci_flush io) (tc_page_size c) pages db
           in (ok \<and> ci_close io, db)))"

section \<open>The cache as a map of pages\<close>

text \<open>
  The abstraction: the pages by their number, wherever they are. On disk every
  page has a place of its own in the recovery file, and the file has no other bytes.
\<close>

definition disk_pages :: "nat \<Rightarrow> (u32 \<times> nat) list \<Rightarrow> file_data \<Rightarrow> (u32 \<times> byte list) list" where
  "disk_pages ps index file = map (\<lambda>(pgno, off). (pgno, byte_slice off ps file)) index"

fun cache_pages :: "nat \<Rightarrow> Cache \<Rightarrow> (u32 \<times> byte list) list" where
  "cache_pages ps (Memory m) = m"
| "cache_pages ps (Disk index file) = disk_pages ps index file"

definition disk_ok :: "nat \<Rightarrow> (u32 \<times> nat) list \<Rightarrow> file_data \<Rightarrow> bool" where
  "disk_ok ps index file \<longleftrightarrow>
     btree_ok index \<and> length file = length index * ps \<and> distinct (map snd index) \<and>
     (\<forall>(pgno, off) \<in> set index. ps dvd off \<and> off + ps \<le> length file)"

fun cache_ok :: "nat \<Rightarrow> Cache \<Rightarrow> bool" where
  "cache_ok ps (Memory m) \<longleftrightarrow> btree_ok m \<and> (\<forall>(pgno, page) \<in> set m. length page = ps)"
| "cache_ok ps (Disk index file) \<longleftrightarrow> disk_ok ps index file"

lemma btree_ok_map_snd: "btree_ok (map (\<lambda>(k, v). (k, f v)) m) = btree_ok m"
proof -
  have "map fst (map (\<lambda>(k, v). (k, f v)) m) = map fst m" by (simp add: case_prod_beta)
  then show ?thesis by (simp only: btree_ok_def)
qed

lemma map_of_disk_pages:
  "map_of (disk_pages ps index file) k = map_option (\<lambda>off. byte_slice off ps file) (map_of index k)"
  by (simp add: disk_pages_def map_of_map)

lemma btree_ok_disk_pages: "disk_ok ps index file \<Longrightarrow> btree_ok (disk_pages ps index file)"
  by (simp add: disk_ok_def disk_pages_def btree_ok_map_snd)

lemma disk_okD:
  assumes "disk_ok ps index file" "map_of index k = Some off"
  shows "ps dvd off" "off + ps \<le> length file"
  using assms map_of_SomeD [of index k off] by (auto simp: disk_ok_def)

lemma disk_offset_inj:
  assumes "disk_ok ps index file" "map_of index k = Some off" "map_of index k' = Some off"
  shows "k = k'"
proof -
  have "(k, off) \<in> set index" "(k', off) \<in> set index" using assms(2,3) by (auto dest: map_of_SomeD)
  moreover have "inj_on snd (set index)" using assms(1) by (simp add: disk_ok_def distinct_map)
  ultimately show ?thesis by (metis inj_onD prod.inject snd_conv)
qed

lemma dvd_slots:
  assumes "(ps :: nat) dvd a" "ps dvd b" "a < b"
  shows "a + ps \<le> b"
proof -
  have "ps dvd b - a" using assms by (simp add: dvd_diff_nat)
  then have "ps \<le> b - a" using assms(3) by (intro dvd_imp_le) simp_all
  then show ?thesis using assms(3) by simp
qed

text \<open>Overwriting a place changes the page there and no other.\<close>

lemma byte_slice_overwrite:
  assumes "ps dvd off" "ps dvd off'" "off \<noteq> off'" "off' + ps \<le> length file"
    and "length page = ps"
  shows "byte_slice off' ps (put_at off page file) = byte_slice off' ps file"
proof (cases "off' < off")
  case True
  then have "off' + ps \<le> off" using assms dvd_slots by blast
  then show ?thesis using assms by (simp add: byte_slice_put_at_before)
next
  case False
  then have "off + ps \<le> off'" using assms dvd_slots [of ps off off'] by linarith
  then show ?thesis using assms by (simp add: byte_slice_put_at_after)
qed

lemma disk_pages_overwrite:
  assumes ok: "disk_ok ps index file" and at: "map_of index pgno = Some off" and "length page = ps"
  shows "disk_pages ps index (put_at off page file) = btree_insert pgno page (disk_pages ps index file)"
proof (rule btree_eqI)
  show "btree_ok (disk_pages ps index (put_at off page file))"
    using ok by (simp add: disk_ok_def disk_pages_def btree_ok_map_snd)
  show "btree_ok (btree_insert pgno page (disk_pages ps index file))"
    using btree_ok_disk_pages [OF ok] by (rule btree_ok_insert)
  have "map_option (\<lambda>off'. byte_slice off' ps (put_at off page file)) (map_of index k) =
      ((map_of (disk_pages ps index file))(pgno \<mapsto> page)) k" for k
  proof (cases "map_of index k")
    case None
    then have "k \<noteq> pgno" using at by auto
    with None show ?thesis by (simp add: map_of_disk_pages)
  next
    case (Some off')
    show ?thesis
    proof (cases "k = pgno")
      case True
      then show ?thesis using at Some byte_slice_put_at_same [of off page "file"] assms(3) by simp
    next
      case False
      then have "off \<noteq> off'" using disk_offset_inj [OF ok at] Some by auto
      then have "byte_slice off' ps (put_at off page file) = byte_slice off' ps file"
        using disk_okD [OF ok at] disk_okD [OF ok Some] assms(3)
        by (intro byte_slice_overwrite) auto
      with False Some show ?thesis by (simp add: map_of_disk_pages)
    qed
  qed
  then show "map_of (disk_pages ps index (put_at off page file)) =
      map_of (btree_insert pgno page (disk_pages ps index file))"
    by (simp add: fun_eq_iff map_of_btree_insert map_of_disk_pages)
qed

lemma disk_ok_overwrite:
  assumes "disk_ok ps index file" "map_of index pgno = Some off" "length page = ps"
  shows "disk_ok ps index (put_at off page file)"
  using assms(1) disk_okD [OF assms(1,2)] assms(3) by (auto simp: disk_ok_def max_def)

text \<open>A new page gets the place at the end of the file.\<close>

lemma put_at_end: "put_at (length file) page file = file @ page"
  by (simp add: put_at_def)

lemma set_btree_insert_new:
  "k \<notin> fst ` set m \<Longrightarrow> set (btree_insert k v m) = insert (k, v) (set m)"
  by (induction m) auto

lemma distinct_snd_btree_insert:
  "distinct (map snd m) \<Longrightarrow> k \<notin> fst ` set m \<Longrightarrow> v \<notin> snd ` set m \<Longrightarrow>
   distinct (map snd (btree_insert k v m))"
  by (induction m) (auto simp: set_btree_insert_new)

lemma disk_ok_append:
  assumes ok: "disk_ok ps index file" and new: "map_of index pgno = None" and len: "length page = ps" "0 < ps"
  shows "disk_ok ps (btree_insert pgno (length index * ps) index) (file @ page)"
proof -
  have fresh: "pgno \<notin> fst ` set index" using new by (simp add: map_of_eq_None_iff)
  have off: "length index * ps \<notin> snd ` set index"
  proof
    assume "length index * ps \<in> snd ` set index"
    then obtain k where "(k, length index * ps) \<in> set index" by auto
    then have "length index * ps + ps \<le> length file" using ok by (auto simp: disk_ok_def)
    then show False using ok len by (simp add: disk_ok_def)
  qed
  have b: "btree_ok index" "length file = length index * ps" "distinct (map snd index)"
    using ok by (simp_all add: disk_ok_def)
  have "\<forall>(k, v) \<in> set index. ps dvd v \<and> v + ps \<le> length file + ps"
    using ok by (auto simp: disk_ok_def)
  then show ?thesis
    using b fresh len distinct_snd_btree_insert [OF b(3) fresh off]
    by (simp add: disk_ok_def btree_ok_insert length_btree_insert set_btree_insert_new)
qed

lemma disk_pages_append:
  assumes ok: "disk_ok ps index file" and new: "map_of index pgno = None" and len: "length page = ps" "0 < ps"
  shows "disk_pages ps (btree_insert pgno (length index * ps) index) (file @ page) =
    btree_insert pgno page (disk_pages ps index file)"
proof (rule btree_eqI)
  show "btree_ok (disk_pages ps (btree_insert pgno (length index * ps) index) (file @ page))"
    using disk_ok_append [OF assms] by (rule btree_ok_disk_pages)
  show "btree_ok (btree_insert pgno page (disk_pages ps index file))"
    using btree_ok_disk_pages [OF ok] by (rule btree_ok_insert)
  have "map_of (disk_pages ps (btree_insert pgno (length index * ps) index) (file @ page)) k =
      map_of (btree_insert pgno page (disk_pages ps index file)) k" for k
  proof (cases "k = pgno")
    case True
    have "length file = length index * ps" using ok by (simp add: disk_ok_def)
    then have "byte_slice (length index * ps) ps (file @ page) = page"
      using len by (simp add: byte_slice_def)
    with True show ?thesis by (simp add: map_of_disk_pages map_of_btree_insert)
  next
    case False
    have "byte_slice off ps (file @ page) = byte_slice off ps file" if "map_of index k = Some off" for off
      using disk_okD [OF ok that] by (simp add: byte_slice_append_left)
    with False show ?thesis
      by (cases "map_of index k") (simp_all add: map_of_disk_pages map_of_btree_insert)
  qed
  then show "map_of (disk_pages ps (btree_insert pgno (length index * ps) index) (file @ page)) =
      map_of (btree_insert pgno page (disk_pages ps index file))" by (rule ext)
qed

section \<open>The operations on the map\<close>

definition cache_size :: "TransactionPageCache \<Rightarrow> nat" where
  "cache_size c = unat (tc_page_size c)"

definition cached_pages :: "TransactionPageCache \<Rightarrow> (u32 \<times> byte list) list" where
  "cached_pages c = cache_pages (cache_size c) (tc_cache c)"

definition tc_ok :: "TransactionPageCache \<Rightarrow> bool" where
  "tc_ok c \<longleftrightarrow> cache_ok (cache_size c) (tc_cache c) \<and> 0 < cache_size c"

lemma persist_refines:
  assumes "disk_ok ps index file" "length page = ps" "ps = unat page_size" "0 < ps"
    and "persist IoOk index file pgno page_size page = (ok, index', file')"
  shows "ok \<and> disk_ok ps index' file' \<and>
    disk_pages ps index' file' = btree_insert pgno page (disk_pages ps index file)"
proof (cases "map_of index pgno")
  case None
  then show ?thesis
    using assms disk_ok_append [OF assms(1) None assms(2,4)] disk_pages_append [OF assms(1) None assms(2,4)]
    by (auto simp: persist_def write_all_at_def put_at_end Let_def)
next
  case (Some off)
  then show ?thesis
    using assms disk_ok_overwrite [OF assms(1) Some assms(2)] disk_pages_overwrite [OF assms(1) Some assms(2)]
    by (auto simp: persist_def write_all_at_def Let_def)
qed

lemma swap_pages_refines:
  assumes "swap_pages io old (length index * ps) index file = Some (index', file')"
    and "disk_ok ps index file" "0 < ps" "\<forall>(pgno, page) \<in> set old. length page = ps"
    and "distinct (map fst old)" "fst ` set old \<inter> fst ` set index = {}"
  shows "disk_ok ps index' file' \<and>
    disk_pages ps index' file' = fold (\<lambda>(pgno, page). btree_insert pgno page) old (disk_pages ps index file)"
  using assms
proof (induction old arbitrary: index "file")
  case (Cons e old)
  obtain pgno page where e: "e = (pgno, page)" by (cases e)
  have len: "length page = ps" using Cons.prems(4) e by simp
  have new: "map_of index pgno = None" using Cons.prems(6) e by (simp add: map_of_eq_None_iff)
  define index1 where "index1 = btree_insert pgno (length index * ps) index"
  have sz: "length index1 = Suc (length index)"
    using Cons.prems(2) new by (simp add: index1_def length_btree_insert disk_ok_def map_of_eq_None_iff)
  have keys: "fst ` set index1 = insert pgno (fst ` set index)"
    by (simp add: index1_def set_keys_btree_insert)
  have "swap_pages io old (length index * ps + ps) index1 (file @ page) = Some (index', file')"
    using Cons.prems(1) e len
    by (auto simp: write_all_at_def put_at_end index1_def Let_def split: io.splits if_splits prod.splits)
  then have run: "swap_pages io old (length index1 * ps) index1 (file @ page) = Some (index', file')"
    using sz by (simp add: add.commute)
  have "disk_ok ps index1 (file @ page)"
    unfolding index1_def by (rule disk_ok_append [OF Cons.prems(2) new len Cons.prems(3)])
  moreover have "fst ` set old \<inter> fst ` set index1 = {}"
    using Cons.prems(5,6) e keys by auto
  ultimately have "disk_ok ps index' file' \<and>
    disk_pages ps index' file' = fold (\<lambda>(pgno, page). btree_insert pgno page) old (disk_pages ps index1 (file @ page))"
    using run Cons.prems(3-5) by (intro Cons.IH) auto
  then show ?case
    using disk_pages_append [OF Cons.prems(2) new len Cons.prems(3)] by (simp add: index1_def e)
qed simp

lemma map_of_fold_insert:
  "map_of (fold (\<lambda>(k, v). btree_insert k v) xs m) = map_of m ++ map_of (rev xs)"
  by (induction xs arbitrary: m) (auto simp: map_of_btree_insert fun_eq_iff map_add_def split: option.splits)

lemma btree_ok_fold_insert: "btree_ok m \<Longrightarrow> btree_ok (fold (\<lambda>(k, v). btree_insert k v) xs m)"
  by (induction xs arbitrary: m) (auto simp: btree_ok_insert)

lemma fold_insert_btree: "btree_ok m \<Longrightarrow> fold (\<lambda>(k, v). btree_insert k v) m [] = m"
proof (rule btree_eqI)
  assume ok: "btree_ok m"
  have "distinct (map fst m)" using ok by (rule btree_ok_distinct)
  then have "map_of (rev m) = map_of m"
    by (metis distinct_rev map_of_inject_set rev_map set_rev)
  then show "map_of (fold (\<lambda>(k, v). btree_insert k v) m []) = map_of m"
    by (simp add: map_of_fold_insert)
qed (simp_all add: btree_ok_fold_insert)

lemma swap_refines:
  assumes "cache_ok ps c" "0 < ps"
  shows "cache_ok ps (swap io c) \<and> cache_pages ps (swap io c) = cache_pages ps c"
proof (cases c)
  case (Memory m)
  have empty: "disk_ok ps [] []" by (simp add: disk_ok_def)
  have "cache_ok ps (Disk index file) \<and> cache_pages ps (Disk index file) = m"
    if "swap_pages (ci_swap io) m 0 [] [] = Some (index, file)" for index "file"
  proof -
    have "disk_ok ps index file \<and>
        disk_pages ps index file = fold (\<lambda>(pgno, page). btree_insert pgno page) m (disk_pages ps [] [])"
      by (rule swap_pages_refines [of "ci_swap io" m "[]"])
        (use that assms Memory empty btree_ok_distinct in auto)
    then show ?thesis using assms Memory fold_insert_btree [of m] by (simp add: disk_pages_def)
  qed
  with assms Memory show ?thesis by (auto split: option.split)
qed (use assms in simp)

lemma set_btree_insert_subset: "set (btree_insert k v m) \<subseteq> insert (k, v) (set m)"
  by (induction m) auto

lemma insert_memory_refines:
  assumes "tc_ok c" "tc_cache c = Memory m" "length page = cache_size c"
    and "c' = c\<lparr>tc_cache := Memory (btree_insert pgno page m)\<rparr>"
  shows "tc_ok c' \<and> tc_page_size c' = tc_page_size c \<and> cached_pages c' = btree_insert pgno page (cached_pages c)"
proof -
  have "cache_ok (cache_size c) (Memory (btree_insert pgno page m))"
    using assms(1-3) set_btree_insert_subset [of pgno page m] by (auto simp: tc_ok_def btree_ok_insert)
  then show ?thesis using assms by (simp add: tc_ok_def cached_pages_def cache_size_def)
qed

lemma insert_disk_refines:
  assumes "disk_ok (cache_size c) index file" "length page = cache_size c" "0 < cache_size c"
    and "ci_persist io = IoOk"
  shows "\<exists>c'. insert_disk io pgno page c index file = (Inr (), c') \<and> tc_ok c' \<and>
    tc_page_size c' = tc_page_size c \<and>
    cached_pages c' = btree_insert pgno page (disk_pages (cache_size c) index file)"
proof -
  obtain ok index' file' where
    p: "persist IoOk index file pgno (tc_page_size c) page = (ok, index', file')"
    by (metis prod_cases3)
  show ?thesis
    using persist_refines [OF assms(1,2) _ assms(3) p] p assms(3,4)
    by (simp add: insert_disk_def tc_ok_def cached_pages_def cache_size_def)
qed

lemma insert_page_refines:
  assumes "tc_ok c" "length page = cache_size c" "ci_persist io = IoOk"
  shows "\<exists>c'. insert_page io pgno page c = (Inr (), c') \<and> tc_ok c' \<and>
    tc_page_size c' = tc_page_size c \<and> cached_pages c' = btree_insert pgno page (cached_pages c)"
proof (cases "tc_cache c")
  case (Disk index "file")
  then show ?thesis
    using insert_disk_refines [of c index "file" page io pgno] assms
    by (simp add: insert_page_def tc_ok_def cached_pages_def)
next
  case (Memory m)
  have m: "btree_ok m" "\<forall>(k, page) \<in> set m. length page = cache_size c" "0 < cache_size c"
    using assms(1) Memory by (simp_all add: tc_ok_def)
  define c' where "c' = c\<lparr>tc_cache := Memory (btree_insert pgno page m)\<rparr>"
  have c': "tc_ok c' \<and> tc_page_size c' = tc_page_size c \<and>
      cached_pages c' = btree_insert pgno page (cached_pages c)"
    by (rule insert_memory_refines [OF assms(1) Memory assms(2) c'_def])
  have buf: "length buf = length page" if "map_of m pgno = Some buf" for buf
    using that m(2) assms(2) by (auto dest!: map_of_SomeD)
  have sw: "cache_ok (cache_size c) (swap io (Memory m)) \<and>
      cache_pages (cache_size c) (swap io (Memory m)) = m"
    using swap_refines [of "cache_size c" "Memory m" io] m by simp
  consider (present) buf where "map_of m pgno = Some buf"
    | (room) "map_of m pgno = None" "\<not> unat (tc_swap_after_pages c) < length m"
    | (stays) m' where "map_of m pgno = None" "unat (tc_swap_after_pages c) < length m" "swap io (Memory m) = Memory m'"
    | (disk) index "file" where "map_of m pgno = None" "unat (tc_swap_after_pages c) < length m"
        "swap io (Memory m) = Disk index file"
    by (metis Cache.exhaust option.exhaust)
  then show ?thesis
  proof cases
    case present
    then have "insert_page io pgno page c = (Inr (), c')"
      using Memory buf [OF present] by (simp add: insert_page_def c'_def)
    with c' show ?thesis by blast
  next
    case room
    then have "insert_page io pgno page c = (Inr (), c')" using Memory by (simp add: insert_page_def c'_def)
    with c' show ?thesis by blast
  next
    case stays
    then have "m' = m" using sw by simp
    then have "insert_page io pgno page c = (Inr (), c')"
      using Memory stays by (simp add: insert_page_def c'_def del: swap.simps)
    with c' show ?thesis by blast
  next
    case disk
    have dok: "disk_ok (cache_size c) index file" and dp: "disk_pages (cache_size c) index file = cached_pages c"
      using sw Memory disk(3) by (simp_all add: cached_pages_def)
    have "insert_page io pgno page c = insert_disk io pgno page c index file"
      using Memory disk by (simp add: insert_page_def del: swap.simps)
    then show ?thesis
      using insert_disk_refines [OF dok assms(2) m(3) assms(3), of pgno] dp by simp
  qed
qed

text \<open>What a flush writes to the database file.\<close>

definition put_pages :: "u32 \<Rightarrow> (u32 \<times> byte list) list \<Rightarrow> file_data \<Rightarrow> file_data" where
  "put_pages page_size m db = fold (\<lambda>(pgno, page). put_at (page_offset page_size pgno) page) m db"

lemma flush_pages_ok:
  "\<forall>pgno. io pgno = IoOk \<Longrightarrow> flush_pages io page_size m db = (True, put_pages page_size m db)"
  by (induction m arbitrary: db) (auto simp: put_pages_def write_all_at_def)

lemma flush_cache_refines:
  assumes "\<forall>pgno. ci_flush io pgno = IoOk" "ci_close io"
  shows "flush_cache io c db = (True, put_pages (tc_page_size c) (cached_pages c) db)"
  using assms
  by (cases "tc_cache c")
    (simp_all add: flush_cache_def flush_pages_ok cached_pages_def disk_pages_def cache_size_def Let_def)

lemma page_offset_eq: "0 < unat page_size \<Longrightarrow> page_offset page_size p = page_offset page_size q \<longleftrightarrow> p = q"
  by (simp add: page_offset_def word_unat_eq_iff [symmetric])

lemma dvd_page_offset: "unat page_size dvd page_offset page_size p"
  by (simp add: page_offset_def)

lemma length_put_pages: "length db \<le> length (put_pages page_size m db)"
proof (induction m arbitrary: db)
  case (Cons e m)
  obtain pgno page where e: "e = (pgno, page)" by (cases e)
  have "length db \<le> length (put_at (page_offset page_size pgno) page db)" by simp
  also have "\<dots> \<le> length (put_pages page_size m (put_at (page_offset page_size pgno) page db))"
    by (rule Cons.IH)
  finally show ?case by (simp add: put_pages_def e)
qed (simp add: put_pages_def)

lemma put_pages_other:
  assumes "map_of m p = None" "0 < unat page_size" "\<forall>(k, page) \<in> set m. length page = unat page_size"
    and "page_offset page_size p + unat page_size \<le> length db"
  shows "byte_slice (page_offset page_size p) (unat page_size) (put_pages page_size m db) =
    byte_slice (page_offset page_size p) (unat page_size) db"
  using assms
proof (induction m arbitrary: db)
  case (Cons e m)
  obtain pgno page where e: "e = (pgno, page)" by (cases e)
  define db1 where "db1 = put_at (page_offset page_size pgno) page db"
  have ne: "p \<noteq> pgno" and none: "map_of m p = None" using Cons.prems(1) e by (auto split: if_splits)
  have "byte_slice (page_offset page_size p) (unat page_size) (put_pages page_size m db1) =
      byte_slice (page_offset page_size p) (unat page_size) db1"
    by (rule Cons.IH [OF none Cons.prems(2)]) (use Cons.prems db1_def in auto)
  also have "\<dots> = byte_slice (page_offset page_size p) (unat page_size) db"
    unfolding db1_def
    by (rule byte_slice_overwrite)
      (use Cons.prems e ne in \<open>auto simp: dvd_page_offset page_offset_eq\<close>)
  finally show ?case by (simp add: put_pages_def e db1_def)
qed (simp add: put_pages_def)

lemma put_pages_read:
  assumes "map_of m p = Some page" "distinct (map fst m)" "0 < unat page_size"
    and "\<forall>(k, page) \<in> set m. length page = unat page_size"
  shows "byte_slice (page_offset page_size p) (unat page_size) (put_pages page_size m db) = page"
  using assms
proof (induction m arbitrary: db)
  case (Cons e m)
  obtain pgno page' where e: "e = (pgno, page')" by (cases e)
  define db1 where "db1 = put_at (page_offset page_size pgno) page' db"
  have db1: "put_pages page_size (e # m) db = put_pages page_size m db1"
    by (simp add: put_pages_def e db1_def)
  have rest: "\<forall>(k, page) \<in> set m. length page = unat page_size" "length page' = unat page_size"
    using Cons.prems(4) e by auto
  show ?case
  proof (cases "p = pgno")
    case True
    then have "map_of m p = None" using Cons.prems(2) e by (simp add: map_of_eq_None_iff)
    then have "byte_slice (page_offset page_size p) (unat page_size) (put_pages page_size m db1) =
        byte_slice (page_offset page_size p) (unat page_size) db1"
      using rest Cons.prems(3) True by (intro put_pages_other) (auto simp: db1_def)
    also have "\<dots> = page'"
      using byte_slice_put_at_same [of "page_offset page_size p" page' db] rest(2) True by (simp add: db1_def)
    finally show ?thesis using Cons.prems(1) e True db1 by simp
  next
    case False
    then have "map_of m p = Some page" "distinct (map fst m)" using Cons.prems(1,2) e by auto
    then show ?thesis unfolding db1 by (rule Cons.IH) (use Cons.prems(3) rest in auto)
  qed
qed simp

section \<open>The store of pages\<close>

text \<open>
  What a restore relies on: a store that starts empty, takes pages of a fixed
  size and writes them out. Its operations take the outcomes \<^term>\<open>io\<close> of the
  environment; \<^term>\<open>taken io\<close> and \<^term>\<open>written io\<close> say that nothing the
  operation depends on failed.
\<close>

locale page_store =
  fixes fresh :: 's
    and ins :: "'io \<Rightarrow> u32 \<Rightarrow> byte list \<Rightarrow> 's \<Rightarrow> ('e + unit) \<times> 's"
    and out :: "'io \<Rightarrow> 's \<Rightarrow> file_data \<Rightarrow> bool \<times> file_data"
    and pages :: "'s \<Rightarrow> (u32 \<times> byte list) list"
    and ok :: "'s \<Rightarrow> bool"
    and size :: u32
    and taken written :: "'io \<Rightarrow> bool"
  assumes fresh: "ok fresh" "pages fresh = []"
    and ins: "ok s \<Longrightarrow> length page = unat size \<Longrightarrow> taken io \<Longrightarrow>
      \<exists>s'. ins io pgno page s = (Inr (), s') \<and> ok s' \<and> pages s' = btree_insert pgno page (pages s)"
    and out: "ok s \<Longrightarrow> written io \<Longrightarrow> out io s db = (True, put_pages size (pages s) db)"
    and size: "0 < unat size"
begin

primrec ins_all :: "('io \<times> u32 \<times> byte list) list \<Rightarrow> 's \<Rightarrow> ('e + unit) \<times> 's" where
  "ins_all [] s = (Inr (), s)"
| "ins_all (x # xs) s =
     (case x of (io, pgno, page) \<Rightarrow>
        (case ins io pgno page s of
           (Inl e, s') \<Rightarrow> (Inl e, s')
         | (Inr _, s') \<Rightarrow> ins_all xs s'))"

lemma ins_all_pages:
  assumes "ok s" "\<forall>(io, pgno, page) \<in> set xs. length page = unat size \<and> taken io"
  shows "\<exists>s'. ins_all xs s = (Inr (), s') \<and> ok s' \<and>
    pages s' = fold (\<lambda>(k, v). btree_insert k v) (map snd xs) (pages s)"
  using assms
proof (induction xs arbitrary: s)
  case (Cons x xs)
  obtain io pgno page where x: "x = (io, pgno, page)" by (metis prod_cases3)
  obtain s1 where s1: "ins io pgno page s = (Inr (), s1)" "ok s1"
    "pages s1 = btree_insert pgno page (pages s)"
    using ins [OF Cons.prems(1), of page io pgno] Cons.prems(2) x by auto
  show ?case using Cons.IH [OF s1(2)] Cons.prems(2) s1 x by auto
qed simp

lemma written_pages:
  assumes "ok s" "pages s = fold (\<lambda>(k, v). btree_insert k v) ws []" "written io"
    and "\<forall>(pgno, page) \<in> set ws. length page = unat size"
    and "out io s db = (b, db')"
  shows "b \<and> (case map_of (rev ws) pgno of
      Some page \<Rightarrow> byte_slice (page_offset size pgno) (unat size) db' = page
    | None \<Rightarrow> page_offset size pgno + unat size \<le> length db \<longrightarrow>
        byte_slice (page_offset size pgno) (unat size) db' = byte_slice (page_offset size pgno) (unat size) db)"
proof -
  define m where "m = pages s"
  have ok: "btree_ok m" using assms(2) btree_ok_fold_insert [of "[]"] by (simp add: m_def)
  have look: "map_of m = map_of (rev ws)" using assms(2) by (simp add: m_def map_of_fold_insert)
  have lens: "\<forall>(k, page) \<in> set m. length page = unat size"
  proof
    fix e assume "e \<in> set m"
    then obtain k page where e: "e = (k, page)" "(k, page) \<in> set m" by (metis prod.collapse)
    then have "map_of m k = Some page" using btree_ok_distinct [OF ok] by simp
    then have "(k, page) \<in> set ws" using look by (auto dest: map_of_SomeD)
    then show "case e of (k, page) \<Rightarrow> length page = unat size" using assms(4) e by auto
  qed
  have db': "b" "db' = put_pages size m db" using out [OF assms(1,3), of db] assms(5) by (simp_all add: m_def)
  show ?thesis
    using db' look put_pages_read [OF _ btree_ok_distinct [OF ok] size lens, of pgno _ db]
      put_pages_other [OF _ size lens, of pgno db]
    by (auto split: option.split)
qed

end

definition page_taken :: "cache_io \<Rightarrow> bool" where
  "page_taken io \<longleftrightarrow> ci_persist io = IoOk"

definition pages_written :: "cache_io \<Rightarrow> bool" where
  "pages_written io \<longleftrightarrow> (\<forall>pgno. ci_flush io pgno = IoOk) \<and> ci_close io"

lemma cache_page_store:
  assumes "0 < unat page_size"
  shows "page_store (new_cache swap_after page_size) insert_page flush_cache cached_pages
    (\<lambda>c. tc_ok c \<and> tc_page_size c = page_size) page_size page_taken pages_written"
proof
  show "tc_ok (new_cache swap_after page_size) \<and> tc_page_size (new_cache swap_after page_size) = page_size"
    "cached_pages (new_cache swap_after page_size) = []"
    using assms by (simp_all add: new_cache_def tc_ok_def cached_pages_def cache_size_def)
  fix s io pgno and page :: "byte list" and db
  assume s: "tc_ok s \<and> tc_page_size s = page_size"
  show "\<exists>s'. insert_page io pgno page s = (Inr (), s') \<and> (tc_ok s' \<and> tc_page_size s' = page_size) \<and>
      cached_pages s' = btree_insert pgno page (cached_pages s)" if "length page = unat page_size" "page_taken io"
    using insert_page_refines [of s page io pgno] s that by (auto simp: cache_size_def page_taken_def)
  show "flush_cache io s db = (True, put_pages page_size (cached_pages s) db)" if "pages_written io"
    using flush_cache_refines [of io s db] s that by (simp add: pages_written_def)
qed (rule assms)

text \<open>The interface holds of the cache, for every page size SQLite has: the powers of two from 512 to 65536.\<close>

definition sqlite_page_size :: "nat \<Rightarrow> u32" where
  "sqlite_page_size k = 2 ^ (9 + k mod 8)"

lemma unat_sqlite_page_size: "unat (sqlite_page_size k) = 2 ^ (9 + k mod 8)"
proof -
  have "(2 :: nat) ^ (9 + k mod 8) \<le> 2 ^ 16" by (rule power_increasing) auto
  then have "unat (word_of_nat (2 ^ (9 + k mod 8)) :: u32) = 2 ^ (9 + k mod 8)"
    by (simp only: unat_of_nat) (rule mod_less, simp)
  then show ?thesis by (simp add: sqlite_page_size_def)
qed

lemma sqlite_page_size_pos: "0 < unat (sqlite_page_size k)"
  by (simp add: unat_sqlite_page_size)

interpretation pc: page_store "new_cache swap_after (sqlite_page_size k)" insert_page flush_cache cached_pages
  "\<lambda>c. tc_ok c \<and> tc_page_size c = sqlite_page_size k" "sqlite_page_size k" page_taken pages_written
  for swap_after k
  by (rule cache_page_store) (rule sqlite_page_size_pos)

section \<open>The refinement\<close>

text \<open>Inserting the pages of a transaction one after the other, until an insertion fails.\<close>

fun insert_pages ::
  "(cache_io \<times> u32 \<times> byte list) list \<Rightarrow> TransactionPageCache \<Rightarrow> (cache_error + unit) \<times> TransactionPageCache" where
  "insert_pages [] c = (Inr (), c)"
| "insert_pages ((io, pgno, page) # xs) c =
     (case insert_page io pgno page c of
        (Inl e, c) \<Rightarrow> (Inl e, c)
      | (Inr _, c) \<Rightarrow> insert_pages xs c)"

lemma ins_all_insert_pages: "page_store.ins_all insert_page xs c = insert_pages xs c"
  by (induction xs arbitrary: c)
    (auto simp: page_store.ins_all.simps [OF pc.page_store_axioms] split: sum.split prod.split)

text \<open>
  (C39) Where the cache keeps the pages of a transaction makes no difference: whether and
  when it moves them to the recovery file, and whether moving them fails, the
  flush writes for every page number the page that was inserted last, at its
  place in the database file, and leaves the other pages of the file as they were.
\<close>

theorem cache_place_does_not_matter:
  assumes "\<forall>(io, pgno, page) \<in> set xs. length page = unat (sqlite_page_size k) \<and> ci_persist io = IoOk"
    and "\<forall>pgno. ci_flush io' pgno = IoOk" "ci_close io'"
  shows "\<exists>c db'. insert_pages xs (new_cache swap_after (sqlite_page_size k)) = (Inr (), c) \<and>
    flush_cache io' c db = (True, db') \<and>
    (\<forall>pgno. let off = page_offset (sqlite_page_size k) pgno; ps = unat (sqlite_page_size k)
       in case map_of (rev (map snd xs)) pgno of
            Some page \<Rightarrow> byte_slice off ps db' = page
          | None \<Rightarrow> off + ps \<le> length db \<longrightarrow> byte_slice off ps db' = byte_slice off ps db)"
proof -
  let ?c = "new_cache swap_after (sqlite_page_size k)"
  obtain c where run: "insert_pages xs ?c = (Inr (), c)"
    and c: "tc_ok c \<and> tc_page_size c = sqlite_page_size k"
    and pages: "cached_pages c = fold (\<lambda>(k, v). btree_insert k v) (map snd xs) []"
    using pc.ins_all_pages [of ?c k xs] pc.fresh [of swap_after k] assms(1)
    by (auto simp: ins_all_insert_pages page_taken_def)
  obtain b db' where f: "flush_cache io' c db = (b, db')" by (metis prod.collapse)
  have lens: "\<forall>(pgno, page) \<in> set (map snd xs). length page = unat (sqlite_page_size k)"
    using assms(1) by auto
  show ?thesis
    using run f pc.written_pages [OF c pages _ lens f] assms(2,3)
    by (auto simp: Let_def pages_written_def)
qed

definition cache_io_ok :: cache_io where
  "cache_io_ok = \<lparr> ci_open = True, ci_swap = (\<lambda>_. IoOk), ci_persist = IoOk, ci_flush = (\<lambda>_. IoOk), ci_close = True \<rparr>"

definition sample_page :: "byte \<Rightarrow> byte list" where
  "sample_page b = replicate 512 b"

lemma length_sample_page: "length (sample_page b) = 512"
  by (simp only: sample_page_def length_replicate)

definition sample_pages :: "(cache_io \<times> u32 \<times> byte list) list" where
  "sample_pages =
     [(cache_io_ok, 1, sample_page 1), (cache_io_ok, 2, sample_page 2), (cache_io_ok, 1, sample_page 3)]"

theorem cache_place_does_not_matter_witness:
  "\<exists>c db'. insert_pages sample_pages (new_cache 0 (sqlite_page_size 0)) = (Inr (), c) \<and>
     flush_cache cache_io_ok c [] = (True, db') \<and>
     byte_slice 0 512 db' = sample_page 3 \<and> byte_slice 512 512 db' = sample_page 2"
proof -
  have size: "unat (sqlite_page_size 0) = 512" by (simp add: unat_sqlite_page_size)
  have pages: "\<forall>(io, pgno, page) \<in> set sample_pages. length page = unat (sqlite_page_size 0) \<and> ci_persist io = IoOk"
    by (simp add: sample_pages_def size cache_io_ok_def length_sample_page)
  have io: "\<forall>pgno. ci_flush cache_io_ok pgno = IoOk" "ci_close cache_io_ok"
    by (simp_all add: cache_io_ok_def)
  obtain c db' where
    run: "insert_pages sample_pages (new_cache 0 (sqlite_page_size 0)) = (Inr (), c)"
      "flush_cache cache_io_ok c [] = (True, db')"
    and page: "\<forall>pgno. let off = page_offset (sqlite_page_size 0) pgno; ps = unat (sqlite_page_size 0)
       in case map_of (rev (map snd sample_pages)) pgno of
            Some page \<Rightarrow> byte_slice off ps db' = page
          | None \<Rightarrow> off + ps \<le> length ([] :: byte list) \<longrightarrow> byte_slice off ps db' = byte_slice off ps []"
    using cache_place_does_not_matter [OF pages io, of 0 "[]"] by (elim exE conjE)
  have "byte_slice 0 512 db' = sample_page 3"
    using spec [OF page, of 1] by (simp add: page_offset_def size sample_pages_def Let_def)
  moreover have "byte_slice 512 512 db' = sample_page 2"
    using spec [OF page, of 2] by (simp add: page_offset_def size sample_pages_def Let_def)
  ultimately show ?thesis using run by blast
qed

end
