(* ===== verification/Restore.thy ===== *)
theory Restore
  imports Generation PageCache
begin

text \<open>
  Restoring a database from its backup (\<^verbatim>\<open>bottomless/src/replicator.rs\<close>): finding the
  generation, comparing it with the local files, restoring the snapshot and
  replaying the batches of WAL frames; and the deletion of generations. The bucket
  is an argument: a function that lists it page by page and one that reads an object.
  The UUID, time and gzip libraries are arguments, as are the outcomes of file operations.
\<close>

section \<open>The bucket\<close>

record list_output =
  lo_contents :: "string option list option"
  lo_common_prefixes :: "string option list option"
  lo_is_truncated :: bool
  lo_next_marker :: "string option"

datatype get_error = NoSuchKey | OtherGetError

text \<open>The listings of a prefix from a marker: all objects, at most one object, and the names up to a slash.\<close>

record s3 =
  s3_list :: "string \<Rightarrow> string option \<Rightarrow> unit + list_output"
  s3_list_one :: "string \<Rightarrow> string option \<Rightarrow> unit + list_output"
  s3_list_dirs :: "string \<Rightarrow> string option \<Rightarrow> unit + list_output"
  s3_get :: "string \<Rightarrow> get_error + byte_stream"

text \<open>
  The service: what can be read of a state of the bucket, and the uploads and
  deletions, each with whether it succeeded.
\<close>

record 'b s3_service =
  sv_view :: "'b \<Rightarrow> s3"
  sv_put :: "string \<Rightarrow> byte list \<Rightarrow> 'b \<Rightarrow> bool \<times> 'b"
  sv_delete :: "string \<Rightarrow> 'b \<Rightarrow> bool \<times> 'b"

text \<open>
  The configuration of the replicator and the libraries it calls. Times are
  nanoseconds since the epoch; \<^term>\<open>rc_time\<close> is None for a timestamp that is out of
  the range of the time library. \<^term>\<open>rc_io\<close> are the outcomes of the file
  operations for a frame of a batch.
\<close>

record restore_cfg =
  rc_db_name :: string
  rc_uuid :: "Uuid \<Rightarrow> string"
  rc_parse_uuid :: "string \<Rightarrow> Uuid option"
  rc_lib :: uuid_lib
  rc_gunzip :: "byte_stream \<Rightarrow> byte_stream"
  rc_time :: "u64 \<Rightarrow> int option"
  rc_verify_crc :: bool
  rc_use_compression :: CompressionKind
  rc_swap_after :: u32
  rc_io :: "string \<Rightarrow> u32 \<Rightarrow> cache_io"
  rc_flush :: "string \<Rightarrow> bool"

definition generation_key :: "restore_cfg \<Rightarrow> Uuid \<Rightarrow> string \<Rightarrow> string" where
  "generation_key cfg generation name = generation_dir (rc_db_name cfg) (rc_uuid cfg generation) @ ''/'' @ name"

text \<open>The bytes of a body; collecting a body that fails is an error.\<close>

definition collect :: "byte_stream \<Rightarrow> backup_error + byte list" where
  "collect body = (case body of (bs, failed) \<Rightarrow> if failed then Inl BackupIo else Inr bs)"

section \<open>Objects of a generation\<close>

definition get_dependency :: "restore_cfg \<Rightarrow> s3 \<Rightarrow> Uuid \<Rightarrow> backup_error + Uuid option" where
  "get_dependency cfg s generation =
     (case s3_get s (generation_key cfg generation ''.dep'') of
        Inl NoSuchKey \<Rightarrow> Inr None
      | Inl OtherGetError \<Rightarrow> Inl S3Failure
      | Inr body \<Rightarrow>
          (case collect body of
             Inl e \<Rightarrow> Inl e
           | Inr bs \<Rightarrow> if length bs = 16 then Inr (Some (be_word bs)) else Inl BadDependency))"

text \<open>An object that is too short makes the reads of its fields panic.\<close>

definition get_metadata :: "restore_cfg \<Rightarrow> s3 \<Rightarrow> Uuid \<Rightarrow> backup_error + (u32 \<times> u64) option" where
  "get_metadata cfg s generation =
     (case s3_get s (generation_key cfg generation ''.meta'') of
        Inl _ \<Rightarrow> Inr None
      | Inr body \<Rightarrow>
          (case collect body of
             Inl e \<Rightarrow> Inl e
           | Inr bs \<Rightarrow>
               if length bs < 12 then Inl BackupPanic
               else Inr (Some (be_word (byte_slice 0 4 bs), be_word (byte_slice 4 8 bs)))))"

definition get_remote_change_counter :: "restore_cfg \<Rightarrow> s3 \<Rightarrow> Uuid \<Rightarrow> backup_error + byte list" where
  "get_remote_change_counter cfg s generation =
     (case s3_get s (generation_key cfg generation ''.changecounter'') of
        Inl _ \<Rightarrow> Inr (replicate 4 0)
      | Inr body \<Rightarrow>
          (case collect body of
             Inl e \<Rightarrow> Inl e
           | Inr bs \<Rightarrow> if length bs < 4 then Inl BackupPanic else Inr (take 4 bs)))"

definition get_tombstone :: "restore_cfg \<Rightarrow> s3 \<Rightarrow> backup_error + u64 option" where
  "get_tombstone cfg s =
     (case s3_get s (rc_db_name cfg @ ''.tombstone'') of
        Inl NoSuchKey \<Rightarrow> Inr None
      | Inl OtherGetError \<Rightarrow> Inl S3Failure
      | Inr body \<Rightarrow>
          (case collect body of
             Inl e \<Rightarrow> Inl e
           | Inr bs \<Rightarrow>
               if length bs < 8 then Inl BackupPanic
               else (let timestamp = be_word (take 8 bs)
                     in case rc_time cfg timestamp of
                          None \<Rightarrow> Inr None
                        | Some _ \<Rightarrow> Inr (Some timestamp))))"

text \<open>The last frame of the last batch of a page of the listing, and the marker of the next page.\<close>

fun try_get_last_frame_no :: "string option list \<Rightarrow> string option \<Rightarrow> u32 \<Rightarrow> string option \<times> u32" where
  "try_get_last_frame_no [] last_key frame_no = (last_key, frame_no)"
| "try_get_last_frame_no (None # objs) last_key frame_no = (None, frame_no)"
| "try_get_last_frame_no (Some key # objs) last_key frame_no =
     try_get_last_frame_no objs (Some key)
       (case parse_frame_range key of Inr (Some (_, last_frame_no, _, _)) \<Rightarrow> last_frame_no | _ \<Rightarrow> frame_no)"

partial_function (option) last_frame_loop ::
  "s3 \<Rightarrow> string \<Rightarrow> string option \<Rightarrow> u32 \<Rightarrow> (backup_error + u32) option" where
  "last_frame_loop s pre marker last_frame =
     (case s3_list s pre marker of
        Inl _ \<Rightarrow> Some (Inl S3Failure)
      | Inr response \<Rightarrow>
          (case lo_contents response of
             None \<Rightarrow> Some (Inr last_frame)
           | Some objs \<Rightarrow>
               (case try_get_last_frame_no objs None last_frame of
                  (None, last_frame) \<Rightarrow> Some (Inr last_frame)
                | (Some marker, last_frame) \<Rightarrow> last_frame_loop s pre (Some marker) last_frame)))"

definition get_last_consistent_frame :: "restore_cfg \<Rightarrow> s3 \<Rightarrow> Uuid \<Rightarrow> (backup_error + u32) option" where
  "get_last_consistent_frame cfg s generation = last_frame_loop s (generation_key cfg generation '''') None 0"

section \<open>Replaying the WAL\<close>

record restore_state =
  rs_pending :: TransactionPageCache
  rs_last_received :: u32
  rs_checksum :: u64
  rs_applied :: bool
  rs_db :: file_data

fun cache_failure :: "cache_error \<Rightarrow> backup_error" where
  "cache_failure CacheIo = BackupIo"
| "cache_failure CachePanic = BackupPanic"

text \<open>
  A frame of a batch: it is verified, its page joins the pages of the transaction,
  and the frame that commits the transaction writes them to the database file.
  \<^term>\<open>page_size\<close> is the page size of the replicator.
\<close>

definition restore_frame ::
  "restore_cfg \<Rightarrow> cache_io \<Rightarrow> u32 \<Rightarrow> WalFrameHeader \<Rightarrow> byte list \<Rightarrow> restore_state \<Rightarrow> backup_error + restore_state" where
  "restore_frame cfg io page_size h page st =
     (case (if rc_verify_crc cfg then verify h (rs_checksum st) page else Inr (rs_checksum st)) of
        Inl e \<Rightarrow> Inl e
      | Inr checksum \<Rightarrow>
          (case insert_page io (fh_pgno h) page (rs_pending st) of
             (Inl e, _) \<Rightarrow> Inl (cache_failure e)
           | (Inr _, pending) \<Rightarrow>
               if is_committed h
               then (case flush_cache io pending (rs_db st) of (ok, db) \<Rightarrow>
                       if ok
                       then Inr (st\<lparr>rs_checksum := checksum, rs_pending := new_cache (rc_swap_after cfg) page_size,
                                    rs_db := db, rs_applied := True, rs_last_received := rs_last_received st + 1\<rparr>)
                       else Inl BackupIo)
               else Inr (st\<lparr>rs_checksum := checksum, rs_pending := pending,
                            rs_last_received := rs_last_received st + 1\<rparr>)))"

text \<open>The loop over the frames of a batch; \<^term>\<open>buf\<close> is the size of the page buffer.\<close>

function restore_frames ::
  "restore_cfg \<Rightarrow> (u32 \<Rightarrow> cache_io) \<Rightarrow> u32 \<Rightarrow> nat \<Rightarrow> BatchReader \<Rightarrow> restore_state \<Rightarrow> backup_error + restore_state" where
  "restore_frames cfg io page_size buf reader st =
     (case next_frame_header reader of
        (Inl e, _) \<Rightarrow> Inl e
      | (Inr None, _) \<Rightarrow> Inr st
      | (Inr (Some h), reader1) \<Rightarrow>
          (case next_page buf reader1 of
             (Inl e, _) \<Rightarrow> Inl e
           | (Inr page, reader2) \<Rightarrow>
               (case restore_frame cfg (io (br_next_frame_no reader)) page_size h page st of
                  Inl e \<Rightarrow> Inl e
                | Inr st \<Rightarrow> restore_frames cfg io page_size buf reader2 st)))"
  by pat_completeness auto

termination
  by (relation "measure (\<lambda>(cfg, io, page_size, buf, reader, st). length (fst (br_data reader)))")
    (auto simp: next_frame_header_def next_page_def WAL_FRAME_HEADER_SIZE_def split: if_splits prod.splits)

declare restore_frames.simps [simp del]

datatype listing_end = NextPage | StopRestore

text \<open>Whether the batch is newer than the time to restore to; a timestamp out of range counts as newer.\<close>

definition too_recent :: "restore_cfg \<Rightarrow> int option \<Rightarrow> u64 \<Rightarrow> bool" where
  "too_recent cfg utc_time timestamp =
     (case utc_time of
        None \<Rightarrow> False
      | Some threshold \<Rightarrow>
          (case rc_time cfg timestamp of Some t \<Rightarrow> threshold < t | None \<Rightarrow> True))"

fun restore_objs ::
  "restore_cfg \<Rightarrow> s3 \<Rightarrow> u32 \<Rightarrow> nat \<Rightarrow> u32 option \<Rightarrow> int option \<Rightarrow> string option list \<Rightarrow> restore_state \<Rightarrow>
   backup_error + listing_end \<times> restore_state" where
  "restore_objs cfg s page_size buf last_consistent utc_time [] st = Inr (NextPage, st)"
| "restore_objs cfg s page_size buf last_consistent utc_time (None # objs) st = Inl KeyMissing"
| "restore_objs cfg s page_size buf last_consistent utc_time (Some key # objs) st =
     (case parse_frame_range key of
        Inl e \<Rightarrow> Inl e
      | Inr None \<Rightarrow> restore_objs cfg s page_size buf last_consistent utc_time objs st
      | Inr (Some (first_frame_no, last_frame_no, timestamp, compression_kind)) \<Rightarrow>
          if first_frame_no \<noteq> rs_last_received st + 1 then Inr (NextPage, st)
          else if (case last_consistent of Some frame \<Rightarrow> frame < last_frame_no | None \<Rightarrow> False) then Inr (NextPage, st)
          else if too_recent cfg utc_time timestamp then Inr (StopRestore, st)
          else case s3_get s key of
                 Inl _ \<Rightarrow> Inl S3Failure
               | Inr body \<Rightarrow>
                   (case restore_frames cfg (rc_io cfg key) page_size buf
                           (new_batch_reader (rc_gunzip cfg) first_frame_no body compression_kind) st of
                      Inl e \<Rightarrow> Inl e
                    | Inr st \<Rightarrow>
                        if rc_flush cfg key
                        then restore_objs cfg s page_size buf last_consistent utc_time objs st
                        else Inl BackupIo))"

text \<open>The marker of the next page: the last key, when there are more; Inl is a key that is missing.\<close>

definition next_marker :: "list_output \<Rightarrow> string option list \<Rightarrow> backup_error + string option" where
  "next_marker response objs =
     (if \<not> lo_is_truncated response \<or> objs = [] then Inr None
      else case last objs of None \<Rightarrow> Inl BackupPanic | Some key \<Rightarrow> Inr (Some key))"

partial_function (option) restore_wal_loop ::
  "restore_cfg \<Rightarrow> s3 \<Rightarrow> string \<Rightarrow> u32 \<Rightarrow> nat \<Rightarrow> u32 option \<Rightarrow> int option \<Rightarrow> string option \<Rightarrow>
   u64 \<Rightarrow> bool \<Rightarrow> file_data \<Rightarrow> (backup_error + bool \<times> file_data) option" where
  "restore_wal_loop cfg s pre page_size buf last_consistent utc_time marker checksum applied db =
     (case s3_list s pre marker of
        Inl _ \<Rightarrow> Some (Inl S3Failure)
      | Inr response \<Rightarrow>
          (case lo_contents response of
             None \<Rightarrow> Some (Inr (applied, db))
           | Some objs \<Rightarrow>
               (case restore_objs cfg s page_size buf last_consistent utc_time objs
                       \<lparr> rs_pending = new_cache (rc_swap_after cfg) (word_of_nat buf), rs_last_received = 0,
                         rs_checksum = checksum, rs_applied = applied, rs_db = db \<rparr> of
                  Inl e \<Rightarrow> Some (Inl e)
                | Inr (StopRestore, st) \<Rightarrow> Some (Inr (rs_applied st, rs_db st))
                | Inr (NextPage, st) \<Rightarrow>
                    (case next_marker response objs of
                       Inl e \<Rightarrow> Some (Inl e)
                     | Inr None \<Rightarrow> Some (Inr (rs_applied st, rs_db st))
                     | Inr (Some marker) \<Rightarrow>
                         restore_wal_loop cfg s pre page_size buf last_consistent utc_time (Some marker)
                           (rs_checksum st) (rs_applied st) (rs_db st)))))"

definition restore_wal ::
  "restore_cfg \<Rightarrow> s3 \<Rightarrow> u32 \<Rightarrow> Uuid \<Rightarrow> nat \<Rightarrow> u32 option \<Rightarrow> u64 \<Rightarrow> int option \<Rightarrow> file_data \<Rightarrow>
   (backup_error + bool \<times> file_data) option" where
  "restore_wal cfg s self_page_size generation page_size last_consistent checksum utc_time db =
     restore_wal_loop cfg s (generation_key cfg generation []) self_page_size page_size last_consistent utc_time
       None checksum False db"

section \<open>Restoring a generation\<close>

text \<open>The page size and the change counter in the header of a database file; None is the end of the file.\<close>

definition read_page_size :: "file_data \<Rightarrow> nat option" where
  "read_page_size f =
     (case read_exact_at 16 2 f of
        None \<Rightarrow> None
      | Some bs \<Rightarrow> (let page_size = be_word bs :: u16 in Some (if page_size = 1 then 65536 else unat page_size)))"

definition read_change_counter :: "file_data \<Rightarrow> byte list option" where
  "read_change_counter f = read_exact_at 24 4 f"

definition snapshot_key :: "restore_cfg \<Rightarrow> Uuid \<Rightarrow> string" where
  "snapshot_key cfg generation =
     generation_key cfg generation (case rc_use_compression cfg of NoCompression \<Rightarrow> ''db.db'' | Gzip \<Rightarrow> ''db.gz'')"

text \<open>
  The snapshot of a generation is copied to the start of the database file. The
  result is whether there was one, with the file and the replicator whose page size is set.
\<close>

definition restore_from_snapshot ::
  "restore_cfg \<Rightarrow> s3 \<Rightarrow> Uuid \<Rightarrow> Replicator \<Rightarrow> file_data \<Rightarrow> backup_error + bool \<times> Replicator \<times> file_data" where
  "restore_from_snapshot cfg s generation r db =
     (case s3_get s (snapshot_key cfg generation) of
        Inl _ \<Rightarrow> Inr (False, r, db)
      | Inr body \<Rightarrow>
          (case collect (case rc_use_compression cfg of NoCompression \<Rightarrow> body | Gzip \<Rightarrow> rc_gunzip cfg body) of
             Inl e \<Rightarrow> Inl e
           | Inr bs \<Rightarrow>
               (let db = put_at 0 bs db
                in case read_page_size db of
                     None \<Rightarrow> Inl BackupIo
                   | Some page_size \<Rightarrow>
                       (case set_page_size page_size r of
                          Inl _ \<Rightarrow> Inl PageSizeChanged
                        | Inr r \<Rightarrow> Inr (True, r, db)))))"

definition MAX_RESTORE_STACK_DEPTH :: nat where
  "MAX_RESTORE_STACK_DEPTH = 100"

text \<open>The walk back to a generation with a snapshot; the depth of the stack bounds it.\<close>

function restore_stack_loop ::
  "restore_cfg \<Rightarrow> s3 \<Rightarrow> Uuid list \<Rightarrow> Uuid \<Rightarrow> Replicator \<Rightarrow> file_data \<Rightarrow>
   backup_error + Uuid list \<times> Replicator \<times> file_data" where
  "restore_stack_loop cfg s stack gen r db =
     (case restore_from_snapshot cfg s gen r db of
        Inl e \<Rightarrow> Inl e
      | Inr (restored, r, db) \<Rightarrow>
          if restored then Inr (gen # stack, r, db)
          else if MAX_RESTORE_STACK_DEPTH < length (gen # stack) then Inl RestoreDepth
          else case get_dependency cfg s gen of
                 Inl e \<Rightarrow> Inl e
               | Inr None \<Rightarrow> Inr (gen # stack, r, db)
               | Inr (Some prev) \<Rightarrow> restore_stack_loop cfg s (gen # stack) prev r db)"
  by pat_completeness auto

termination
  by (relation "measure (\<lambda>(cfg, s, stack, gen, r, db). MAX_RESTORE_STACK_DEPTH + 1 - length stack)") auto

declare restore_stack_loop.simps [simp del]

text \<open>The WAL of every generation of the stack is replayed, the oldest first.\<close>

fun replay_stack ::
  "restore_cfg \<Rightarrow> s3 \<Rightarrow> u32 \<Rightarrow> int option \<Rightarrow> Uuid list \<Rightarrow> bool \<Rightarrow> Replicator \<Rightarrow> file_data \<Rightarrow>
   (backup_error + bool \<times> Replicator \<times> file_data) option" where
  "replay_stack cfg s last_frame utc_time [] applied r db = Some (Inr (applied, r, db))"
| "replay_stack cfg s last_frame utc_time (gen # stack) applied r db =
     (case get_metadata cfg s gen of
        Inl e \<Rightarrow> Some (Inl e)
      | Inr None \<Rightarrow> replay_stack cfg s last_frame utc_time stack applied r db
      | Inr (Some (page_size, checksum)) \<Rightarrow>
          (case set_page_size (unat page_size) r of
             Inl _ \<Rightarrow> Some (Inl PageSizeChanged)
           | Inr r \<Rightarrow>
               (case restore_wal cfg s (word_of_nat (rp_page_size r)) gen (unat page_size)
                       (if stack = [] then Some last_frame else None) checksum utc_time db of
                  None \<Rightarrow> None
                | Some (Inl e) \<Rightarrow> Some (Inl e)
                | Some (Inr (_, db)) \<Rightarrow> replay_stack cfg s last_frame utc_time stack True r db)))"

datatype RestoreAction = SnapshotMainDbFile | ReuseGeneration Uuid

text \<open>
  The local files: the database, its WAL, what an interrupted session left in the
  directory of backups that were not uploaded, and the database that was put aside.
\<close>

record local_files =
  lf_db :: "file_data option"
  lf_wal :: "file_data option"
  lf_backup :: "file_data option"
  lf_remaining :: "(string \<times> byte list) list"

definition get_local_wal_page_count :: "local_files \<Rightarrow> Replicator \<Rightarrow> u32 \<times> Replicator" where
  "get_local_wal_page_count lf r =
     (case wal_open (lf_wal lf) of
        Inl _ \<Rightarrow> (0, r)
      | Inr None \<Rightarrow> (0, r)
      | Inr (Some wal) \<Rightarrow>
          (case set_page_size (unat (wr_page_size wal)) r of
             Inl _ \<Rightarrow> (0, r)
           | Inr r \<Rightarrow> (frame_count (case lf_wal lf of Some f \<Rightarrow> f | None \<Rightarrow> []) wal, r)))"

definition local_counter :: "local_files \<Rightarrow> Replicator \<Rightarrow> backup_error + byte list \<times> Replicator" where
  "local_counter lf r =
     (case lf_db lf of
        None \<Rightarrow> Inr (replicate 4 0, r)
      | Some db \<Rightarrow>
          (case (case read_page_size db of None \<Rightarrow> Inr r | Some page_size \<Rightarrow> set_page_size page_size r) of
             Inl _ \<Rightarrow> Inl PageSizeChanged
           | Inr r \<Rightarrow> Inr (case read_change_counter db of Some c \<Rightarrow> c | None \<Rightarrow> replicate 4 0, r)))"

definition compare_with_local ::
  "restore_cfg \<Rightarrow> s3 \<Rightarrow> Uuid \<Rightarrow> u32 \<Rightarrow> local_files \<Rightarrow> Replicator \<Rightarrow>
   backup_error + RestoreAction option \<times> Replicator" where
  "compare_with_local cfg s generation last_consistent_frame lf r =
     (case local_counter lf r of
        Inl e \<Rightarrow> Inl e
      | Inr (local, r) \<Rightarrow>
          (case get_remote_change_counter cfg s generation of
             Inl e \<Rightarrow> Inl e
           | Inr remote \<Rightarrow>
               (let (wal_pages, r) = get_local_wal_page_count lf r;
                    r = r\<lparr>rp_generation := Some generation\<rparr>;
                    l = be_word local :: u32; m = be_word remote :: u32
                in if l = m
                   then if wal_pages = last_consistent_frame
                        then Inr (Some (ReuseGeneration generation), reset_frames (wal_pages + 1) r)
                        else if last_consistent_frame < wal_pages then Inr (Some SnapshotMainDbFile, r)
                        else Inr (None, r)
                   else if m < l then Inr (Some SnapshotMainDbFile, r)
                   else Inr (None, r))))"

definition fpath_to_key :: "string \<Rightarrow> string \<Rightarrow> string option" where
  "fpath_to_key dir path =
     (if list_ex (\<lambda>e. length e \<le> length path \<and> drop (length path - length e) path = e)
           [''.db'', ''.gz'', ''.raw'', ''.meta'', ''.dep'', ''.changecounter'']
      then map_option (\<lambda>i. drop i path)
             (find (\<lambda>i. take (length dir) (drop i path) = dir) (rev [0 ..< length path + 1 - length dir]))
      else None)"

text \<open>
  The files that an earlier session did not manage to upload; a file that cannot be
  uploaded now stays. The uploads run side by side; they have different keys.
\<close>

fun upload_remaining ::
  "'b s3_service \<Rightarrow> string \<Rightarrow> (string \<times> byte list) list \<Rightarrow> 'b \<Rightarrow> (string \<times> byte list) list \<times> 'b" where
  "upload_remaining sv dir [] b = ([], b)"
| "upload_remaining sv dir ((path, content) # files) b =
     (case fpath_to_key dir path of
        None \<Rightarrow> (let (rest, b) = upload_remaining sv dir files b in ((path, content) # rest, b))
      | Some key \<Rightarrow>
          (let (ok, b) = sv_put sv key content b; (rest, b) = upload_remaining sv dir files b
           in (if ok then rest else (path, content) # rest, b)))"

text \<open>The outcomes of the file operations of a restore: putting the database aside, removing the WAL, opening and closing.\<close>

record restore_env =
  re_rename :: bool
  re_remove_wal :: bool
  re_open :: bool
  re_close :: bool

definition restore_full ::
  "restore_cfg \<Rightarrow> s3 \<Rightarrow> restore_env \<Rightarrow> Uuid \<Rightarrow> int option \<Rightarrow> u32 \<Rightarrow> local_files \<Rightarrow> Replicator \<Rightarrow>
   (backup_error + RestoreAction \<times> bool \<times> Replicator \<times> local_files) option" where
  "restore_full cfg s env generation utc_time last_frame lf r =
     (let lf = (if re_rename env \<and> lf_db lf \<noteq> None then lf\<lparr>lf_backup := lf_db lf, lf_db := None\<rparr> else lf);
          lf = (if re_remove_wal env then lf\<lparr>lf_wal := None\<rparr> else lf)
      in if \<not> re_open env then Some (Inl BackupIo)
         else
           let db = (case lf_db lf of Some db \<Rightarrow> db | None \<Rightarrow> []) in
           case restore_stack_loop cfg s [] generation r db of
             Inl e \<Rightarrow> Some (Inl e)
           | Inr (stack, r, db) \<Rightarrow>
               (case replay_stack cfg s last_frame utc_time stack False r db of
                  None \<Rightarrow> None
                | Some (Inl e) \<Rightarrow> Some (Inl e)
                | Some (Inr (applied_wal_frame, r, db)) \<Rightarrow>
                    if \<not> re_close env then Some (Inl BackupIo)
                    else Some (Inr (if applied_wal_frame then SnapshotMainDbFile else ReuseGeneration generation, True, r,
                                    lf\<lparr>lf_db := Some db\<rparr>))))"

definition tombstoned :: "restore_cfg \<Rightarrow> s3 \<Rightarrow> Uuid \<Rightarrow> backup_error + bool" where
  "tombstoned cfg s generation =
     (case get_tombstone cfg s of
        Inl e \<Rightarrow> Inl e
      | Inr None \<Rightarrow> Inr False
      | Inr (Some tombstone) \<Rightarrow>
          (case generation_to_timestamp (rc_lib cfg) generation of
             None \<Rightarrow> Inr False
           | Some (seconds, _) \<Rightarrow> Inr (seconds \<le> tombstone)))"

definition restore_from ::
  "restore_cfg \<Rightarrow> 'b s3_service \<Rightarrow> restore_env \<Rightarrow> Uuid \<Rightarrow> int option \<Rightarrow> local_files \<Rightarrow> Replicator \<Rightarrow> 'b \<Rightarrow>
   (backup_error + RestoreAction \<times> bool \<times> Replicator \<times> local_files \<times> 'b) option" where
  "restore_from cfg sv env generation utc_time lf r b =
     (case tombstoned cfg (sv_view sv b) generation of
        Inl e \<Rightarrow> Some (Inl e)
      | Inr True \<Rightarrow> Some (Inl Tombstoned)
      | Inr False \<Rightarrow>
          (let (remaining, b) =
                 upload_remaining sv (generation_dir (rc_db_name cfg) (rc_uuid cfg generation)) (lf_remaining lf) b;
               lf = lf\<lparr>lf_remaining := remaining\<rparr>;
               s = sv_view sv b
           in case get_last_consistent_frame cfg s generation of
                None \<Rightarrow> None
              | Some (Inl e) \<Rightarrow> Some (Inl e)
              | Some (Inr last_frame) \<Rightarrow>
                  (case compare_with_local cfg s generation last_frame lf r of
                     Inl e \<Rightarrow> Some (Inl e)
                   | Inr (Some action, r) \<Rightarrow> Some (Inr (action, False, r, lf, b))
                   | Inr (None, r) \<Rightarrow>
                       map_option (map_sum id (\<lambda>(action, recovered, r, lf). (action, recovered, r, lf, b)))
                         (restore_full cfg s env generation utc_time last_frame lf r))))"

section \<open>The newest generation\<close>

definition key_generation :: "restore_cfg \<Rightarrow> string \<Rightarrow> backup_error + string" where
  "key_generation cfg key =
     (let i = length (takeWhile (\<lambda>c. c \<noteq> CHR ''/'') key); from = length (rc_db_name cfg) + 1
      in if i = length key then Inr key
         else if i < from then Inl BackupPanic
         else Inr (drop from (take i key)))"

text \<open>The loop over the objects of a page: the generation that was found, or the last key.\<close>

fun find_generation ::
  "restore_cfg \<Rightarrow> u64 option \<Rightarrow> string option list \<Rightarrow> string option \<Rightarrow> string option \<Rightarrow>
   backup_error + Uuid + string option" where
  "find_generation cfg threshold [] last_key last_gen = Inr (Inr last_key)"
| "find_generation cfg threshold (None # objs) last_key last_gen = find_generation cfg threshold objs None last_gen"
| "find_generation cfg threshold (Some key # objs) last_key last_gen =
     (case key_generation cfg key of
        Inl e \<Rightarrow> Inl e
      | Inr name \<Rightarrow>
          if last_gen = Some name then find_generation cfg threshold objs (Some key) last_gen
          else case rc_parse_uuid cfg name of
                 None \<Rightarrow> find_generation cfg threshold objs (Some key) (Some name)
               | Some generation \<Rightarrow>
                   (case threshold of
                      None \<Rightarrow> Inr (Inl generation)
                    | Some threshold' \<Rightarrow>
                        (case generation_to_timestamp (rc_lib cfg) generation of
                           None \<Rightarrow> find_generation cfg threshold objs (Some key) (Some name)
                         | Some (seconds, _) \<Rightarrow>
                             if seconds \<le> threshold' then Inr (Inl generation)
                             else find_generation cfg threshold objs (Some key) (Some name))))"

partial_function (option) latest_generation_loop ::
  "restore_cfg \<Rightarrow> s3 \<Rightarrow> u64 option \<Rightarrow> string option \<Rightarrow> (backup_error + Uuid option) option" where
  "latest_generation_loop cfg s threshold marker =
     (case (if threshold = None then s3_list_one s else s3_list s) (rc_db_name cfg @ ''-'') marker of
        Inl _ \<Rightarrow> Some (Inr None)
      | Inr response \<Rightarrow>
          (case lo_contents response of
             None \<Rightarrow> Some (Inr None)
           | Some objs \<Rightarrow>
               if objs = [] then Some (Inr None)
               else case find_generation cfg threshold objs None None of
                      Inl e \<Rightarrow> Some (Inl e)
                    | Inr (Inl generation) \<Rightarrow> Some (Inr (Some generation))
                    | Inr (Inr last_key) \<Rightarrow> latest_generation_loop cfg s threshold last_key))"

definition latest_generation_before :: "restore_cfg \<Rightarrow> s3 \<Rightarrow> u64 option \<Rightarrow> (backup_error + Uuid option) option" where
  "latest_generation_before cfg s timestamp = latest_generation_loop cfg s timestamp None"

text \<open>The restore of a given generation, or of the newest one at the given time; the time is given with its seconds.\<close>

definition restore ::
  "restore_cfg \<Rightarrow> 'b s3_service \<Rightarrow> restore_env \<Rightarrow> Uuid option \<Rightarrow> (int \<times> u64) option \<Rightarrow> local_files \<Rightarrow> Replicator \<Rightarrow>
   'b \<Rightarrow> (backup_error + RestoreAction \<times> bool \<times> Replicator \<times> local_files \<times> 'b) option" where
  "restore cfg sv env generation timestamp lf r b =
     (case (case generation of
              Some gen \<Rightarrow> Some (Inr (Some gen))
            | None \<Rightarrow> latest_generation_before cfg (sv_view sv b) (map_option snd timestamp)) of
        None \<Rightarrow> None
      | Some (Inl e) \<Rightarrow> Some (Inl e)
      | Some (Inr None) \<Rightarrow> Some (Inr (SnapshotMainDbFile, False, r, lf, b))
      | Some (Inr (Some gen)) \<Rightarrow> restore_from cfg sv env gen (map_option fst timestamp) lf r b)"

end
