(* ===== verification/RestoreWal.thy ===== *)
theory RestoreWal
  imports Restore
begin

text \<open>
  The backup of a WAL and its restore, together: what the copier stores of the
  frames of a WAL is what a restore applies, up to the last transaction that was
  committed. The steps go from a frame to a batch, to a listing of batches, to the
  batches the copier makes.
\<close>

section \<open>Frames and transactions\<close>

type_synonym wal_frame = "WalFrameHeader \<times> byte list"

definition frame_ok :: "nat \<Rightarrow> wal_frame \<Rightarrow> bool" where
  "frame_ok ps fr \<longleftrightarrow> length (fst fr) = WAL_FRAME_HEADER_SIZE \<and> length (snd fr) = ps"

definition frames_bytes :: "wal_frame list \<Rightarrow> byte list" where
  "frames_bytes frs = concat (map (\<lambda>(h, p). h @ p) frs)"

text \<open>The frames that are committed and those that follow the last commit.\<close>

fun absorb :: "wal_frame \<Rightarrow> wal_frame list \<times> wal_frame list \<Rightarrow> wal_frame list \<times> wal_frame list" where
  "absorb fr (c, u) = (if is_committed (fst fr) then (c @ u @ [fr], []) else (c, u @ [fr]))"

definition committed_frames :: "wal_frame list \<Rightarrow> wal_frame list" where
  "committed_frames frs = fst (fold absorb frs ([], []))"

definition frame_pages :: "wal_frame list \<Rightarrow> (u32 \<times> byte list) list" where
  "frame_pages frs = map (\<lambda>(h, p). (fh_pgno h, p)) frs"

text \<open>
  A database file that holds, for every page number, the page of the last of the
  frames that has it, and otherwise the page of the file before.
\<close>

definition holds_frames :: "u32 \<Rightarrow> file_data \<Rightarrow> wal_frame list \<Rightarrow> file_data \<Rightarrow> bool" where
  "holds_frames ps db0 frs db \<longleftrightarrow>
     length db0 \<le> length db \<and>
     (\<forall>pgno. case map_of (rev (frame_pages frs)) pgno of
        Some page \<Rightarrow> byte_slice (page_offset ps pgno) (unat ps) db = page
      | None \<Rightarrow> page_offset ps pgno + unat ps \<le> length db0 \<longrightarrow>
          byte_slice (page_offset ps pgno) (unat ps) db = byte_slice (page_offset ps pgno) (unat ps) db0)"

text \<open>The checksums of the frames follow from the one before, where they are verified.\<close>

fun checksums_ok :: "bool \<Rightarrow> u64 \<Rightarrow> wal_frame list \<Rightarrow> bool" where
  "checksums_ok verified crc [] = True"
| "checksums_ok verified crc (fr # frs) =
     (if verified then (case verify (fst fr) crc (snd fr) of Inl _ \<Rightarrow> False | Inr crc \<Rightarrow> checksums_ok verified crc frs)
      else checksums_ok verified crc frs)"

definition next_checksum :: "bool \<Rightarrow> u64 \<Rightarrow> wal_frame \<Rightarrow> u64" where
  "next_checksum verified crc fr =
     (if verified then (case verify (fst fr) crc (snd fr) of Inl _ \<Rightarrow> crc | Inr crc \<Rightarrow> crc) else crc)"

lemma checksums_ok_append:
  "checksums_ok v crc (xs @ ys) \<longleftrightarrow> checksums_ok v crc xs \<and> checksums_ok v (fold (\<lambda>fr crc. next_checksum v crc fr) xs crc) ys"
  by (induction xs arbitrary: crc) (auto simp: next_checksum_def split: sum.splits)

lemma holds_frames_refl: "holds_frames ps db [] db"
  by (simp add: holds_frames_def frame_pages_def)

lemma holds_frames_trans:
  assumes "holds_frames ps db0 xs db1" "holds_frames ps db1 ys db2" "0 < unat ps"
    and "\<forall>fr \<in> set xs. frame_ok (unat ps) fr"
  shows "holds_frames ps db0 (xs @ ys) db2"
  unfolding holds_frames_def
proof (intro conjI allI)
  show "length db0 \<le> length db2" using assms(1,2) by (simp add: holds_frames_def)
  fix pgno
  let ?off = "page_offset ps pgno" and ?s = "\<lambda>db. byte_slice (page_offset ps pgno) (unat ps) db"
  have l: "length db0 \<le> length db1" using assms(1) by (simp add: holds_frames_def)
  have x: "case map_of (rev (frame_pages xs)) pgno of Some page \<Rightarrow> ?s db1 = page
      | None \<Rightarrow> ?off + unat ps \<le> length db0 \<longrightarrow> ?s db1 = ?s db0"
    using assms(1) by (simp add: holds_frames_def)
  have y: "case map_of (rev (frame_pages ys)) pgno of Some page \<Rightarrow> ?s db2 = page
      | None \<Rightarrow> ?off + unat ps \<le> length db1 \<longrightarrow> ?s db2 = ?s db1"
    using assms(2) by (simp add: holds_frames_def)
  have look: "map_of (rev (frame_pages (xs @ ys))) pgno =
      (case map_of (rev (frame_pages ys)) pgno of Some page \<Rightarrow> Some page | None \<Rightarrow> map_of (rev (frame_pages xs)) pgno)"
    by (simp add: frame_pages_def map_add_def split: option.split)
  have inside: "?off + unat ps \<le> length db1" if "map_of (rev (frame_pages xs)) pgno = Some page" for page
  proof -
    have "(pgno, page) \<in> set (frame_pages xs)" using that by (auto dest: map_of_SomeD)
    then have "length page = unat ps" using assms(4) by (auto simp: frame_pages_def frame_ok_def)
    then have "length (?s db1) = unat ps" using x that by simp
    then show ?thesis using assms(3) by (simp add: byte_slice_def min_def split: if_splits)
  qed
  show "case map_of (rev (frame_pages (xs @ ys))) pgno of Some page \<Rightarrow> ?s db2 = page
      | None \<Rightarrow> ?off + unat ps \<le> length db0 \<longrightarrow> ?s db2 = ?s db0"
    using x y l inside unfolding look by (auto split: option.splits)
qed

section \<open>A frame, a batch\<close>

text \<open>The state of a restore after the given frames of the WAL.\<close>

definition replayed :: "bool \<Rightarrow> u32 \<Rightarrow> file_data \<Rightarrow> u64 \<Rightarrow> wal_frame list \<Rightarrow> restore_state \<Rightarrow> bool" where
  "replayed verified ps db0 crc frs st \<longleftrightarrow>
     (case fold absorb frs ([], []) of (c, u) \<Rightarrow>
        tc_ok (rs_pending st) \<and> tc_page_size (rs_pending st) = ps \<and>
        cached_pages (rs_pending st) = fold (\<lambda>(k, v). btree_insert k v) (frame_pages u) [] \<and>
        holds_frames ps db0 c (rs_db st) \<and> rs_applied st = (c \<noteq> []) \<and>
        (\<forall>fr \<in> set c \<union> set u. frame_ok (unat ps) fr)) \<and>
     rs_last_received st = word_of_nat (length frs) \<and>
     rs_checksum st = fold (\<lambda>fr crc. next_checksum verified crc fr) frs crc"

lemma replayed_new:
  assumes "0 < unat ps"
  shows "replayed v ps db crc []
    \<lparr> rs_pending = new_cache n ps, rs_last_received = 0, rs_checksum = crc, rs_applied = False, rs_db = db \<rparr>"
  using page_store.fresh [OF cache_page_store [OF assms, of n]]
  by (simp add: replayed_def holds_frames_refl frame_pages_def)

definition io_ok :: "cache_io \<Rightarrow> bool" where
  "io_ok io \<longleftrightarrow> page_taken io \<and> pages_written io"

lemma holds_frames_flush:
  assumes pos: "0 < unat ps" and c: "tc_ok c" "tc_page_size c = ps"
    and pages: "cached_pages c = fold (\<lambda>(k, v). btree_insert k v) (frame_pages u) []"
    and u: "\<forall>fr \<in> set u. frame_ok (unat ps) fr" and io: "pages_written io"
  shows "\<exists>db'. flush_cache io c db = (True, db') \<and> holds_frames ps db u db'"
proof -
  have store: "page_store (new_cache n ps) insert_page flush_cache cached_pages
      (\<lambda>c. tc_ok c \<and> tc_page_size c = ps) ps page_taken pages_written" for n
    by (rule cache_page_store [OF pos])
  have out: "flush_cache io c db = (True, put_pages ps (cached_pages c) db)"
    using page_store.out [OF store [of 0], of c io db] c io by simp
  have lens: "\<forall>(pgno, page) \<in> set (frame_pages u). length page = unat ps"
    using u by (auto simp: frame_pages_def frame_ok_def)
  show ?thesis
    using out page_store.written_pages [OF store [of 0] _ pages io lens out] c
      length_put_pages [of db ps "cached_pages c"]
    by (auto simp: holds_frames_def)
qed

lemma restore_frame_replays:
  assumes st: "replayed (rc_verify_crc cfg) ps db0 crc frs st" and pos: "0 < unat ps"
    and fr: "frame_ok (unat ps) (h, page)" and io: "io_ok io"
    and crc: "checksums_ok (rc_verify_crc cfg) (rs_checksum st) [(h, page)]"
  shows "\<exists>st'. restore_frame cfg io ps h page st = Inr st' \<and>
    replayed (rc_verify_crc cfg) ps db0 crc (frs @ [(h, page)]) st'"
proof -
  obtain c u where cu: "fold absorb frs ([], []) = (c, u)" by (metis prod.collapse)
  have s: "tc_ok (rs_pending st)" "tc_page_size (rs_pending st) = ps"
    "cached_pages (rs_pending st) = fold (\<lambda>(k, v). btree_insert k v) (frame_pages u) []"
    "holds_frames ps db0 c (rs_db st)" "rs_applied st = (c \<noteq> [])"
    "\<forall>fr \<in> set c \<union> set u. frame_ok (unat ps) fr"
    "rs_last_received st = word_of_nat (length frs)"
    "rs_checksum st = fold (\<lambda>fr crc. next_checksum (rc_verify_crc cfg) crc fr) frs crc"
    using st cu by (simp_all add: replayed_def)
  define crc1 where "crc1 = next_checksum (rc_verify_crc cfg) (rs_checksum st) (h, page)"
  have v: "(if rc_verify_crc cfg then verify h (rs_checksum st) page else Inr (rs_checksum st)) = Inr crc1"
    using crc by (auto simp: crc1_def next_checksum_def split: if_splits sum.splits)
  obtain p where p: "insert_page io (fh_pgno h) page (rs_pending st) = (Inr (), p)"
    "tc_ok p" "tc_page_size p = ps"
    "cached_pages p = fold (\<lambda>(k, v). btree_insert k v) (frame_pages (u @ [(h, page)])) []"
    using insert_page_refines [of "rs_pending st" page io "fh_pgno h"] s fr io
    by (auto simp: io_ok_def page_taken_def cache_size_def frame_ok_def frame_pages_def)
  have ok: "\<forall>fr \<in> set (u @ [(h, page)]). frame_ok (unat ps) fr" "\<forall>fr \<in> set c. frame_ok (unat ps) fr"
    using s(6) fr by auto
  show ?thesis
  proof (cases "is_committed h")
    case False
    then show ?thesis
      using v p s ok cu by (simp add: restore_frame_def replayed_def crc1_def)
  next
    case True
    obtain db' where db': "flush_cache io p (rs_db st) = (True, db')"
      "holds_frames ps (rs_db st) (u @ [(h, page)]) db'"
      using holds_frames_flush [OF pos p(2,3,4) ok(1), of io "rs_db st"] io by (auto simp: io_ok_def)
    have h: "holds_frames ps db0 (c @ u @ [(h, page)]) db'"
      by (rule holds_frames_trans [OF s(4) db'(2) pos ok(2)])
    have fresh: "tc_ok (new_cache (rc_swap_after cfg) ps)" "tc_page_size (new_cache (rc_swap_after cfg) ps) = ps"
      "cached_pages (new_cache (rc_swap_after cfg) ps) = []"
      using page_store.fresh [OF cache_page_store [OF pos, of "rc_swap_after cfg"]] by auto
    show ?thesis
      using True v p(1) db'(1) h fresh s ok cu
      by (simp add: restore_frame_def replayed_def crc1_def frame_pages_def)
  qed
qed

lemma frames_bytes_Cons: "frames_bytes ((h, page) # frs) = h @ page @ frames_bytes frs"
  by (simp add: frames_bytes_def)

lemma restore_frames_replays:
  assumes "replayed (rc_verify_crc cfg) ps db0 crc frs st" "0 < unat ps"
    and "\<forall>fr \<in> set frs'. frame_ok (unat ps) fr" "\<forall>n. io_ok (io n)"
    and "checksums_ok (rc_verify_crc cfg) (rs_checksum st) frs'"
    and "br_data reader = (frames_bytes frs', False)"
  shows "\<exists>st'. restore_frames cfg io ps (unat ps) reader st = Inr st' \<and>
    replayed (rc_verify_crc cfg) ps db0 crc (frs @ frs') st'"
  using assms
proof (induction frs' arbitrary: frs st reader)
  case Nil
  then have "restore_frames cfg io ps (unat ps) reader st = Inr st"
    by (subst restore_frames.simps) (simp add: next_frame_header_def frames_bytes_def WAL_FRAME_HEADER_SIZE_def)
  with Nil.prems(1) show ?case by simp
next
  case (Cons fr frs')
  obtain h page where fr: "fr = (h, page)" by (cases fr)
  have ok: "frame_ok (unat ps) (h, page)" using Cons.prems(3) fr by simp
  then have len: "length h = WAL_FRAME_HEADER_SIZE" "length page = unat ps" by (simp_all add: frame_ok_def)
  define reader1 where "reader1 = reader\<lparr>br_data := (page @ frames_bytes frs', False)\<rparr>"
  define reader2 where "reader2 = reader\<lparr>br_data := (frames_bytes frs', False), br_next_frame_no := br_next_frame_no reader + 1\<rparr>"
  have r1: "next_frame_header reader = (Inr (Some h), reader1)"
    using Cons.prems(6) len by (simp add: next_frame_header_def fr frames_bytes_Cons reader1_def)
  have r2: "next_page (unat ps) reader1 = (Inr page, reader2)"
    using len by (simp add: next_page_def reader1_def reader2_def)
  have crc1: "checksums_ok (rc_verify_crc cfg) (rs_checksum st) ([(h, page)] @ frs')"
    using Cons.prems(5) fr by simp
  then have crc2: "checksums_ok (rc_verify_crc cfg) (rs_checksum st) [(h, page)]"
    unfolding checksums_ok_append by blast
  obtain st1 where st1: "restore_frame cfg (io (br_next_frame_no reader)) ps h page st = Inr st1"
    "replayed (rc_verify_crc cfg) ps db0 crc (frs @ [(h, page)]) st1"
    using restore_frame_replays [OF Cons.prems(1,2) ok _ crc2] Cons.prems(4) by blast
  have "rs_checksum st1 = next_checksum (rc_verify_crc cfg) (rs_checksum st) (h, page)"
    using st1(2) Cons.prems(1) by (simp add: replayed_def)
  then have crc3: "checksums_ok (rc_verify_crc cfg) (rs_checksum st1) frs'"
    using crc1 unfolding checksums_ok_append by simp
  have "br_data reader2 = (frames_bytes frs', False)" by (simp add: reader2_def)
  then obtain st' where "restore_frames cfg io ps (unat ps) reader2 st1 = Inr st'"
    "replayed (rc_verify_crc cfg) ps db0 crc ((frs @ [(h, page)]) @ frs') st'"
    using Cons.IH [OF st1(2) Cons.prems(2) _ Cons.prems(4) crc3] Cons.prems(3) by auto
  moreover have "restore_frames cfg io ps (unat ps) reader st = restore_frames cfg io ps (unat ps) reader2 st1"
    by (subst restore_frames.simps) (simp add: r1 r2 st1(1))
  ultimately show ?case by (simp add: fr)
qed

section \<open>A listing\<close>

text \<open>A listing that has the batches of a WAL in order, from the frame after the first \<^term>\<open>n\<close>, among other objects.\<close>

definition holds_batch :: "restore_cfg \<Rightarrow> s3 \<Rightarrow> string \<Rightarrow> u32 \<Rightarrow> CompressionKind \<Rightarrow> wal_frame list \<Rightarrow> bool" where
  "holds_batch cfg s key first kind frs \<longleftrightarrow>
     (\<exists>body. s3_get s key = Inr body \<and>
        br_data (new_batch_reader (rc_gunzip cfg) first body kind) = (frames_bytes frs, False))"

fun lists_batches ::
  "restore_cfg \<Rightarrow> s3 \<Rightarrow> u32 option \<Rightarrow> int option \<Rightarrow> nat \<Rightarrow> string option list \<Rightarrow> wal_frame list list \<Rightarrow> bool" where
  "lists_batches cfg s lc utc n [] bs = (bs = [])"
| "lists_batches cfg s lc utc n (None # objs) bs = False"
| "lists_batches cfg s lc utc n (Some key # objs) bs =
     (case parse_frame_range key of
        Inl _ \<Rightarrow> False
      | Inr None \<Rightarrow> lists_batches cfg s lc utc n objs bs
      | Inr (Some (first, final, ts, kind)) \<Rightarrow>
          (case bs of
             [] \<Rightarrow> False
           | frs # bs \<Rightarrow>
               first = word_of_nat n + 1 \<and> (case lc of Some frame \<Rightarrow> final \<le> frame | None \<Rightarrow> True) \<and>
               \<not> too_recent cfg utc ts \<and> holds_batch cfg s key first kind frs \<and> rc_flush cfg key \<and>
               lists_batches cfg s lc utc (n + length frs) objs bs))"

lemma restore_objs_replays:
  assumes "lists_batches cfg s lc utc (length frs) objs bs"
    and "replayed (rc_verify_crc cfg) ps db0 crc frs st" "0 < unat ps"
    and "\<forall>fr \<in> set (concat bs). frame_ok (unat ps) fr" "\<forall>key n. io_ok (rc_io cfg key n)"
    and "checksums_ok (rc_verify_crc cfg) (rs_checksum st) (concat bs)"
  shows "\<exists>st'. restore_objs cfg s ps (unat ps) lc utc objs st = Inr (NextPage, st') \<and>
    replayed (rc_verify_crc cfg) ps db0 crc (frs @ concat bs) st'"
  using assms
proof (induction objs arbitrary: frs bs st)
  case (Cons obj objs)
  obtain key where obj: "obj = Some key" using Cons.prems(1) by (cases obj) auto
  show ?case
  proof (cases "parse_frame_range key = Inr None")
    case True
    then have "lists_batches cfg s lc utc (length frs) objs bs" using Cons.prems(1) obj by simp
    from Cons.IH [OF this Cons.prems(2-)] True obj show ?thesis by simp
  next
    case False
    then obtain first final ts kind where parse: "parse_frame_range key = Inr (Some (first, final, ts, kind))"
      using parse_frame_range_total [of key] by (metis option.exhaust prod_cases4 sum.exhaust)
    obtain fs bs' where bs: "bs = fs # bs'" using Cons.prems(1) obj parse by (cases bs) auto
    have here: "first = word_of_nat (length frs) + 1" "case lc of Some frame \<Rightarrow> final \<le> frame | None \<Rightarrow> True"
      "\<not> too_recent cfg utc ts" "holds_batch cfg s key first kind fs" "rc_flush cfg key"
      "lists_batches cfg s lc utc (length frs + length fs) objs bs'"
      using Cons.prems(1) [unfolded obj bs lists_batches.simps parse sum.case option.case prod.case list.case]
      by blast+
    obtain body where body: "s3_get s key = Inr body"
      "br_data (new_batch_reader (rc_gunzip cfg) first body kind) = (frames_bytes fs, False)"
      using here(4) by (auto simp: holds_batch_def)
    have crcs: "checksums_ok (rc_verify_crc cfg) (rs_checksum st) fs"
      using Cons.prems(6) bs by (simp add: checksums_ok_append)
    obtain st1 where st1:
      "restore_frames cfg (rc_io cfg key) ps (unat ps) (new_batch_reader (rc_gunzip cfg) first body kind) st = Inr st1"
      "replayed (rc_verify_crc cfg) ps db0 crc (frs @ fs) st1"
      using restore_frames_replays [OF Cons.prems(2,3) _ _ crcs body(2), of "rc_io cfg key"] Cons.prems(4,5) bs by auto
    have "rs_checksum st1 = fold (\<lambda>fr crc. next_checksum (rc_verify_crc cfg) crc fr) fs (rs_checksum st)"
      using st1(2) Cons.prems(2) by (simp add: replayed_def)
    then have "checksums_ok (rc_verify_crc cfg) (rs_checksum st1) (concat bs')"
      using Cons.prems(6) bs by (simp add: checksums_ok_append)
    then obtain st' where st': "restore_objs cfg s ps (unat ps) lc utc objs st1 = Inr (NextPage, st')"
      "replayed (rc_verify_crc cfg) ps db0 crc ((frs @ fs) @ concat bs') st'"
      using Cons.IH [of "frs @ fs" bs' st1] here(6) st1(2) Cons.prems(3,4,5) bs by auto
    have "first = rs_last_received st + 1" using Cons.prems(2) here(1) by (simp add: replayed_def)
    moreover have "\<not> (case lc of Some frame \<Rightarrow> frame < final | None \<Rightarrow> False)"
      using here(2) by (auto split: option.splits)
    ultimately have "restore_objs cfg s ps (unat ps) lc utc (obj # objs) st = restore_objs cfg s ps (unat ps) lc utc objs st1"
      using obj parse here(3,5) body(1) st1(1) by simp
    then show ?thesis using st' bs by auto
  qed
qed simp

lemma restore_wal_replays:
  assumes "s3_list s (generation_key cfg g []) None = Inr response" "lo_contents response = Some objs"
    and "\<not> lo_is_truncated response" "lists_batches cfg s lc utc 0 objs bs"
    and "0 < unat ps" "\<forall>fr \<in> set (concat bs). frame_ok (unat ps) fr" "\<forall>key n. io_ok (rc_io cfg key n)"
    and "checksums_ok (rc_verify_crc cfg) crc (concat bs)"
  shows "\<exists>db'. restore_wal cfg s ps g (unat ps) lc crc utc db =
      Some (Inr (committed_frames (concat bs) \<noteq> [], db')) \<and> holds_frames ps db (committed_frames (concat bs)) db'"
proof -
  define st where "st = \<lparr> rs_pending = new_cache (rc_swap_after cfg) ps, rs_last_received = 0,
    rs_checksum = crc, rs_applied = False, rs_db = db \<rparr>"
  have st0: "replayed (rc_verify_crc cfg) ps db crc [] st" unfolding st_def by (rule replayed_new [OF assms(5)])
  obtain st' where st': "restore_objs cfg s ps (unat ps) lc utc objs st = Inr (NextPage, st')"
    "replayed (rc_verify_crc cfg) ps db crc (concat bs) st'"
    using restore_objs_replays [OF _ st0 assms(5,6,7), of s lc utc objs] assms(4,8) by (auto simp: st_def)
  have "restore_wal cfg s ps g (unat ps) lc crc utc db = Some (Inr (rs_applied st', rs_db st'))"
    unfolding restore_wal_def
    by (subst restore_wal_loop.simps) (use assms(1-3) st'(1) in \<open>simp add: st_def next_marker_def\<close>)
  moreover have "rs_applied st' = (committed_frames (concat bs) \<noteq> [])" "holds_frames ps db (committed_frames (concat bs)) (rs_db st')"
    using st'(2) by (auto simp: replayed_def committed_frames_def split: prod.splits)
  ultimately show ?thesis by auto
qed

section \<open>The batches of the copier\<close>

text \<open>The frames of batch number \<^term>\<open>i\<close>, with its first and last frame number.\<close>

definition chunk :: "nat \<Rightarrow> wal_frame list \<Rightarrow> nat \<Rightarrow> wal_frame list" where
  "chunk m frs i = take m (drop (i * m) frs)"

definition chunk_key :: "copy_env \<Rightarrow> WalCopier \<Rightarrow> string \<Rightarrow> nat \<Rightarrow> nat \<Rightarrow> string" where
  "chunk_key env c generation n i =
     (let m = wc_max_frames_per_batch c; start = word_of_nat (1 + i * m) :: u32
      in batch_key (wc_db_name c) generation start (word_of_nat (min ((i + 1) * m) n)) (ce_now env start)
           (wc_use_compression c))"

definition chunk_count :: "nat \<Rightarrow> nat \<Rightarrow> nat" where
  "chunk_count m n = (n + m - 1) div m"

lemma chunk_less:
  assumes "i < chunk_count m n" "0 < m"
  shows "i * m < n"
proof -
  have "(i + 1) * m \<le> n + m - 1"
    using assms by (simp add: chunk_count_def less_eq_div_iff_mult_less_eq Suc_le_eq [symmetric])
  then show ?thesis using assms(2) by simp
qed

lemma concat_chunks: "0 < m \<Longrightarrow> concat (map (chunk m frs) [j ..< chunk_count m (length frs)]) = drop (j * m) frs"
proof (induction "chunk_count m (length frs) - j" arbitrary: j)
  case 0
  then have "chunk_count m (length frs) \<le> j" by simp
  then have "length frs + m - 1 < (j + 1) * m"
    using 0(2) by (simp add: chunk_count_def div_less_iff_less_mult less_Suc_eq_le [symmetric] del: mult_Suc)
  then have "length frs \<le> j * m" using 0(2) by simp
  with 0 show ?case by simp
next
  case (Suc d)
  then have j: "j < chunk_count m (length frs)" by simp
  then have "concat (map (chunk m frs) [j ..< chunk_count m (length frs)]) =
      chunk m frs j @ concat (map (chunk m frs) [Suc j ..< chunk_count m (length frs)])"
    by (simp add: upt_rec)
  also have "\<dots> = chunk m frs j @ drop (Suc j * m) frs"
    using Suc by simp
  also have "\<dots> = drop (j * m) frs"
    by (metis chunk_def append_take_drop_id drop_drop mult_Suc)
  finally show ?case .
qed

lemma length_chunk: "length (chunk m frs i) = min m (length frs - i * m)"
  by (simp add: chunk_def)

text \<open>The frames of a batch in the WAL file.\<close>

lemma length_frames_bytes:
  "\<forall>fr \<in> set frs. frame_ok ps fr \<Longrightarrow> length (frames_bytes frs) = length frs * (WAL_FRAME_HEADER_SIZE + ps)"
  by (induction frs) (auto simp: frames_bytes_def frame_ok_def)

lemma frames_bytes_append: "frames_bytes (xs @ ys) = frames_bytes xs @ frames_bytes ys"
  by (simp add: frames_bytes_def)

lemma wal_slice:
  assumes "\<forall>fr \<in> set frs. frame_ok ps fr" "length hdr = WAL_HEADER_SIZE" "j \<le> length frs"
  shows "byte_slice (WAL_HEADER_SIZE + j * (WAL_FRAME_HEADER_SIZE + ps)) (min m (length frs - j) * (WAL_FRAME_HEADER_SIZE + ps))
    (hdr @ frames_bytes frs) = frames_bytes (take m (drop j frs))"
proof -
  let ?n = "WAL_FRAME_HEADER_SIZE + ps"
  have split: "frames_bytes frs = frames_bytes (take j frs) @ frames_bytes (take m (drop j frs)) @ frames_bytes (drop m (drop j frs))"
    by (metis frames_bytes_append append_take_drop_id)
  have ok: "\<forall>fr \<in> set (take j frs). frame_ok ps fr" "\<forall>fr \<in> set (take m (drop j frs)). frame_ok ps fr"
    using assms(1) by (auto dest: in_set_takeD in_set_dropD)
  have "length (frames_bytes (take j frs)) = j * ?n"
    "length (frames_bytes (take m (drop j frs))) = min m (length frs - j) * ?n"
    using length_frames_bytes [OF ok(1)] length_frames_bytes [OF ok(2)] assms(3) by (simp_all add: min_def)
  then show ?thesis
    unfolding split using assms(2) by (simp add: byte_slice_def)
qed

text \<open>The environment in which no operation of the copier fails.\<close>

definition copy_ok :: "copy_env \<Rightarrow> bool" where
  "copy_ok env \<longleftrightarrow> ce_mkdir env \<and> ce_meta_create env \<and> ce_meta_write env = IoOk \<and> ce_send_meta env \<and>
     (\<forall>start. ce_create env start \<and> ce_copy env start = IoOk \<and> ce_send env start)"

lemma unat_u32: "x < 2 ^ 32 \<Longrightarrow> unat (word_of_nat x :: u32) = x"
  by (simp add: unat_of_nat)

lemma chunk_key_parse:
  "parse_frame_range (chunk_key env c g n i) =
     Inr (Some (word_of_nat (1 + i * wc_max_frames_per_batch c),
       word_of_nat (min ((i + 1) * wc_max_frames_per_batch c) n),
       ce_now env (word_of_nat (1 + i * wc_max_frames_per_batch c)), wc_use_compression c))"
  by (simp only: chunk_key_def Let_def batch_key_parse_back)

lemma chunk_key_inj:
  assumes "chunk_key env c g n i = chunk_key env c g n i'" "0 < wc_max_frames_per_batch c"
    and "1 + i * wc_max_frames_per_batch c < 2 ^ 32" "1 + i' * wc_max_frames_per_batch c < 2 ^ 32"
  shows "i = i'"
proof -
  let ?m = "wc_max_frames_per_batch c"
  have "(word_of_nat (1 + i * ?m) :: u32) = word_of_nat (1 + i' * ?m)"
    using arg_cong [OF assms(1), of parse_frame_range] unfolding chunk_key_parse by blast
  then have "1 + i * ?m = 1 + i' * ?m"
    using unat_u32 [OF assms(3)] unat_u32 [OF assms(4)] by metis
  then show ?thesis using assms(2) by simp
qed

lemma chunk_bounds:
  fixes m n i :: nat
  assumes "i * m < n" "n + m < 2 ^ 32 - 1"
  defines "start \<equiv> word_of_nat (1 + i * m) :: u32"
  defines "fin \<equiv> min (start + word_of_nat m) (word_of_nat (n + 1))"
  shows "fin - 1 = word_of_nat (min ((i + 1) * m) n)" "unat (fin - start) = min m (n - i * m)"
    "unat (start - 1) = i * m"
proof -
  have sum: "start + word_of_nat m = word_of_nat (1 + (i + 1) * m)"
    by (simp add: start_def algebra_simps)
  have b: "1 + (i + 1) * m < 2 ^ 32" "n + 1 < 2 ^ 32" "1 + i * m < 2 ^ 32" using assms(1,2) by auto
  have fin: "fin = word_of_nat (1 + min ((i + 1) * m) n)"
  proof (cases "(i + 1) * m \<le> n")
    case True
    then have "(word_of_nat (1 + (i + 1) * m) :: u32) \<le> word_of_nat (n + 1)"
      unfolding word_le_nat_alt unat_u32 [OF b(1)] unat_u32 [OF b(2)] by simp
    then show ?thesis unfolding fin_def sum using True by (simp add: min_absorb1 del: of_nat_Suc of_nat_add of_nat_mult)
  next
    case False
    then have "(word_of_nat (n + 1) :: u32) \<le> word_of_nat (1 + (i + 1) * m)"
      unfolding word_le_nat_alt unat_u32 [OF b(1)] unat_u32 [OF b(2)] by simp
    then show ?thesis unfolding fin_def sum using False by (simp add: min_absorb2)
  qed
  then show "fin - 1 = word_of_nat (min ((i + 1) * m) n)" by simp
  have c: "min ((i + 1) * m) n + 1 < 2 ^ 32" using b by simp
  have "fin - start = word_of_nat (min m (n - i * m))"
  proof -
    have "min ((i + 1) * m) n = i * m + min m (n - i * m)" using assms(1) by (auto simp: min_def)
    then show ?thesis unfolding fin start_def by simp
  qed
  moreover have "min m (n - i * m) < 2 ^ 32" using b by auto
  ultimately show "unat (fin - start) = min m (n - i * m)" by (simp only: unat_u32)
  have "start - 1 = word_of_nat (i * m)" by (simp add: start_def)
  moreover have "i * m < 2 ^ 32" using b by simp
  ultimately show "unat (start - 1) = i * m" by (simp only: unat_u32)
qed

text \<open>The path of a batch in the local directory, and the step of the loop that makes it.\<close>

definition chunk_path :: "copy_env \<Rightarrow> WalCopier \<Rightarrow> string \<Rightarrow> nat \<Rightarrow> nat \<Rightarrow> string" where
  "chunk_path env c generation n i = wc_bucket c @ ''/'' @ chunk_key env c generation n i"

lemma flush_batches_step:
  fixes frs :: "wal_frame list"
  defines "n \<equiv> length frs"
  assumes env: "copy_ok env" and i: "i * wc_max_frames_per_batch c < n" "n + wc_max_frames_per_batch c < 2 ^ 32 - 1"
    and frs: "\<forall>fr \<in> set frs. frame_ok (unat (wr_page_size wal)) fr" and hdr: "length hdr = WAL_HEADER_SIZE"
  shows "\<exists>wal'. wr_header wal' = wr_header wal \<and>
    flush_batches env (hdr @ frames_bytes frs) c g (word_of_nat (n + 1))
      (word_of_nat (1 + i * wc_max_frames_per_batch c) # starts) wal (files, out) =
    flush_batches env (hdr @ frames_bytes frs) c g (word_of_nat (n + 1)) starts wal'
      (files(chunk_path env c g n i \<mapsto>
         compressed env (wc_use_compression c) (frames_bytes (chunk (wc_max_frames_per_batch c) frs i))),
       out @ [chunk_key env c g n i])"
proof -
  let ?m = "wc_max_frames_per_batch c" and ?f = "hdr @ frames_bytes frs"
  define start where "start = (word_of_nat (1 + i * ?m) :: u32)"
  define fin where "fin = min (start + word_of_nat ?m) (word_of_nat (n + 1))"
  note b = chunk_bounds [OF i, folded start_def, folded fin_def]
  have key: "batch_key (wc_db_name c) g start (fin - 1) (ce_now env start) (wc_use_compression c) = chunk_key env c g n i"
    by (simp only: b(1) chunk_key_def start_def Let_def)
  define wal1 where "wal1 = seek_frame start wal"
  have size: "frame_size wal1 = WAL_FRAME_HEADER_SIZE + unat (wr_page_size wal)"
    by (simp add: wal1_def seek_frame_def frame_size_def wr_page_size_def)
  have pos: "wr_pos wal1 = WAL_HEADER_SIZE + i * ?m * (WAL_FRAME_HEADER_SIZE + unat (wr_page_size wal))"
    by (simp add: wal1_def seek_frame_def frame_offset_def frame_size_def b(3))
  have slice: "byte_slice (wr_pos wal1) (unat (fin - start) * frame_size wal1) ?f = frames_bytes (chunk ?m frs i)"
    unfolding pos size b(2) chunk_def unfolding n_def
    by (rule wal_slice [OF frs hdr]) (use i(1) n_def in simp)
  define wal' where "wal' = wal1\<lparr>wr_pos := wr_pos wal1 + length (frames_bytes (chunk ?m frs i))\<rparr>"
  have copy: "copy_frames ?f (unat (fin - start)) wal1 = (frames_bytes (chunk ?m frs i), wal')"
    by (simp add: copy_frames_def slice wal'_def Let_def)
  have put: "put_at 0 bs [] = bs" for bs by (simp add: put_at_def)
  have e: "ce_create env start" "ce_copy env start = IoOk" "ce_send env start" using env by (simp_all add: copy_ok_def)
  have "flush_batches env ?f c g (word_of_nat (n + 1)) (start # starts) wal (files, out) =
    flush_batches env ?f c g (word_of_nat (n + 1)) starts wal'
      (files(chunk_path env c g n i \<mapsto> compressed env (wc_use_compression c) (frames_bytes (chunk ?m frs i))),
       out @ [chunk_key env c g n i])"
    unfolding flush_batches.simps
    by (simp only: Let_def fin_def [symmetric] key wal1_def [symmetric] copy e write_all_at_def io.case put
        prod.case not_True_eq_False if_False chunk_path_def)
  moreover have "wr_header wal' = wr_header wal" by (simp add: wal'_def wal1_def seek_frame_def)
  ultimately show ?thesis unfolding start_def by blast
qed

lemma flush_batches_chunks:
  fixes frs :: "wal_frame list"
  defines "n \<equiv> length frs"
  assumes env: "copy_ok env" and m: "0 < wc_max_frames_per_batch c" "n + wc_max_frames_per_batch c < 2 ^ 32 - 1"
    and frs: "\<forall>fr \<in> set frs. frame_ok (unat (wh_page_size h)) fr" and hdr: "length hdr = WAL_HEADER_SIZE"
    and j: "j \<le> k" "k = chunk_count (wc_max_frames_per_batch c) n" and wal: "wr_header wal = h"
  shows "\<exists>wal' files'. flush_batches env (hdr @ frames_bytes frs) c g (word_of_nat (n + 1))
      (map (\<lambda>i. word_of_nat (1 + i * wc_max_frames_per_batch c)) [j ..< k]) wal (files, out) =
        (Inr (word_of_nat n), wal', files', out @ map (chunk_key env c g n) [j ..< k]) \<and>
      (\<forall>i \<in> {j ..< k}. files' (chunk_path env c g n i) =
         Some (compressed env (wc_use_compression c) (frames_bytes (chunk (wc_max_frames_per_batch c) frs i)))) \<and>
      (\<forall>p. p \<notin> chunk_path env c g n ` {j ..< k} \<longrightarrow> files' p = files p)"
  using j(1) wal
proof (induction "k - j" arbitrary: j wal files out)
  case 0
  then have "j = k" by simp
  then show ?case by simp
next
  case (Suc d)
  let ?m = "wc_max_frames_per_batch c"
  let ?content = "\<lambda>i. compressed env (wc_use_compression c) (frames_bytes (chunk ?m frs i))"
  let ?files = "files(chunk_path env c g n j \<mapsto> ?content j)"
  have jk: "j < k" and d: "d = k - Suc j" using Suc(2) by simp_all
  then have jm: "j * ?m < n" using chunk_less [of j ?m n] m(1) j(2) by simp
  have frs': "\<forall>fr \<in> set frs. frame_ok (unat (wr_page_size wal)) fr" using frs Suc(4) by (simp add: wr_page_size_def)
  obtain wal1 where wal1: "wr_header wal1 = h"
    "flush_batches env (hdr @ frames_bytes frs) c g (word_of_nat (n + 1))
      (map (\<lambda>i. word_of_nat (1 + i * ?m)) [j ..< k]) wal (files, out) =
     flush_batches env (hdr @ frames_bytes frs) c g (word_of_nat (n + 1))
      (map (\<lambda>i. word_of_nat (1 + i * ?m)) [Suc j ..< k]) wal1 (?files, out @ [chunk_key env c g n j])"
    using flush_batches_step [OF env jm [unfolded n_def] m(2) [unfolded n_def] frs' hdr,
        of g "map (\<lambda>i. word_of_nat (1 + i * ?m)) [Suc j ..< k]" files out] jk Suc(4)
    unfolding n_def by (auto simp: upt_rec [of j])
  obtain wal' files' where r:
    "flush_batches env (hdr @ frames_bytes frs) c g (word_of_nat (n + 1))
      (map (\<lambda>i. word_of_nat (1 + i * ?m)) [Suc j ..< k]) wal1 (?files, out @ [chunk_key env c g n j]) =
     (Inr (word_of_nat n), wal', files', (out @ [chunk_key env c g n j]) @ map (chunk_key env c g n) [Suc j ..< k])"
    "\<forall>i \<in> {Suc j ..< k}. files' (chunk_path env c g n i) = Some (?content i)"
    "\<forall>p. p \<notin> chunk_path env c g n ` {Suc j ..< k} \<longrightarrow> files' p = ?files p"
    using Suc(1) [OF d Suc_leI [OF jk] wal1(1), of ?files "out @ [chunk_key env c g n j]"] by (elim exE conjE)
  have new: "chunk_path env c g n j \<notin> chunk_path env c g n ` {Suc j ..< k}"
  proof
    assume "chunk_path env c g n j \<in> chunk_path env c g n ` {Suc j ..< k}"
    then obtain i where i: "i \<in> {Suc j ..< k}" "chunk_key env c g n j = chunk_key env c g n i"
      by (auto simp: chunk_path_def)
    have "i * ?m < n" using chunk_less [of i ?m n] m(1) j(2) i(1) by simp
    then have "j = i" using chunk_key_inj [OF i(2) m(1)] jm m(2) by simp
    then show False using i(1) by simp
  qed
  have "\<forall>i \<in> {j ..< k}. files' (chunk_path env c g n i) = Some (?content i)"
  proof
    fix i assume "i \<in> {j ..< k}"
    then consider "i = j" | "i \<in> {Suc j ..< k}" by fastforce
    then show "files' (chunk_path env c g n i) = Some (?content i)"
      using r(2,3) new by cases auto
  qed
  moreover have "files' p = files p" if "p \<notin> chunk_path env c g n ` {j ..< k}" for p
  proof -
    have "p \<notin> chunk_path env c g n ` {Suc j ..< k}" "p \<noteq> chunk_path env c g n j" using that jk by auto
    then show ?thesis using r(3) by simp
  qed
  ultimately show ?case using wal1(2) r(1) jk by (auto simp: upt_rec [of j])
qed

lemma meta_not_batch:
  assumes "CHR ''/'' \<notin> set name" "CHR ''-'' \<notin> set name"
  shows "parse_frame_range (dir @ ''/'' @ name) = Inr None"
proof -
  have "rfind (CHR ''/'') (dir @ CHR ''/'' # name) = Some (length dir)" using assms(1) by (rule rfind_append)
  moreover have "rfind (CHR ''-'') name = None" using assms(2) by (simp add: rfind_None)
  ultimately show ?thesis by (simp add: parse_frame_range_def Let_def)
qed

lemma step_by_chunks:
  assumes "n + 1 < 2 ^ 32" "0 < n" "0 < m"
  shows "step_by 1 (word_of_nat (n + 1)) m = map (\<lambda>i. word_of_nat (1 + i * m)) [0 ..< chunk_count m n]"
proof -
  have u: "unat (word_of_nat (n + 1) :: u32) = n + 1" using assms(1) by (rule unat_u32)
  then have "(1 :: u32) < word_of_nat (n + 1)" unfolding word_less_nat_alt using assms(2) by simp
  then show ?thesis unfolding step_by_def u chunk_count_def by simp
qed

text \<open>What the first flush of a generation leaves: the metadata and the batches, all sent to the uploader.\<close>

lemma flush_range_chunks:
  fixes frs :: "wal_frame list"
  defines "n \<equiv> length frs"
  assumes env: "copy_ok env" and m: "0 < wc_max_frames_per_batch c" "n + wc_max_frames_per_batch c < 2 ^ 32 - 1"
    and frs: "\<forall>fr \<in> set frs. frame_ok (unat (wh_page_size (wal_header_of hdr))) fr" "frs \<noteq> []"
    and hdr: "length hdr = WAL_HEADER_SIZE" and c: "wc_wal c = None" "wc_generation c = Some g"
    and run: "flush_range env (Some (hdr @ frames_bytes frs)) 1 (word_of_nat (n + 1)) c (files0, []) = (r, c', files, outbox)"
  defines "key \<equiv> chunk_key env c (ce_uuid env g) n" and "k \<equiv> chunk_count (wc_max_frames_per_batch c) n"
  defines "meta \<equiv> generation_dir (wc_db_name c) (ce_uuid env g) @ ''/.meta''"
  shows "r = Inr (word_of_nat n) \<and> outbox = meta # map key [0 ..< k] \<and>
    files (wc_bucket c @ ''/'' @ meta) =
      Some (be_enc 4 (wh_page_size (wal_header_of hdr)) @ be_enc 8 (wh_crc (wal_header_of hdr))) \<and>
    (\<forall>i < k. files (wc_bucket c @ ''/'' @ key i) =
      Some (compressed env (wc_use_compression c) (frames_bytes (chunk (wc_max_frames_per_batch c) frs i))))"
proof -
  let ?f = "hdr @ frames_bytes frs" and ?m = "wc_max_frames_per_batch c"
  define wal where "wal = \<lparr> wr_header = wal_header_of hdr, wr_pos = WAL_HEADER_SIZE \<rparr>"
  define c1 where "c1 = c\<lparr>wc_wal := Some wal\<rparr>"
  define files1 where "files1 = files0(wc_bucket c @ ''/'' @ meta \<mapsto> meta_object wal)"
  have open_wal: "wal_open (Some ?f) = Inr (Some wal)"
    using hdr by (simp add: wal_open_def wal_def byte_slice_def)
  have init: "init_backup env c1 (ce_uuid env g) wal (files0, []) = (Inr (), files1, [meta])"
    using env by (simp add: init_backup_def c1_def copy_ok_def write_all_at_def put_at_def files1_def meta_def Let_def)
  have n: "0 < n" "n + 1 < 2 ^ 32" using frs(2) m(2) by (auto simp: n_def)
  have u: "unat (word_of_nat (n + 1) :: u32) = n + 1" using n(2) by (rule unat_u32)
  have lt: "(1 :: u32) < word_of_nat (n + 1)" unfolding word_less_nat_alt u using n(1) by simp
  have keys: "chunk_key env c1 = chunk_key env c" "chunk_path env c1 = chunk_path env c"
    by (simp_all add: fun_eq_iff chunk_key_def chunk_path_def c1_def)
  have c1: "wc_max_frames_per_batch c1 = ?m" "wc_use_compression c1 = wc_use_compression c"
    by (simp_all add: c1_def)
  have k: "k = chunk_count ?m n" by (simp add: k_def)
  have wal: "wr_header wal = wal_header_of hdr" by (simp add: wal_def)
  obtain wal' files' where fl:
    "flush_batches env ?f c1 (ce_uuid env g) (word_of_nat (n + 1)) (map (\<lambda>i. word_of_nat (1 + i * ?m)) [0 ..< k]) wal (files1, [meta]) =
       (Inr (word_of_nat n), wal', files', [meta] @ map key [0 ..< k])"
    "\<forall>i \<in> {0 ..< k}. files' (chunk_path env c (ce_uuid env g) n i) =
       Some (compressed env (wc_use_compression c) (frames_bytes (chunk ?m frs i)))"
    "\<forall>p. p \<notin> chunk_path env c (ce_uuid env g) n ` {0 ..< k} \<longrightarrow> files' p = files1 p"
    using flush_batches_chunks [where env = env and c = c1 and frs = frs and j = 0 and k = k and wal = wal
        and g = "ce_uuid env g" and files = files1 and out = "[meta]", unfolded c1 keys, folded n_def, folded key_def,
        OF env m frs(1) hdr le0 k wal]
    by (elim exE conjE)
  have res: "r = Inr (word_of_nat n)" "files = files'" "outbox = [meta] @ map key [0 ..< k]"
    using run lt c open_wal init m(1) fl(1) step_by_chunks [OF n(2,1) m(1)]
    by (auto simp: flush_range_def c1_def k_def)
  have "wc_bucket c @ ''/'' @ meta \<notin> chunk_path env c (ce_uuid env g) n ` {0 ..< k}"
  proof
    assume "wc_bucket c @ ''/'' @ meta \<in> chunk_path env c (ce_uuid env g) n ` {0 ..< k}"
    then obtain i where "meta = chunk_key env c (ce_uuid env g) n i" by (auto simp: chunk_path_def)
    then show False
      using chunk_key_parse [of env c "ce_uuid env g" n i]
        meta_not_batch [of "''.meta''" "generation_dir (wc_db_name c) (ce_uuid env g)"] by (simp add: meta_def)
  qed
  then have "files' (wc_bucket c @ ''/'' @ meta) = Some (meta_object wal)" using fl(3) by (simp add: files1_def)
  then show ?thesis
    using res fl(2) by (auto simp: meta_object_def wal_def wr_page_size_def wr_checksum_def chunk_path_def key_def)
qed

section \<open>Backup and restore\<close>

text \<open>Every name that was sent to the uploader is an object with the content of the local file.\<close>

definition uploaded :: "s3 \<Rightarrow> WalCopier \<Rightarrow> local_backup \<Rightarrow> bool" where
  "uploaded s c b \<longleftrightarrow>
     (\<forall>key \<in> set (snd b). \<exists>bs. fst b (wc_bucket c @ ''/'' @ key) = Some bs \<and> s3_get s key = Inr (bs, False))"

text \<open>The objects of the prefix fit in one page of the listing, which has the batches in the order they were made.\<close>

definition listed :: "s3 \<Rightarrow> string \<Rightarrow> string list \<Rightarrow> bool" where
  "listed s pre outbox \<longleftrightarrow>
     (\<exists>response keys. s3_list s pre None = Inr response \<and> \<not> lo_is_truncated response \<and>
        lo_contents response = Some (map Some keys) \<and>
        [key \<leftarrow> keys. parse_frame_range key \<noteq> Inr None] = [key \<leftarrow> outbox. parse_frame_range key \<noteq> Inr None])"

text \<open>The restore uses the names and the inverse of the codec of the backup.\<close>

definition same_naming :: "restore_cfg \<Rightarrow> copy_env \<Rightarrow> WalCopier \<Rightarrow> bool" where
  "same_naming cfg env c \<longleftrightarrow>
     rc_db_name cfg = wc_db_name c \<and> rc_uuid cfg = ce_uuid env \<and>
     (\<forall>bs. rc_gunzip cfg (ce_gzip env bs, False) = (bs, False))"

lemma lists_chunks:
  assumes "[key \<leftarrow> keys. parse_frame_range key \<noteq> Inr None] = map (chunk_key env c g n) [j ..< k]"
    and n: "n = length frs" and m: "0 < wc_max_frames_per_batch c" "n + wc_max_frames_per_batch c < 2 ^ 32 - 1"
    and k: "k = chunk_count (wc_max_frames_per_batch c) n" and j: "j \<le> k"
    and get: "\<forall>i < k. s3_get s (chunk_key env c g n i) =
      Inr (compressed env (wc_use_compression c) (frames_bytes (chunk (wc_max_frames_per_batch c) frs i)), False)"
    and cfg: "same_naming cfg env c" "\<forall>key. rc_flush cfg key"
  shows "lists_batches cfg s (Some (word_of_nat n)) None (min (j * wc_max_frames_per_batch c) n) (map Some keys)
    (map (chunk (wc_max_frames_per_batch c) frs) [j ..< k])"
  using assms(1) j
proof (induction keys arbitrary: j)
  case Nil
  then show ?case by simp
next
  case (Cons key keys)
  let ?m = "wc_max_frames_per_batch c"
  show ?case
  proof (cases "parse_frame_range key = Inr None")
    case True
    then show ?thesis using Cons by simp
  next
    case False
    then have jk: "j < k" using Cons.prems by (cases "j < k") auto
    have key: "key = chunk_key env c g n j"
      "[key \<leftarrow> keys. parse_frame_range key \<noteq> Inr None] = map (chunk_key env c g n) [Suc j ..< k]"
      using Cons.prems(1) False jk by (simp_all add: upt_rec [of j])
    have jm: "j * ?m < n" using chunk_less [of j ?m n] m(1) k jk by simp
    have next_n: "min (j * ?m) n + length (chunk ?m frs j) = min (Suc j * ?m) n"
      using jm by (auto simp: length_chunk n min_def)
    have IH: "lists_batches cfg s (Some (word_of_nat n)) None (min (Suc j * ?m) n) (map Some keys)
        (map (chunk ?m frs) [Suc j ..< k])"
      by (rule Cons.IH [OF key(2)]) (use jk in simp)
    have final: "(word_of_nat (min ((j + 1) * ?m) n) :: u32) \<le> word_of_nat n"
    proof -
      have b: "min ((j + 1) * ?m) n < 2 ^ 32" "n < 2 ^ 32" using m(2) by auto
      show ?thesis unfolding word_le_nat_alt unat_u32 [OF b(1)] unat_u32 [OF b(2)] by simp
    qed
    have first: "(word_of_nat (1 + j * ?m) :: u32) = word_of_nat (min (j * ?m) n) + 1" using jm by simp
    have "holds_batch cfg s key (word_of_nat (1 + j * ?m)) (wc_use_compression c) (chunk ?m frs j)"
      using get jk key(1) cfg(1)
      by (cases "wc_use_compression c")
        (simp_all add: holds_batch_def new_batch_reader_def compressed_def same_naming_def)
    then have "lists_batches cfg s (Some (word_of_nat n)) None (min (j * ?m) n) (map Some (key # keys))
        (chunk ?m frs j # map (chunk ?m frs) [Suc j ..< k])"
      using IH final first next_n cfg(2)
      unfolding list.map lists_batches.simps key(1) chunk_key_parse sum.case option.case prod.case list.case
      by (simp add: too_recent_def)
    then show ?thesis using jk by (simp add: upt_rec [of j])
  qed
qed

lemma metadata_roundtrip:
  assumes "s3_get s (generation_key cfg g ''.meta'') = Inr (be_enc 4 (ps :: u32) @ be_enc 8 (crc :: u64), False)"
  shows "get_metadata cfg s g = Inr (Some (ps, crc))"
proof -
  have "be_word (be_enc 4 ps) = ps" "be_word (be_enc 8 crc) = crc"
    by (simp_all add: be_word_def be_enc_def codec_simps)
  then show ?thesis using assms by (simp add: get_metadata_def collect_def byte_slice_def)
qed


definition sample_hdr :: "byte list" where
  "sample_hdr = [0, 0, 0, 0, 0, 0, 0, 0, 0, 0, 0, 8, 0, 0, 0, 0, 0, 0, 0, 0, 0, 0, 0, 0, 0, 0, 0, 0, 0, 0, 0, 9]"

definition wal_sample_frame :: "byte \<Rightarrow> byte \<Rightarrow> byte \<Rightarrow> wal_frame" where
  "wal_sample_frame pgno after b =
     ([0, 0, 0, pgno, 0, 0, 0, after, 0, 0, 0, 0, 0, 0, 0, 0, 0, 0, 0, 0, 0, 0, 0, 0], [b, b, b, b, b, b, b, b])"

text \<open>A transaction that writes the page 1 twice, and the start of another one.\<close>

definition wal_sample_frames :: "wal_frame list" where
  "wal_sample_frames = [wal_sample_frame 1 0 3, wal_sample_frame 1 1 5, wal_sample_frame 2 0 6]"

definition sample_copy_env :: copy_env where
  "sample_copy_env =
     \<lparr> ce_uuid = (\<lambda>_. ''gen''), ce_gzip = rev, ce_now = (\<lambda>_. 0), ce_mkdir = True, ce_meta_create = True,
       ce_meta_write = IoOk, ce_send_meta = True, ce_create = (\<lambda>_. True), ce_copy = (\<lambda>_. IoOk), ce_send = (\<lambda>_. True) \<rparr>"

definition sample_copier :: WalCopier where
  "sample_copier = new_copier ''bucket'' ''db'' (Some 7) 2 Gzip"

definition sample_flush :: "(backup_error + u32) \<times> WalCopier \<times> local_backup" where
  "sample_flush = flush_range sample_copy_env (Some (sample_hdr @ frames_bytes wal_sample_frames)) 1
     (word_of_nat (length wal_sample_frames + 1)) sample_copier (Map.empty, [])"

text \<open>The bucket after the upload of what a copier left.\<close>

definition bucket_of :: "WalCopier \<Rightarrow> local_backup \<Rightarrow> s3" where
  "bucket_of c b =
     \<lparr> s3_list = (\<lambda>_ _. Inr \<lparr> lo_contents = Some (map Some (snd b)), lo_common_prefixes = None,
                            lo_is_truncated = False, lo_next_marker = None \<rparr>),
       s3_list_one = (\<lambda>_ _. Inl ()), s3_list_dirs = (\<lambda>_ _. Inl ()),
       s3_get = (\<lambda>key. case fst b (wc_bucket c @ ''/'' @ key) of Some bs \<Rightarrow> Inr (bs, False) | None \<Rightarrow> Inl NoSuchKey) \<rparr>"

definition sample_restore_cfg :: restore_cfg where
  "sample_restore_cfg =
     \<lparr> rc_db_name = ''db'', rc_uuid = (\<lambda>_. ''gen''), rc_parse_uuid = (\<lambda>_. Some 7), rc_lib = sample_uuid_lib,
       rc_gunzip = (\<lambda>(bs, e). (rev bs, e)), rc_time = (\<lambda>t. Some (int (unat t))), rc_verify_crc = False,
       rc_use_compression = Gzip, rc_swap_after = 0, rc_io = (\<lambda>_ _. cache_io_ok), rc_flush = (\<lambda>_. True) \<rparr>"

lemma listed_bucket_of: "listed (bucket_of c b) pre (snd b)"
  by (auto simp: listed_def bucket_of_def)

lemma sample_header: "length sample_hdr = WAL_HEADER_SIZE" "wh_page_size (wal_header_of sample_hdr) = 8"
  "wh_crc (wal_header_of sample_hdr) = 9"
  by code_simp+

lemma wal_sample_frames_ok: "\<forall>fr \<in> set wal_sample_frames. frame_ok 8 fr" "wal_sample_frames \<noteq> []" "length wal_sample_frames = 3"
  by (simp_all add: wal_sample_frames_def wal_sample_frame_def frame_ok_def WAL_FRAME_HEADER_SIZE_def)

lemma sample_committed: "committed_frames wal_sample_frames = [wal_sample_frame 1 0 3, wal_sample_frame 1 1 5]"
  by (simp add: committed_frames_def wal_sample_frames_def wal_sample_frame_def is_committed_def size_after_def byte_slice_def
      be_word_def bytes_word_def numeral_eq_Suc)

lemma sample_copier_ok: "wc_wal sample_copier = None" "wc_generation sample_copier = Some 7"
  "wc_max_frames_per_batch sample_copier = 2" "copy_ok sample_copy_env"
  by (simp_all add: sample_copier_def new_copier_def copy_ok_def sample_copy_env_def)

lemma sample_uploaded: "uploaded (bucket_of sample_copier (snd (snd sample_flush))) sample_copier (snd (snd sample_flush))"
proof -
  obtain r c' files outbox where f: "sample_flush = (r, c', files, outbox)" by (metis prod_cases4)
  have frs: "\<forall>fr \<in> set wal_sample_frames. frame_ok (unat (wh_page_size (wal_header_of sample_hdr))) fr"
    using wal_sample_frames_ok(1) sample_header(2) by simp
  have m: "0 < wc_max_frames_per_batch sample_copier"
    "length wal_sample_frames + wc_max_frames_per_batch sample_copier < 2 ^ 32 - 1"
    by (simp_all add: sample_copier_ok wal_sample_frames_ok)
  have run: "flush_range sample_copy_env (Some (sample_hdr @ frames_bytes wal_sample_frames)) 1
     (word_of_nat (length wal_sample_frames + 1)) sample_copier (Map.empty, []) = (r, c', files, outbox)"
    using f by (simp only: sample_flush_def)
  note all = flush_range_chunks [OF sample_copier_ok(4) m frs wal_sample_frames_ok(2) sample_header(1)
      sample_copier_ok(1,2) run]
  have "files (wc_bucket sample_copier @ ''/'' @ key) \<noteq> None" if "key \<in> set outbox" for key
    using all that by auto
  then show ?thesis unfolding f by (auto simp: uploaded_def bucket_of_def split: option.split)
qed


section \<open>Listings of more than one page\<close>

text \<open>
  The number of the last frame and the pages of the open transaction belong to one
  page of the listing and start anew with the next one. A later page begins after
  the first frame, so that its first batch is refused: the restore of a generation
  whose listing has more than one page ends, without an error, with the frames of
  the first page.
\<close>

lemma later_batches_refused:
  assumes "rs_last_received st = 0"
    and "\<forall>key \<in> set keys. \<forall>first final ts kind.
      parse_frame_range key = Inr (Some (first, final, ts, kind)) \<longrightarrow> first \<noteq> 1"
  shows "restore_objs cfg s ps buf lc utc (map Some keys) st = Inr (NextPage, st)"
  using assms(2)
proof (induction keys)
  case (Cons key keys)
  show ?case
  proof (cases "parse_frame_range key")
    case (Inl e)
    then show ?thesis using parse_frame_range_total by simp
  next
    case (Inr range)
    then show ?thesis
      using Cons assms(1) by (cases range) (auto split: prod.split)
  qed
qed simp

lemma later_page_lost:
  assumes "s3_list s pre (Some marker) = Inr response" "lo_contents response = Some (map Some keys)"
    and "\<not> lo_is_truncated response"
    and "\<forall>key \<in> set keys. \<forall>first final ts kind.
      parse_frame_range key = Inr (Some (first, final, ts, kind)) \<longrightarrow> first \<noteq> 1"
  shows "restore_wal_loop cfg s pre ps buf lc utc (Some marker) crc applied db = Some (Inr (applied, db))"
  by (subst restore_wal_loop.simps) (use assms in \<open>simp add: later_batches_refused next_marker_def\<close>)

section \<open>The header of a later generation\<close>

text \<open>
  The copier reads the header of the WAL once and keeps it. The metadata of a later
  generation has the page size and the checksum of that header, whatever the WAL
  file, which SQLite has restarted with a new header in between, has now.
\<close>

lemma flush_batches_keeps:
  "parse_frame_range key = Inr None \<Longrightarrow>
   fst (snd (snd (flush_batches env f c g fin starts wal (files, out)))) (wc_bucket c @ ''/'' @ key) =
   files (wc_bucket c @ ''/'' @ key)"
proof (induction starts arbitrary: wal files out)
  case (Cons start starts)
  have "key \<noteq> batch_key d e first final ts kind" for d e first final ts kind
    using Cons.prems batch_key_parse_back by fastforce
  then show ?case
    using Cons.IH [OF Cons.prems] by (auto simp: Let_def split: prod.split)
qed simp

lemma stale_header_in_metadata:
  assumes "copy_ok env" "wc_wal c = Some wal" "wc_generation c = Some g" "1 < fin"
  shows "fst (snd (snd (flush_range env f 1 fin c (files, out))))
      (wc_bucket c @ ''/'' @ generation_dir (wc_db_name c) (ce_uuid env g) @ ''/.meta'') = Some (meta_object wal)"
proof -
  define meta where "meta = generation_dir (wc_db_name c) (ce_uuid env g) @ ''/.meta''"
  have none: "parse_frame_range meta = Inr None"
    unfolding meta_def by (rule meta_not_batch [of "''.meta''", simplified])
  define files1 where "files1 = files(wc_bucket c @ ''/'' @ meta \<mapsto> meta_object wal)"
  have init: "init_backup env c (ce_uuid env g) wal (files, out) = (Inr (), files1, out @ [meta])"
    using assms(1) by (simp add: init_backup_def copy_ok_def write_all_at_def put_at_def files1_def meta_def Let_def)
  have "fst (snd (snd (flush_range env f 1 fin c (files, out)))) (wc_bucket c @ ''/'' @ meta) =
      files1 (wc_bucket c @ ''/'' @ meta)"
  proof -
    obtain r wal' files' out' where fb: "flush_batches env (case f of Some f \<Rightarrow> f | None \<Rightarrow> []) c (ce_uuid env g) fin
        (step_by 1 fin (wc_max_frames_per_batch c)) wal (files1, out @ [meta]) = (r, wal', files', out')"
      by (metis prod_cases4)
    then have "files' (wc_bucket c @ ''/'' @ meta) = files1 (wc_bucket c @ ''/'' @ meta)"
      using flush_batches_keeps [OF none] by (metis fst_conv snd_conv)
    then show ?thesis using assms(2-4) init fb by (simp add: flush_range_def)
  qed
  then show ?thesis by (simp add: files1_def meta_def)
qed

end
