(* ===== verification/Spec2Isabelle.thy ===== *)
theory Spec2Isabelle
  imports Replica WriteProxy HranaWs Dump RestoreWal
begin

text \<open>
  \<^bold>\<open>A verification development of sqld.\<close>

  sqld is a server for SQLite databases. A primary runs SQLite, records every page that a
  transaction writes in a replication log and serves that log to replicas; a replica
  injects the frames into its own SQLite, answers reads and sends writes to the primary.
  Clients talk to either over plain HTTP or over the Hrana protocol, on HTTP or on
  WebSockets. A separate library, bottomless, backs the WAL of SQLite up to an
  object store and restores it. The theories follow the source files; a definition has
  the name of the Rust item it translates, where that name is free.

  \<^bold>\<open>The replication log and its readers.\<close>
  \<^item> \<^verbatim>\<open>Frame\<close>: the byte layout of frames (\<^verbatim>\<open>sqld/src/replication/frame.rs\<close>).
  \<^item> \<^verbatim>\<open>ReplicationLog\<close>: the log file (\<^verbatim>\<open>replication/primary/logger.rs\<close>): header, append,
    commit, rollback, opening, compaction. The steps of a log form a transition system;
    every reachable log verifies its own checksums, reads back its frames and keeps them
    over a restart. The locale \<^verbatim>\<open>txn_log\<close> states the contract of a log with a pending
    transaction.
  \<^item> \<^verbatim>\<open>Logger\<close>: the WAL hook that fills the log, and its recovery from a database file.
  \<^item> \<^verbatim>\<open>Snapshot\<close>: snapshot files, compaction and merging (\<^verbatim>\<open>replication/snapshot.rs\<close>): a
    snapshot gives the same database as the log it replaces.
  \<^item> \<^verbatim>\<open>FrameStream\<close>: the polled stream and the replication service
    (\<^verbatim>\<open>replication/primary/frame_stream.rs\<close>, \<^verbatim>\<open>rpc/replication_log.rs\<close>), over the locale
    \<^verbatim>\<open>frame_source\<close> that the logger interprets: no frame is skipped, and a stream sleeps only
    when it has delivered everything.
  \<^item> \<^verbatim>\<open>Replica\<close>: handshake, download loop and injection (\<^verbatim>\<open>replication/replica/\<close>): a replica
    shows a prefix of the log that ends with a transaction.

  \<^bold>\<open>Running statements.\<close>
  \<^item> \<^verbatim>\<open>Auth\<close> (\<^verbatim>\<open>auth.rs\<close>), \<^verbatim>\<open>Errors\<close> (\<^verbatim>\<open>error.rs\<close>), \<^verbatim>\<open>QueryAnalysis\<close> (\<^verbatim>\<open>query_analysis.rs\<close>,
    \<^verbatim>\<open>query.rs\<close>).
  \<^item> \<^verbatim>\<open>ResultBuilder\<close>: the trait of result builders (\<^verbatim>\<open>query_result_builder.rs\<close>) as the locale
    \<^verbatim>\<open>query_result_builder\<close>, which every builder of the program interprets; \<^verbatim>\<open>ExecuteBuilder\<close>
    (\<^verbatim>\<open>rpc/proxy.rs\<close>) and \<^verbatim>\<open>JsonBuilder\<close> (\<^verbatim>\<open>http/result_builder.rs\<close>) are two of them.
  \<^item> \<^verbatim>\<open>Connection\<close> and \<^verbatim>\<open>ProgramRun\<close>: programs of conditional steps on a SQLite connection
    (\<^verbatim>\<open>connection/\<close>): no run trips an assertion of a builder, a batch stops at its first
    failure, and only authorized statements reach SQLite.
  \<^item> \<^verbatim>\<open>WriteProxy\<close>: the connections of a replica and the proxy service of the primary
    (\<^verbatim>\<open>connection/write_proxy.rs\<close>, \<^verbatim>\<open>rpc/proxy.rs\<close>): running remotely refines running on the
    primary, and a client reads its own writes.
  \<^item> \<^verbatim>\<open>Dump\<close>: the SQL dump (\<^verbatim>\<open>connection/dump/exporter.rs\<close>), whose rows read back as SQL.

  \<^bold>\<open>Protocols.\<close>
  \<^item> \<^verbatim>\<open>HttpApi\<close>: the query endpoint (\<^verbatim>\<open>http/\<close>).
  \<^item> \<^verbatim>\<open>HranaStmt\<close> and \<^verbatim>\<open>HranaBatch\<close>: statements, batches, sequences and cursors (\<^verbatim>\<open>hrana/\<close>).
  \<^item> \<^verbatim>\<open>HranaStream\<close> and \<^verbatim>\<open>HranaHttp\<close>: streams with batons and the pipeline (\<^verbatim>\<open>hrana/http/\<close>); the
    table of streams is a transition system with interleaved requests and expirations.
  \<^item> \<^verbatim>\<open>HranaWs\<close>: sessions, jobs and the connection loop (\<^verbatim>\<open>hrana/ws/\<close>), a transition system
    whose invariant is proved by rule induction and whose runs are bounded.

  \<^bold>\<open>Backup.\<close>
  \<^item> \<^verbatim>\<open>Bottomless\<close>: which WAL frames are known, sent and committed (\<^verbatim>\<open>bottomless/src/replicator.rs\<close>).
  \<^item> \<^verbatim>\<open>WalBackup\<close>: WAL files, the copier that makes batches and the reader of a batch
    (\<^verbatim>\<open>wal.rs\<close>, \<^verbatim>\<open>backup.rs\<close>, \<^verbatim>\<open>read.rs\<close>); the names of batches parse back.
  \<^item> \<^verbatim>\<open>Generation\<close>: generations as UUIDs with a reversed time (\<^verbatim>\<open>uuid_utils.rs\<close>).
  \<^item> \<^verbatim>\<open>PageCache\<close>: the pages of a transaction under restore (\<^verbatim>\<open>transaction_cache.rs\<close>), with the
    locale \<^verbatim>\<open>page_store\<close> that the cache interprets for every page size of SQLite.
  \<^item> \<^verbatim>\<open>Restore\<close> and \<^verbatim>\<open>RestoreWal\<close>: the restore (\<^verbatim>\<open>replicator.rs\<close>) and its composition with the
    copier: restoring a backup gives the pages of the committed frames.

  \<^verbatim>\<open>Prelude\<close> holds the integer types, the byte codecs, positioned file access and the locale
  \<^verbatim>\<open>inductive_invariant\<close> of the transition systems; \<^verbatim>\<open>Decimal\<close> holds decimal numerals.

  \<^bold>\<open>Conventions.\<close> A component is a record and its operations return it updated. Errors are
  values of sum types; a panic is a value of its own. Integers have the width of the source
  where they can wrap. Code outside the sources is an argument: SQLite, the SQL parser, the
  CRC, JWT, UUID, gzip, encryption and time libraries, the clock, random bytes, the object
  store, and the outcome of every file operation. What is relied on is a named hypothesis
  with an instance in the witness of the property. On an error of a restore the partly
  written database file is not part of the result.

  \<^bold>\<open>Loops.\<close> Loops that the code bounds are total functions; for the walk back through the
  generations of a backup the bound is the limit of 100 generations that the code has, and for
  the frames of a batch it is the length of the batch. Loops that depend on a service, such as
  those over the pages of a listing, are partial functions whose value is None when they do not
  return, and the properties about them state that they return. No fuel is used to cut a
  loop short.

  \<^bold>\<open>Behaviour that differs from the intention.\<close> Some lemmas state what the code does where it
  is not what it means to do, among them \<^verbatim>\<open>compaction_breaks_checksum\<close>,
  \<^verbatim>\<open>merge_of_one_loses_snapshot\<close>, \<^verbatim>\<open>virtual_table_ends_dump\<close>, \<^verbatim>\<open>row_id_drops_last_column\<close>,
  \<^verbatim>\<open>later_page_lost\<close>, \<^verbatim>\<open>stale_header_in_metadata\<close> and \<^verbatim>\<open>failed_flush_not_retried\<close>.

  \<^bold>\<open>Not modelled.\<close> The C interface to SQLite (\<^verbatim>\<open>sqld-libsql-bindings\<close>, the WAL methods in
  \<^verbatim>\<open>bottomless/src/lib.rs\<close>), which forwards calls between function pointers; the set-up of
  the server, its configuration and its network services; namespaces, whose operations
  move directories and start tasks; the Protobuf encodings, the routing tables and the
  endpoints that pass a request on; the throttling of new connections; the accept loop and
  the socket failures of WebSockets; and of the backup, its options, the upload task, the
  upload of the main database file and the deletion of generations.
\<close>

end
